(* ===== verification/Prelude.thy ===== *)
theory Prelude
  imports Main "HOL-Library.Word"
begin

text \<open>
  Shared vocabulary of the development: bytes, C integers, the collections of simplification
  rules that the component theories extend, and generic lemmas on lists.

  C++ \<open>int\<close> values are HOL integers; a conversion that can change a value, such as
  \<open>static_cast<int>(len)\<close> of a \<open>size_t\<close>, is the function \<open>to_int32\<close>
  below, which wraps as the hardware does. Byte buffers are lists of 8-bit words.
\<close>

unbundle bit_operations_syntax

named_theorems os_simps \<open>how the call history and errno change\<close>
named_theorems frame_simps \<open>fields that an operation leaves alone\<close>

type_synonym byte = "8 word"

definition int_max :: int where
  [simp]: "int_max = 2147483647"

text \<open>\<open>static_cast<int>\<close> of a wider integer: two's complement, 32 bits.\<close>

definition to_int32 :: "int \<Rightarrow> int" where
  "to_int32 x = (x + 2147483648) mod 4294967296 - 2147483648"

lemma to_int32_id [simp]: "- 2147483648 \<le> x \<Longrightarrow> x \<le> 2147483647 \<Longrightarrow> to_int32 x = x"
  by (simp add: to_int32_def)

lemma to_int32_range: "- 2147483648 \<le> to_int32 x \<and> to_int32 x \<le> 2147483647"
  unfolding to_int32_def by (simp add: pos_mod_bound algebra_simps)

text \<open>Replacing the front of a buffer, as \<open>recv\<close> and \<open>memcpy\<close> do.\<close>

definition overwrite :: "'a list \<Rightarrow> 'a list \<Rightarrow> 'a list" where
  "overwrite new buf = new @ drop (length new) buf"

lemma length_overwrite [simp]: "length new \<le> length buf \<Longrightarrow> length (overwrite new buf) = length buf"
  by (simp add: overwrite_def)

lemma take_overwrite [simp]: "take (length new) (overwrite new buf) = new"
  by (simp add: overwrite_def)

lemma drop_overwrite [simp]: "length new \<le> k \<Longrightarrow> drop k (overwrite new buf) = drop k buf"
  by (simp add: overwrite_def)

lemma overwrite_Nil [simp]: "overwrite [] buf = buf"
  by (simp add: overwrite_def)

lemma overwrite_take_drop:
  assumes "k \<le> length buf"
  shows "take k buf @ overwrite new (drop k buf) = overwrite (take k buf @ new) buf"
  using assms by (simp add: overwrite_def add.commute)

lemma take_add_drop: "take (a + b) (drop c xs) = take a (drop c xs) @ take b (drop (c + a) xs)"
  by (simp add: take_add add.commute)

lemma drop_append_le: "k \<le> length xs \<Longrightarrow> drop k (xs @ ys) = drop k xs @ ys"
  by simp

text \<open>Deleting one position of a list, as \<open>std::vector::erase\<close> does.\<close>

definition erase_at :: "nat \<Rightarrow> 'a list \<Rightarrow> 'a list" where
  "erase_at i xs = take i xs @ drop (Suc i) xs"

lemma length_erase_at [simp]: "i < length xs \<Longrightarrow> length (erase_at i xs) = length xs - 1"
  by (simp add: erase_at_def)

lemma set_erase_at_subset: "set (erase_at i xs) \<subseteq> set xs"
  unfolding erase_at_def using set_take_subset set_drop_subset by fastforce

lemma split_at: "i < length xs \<Longrightarrow> xs = take i xs @ xs ! i # drop (Suc i) xs"
  by (simp add: id_take_nth_drop)

lemma distinct_erase_at: "distinct xs \<Longrightarrow> distinct (erase_at i xs)"
proof (cases "i < length xs")
  case True
  moreover assume "distinct xs"
  ultimately have "distinct (take i xs @ xs ! i # drop (Suc i) xs)"
    using split_at by metis
  then show ?thesis by (auto simp: erase_at_def)
next
  case False
  moreover assume "distinct xs"
  ultimately show ?thesis by (simp add: erase_at_def)
qed

lemma set_erase_at:
  assumes "distinct xs" "i < length xs"
  shows "set (erase_at i xs) = set xs - {xs ! i}"
proof -
  have d: "distinct (take i xs @ xs ! i # drop (Suc i) xs)"
    using assms split_at by metis
  have "set xs = set (take i xs @ xs ! i # drop (Suc i) xs)"
    using assms(2) split_at by metis
  with d show ?thesis by (auto simp: erase_at_def)
qed

end
