(* ===== verification/Native_Error.thy ===== *)
theory Native_Error
  imports Prelude
begin

text \<open>
  The error vocabulary: the public codes of \<open>include/aeon.hpp\<close>, the native error
  numbers of the Linux build, and \<open>translate_native_error\<close> of \<open>src/aeon.cpp\<close>, the
  one function through which native errors reach an object's \<open>error_code\<close>.

  The numbers of the \<open>E...\<close> constants are those of the Linux ABI (asm-generic); there
  \<open>EWOULDBLOCK = EAGAIN\<close> and \<open>ENOTSUP = EOPNOTSUPP\<close>, the aliases because of which
  the source uses an if-chain and not a switch.
\<close>

section \<open>Public error codes and states\<close>

definition invalid_socket :: int where [simp]: "invalid_socket = - 1"
definition socket_error :: int where [simp]: "socket_error = - 1"
definition err_none :: int where [simp]: "err_none = 0"
definition err_no_host :: int where [simp]: "err_no_host = - 0x010001"
definition err_no_socket :: int where [simp]: "err_no_socket = - 0x010002"
definition err_invalid_argument :: int where [simp]: "err_invalid_argument = - 0x010003"
definition err_timeout :: int where [simp]: "err_timeout = - 0x010004"
definition err_would_block :: int where [simp]: "err_would_block = - 0x010005"
definition err_interrupted :: int where [simp]: "err_interrupted = - 0x010006"
definition err_connection_refused :: int where [simp]: "err_connection_refused = - 0x010007"
definition err_connection_reset :: int where [simp]: "err_connection_reset = - 0x010008"
definition err_connection_aborted :: int where [simp]: "err_connection_aborted = - 0x010009"
definition err_not_connected :: int where [simp]: "err_not_connected = - 0x01000A"
definition err_address_in_use :: int where [simp]: "err_address_in_use = - 0x01000B"
definition err_network_unreachable :: int where [simp]: "err_network_unreachable = - 0x01000C"
definition err_host_unreachable :: int where [simp]: "err_host_unreachable = - 0x01000D"
definition err_permission_denied :: int where [simp]: "err_permission_denied = - 0x01000E"
definition err_message_too_large :: int where [simp]: "err_message_too_large = - 0x01000F"
definition err_address_not_available :: int where [simp]: "err_address_not_available = - 0x010010"
definition err_already_connected :: int where [simp]: "err_already_connected = - 0x010011"
definition err_in_progress :: int where [simp]: "err_in_progress = - 0x010012"
definition err_broken_pipe :: int where [simp]: "err_broken_pipe = - 0x010013"
definition err_network_down :: int where [simp]: "err_network_down = - 0x010014"
definition err_network_reset :: int where [simp]: "err_network_reset = - 0x010015"
definition err_no_buffers :: int where [simp]: "err_no_buffers = - 0x010016"
definition err_resource_limit :: int where [simp]: "err_resource_limit = - 0x010017"
definition err_unsupported :: int where [simp]: "err_unsupported = - 0x010018"
definition err_protocol :: int where [simp]: "err_protocol = - 0x010019"
definition err_system :: int where [simp]: "err_system = - 0x01FFFF"
definition state_resolve :: int where [simp]: "state_resolve = 1"
definition state_create :: int where [simp]: "state_create = 2"
definition state_accept :: int where [simp]: "state_accept = 3"
definition state_connect :: int where [simp]: "state_connect = 4"
definition state_bind :: int where [simp]: "state_bind = 5"

definition is_valid_port :: "int \<Rightarrow> bool" where
  "is_valid_port p \<longleftrightarrow> 0 \<le> p \<and> p \<le> 65535"

section \<open>Native error numbers (Linux)\<close>

definition EPERM :: int where [simp]: "EPERM = 1"
definition EINTR :: int where [simp]: "EINTR = 4"
definition EBADF :: int where [simp]: "EBADF = 9"
definition EAGAIN :: int where [simp]: "EAGAIN = 11"
definition EWOULDBLOCK :: int where [simp]: "EWOULDBLOCK = 11"
definition EACCES :: int where [simp]: "EACCES = 13"
definition EINVAL :: int where [simp]: "EINVAL = 22"
definition ENFILE :: int where [simp]: "ENFILE = 23"
definition EMFILE :: int where [simp]: "EMFILE = 24"
definition EPIPE :: int where [simp]: "EPIPE = 32"
definition EPROTO :: int where [simp]: "EPROTO = 71"
definition ENOTSOCK :: int where [simp]: "ENOTSOCK = 88"
definition EMSGSIZE :: int where [simp]: "EMSGSIZE = 90"
definition EPROTONOSUPPORT :: int where [simp]: "EPROTONOSUPPORT = 93"
definition ENOTSUP :: int where [simp]: "ENOTSUP = 95"
definition EOPNOTSUPP :: int where [simp]: "EOPNOTSUPP = 95"
definition EAFNOSUPPORT :: int where [simp]: "EAFNOSUPPORT = 97"
definition EADDRINUSE :: int where [simp]: "EADDRINUSE = 98"
definition EADDRNOTAVAIL :: int where [simp]: "EADDRNOTAVAIL = 99"
definition ENETDOWN :: int where [simp]: "ENETDOWN = 100"
definition ENETUNREACH :: int where [simp]: "ENETUNREACH = 101"
definition ENETRESET :: int where [simp]: "ENETRESET = 102"
definition ECONNABORTED :: int where [simp]: "ECONNABORTED = 103"
definition ECONNRESET :: int where [simp]: "ECONNRESET = 104"
definition ENOBUFS :: int where [simp]: "ENOBUFS = 105"
definition EISCONN :: int where [simp]: "EISCONN = 106"
definition ENOTCONN :: int where [simp]: "ENOTCONN = 107"
definition ETIMEDOUT :: int where [simp]: "ETIMEDOUT = 110"
definition ECONNREFUSED :: int where [simp]: "ECONNREFUSED = 111"
definition EHOSTUNREACH :: int where [simp]: "EHOSTUNREACH = 113"
definition EALREADY :: int where [simp]: "EALREADY = 114"
definition EINPROGRESS :: int where [simp]: "EINPROGRESS = 115"

section \<open>Translation\<close>

definition translate_native_error :: "int \<Rightarrow> int" where
  "translate_native_error e =
    (if e = 0 then err_none
     else if e = EBADF \<or> e = ENOTSOCK then err_no_socket
     else if e = EINVAL then err_invalid_argument
     else if e = ETIMEDOUT then err_timeout
     else if e = EAGAIN \<or> e = EWOULDBLOCK then err_would_block
     else if e = EINTR then err_interrupted
     else if e = ECONNREFUSED then err_connection_refused
     else if e = ECONNRESET then err_connection_reset
     else if e = ECONNABORTED then err_connection_aborted
     else if e = ENOTCONN then err_not_connected
     else if e = EADDRINUSE then err_address_in_use
     else if e = ENETUNREACH then err_network_unreachable
     else if e = EHOSTUNREACH then err_host_unreachable
     else if e = EACCES \<or> e = EPERM then err_permission_denied
     else if e = EMSGSIZE then err_message_too_large
     else if e = EADDRNOTAVAIL then err_address_not_available
     else if e = EISCONN then err_already_connected
     else if e = EINPROGRESS \<or> e = EALREADY then err_in_progress
     else if e = EPIPE then err_broken_pipe
     else if e = ENETDOWN then err_network_down
     else if e = ENETRESET then err_network_reset
     else if e = ENOBUFS then err_no_buffers
     else if e = EMFILE \<or> e = ENFILE then err_resource_limit
     else if e = ENOTSUP \<or> e = EOPNOTSUPP \<or> e = EPROTONOSUPPORT \<or> e = EAFNOSUPPORT
       then err_unsupported
     else if e = EPROTO then err_protocol
     else err_system)"

definition invalid_descriptor_error :: int where
  "invalid_descriptor_error = EBADF"

definition would_block_error :: "int \<Rightarrow> bool" where
  "would_block_error e \<longleftrightarrow> e = EAGAIN \<or> e = EWOULDBLOCK \<or> e = EINTR"

text \<open>The codes the library publishes for native failures.\<close>

definition public_error :: "int \<Rightarrow> bool" where
  "public_error c \<longleftrightarrow> (- 0x010019 \<le> c \<and> c \<le> - 0x010002) \<or> c = err_system"

lemma translate_zero [simp]: "translate_native_error 0 = 0"
  by (simp add: translate_native_error_def)

lemma translate_public: "e \<noteq> 0 \<Longrightarrow> public_error (translate_native_error e)"
  unfolding translate_native_error_def public_error_def by (simp split del: if_split) auto

lemma public_error_neg: "public_error c \<Longrightarrow> c < -1"
  by (auto simp: public_error_def)

lemma translate_neg: "e \<noteq> 0 \<Longrightarrow> translate_native_error e < -1"
  by (rule public_error_neg [OF translate_public])

lemma translate_eq_0_iff [simp]: "translate_native_error e = 0 \<longleftrightarrow> e = 0"
  using translate_neg [of e] by (cases "e = 0") auto

text \<open>
  A caller that only sees the public code can still tell a retry condition: the codes for
  would-block and interrupted come from no other native error.
\<close>

lemma translate_would_block_iff:
  "would_block_error e \<longleftrightarrow>
   translate_native_error e = err_would_block \<or> translate_native_error e = err_interrupted"
  by (auto simp: translate_native_error_def would_block_error_def)

section \<open>Properties\<close>

text \<open>
  C39. Every native error number becomes one of the published codes, \<open>0\<close> and only
  \<open>0\<close> becomes \<open>err_none\<close>, and the two retry conditions, would-block and
  interrupted, can still be told from every other error by the public code alone.
\<close>

theorem translate_native_error_classifies:
  "(translate_native_error e = err_none \<longleftrightarrow> e = 0) \<and>
   (e = 0 \<or> public_error (translate_native_error e)) \<and>
   (would_block_error e \<longleftrightarrow>
      translate_native_error e = err_would_block \<or> translate_native_error e = err_interrupted)"
  using translate_public translate_would_block_iff by auto

end
