(* ===== verification/Posix.thy ===== *)
theory Posix
  imports Native_Error
begin

text \<open>
  The boundary of the program. Sockets, the clock, name resolution and OpenSSL are code outside
  the repository: every call to them is a value of \<open>ext_call\<close>, and the environment is a
  parameter \<open>os\<close> whose component \<open>os_call\<close> answers a call from the history
  of all calls made so far. Any deterministic or adversarial environment is such a function, so
  a theorem that holds for every \<open>os\<close> holds whatever the network does. The state a
  component threads is the \<open>world\<close>: that history (newest call first) and the thread's
  \<open>errno\<close>. Which descriptors are open is a function of the history, \<open>open_fds\<close>.

  What the code relies on from the environment is stated as named predicates on \<open>os\<close>
  (\<open>fresh_fds\<close>, \<open>io_bounded\<close>, \<open>errno_set\<close>), each the documented
  behaviour of the POSIX call.
\<close>

section \<open>Socket addresses\<close>

definition AF_UNIX :: int where [simp]: "AF_UNIX = 1"
definition AF_INET :: int where [simp]: "AF_INET = 2"
definition AF_INET6 :: int where [simp]: "AF_INET6 = 10"
definition SOCK_STREAM :: int where [simp]: "SOCK_STREAM = 1"
definition SOCK_DGRAM :: int where [simp]: "SOCK_DGRAM = 2"

text \<open>
  The bytes of a \<open>sockaddr_storage\<close> that the code reads: family at offset 0, port at
  offset 2 (the same offset in \<open>sockaddr_in\<close> and \<open>sockaddr_in6\<close>), and the
  24 bytes from offset 4 on, which both layouts share: \<open>sin_addr\<close> is the first four,
  \<open>sin6_flowinfo\<close> the first four, \<open>sin6_addr\<close> the next sixteen and
  \<open>sin6_scope_id\<close> the last four.
\<close>

record sockaddr_storage =
  ss_family :: int
  sin_port :: "16 word"
  sa_data :: "byte list"

definition zero_sockaddr :: sockaddr_storage where
  "zero_sockaddr = \<lparr>ss_family = 0, sin_port = 0, sa_data = replicate 24 0\<rparr>"

definition sin_addr :: "sockaddr_storage \<Rightarrow> byte list" where
  "sin_addr a = take 4 (sa_data a)"

definition sin6_addr :: "sockaddr_storage \<Rightarrow> byte list" where
  "sin6_addr a = take 16 (drop 4 (sa_data a))"

definition sin6_scope_id :: "sockaddr_storage \<Rightarrow> byte list" where
  "sin6_scope_id a = take 4 (drop 20 (sa_data a))"

definition set_sin_addr :: "byte list \<Rightarrow> sockaddr_storage \<Rightarrow> sockaddr_storage" where
  "set_sin_addr b a = a\<lparr>sa_data := take 4 b @ drop 4 (sa_data a)\<rparr>"

definition set_sin6_addr :: "byte list \<Rightarrow> sockaddr_storage \<Rightarrow> sockaddr_storage" where
  "set_sin6_addr b a = a\<lparr>sa_data := take 4 (sa_data a) @ take 16 b @ drop 20 (sa_data a)\<rparr>"

definition sockaddr_wf :: "sockaddr_storage \<Rightarrow> bool" where
  "sockaddr_wf a \<longleftrightarrow> length (sa_data a) = 24"

lemma zero_sockaddr_wf [simp]: "sockaddr_wf zero_sockaddr"
  by (simp add: sockaddr_wf_def zero_sockaddr_def)

text \<open>
  \<open>htons\<close> and \<open>ntohs\<close> on a little-endian machine swap the two bytes.
\<close>

definition htons :: "16 word \<Rightarrow> 16 word" where
  "htons p = push_bit 8 p OR drop_bit 8 p"

definition ntohs :: "16 word \<Rightarrow> 16 word" where
  "ntohs p = push_bit 8 p OR drop_bit 8 p"

lemma bit_htons: "i < 16 \<Longrightarrow> bit (htons p) i = bit p (if i < 8 then i + 8 else i - 8)"
proof -
  assume i: "i < 16"
  have hi: "\<not> bit p (i + 8)" if "8 \<le> i"
    using that bit_imp_le_length [of p "i + 8"] by auto
  with i show ?thesis
    by (cases "i < 8") (auto simp: htons_def bit_or_iff bit_push_bit_iff bit_drop_bit_eq add.commute)
qed

lemma ntohs_eq_htons: "ntohs p = htons p"
  by (simp add: ntohs_def htons_def)

lemma ntohs_htons [simp]: "ntohs (htons p) = p"
proof (rule bit_word_eqI)
  fix i assume "i < LENGTH(16)"
  then have i: "i < 16" by simp
  then have "8 \<le> i \<Longrightarrow> i - 8 < 8" by arith
  with i show "bit (ntohs (htons p)) i = bit p i"
    by (cases "i < 8") (simp_all add: ntohs_eq_htons bit_htons)
qed

lemma htons_ntohs [simp]: "htons (ntohs p) = p"
  by (metis ntohs_eq_htons ntohs_htons)

lemma htons_inject [simp]: "htons p = htons q \<longleftrightarrow> p = q"
  by (metis ntohs_htons)

lemma ntohs_inject [simp]: "ntohs p = ntohs q \<longleftrightarrow> p = q"
  by (simp add: ntohs_eq_htons)

record addrinfo =
  ai_family :: int
  ai_addr :: "sockaddr_storage option"
  ai_addrlen :: int

section \<open>Calls that leave the program\<close>

datatype sockopt =
    Tcp_nodelay int
  | So_reuseaddr int
  | So_linger int int
  | Ipv6_v6only int

datatype event =
    Ev_data "byte list"
  | Ev_connect
  | Ev_close
  | Ev_listen
  | Ev_error int
  | Ev_drain
  | Ev_write "byte list" int int
  | Ev_datagram "byte list" sockaddr_storage

text \<open>Calls that create or release a descriptor.\<close>

datatype fd_call =
    Socket int int
  | Accept int
  | Close int

datatype io_call =
    Connect int sockaddr_storage
  | Bind int sockaddr_storage
  | Listen int
  | Getpeername int
  | Getfl int
  | Setfl int int
  | Setsockopt int sockopt
  | So_error int
  | Select_read int int
  | Select_write int int
  | Send int "byte list" int
  | Send_overrun int int
  | Recv int int
  | Sendto int "byte list" sockaddr_storage
  | Recvfrom int int
  | Poll "(int \<times> bool) list" int
  | Getaddrinfo string "int option" int bool
  | Now
  | Sleep_ms int

text \<open>OpenSSL, on the handle of a context or of a session.\<close>

datatype tls_call =
    Ctx_new bool
  | Ctx_free int
  | Ctx_up_ref int
  | Ctx_set_verify int bool
  | Ctx_default_paths int
  | Ctx_load_ca int string
  | Ctx_use_cert int string
  | Ctx_use_chain int string
  | Ctx_use_key int string
  | Ctx_check_key int
  | Ssl_new int
  | Ssl_free int
  | Ssl_set_fd int int
  | Ssl_set_mode int
  | Ssl_set_accept_state int
  | Ssl_set_connect_state int
  | Ssl_set_verify int bool bool
  | Ssl_set_hostflags int
  | Ssl_set_ip int string
  | Ssl_set_host int string
  | Ssl_set_sni int string
  | Ssl_do_handshake int
  | Ssl_connect int
  | Ssl_accept int
  | Ssl_read int int
  | Ssl_write int "byte list"
  | Ssl_write_overrun int int
  | Ssl_shutdown int
  | Ssl_get_error int int
  | Ssl_get_verify_result int
  | Ssl_get_shutdown int
  | Ssl_pending int
  | Ssl_is_init_finished int
  | Err_get_error
  | Err_clear_error

text \<open>
  \<open>Cb\<close> and \<open>Cb_set\<close> record a user handler run by the socket at an address, or by a
  socket set on behalf of that socket.
\<close>

datatype ext_call =
    Fd fd_call
  | Io io_call
  | Tls tls_call
  | Cb nat event
  | Cb_set nat event

record call_result =
  ret :: int
  err :: int
  val :: int
  got :: "byte list"
  from_addr :: sockaddr_storage
  infos :: "addrinfo list"
  revents :: "int list"

definition result0 :: call_result where
  "result0 = \<lparr>ret = 0, err = 0, val = 0, got = [], from_addr = zero_sockaddr, infos = [],
     revents = []\<rparr>"

type_synonym history = "(ext_call \<times> call_result) list"

text \<open>
  \<open>pton\<close> and \<open>ntop\<close> are \<open>inet_pton\<close> and \<open>inet_ntop\<close> for a given
  family.
\<close>

record os =
  os_call :: "history \<Rightarrow> ext_call \<Rightarrow> call_result"
  pton :: "int \<Rightarrow> string \<Rightarrow> byte list option"
  ntop :: "int \<Rightarrow> byte list \<Rightarrow> string option"

record world =
  trace :: history
  errno :: int

definition sys :: "os \<Rightarrow> ext_call \<Rightarrow> world \<Rightarrow> call_result \<times> world" where
  "sys os c w =
    (let r = os_call os (trace w) c
     in (r, w\<lparr>trace := (c, r) # trace w, errno := if ret r < 0 then err r else errno w\<rparr>))"

lemma fst_sys [os_simps]: "fst (sys os c w) = os_call os (trace w) c"
  by (simp add: sys_def Let_def)

lemma trace_sys [os_simps]: "trace (snd (sys os c w)) = (c, os_call os (trace w) c) # trace w"
  by (simp add: sys_def Let_def)

lemma errno_sys [os_simps]:
  "errno (snd (sys os c w)) =
    (if ret (os_call os (trace w) c) < 0 then err (os_call os (trace w) c) else errno w)"
  by (simp add: sys_def Let_def)

text \<open>
  The call made by \<open>send(fd, data, count, flags)\<close> when \<open>data\<close> points to
  the bytes \<open>bs\<close>: a count outside the buffer reads past its end, which is a call of its
  own (a negative \<open>int\<close> converts to a huge \<open>size_t\<close>).
\<close>

definition send_call :: "int \<Rightarrow> byte list \<Rightarrow> int \<Rightarrow> int \<Rightarrow> io_call" where
  "send_call fd bs count flags =
    (if 0 \<le> count \<and> count \<le> int (length bs) then Send fd (take (nat count) bs) flags
     else Send_overrun fd count)"

definition ssl_write_call :: "int \<Rightarrow> byte list \<Rightarrow> int \<Rightarrow> tls_call" where
  "ssl_write_call ssl bs count =
    (if 0 \<le> count \<and> count \<le> int (length bs) then Ssl_write ssl (take (nat count) bs)
     else Ssl_write_overrun ssl count)"

lemma sys_trace: "sys os c w = (r, w') \<Longrightarrow> trace w' = (c, r) # trace w"
  by (auto simp: sys_def Let_def)

lemma sys_answer: "sys os c w = (r, w') \<Longrightarrow> r = os_call os (trace w) c"
  by (auto simp: sys_def Let_def)

section \<open>Descriptors\<close>

text \<open>
  The descriptors the program holds after a history: those a \<open>socket\<close> or
  \<open>accept\<close> call returned and that no later \<open>close\<close> released. (On Linux
  \<open>close\<close> releases the descriptor even when it reports an error.)
\<close>

fun open_fds :: "history \<Rightarrow> int set" where
  "open_fds [] = {}"
| "open_fds ((Fd (Socket f t), r) # h) =
     (if 0 \<le> ret r then insert (ret r) (open_fds h) else open_fds h)"
| "open_fds ((Fd (Accept fd), r) # h) =
     (if 0 \<le> ret r then insert (ret r) (open_fds h) else open_fds h)"
| "open_fds ((Fd (Close fd), r) # h) = open_fds h - {fd}"
| "open_fds (_ # h) = open_fds h"

text \<open>No descriptor was ever closed that was not open: no double close, no stray close.\<close>

fun closes_ok :: "history \<Rightarrow> bool" where
  "closes_ok [] = True"
| "closes_ok ((Fd (Close fd), r) # h) = (fd \<in> open_fds h \<and> closes_ok h)"
| "closes_ok (_ # h) = closes_ok h"

text \<open>The file status flags last stored for a descriptor since it was created.\<close>

fun fl_state :: "history \<Rightarrow> int \<Rightarrow> int option" where
  "fl_state [] fd = None"
| "fl_state ((Io c, r) # h) fd =
     (case c of
        Setfl fd' f \<Rightarrow> if fd' = fd \<and> ret r = 0 then Some f else fl_state h fd
      | _ \<Rightarrow> fl_state h fd)"
| "fl_state ((Fd (Socket f t), r) # h) fd = (if ret r = fd then None else fl_state h fd)"
| "fl_state ((Fd (Accept l), r) # h) fd = (if ret r = fd then None else fl_state h fd)"
| "fl_state (_ # h) fd = fl_state h fd"

section \<open>What the code relies on\<close>

text \<open>
  \<open>socket\<close> and \<open>accept\<close> return \<open>-1\<close> or a nonnegative descriptor that
  is not open.
\<close>

definition fresh_fds :: "os \<Rightarrow> bool" where
  "fresh_fds os \<longleftrightarrow>
    (\<forall>h f t. ret (os_call os h (Fd (Socket f t))) = -1 \<or>
       0 \<le> ret (os_call os h (Fd (Socket f t))) \<and> ret (os_call os h (Fd (Socket f t))) \<notin> open_fds h) \<and>
    (\<forall>h l. ret (os_call os h (Fd (Accept l))) = -1 \<or>
       0 \<le> ret (os_call os h (Fd (Accept l))) \<and> ret (os_call os h (Fd (Accept l))) \<notin> open_fds h)"

lemma fresh_socket:
  "fresh_fds os \<Longrightarrow> sys os (Fd (Socket f t)) w = (r, w') \<Longrightarrow>
   ret r = -1 \<or> 0 \<le> ret r \<and> ret r \<notin> open_fds (trace w)"
  unfolding fresh_fds_def sys_def Let_def by blast

lemma fresh_accept:
  "fresh_fds os \<Longrightarrow> sys os (Fd (Accept l)) w = (r, w') \<Longrightarrow>
   ret r = -1 \<or> 0 \<le> ret r \<and> ret r \<notin> open_fds (trace w)"
  unfolding fresh_fds_def sys_def Let_def by blast

text \<open>
  \<open>recv\<close>, \<open>recvfrom\<close>, \<open>send\<close>, \<open>sendto\<close>, \<open>SSL_read\<close> and
  \<open>SSL_write\<close> transfer at most what was asked for, and a receive delivers exactly the
  bytes it counts.
\<close>

definition receive_capacity :: "ext_call \<Rightarrow> int option" where
  "receive_capacity c =
    (case c of
       Io i \<Rightarrow> (case i of Recv fd n \<Rightarrow> Some n | Recvfrom fd n \<Rightarrow> Some n | _ \<Rightarrow> None)
     | Tls t \<Rightarrow> (case t of Ssl_read ssl n \<Rightarrow> Some n | _ \<Rightarrow> None)
     | _ \<Rightarrow> None)"

definition send_payload :: "ext_call \<Rightarrow> byte list option" where
  "send_payload c =
    (case c of
       Io i \<Rightarrow> (case i of Send fd b f \<Rightarrow> Some b | Sendto fd b a \<Rightarrow> Some b | _ \<Rightarrow> None)
     | Tls t \<Rightarrow> (case t of Ssl_write ssl b \<Rightarrow> Some b | _ \<Rightarrow> None)
     | _ \<Rightarrow> None)"

definition recv_bounded :: "os \<Rightarrow> bool" where
  "recv_bounded os \<longleftrightarrow>
    (\<forall>h c n. receive_capacity c = Some n \<and> 0 < n \<longrightarrow>
       ret (os_call os h c) \<le> n \<and>
       length (got (os_call os h c)) = nat (ret (os_call os h c)))"

definition send_bounded :: "os \<Rightarrow> bool" where
  "send_bounded os \<longleftrightarrow>
    (\<forall>h c b. send_payload c = Some b \<longrightarrow> ret (os_call os h c) \<le> int (length b))"

lemma recv_boundedD:
  assumes "recv_bounded os" "receive_capacity c = Some n" "0 < n"
  shows "ret (os_call os h c) \<le> n"
    and "length (got (os_call os h c)) = nat (ret (os_call os h c))"
  using assms unfolding recv_bounded_def by blast+

lemma send_boundedD:
  "send_bounded os \<Longrightarrow> send_payload c = Some b \<Longrightarrow> ret (os_call os h c) \<le> int (length b)"
  unfolding send_bounded_def by blast

lemma receive_capacity_simps [simp]:
  "receive_capacity (Io (Recv fd n)) = Some n"
  "receive_capacity (Io (Recvfrom fd n)) = Some n"
  "receive_capacity (Tls (Ssl_read ssl n)) = Some n"
  by (simp_all add: receive_capacity_def)

lemma send_payload_simps [simp]:
  "send_payload (Io (Send fd b f)) = Some b"
  "send_payload (Io (Sendto fd b a)) = Some b"
  "send_payload (Tls (Ssl_write ssl b)) = Some b"
  by (simp_all add: send_payload_def)

text \<open>
  The bytes the program has received, and the bytes it has handed to the transport, in order.
\<close>

fun inbound :: "history \<Rightarrow> byte list" where
  "inbound [] = []"
| "inbound ((c, r) # h) = inbound h @ (if receive_capacity c = None then [] else got r)"

fun outbound :: "history \<Rightarrow> byte list" where
  "outbound [] = []"
| "outbound ((c, r) # h) =
     outbound h @ (case send_payload c of None \<Rightarrow> [] | Some b \<Rightarrow> take (nat (ret r)) b)"

lemma other_calls_carry_no_data [simp]:
  "receive_capacity (Fd f) = None" "send_payload (Fd f) = None"
  "receive_capacity (Cb a e) = None" "send_payload (Cb a e) = None"
  "receive_capacity (Cb_set a e) = None" "send_payload (Cb_set a e) = None"
  "receive_capacity (Io (Select_read fd t)) = None" "send_payload (Io (Select_read fd t)) = None"
  "receive_capacity (Io (Select_write fd t)) = None" "send_payload (Io (Select_write fd t)) = None"
  "receive_capacity (Io (Send fd b g)) = None" "receive_capacity (Io (Sendto fd b a2)) = None"
  "send_payload (Io (Recv fd n)) = None" "send_payload (Io (Recvfrom fd n)) = None"
  "send_payload (Tls (Ssl_read ssl n)) = None" "receive_capacity (Tls (Ssl_write ssl b)) = None"
  "receive_capacity (Tls (Ssl_write_overrun ssl k)) = None" "send_payload (Tls (Ssl_write_overrun ssl k)) = None"
  "receive_capacity (Tls (Ssl_get_error ssl k)) = None" "send_payload (Tls (Ssl_get_error ssl k)) = None"
  "receive_capacity (Tls (Ssl_shutdown ssl)) = None" "send_payload (Tls (Ssl_shutdown ssl)) = None"
  "receive_capacity (Tls (Ssl_get_shutdown ssl)) = None" "send_payload (Tls (Ssl_get_shutdown ssl)) = None"
  "receive_capacity (Tls (Ssl_do_handshake ssl)) = None" "send_payload (Tls (Ssl_do_handshake ssl)) = None"
  "receive_capacity (Tls (Ssl_get_verify_result ssl)) = None"
  "send_payload (Tls (Ssl_get_verify_result ssl)) = None"
  "receive_capacity (Tls Err_clear_error) = None" "send_payload (Tls Err_clear_error) = None"
  "receive_capacity (Io Now) = None" "send_payload (Io Now) = None"
  by (simp_all add: receive_capacity_def send_payload_def)

text \<open>
  A call that fails leaves a positive error number in \<open>errno\<close>, and the calls that only
  report success return \<open>0\<close> or \<open>-1\<close>.
\<close>

definition status_call :: "ext_call \<Rightarrow> bool" where
  "status_call c =
    (case c of
       Fd f \<Rightarrow> (case f of Close fd \<Rightarrow> True | _ \<Rightarrow> False)
     | Io i \<Rightarrow> (case i of Connect fd a \<Rightarrow> True | Bind fd a \<Rightarrow> True | Listen fd \<Rightarrow> True
          | Setfl fd f \<Rightarrow> True | Setsockopt fd opt \<Rightarrow> True | So_error fd \<Rightarrow> True | _ \<Rightarrow> False)
     | _ \<Rightarrow> False)"

definition errno_set :: "os \<Rightarrow> bool" where
  "errno_set os \<longleftrightarrow>
    (\<forall>h c. ret (os_call os h c) < 0 \<longrightarrow> 0 < err (os_call os h c)) \<and>
    (\<forall>h c. status_call c \<longrightarrow> ret (os_call os h c) = 0 \<or> ret (os_call os h c) = -1)"

lemma errno_setD: "errno_set os \<Longrightarrow> ret (os_call os h c) < 0 \<Longrightarrow> 0 < err (os_call os h c)"
  unfolding errno_set_def by blast

lemma errno_set_status:
  "errno_set os \<Longrightarrow> status_call c \<Longrightarrow> ret (os_call os h c) \<noteq> 0 \<Longrightarrow>
   ret (os_call os h c) < 0 \<and> 0 < err (os_call os h c)"
  unfolding errno_set_def by (metis neg_less_0_iff_less zero_less_one)

lemma status_call_simps [simp]:
  "status_call (Fd (Close fd))" "status_call (Io (Connect fd a))" "status_call (Io (Bind fd a))"
  "status_call (Io (Listen fd))" "status_call (Io (Setfl fd f))"
  "status_call (Io (Setsockopt fd opt))" "status_call (Io (So_error fd))"
  by (simp_all add: status_call_def)

lemma sys_failed_errno:
  "sys os c w = (r, w') \<Longrightarrow> errno_set os \<Longrightarrow> ret r < 0 \<Longrightarrow> errno w' \<noteq> 0"
  using errno_setD [of os "trace w" c] by (auto simp: sys_def Let_def)

lemma sys_status_errno:
  "sys os c w = (r, w') \<Longrightarrow> errno_set os \<Longrightarrow> status_call c \<Longrightarrow> ret r \<noteq> 0 \<Longrightarrow> errno w' \<noteq> 0"
  using errno_set_status [of os c "trace w"] by (auto simp: sys_def Let_def)

section \<open>Ownership accounting\<close>

text \<open>
  \<open>fd_safe fd h fd' h'\<close>: an operation that started with an object holding \<open>fd\<close>
  (nothing when negative) after history \<open>h\<close>, and ended with the object holding
  \<open>fd'\<close> after \<open>h'\<close>, closed only what it owned, leaked nothing, and touched no
  descriptor of anyone else.
\<close>

definition held :: "int \<Rightarrow> int set" where
  "held fd = (if 0 \<le> fd then {fd} else {})"

definition fd_safe :: "int \<Rightarrow> history \<Rightarrow> int \<Rightarrow> history \<Rightarrow> bool" where
  "fd_safe fd h fd' h' \<longleftrightarrow>
    (held fd \<subseteq> open_fds h \<longrightarrow>
      held fd' \<subseteq> open_fds h' \<and> open_fds h' - held fd' = open_fds h - held fd \<and>
      (closes_ok h \<longrightarrow> closes_ok h'))"

lemma held_neg [simp]: "fd < 0 \<Longrightarrow> held fd = {}"
  by (simp add: held_def)

lemma held_nonneg [simp]: "0 \<le> fd \<Longrightarrow> held fd = {fd}"
  by (simp add: held_def)

lemma fd_safe_refl [simp, intro]: "fd_safe fd h fd h"
  by (simp add: fd_safe_def)

lemma fd_safe_trans [trans]:
  "fd_safe a h b k \<Longrightarrow> fd_safe b k c l \<Longrightarrow> fd_safe a h c l"
  by (auto simp: fd_safe_def)

text \<open>Calls that neither create nor release a descriptor.\<close>

definition fd_neutral :: "ext_call \<Rightarrow> bool" where
  "fd_neutral c = (case c of Fd _ \<Rightarrow> False | _ \<Rightarrow> True)"

lemma fd_neutral_simps [simp]:
  "fd_neutral (Io i)" "fd_neutral (Tls t)" "fd_neutral (Cb a e)" "fd_neutral (Cb_set a e)"
  by (simp_all add: fd_neutral_def)

lemma open_fds_neutral: "fd_neutral c \<Longrightarrow> open_fds ((c, r) # h) = open_fds h"
  by (cases c) (auto simp: fd_neutral_def)

lemma closes_ok_neutral: "fd_neutral c \<Longrightarrow> closes_ok ((c, r) # h) = closes_ok h"
  by (cases c) (auto simp: fd_neutral_def)

lemma fd_safe_neutral_iff [simp]:
  "fd_neutral c \<Longrightarrow> fd_safe fd h fd' ((c, r) # h') \<longleftrightarrow> fd_safe fd h fd' h'"
  by (simp add: fd_safe_def open_fds_neutral closes_ok_neutral)

lemma fd_safe_neutral_left [simp]:
  "fd_neutral c \<Longrightarrow> fd_safe fd ((c, r) # h) fd' h' \<longleftrightarrow> fd_safe fd h fd' h'"
  by (simp add: fd_safe_def open_fds_neutral closes_ok_neutral)

lemma fd_safe_close:
  "0 \<le> fd \<Longrightarrow> fd' < 0 \<Longrightarrow> fd_safe fd h fd' ((Fd (Close fd), r) # h)"
  by (auto simp: fd_safe_def)

lemma fd_safe_socket:
  assumes "fresh_fds os" "fd < 0"
  shows "fd_safe fd h (ret (os_call os h (Fd (Socket f t))))
           ((Fd (Socket f t), os_call os h (Fd (Socket f t))) # h)"
proof -
  let ?r = "ret (os_call os h (Fd (Socket f t)))"
  have "?r = -1 \<or> 0 \<le> ?r \<and> ?r \<notin> open_fds h"
    using assms(1) unfolding fresh_fds_def by blast
  with assms(2) show ?thesis by (auto simp: fd_safe_def)
qed

end
