(* ===== verification/Scripted_Os.thy ===== *)
theory Scripted_Os
  imports Posix
begin

text \<open>
  A concrete environment, used to evaluate the model: the peer sends the bytes of a script and
  then ends the stream, every other call succeeds at once. The theorems of the other theories
  hold for every environment; this one shows that their hypotheses on it can be met, and on what
  input.
\<close>

fun next_fd :: "history \<Rightarrow> int" where
  "next_fd [] = 3"
| "next_fd ((c, r) # h) = max (next_fd h) (ret r + 1)"

text \<open>Calls that report readiness or a handle answer \<open>1\<close>, status calls \<open>0\<close>.\<close>

fun scripted_io :: "byte list \<Rightarrow> history \<Rightarrow> io_call \<Rightarrow> call_result" where
  "scripted_io script h (Recv fd n) =
     (let d = take (nat n) (drop (length (inbound h)) script)
      in result0\<lparr>ret := int (length d), got := d\<rparr>)"
| "scripted_io script h (Recvfrom fd n) =
     (let d = take (nat n) (drop (length (inbound h)) script)
      in result0\<lparr>ret := int (length d), got := d\<rparr>)"
| "scripted_io script h (Send fd b f) = result0\<lparr>ret := int (length b)\<rparr>"
| "scripted_io script h (Sendto fd b a) = result0\<lparr>ret := int (length b)\<rparr>"
| "scripted_io script h (Select_read fd t) = result0\<lparr>ret := 1\<rparr>"
| "scripted_io script h (Select_write fd t) = result0\<lparr>ret := 1\<rparr>"
| "scripted_io script h (Getaddrinfo host p t any) =
     result0\<lparr>infos := [\<lparr>ai_family = AF_INET, ai_addr = Some (zero_sockaddr\<lparr>ss_family := AF_INET,
       sin_port := 80\<rparr>), ai_addrlen = 16\<rparr>]\<rparr>"
| "scripted_io script h c = result0"

fun scripted_tls :: "byte list \<Rightarrow> history \<Rightarrow> tls_call \<Rightarrow> call_result" where
  "scripted_tls script h (Ssl_read ssl n) =
     (let d = take (nat n) (drop (length (inbound h)) script)
      in result0\<lparr>ret := int (length d), got := d\<rparr>)"
| "scripted_tls script h (Ssl_write ssl b) = result0\<lparr>ret := int (length b)\<rparr>"
| "scripted_tls script h c = result0\<lparr>ret := 1\<rparr>"

fun scripted_call :: "byte list \<Rightarrow> history \<Rightarrow> ext_call \<Rightarrow> call_result" where
  "scripted_call script h (Fd (Close fd)) = result0"
| "scripted_call script h (Fd f) = result0\<lparr>ret := next_fd h\<rparr>"
| "scripted_call script h (Io c) = scripted_io script h c"
| "scripted_call script h (Tls c) = scripted_tls script h c"
| "scripted_call script h c = result0"

definition scripted_os :: "byte list \<Rightarrow> os" where
  "scripted_os script =
    \<lparr>os_call = scripted_call script,
     pton = (\<lambda>f t. if f = AF_INET then Some [127, 0, 0, 1] else None),
     ntop = (\<lambda>f b. if f = AF_INET then Some ''127.0.0.1'' else None)\<rparr>"

definition world0 :: world where
  "world0 = \<lparr>trace = [], errno = 0\<rparr>"

lemma result0_simps [simp]:
  "ret result0 = 0" "err result0 = 0" "val result0 = 0" "got result0 = []" "infos result0 = []"
  by (simp_all add: result0_def)

lemma next_fd_pos: "3 \<le> next_fd h"
  by (induction h rule: next_fd.induct) auto

lemma next_fd_unused: "fd \<in> open_fds h \<Longrightarrow> fd < next_fd h"
  by (induction h rule: open_fds.induct) (auto split: if_splits)

lemma scripted_fresh [simp]: "fresh_fds (scripted_os script)"
  unfolding fresh_fds_def scripted_os_def
  using next_fd_pos next_fd_unused by (simp, meson less_irrefl order_trans zero_le_numeral)

lemma scripted_recv_bounded [simp]: "recv_bounded (scripted_os script)"
  unfolding recv_bounded_def
  by (auto simp: receive_capacity_def scripted_os_def Let_def
      split: ext_call.splits io_call.splits tls_call.splits)

lemma scripted_send_bounded [simp]: "send_bounded (scripted_os script)"
  unfolding send_bounded_def
  by (auto simp: send_payload_def scripted_os_def
      split: ext_call.splits io_call.splits tls_call.splits)

lemma scripted_nonneg: "0 \<le> ret (scripted_call script h c)"
proof -
  have io: "0 \<le> ret (scripted_io script h i)" for i by (cases i) (simp_all add: Let_def)
  have tls: "0 \<le> ret (scripted_tls script h t)" for t by (cases t) (simp_all add: Let_def)
  have fd: "0 \<le> next_fd h" using next_fd_pos [of h] by simp
  show ?thesis
  proof (cases c)
    case (Fd f)
    then show ?thesis using fd by (cases f) simp_all
  qed (use io tls in simp_all)
qed

lemma scripted_status: "status_call c \<Longrightarrow> ret (scripted_call script h c) = 0"
  by (auto simp: status_call_def split: ext_call.splits fd_call.splits io_call.splits)

lemma scripted_errno_set [simp]: "errno_set (scripted_os script)"
  using scripted_nonneg scripted_status
  by (auto simp: errno_set_def scripted_os_def) (meson not_less)

end
