(* ===== verification/Address.thy ===== *)
theory Address
  imports Scripted_Os
begin

text \<open>
  \<open>src/address.cpp\<close>, \<open>src/resolver.cpp\<close> and the endpoint comparison of
  \<open>src/udp_server_socket.cpp\<close>. An \<open>address\<close> is a \<open>sockaddr_storage\<close> with a
  separate \<open>family\<close> field; the accessors branch on that field, the transport code on the
  family inside the storage. \<open>address_wf\<close> says that the two agree.
\<close>

section \<open>The address class\<close>

record address =
  adr_storage :: sockaddr_storage
  adr_family :: int

datatype exn = Runtime_error string

definition address_empty :: address where
  "address_empty = \<lparr>adr_storage = zero_sockaddr, adr_family = 0\<rparr>"

definition address_of_storage :: "sockaddr_storage \<Rightarrow> address" where
  "address_of_storage src = \<lparr>adr_storage = src, adr_family = ss_family src\<rparr>"

text \<open>
  \<open>memcpy\<close> of a \<open>sockaddr_in\<close> (16 bytes: 12 from offset 4) or a
  \<open>sockaddr_in6\<close> (28 bytes: 24 from offset 4) over zeroed storage.
\<close>

definition address_of_in :: "sockaddr_storage \<Rightarrow> address" where
  "address_of_in src =
    \<lparr>adr_storage = src\<lparr>sa_data := overwrite (take 12 (sa_data src)) (sa_data zero_sockaddr)\<rparr>,
     adr_family = AF_INET\<rparr>"

definition address_of_in6 :: "sockaddr_storage \<Rightarrow> address" where
  "address_of_in6 src =
    \<lparr>adr_storage = src\<lparr>sa_data := overwrite (take 24 (sa_data src)) (sa_data zero_sockaddr)\<rparr>,
     adr_family = AF_INET6\<rparr>"

definition is_ipv4 :: "address \<Rightarrow> bool" where
  "is_ipv4 a \<longleftrightarrow> adr_family a = AF_INET"

definition is_ipv6 :: "address \<Rightarrow> bool" where
  "is_ipv6 a \<longleftrightarrow> adr_family a = AF_INET6"

text \<open>
  The source ignores a failure of \<open>inet_ntop\<close> and would then read an uninitialised
  buffer: the value \<open>None\<close>.
\<close>

definition get_string :: "os \<Rightarrow> address \<Rightarrow> string option" where
  "get_string os a =
    (if adr_family a = AF_INET then ntop os AF_INET (sin_addr (adr_storage a))
     else if adr_family a = AF_INET6 then ntop os AF_INET6 (sin6_addr (adr_storage a))
     else Some [])"

definition get_port :: "address \<Rightarrow> 16 word" where
  "get_port a =
    (if adr_family a = AF_INET then ntohs (sin_port (adr_storage a))
     else if adr_family a = AF_INET6 then ntohs (sin_port (adr_storage a))
     else 0)"

definition set_port :: "16 word \<Rightarrow> address \<Rightarrow> address" where
  "set_port port a =
    (let port_nbo = htons port in
     if adr_family a = AF_INET
     then a\<lparr>adr_storage := (adr_storage a)\<lparr>sin_port := port_nbo\<rparr>\<rparr>
     else if adr_family a = AF_INET6
     then a\<lparr>adr_storage := (adr_storage a)\<lparr>sin_port := port_nbo\<rparr>\<rparr>
     else a)"

definition get_sockaddr_storage :: "address \<Rightarrow> sockaddr_storage" where
  "get_sockaddr_storage a = adr_storage a"

definition get_sockaddr_ipv4 :: "address \<Rightarrow> exn + sockaddr_storage" where
  "get_sockaddr_ipv4 a =
    (if adr_family a \<noteq> AF_INET then Inl (Runtime_error ''address is not IPv4'')
     else Inr (adr_storage a))"

definition get_sockaddr_ipv6 :: "address \<Rightarrow> exn + sockaddr_storage" where
  "get_sockaddr_ipv6 a =
    (if adr_family a \<noteq> AF_INET6 then Inl (Runtime_error ''address is not IPv6'')
     else Inr (adr_storage a))"

definition address_wf :: "address \<Rightarrow> bool" where
  "address_wf a \<longleftrightarrow> adr_family a = ss_family (adr_storage a) \<and> sockaddr_wf (adr_storage a)"

lemma address_of_storage_wf [simp]: "address_wf (address_of_storage s) \<longleftrightarrow> sockaddr_wf s"
  by (simp add: address_wf_def address_of_storage_def)

lemma address_empty_wf [simp]: "address_wf address_empty"
  by (simp add: address_wf_def address_empty_def zero_sockaddr_def sockaddr_wf_def)

lemma set_port_wf [simp]: "address_wf (set_port p a) \<longleftrightarrow> address_wf a"
  by (simp add: address_wf_def set_port_def Let_def sockaddr_wf_def)

lemma set_port_frame [frame_simps]:
  "adr_family (set_port p a) = adr_family a"
  "sin_addr (adr_storage (set_port p a)) = sin_addr (adr_storage a)"
  "sin6_addr (adr_storage (set_port p a)) = sin6_addr (adr_storage a)"
  "sin6_scope_id (adr_storage (set_port p a)) = sin6_scope_id (adr_storage a)"
  "ss_family (adr_storage (set_port p a)) = ss_family (adr_storage a)"
  by (simp_all add: set_port_def Let_def sin_addr_def sin6_addr_def sin6_scope_id_def)

lemma get_port_set_port:
  "get_port (set_port p a) = (if is_ipv4 a \<or> is_ipv6 a then p else 0)"
  by (simp add: get_port_def set_port_def is_ipv4_def is_ipv6_def Let_def)

section \<open>Comparing UDP endpoints\<close>

definition mapped_prefix :: "byte list" where
  "mapped_prefix = [0, 0, 0, 0, 0, 0, 0, 0, 0, 0, 0xff, 0xff]"

definition same_udp_address :: "address \<Rightarrow> address \<Rightarrow> bool" where
  "same_udp_address a b =
    (let lhs = get_sockaddr_storage a; rhs = get_sockaddr_storage b in
     if get_port a \<noteq> get_port b then False
     else if ss_family lhs = AF_INET \<and> ss_family rhs = AF_INET
     then sin_addr lhs = sin_addr rhs
     else if ss_family lhs = AF_INET6 \<and> ss_family rhs = AF_INET6
     then sin6_scope_id lhs = sin6_scope_id rhs \<and> sin6_addr lhs = sin6_addr rhs
     else
       let v6 = (if ss_family lhs = AF_INET6 then lhs else rhs);
           v4 = (if ss_family lhs = AF_INET then lhs else rhs) in
       if ss_family v6 \<noteq> AF_INET6 \<or> ss_family v4 \<noteq> AF_INET then False
       else sin6_scope_id v6 = replicate 4 0 \<and>
            take 12 (sin6_addr v6) = mapped_prefix \<and>
            drop 12 (sin6_addr v6) = sin_addr v4)"

text \<open>
  Reference: the endpoint an address denotes. An IPv4-mapped IPv6 address without a scope is
  the IPv4 endpoint it maps.
\<close>

datatype endpoint = V4 "16 word" "byte list" | V6 "16 word" "byte list" "byte list"

definition endpoint_of :: "address \<Rightarrow> endpoint option" where
  "endpoint_of a =
    (let s = adr_storage a in
     if ss_family s = AF_INET then Some (V4 (get_port a) (sin_addr s))
     else if ss_family s = AF_INET6
     then if sin6_scope_id s = replicate 4 0 \<and> take 12 (sin6_addr s) = mapped_prefix
          then Some (V4 (get_port a) (drop 12 (sin6_addr s)))
          else Some (V6 (get_port a) (sin6_addr s) (sin6_scope_id s))
     else None)"

lemma same_udp_address_endpoint:
  assumes "address_wf a" "address_wf b"
  shows "same_udp_address a b \<longleftrightarrow> endpoint_of a \<noteq> None \<and> endpoint_of a = endpoint_of b"
proof -
  have split: "x = y \<longleftrightarrow> take 12 x = take 12 y \<and> drop 12 x = drop 12 y" for x y :: "byte list"
    by (metis append_take_drop_id)
  show ?thesis
    using assms split [of "sin6_addr (adr_storage a)" "sin6_addr (adr_storage b)"]
    by (auto simp: same_udp_address_def endpoint_of_def get_sockaddr_storage_def Let_def
        split: if_splits)
qed

section \<open>The resolver\<close>

text \<open>
  The loop over the \<open>addrinfo\<close> chain keeps the first IPv6 and the first IPv4 entry. POSIX
  promises a non-null \<open>ai_addr\<close>, which the source dereferences unchecked here.
\<close>

definition deref_sockaddr :: "sockaddr_storage option \<Rightarrow> sockaddr_storage" where
  "deref_sockaddr p = (case p of Some a \<Rightarrow> a | None \<Rightarrow> zero_sockaddr)"

fun resolve_loop ::
  "addrinfo list \<Rightarrow> address option \<Rightarrow> address option \<Rightarrow> address option \<times> address option" where
  "resolve_loop [] ipv6 ipv4 = (ipv6, ipv4)"
| "resolve_loop (p # ps) ipv6 ipv4 =
    (if ai_family p = AF_INET6 \<and> ipv6 = None
     then resolve_loop ps (Some (address_of_in6 (deref_sockaddr (ai_addr p)))) ipv4
     else if ai_family p = AF_INET \<and> ipv4 = None
     then resolve_loop ps ipv6 (Some (address_of_in (deref_sockaddr (ai_addr p))))
     else resolve_loop ps ipv6 ipv4)"

definition resolve_internal :: "os \<Rightarrow> string \<Rightarrow> world \<Rightarrow> (exn + address) \<times> world" where
  "resolve_internal os hostname w =
    (let (rv, w) = sys os (Io (Getaddrinfo hostname None SOCK_STREAM True)) w in
     if ret rv \<noteq> 0 then (Inl (Runtime_error ''Failed to resolve hostname''), w)
     else case resolve_loop (infos rv) None None of
         (Some ipv6_addr, _) \<Rightarrow> (Inr ipv6_addr, w)
       | (None, Some ipv4_addr) \<Rightarrow> (Inr ipv4_addr, w)
       | (None, None) \<Rightarrow> (Inl (Runtime_error ''No addresses found for hostname''), w))"

definition resolve_to_string :: "os \<Rightarrow> string \<Rightarrow> world \<Rightarrow> (exn + string option) \<times> world" where
  "resolve_to_string os hostname w =
    (case resolve_internal os hostname w of
       (Inl e, w) \<Rightarrow> (Inl e, w)
     | (Inr a, w) \<Rightarrow> (Inr (get_string os a), w))"

definition resolve_to_address :: "os \<Rightarrow> string \<Rightarrow> world \<Rightarrow> (exn + address) \<times> world" where
  "resolve_to_address os hostname w = resolve_internal os hostname w"

definition resolve_to_storage ::
  "os \<Rightarrow> string \<Rightarrow> world \<Rightarrow> (exn + sockaddr_storage) \<times> world" where
  "resolve_to_storage os hostname w =
    (case resolve_internal os hostname w of
       (Inl e, w) \<Rightarrow> (Inl e, w)
     | (Inr a, w) \<Rightarrow> (Inr (get_sockaddr_storage a), w))"

definition resolve_to_in :: "os \<Rightarrow> string \<Rightarrow> world \<Rightarrow> (exn + sockaddr_storage) \<times> world" where
  "resolve_to_in os hostname w =
    (case resolve_internal os hostname w of
       (Inl e, w) \<Rightarrow> (Inl e, w)
     | (Inr a, w) \<Rightarrow> (get_sockaddr_ipv4 a, w))"

definition resolve_to_in6 :: "os \<Rightarrow> string \<Rightarrow> world \<Rightarrow> (exn + sockaddr_storage) \<times> world" where
  "resolve_to_in6 os hostname w =
    (case resolve_internal os hostname w of
       (Inl e, w) \<Rightarrow> (Inl e, w)
     | (Inr a, w) \<Rightarrow> (get_sockaddr_ipv6 a, w))"

text \<open>Reference: the first entry of a family, as \<open>List.find\<close> picks it.\<close>

definition first_in6 :: "addrinfo list \<Rightarrow> address option" where
  "first_in6 ps = map_option (\<lambda>p. address_of_in6 (deref_sockaddr (ai_addr p)))
     (List.find (\<lambda>p. ai_family p = AF_INET6) ps)"

definition first_in :: "addrinfo list \<Rightarrow> address option" where
  "first_in ps = map_option (\<lambda>p. address_of_in (deref_sockaddr (ai_addr p)))
     (List.find (\<lambda>p. ai_family p = AF_INET) ps)"

lemma resolve_loop_first:
  "resolve_loop ps v6 v4 =
    (if v6 = None then first_in6 ps else v6, if v4 = None then first_in ps else v4)"
  by (induction ps v6 v4 rule: resolve_loop.induct) (auto simp: first_in6_def first_in_def)

lemma resolve_internal_result:
  "fst (resolve_internal os host w) =
    (let r = os_call os (trace w) (Io (Getaddrinfo host None SOCK_STREAM True)) in
     if ret r \<noteq> 0 then Inl (Runtime_error ''Failed to resolve hostname'')
     else case first_in6 (infos r) of
         Some a \<Rightarrow> Inr a
       | None \<Rightarrow> (case first_in (infos r) of
            Some a \<Rightarrow> Inr a
          | None \<Rightarrow> Inl (Runtime_error ''No addresses found for hostname'')))"
  by (simp add: resolve_internal_def Let_def sys_def resolve_loop_first split: option.splits)

lemma resolve_internal_fd_safe [simp]:
  "fd_safe fd h fd' (trace (snd (resolve_internal os host w))) \<longleftrightarrow> fd_safe fd h fd' (trace w)"
  by (simp add: resolve_internal_def Let_def sys_def resolve_loop_first split: option.splits)

section \<open>Properties\<close>

text \<open>
  \<open>same_udp_address\<close> decides equality of endpoints: two addresses are the same exactly
  when they denote the same endpoint, where an unscoped IPv4-mapped IPv6 address denotes the IPv4
  endpoint it maps. In particular the comparison is symmetric and transitive, so a server never
  files one sender under two peers.
\<close>

lemma same_udp_address_decides_endpoint:
  assumes "address_wf a" "address_wf b" "address_wf c"
  shows "(same_udp_address a b \<longleftrightarrow> endpoint_of a \<noteq> None \<and> endpoint_of a = endpoint_of b) \<and>
    same_udp_address a b = same_udp_address b a \<and>
    (same_udp_address a b \<and> same_udp_address b c \<longrightarrow> same_udp_address a c)"
  using same_udp_address_endpoint [OF assms(1,2)] same_udp_address_endpoint [OF assms(2,1)]
    same_udp_address_endpoint [OF assms(2,3)] same_udp_address_endpoint [OF assms(1,3)] by metis

definition sample_v4 :: address where
  "sample_v4 = address_of_storage
     \<lparr>ss_family = AF_INET, sin_port = 80, sa_data = [127, 0, 0, 1] @ replicate 20 0\<rparr>"

definition sample_mapped :: address where
  "sample_mapped = address_of_storage
     \<lparr>ss_family = AF_INET6, sin_port = 80,
      sa_data = replicate 4 0 @ mapped_prefix @ [127, 0, 0, 1] @ replicate 4 0\<rparr>"

lemma sample_wf: "address_wf sample_v4" "address_wf sample_mapped"
  by (simp_all add: sample_v4_def sample_mapped_def sockaddr_wf_def mapped_prefix_def)

text \<open>
  An address survives every conversion. Through \<open>sockaddr_storage\<close> it comes back
  unchanged; an IPv6 address through \<open>sockaddr_in6\<close> too, an IPv4 address through
  \<open>sockaddr_in\<close> with its family, port and the twelve bytes that structure carries, so it
  denotes the same endpoint, and the conversion to the other family is refused. Setting the port is a lawful update: the port read
  back is the one set, setting the port an address has changes nothing, the last of two settings
  wins.
\<close>

lemma address_round_trips:
  assumes "address_wf a" "is_ipv4 a \<or> is_ipv6 a"
  shows "address_of_storage (get_sockaddr_storage a) = a \<and>
    (case get_sockaddr_ipv6 a of Inl e \<Rightarrow> is_ipv4 a | Inr s \<Rightarrow> is_ipv6 a \<and> address_of_in6 s = a) \<and>
    (case get_sockaddr_ipv4 a of Inl e \<Rightarrow> is_ipv6 a
     | Inr s \<Rightarrow> is_ipv4 a \<and> is_ipv4 (address_of_in s) \<and> get_port (address_of_in s) = get_port a \<and>
         take 12 (sa_data (get_sockaddr_storage (address_of_in s))) = take 12 (sa_data (get_sockaddr_storage a)) \<and>
         endpoint_of (address_of_in s) = endpoint_of a) \<and>
    get_port (set_port p a) = p \<and> set_port (get_port a) a = a \<and> set_port q (set_port p a) = set_port q a"
  using assms
  by (auto simp: address_wf_def is_ipv4_def is_ipv6_def address_of_storage_def get_sockaddr_storage_def
      get_sockaddr_ipv4_def get_sockaddr_ipv6_def address_of_in6_def address_of_in_def get_port_def set_port_def
      endpoint_of_def sin_addr_def sockaddr_wf_def overwrite_def zero_sockaddr_def Let_def min_def)

end
