(* ===== verification/Base_Socket.thy ===== *)
theory Base_Socket
  imports Address
begin

text \<open>
  The class \<open>socket\<close> of \<open>src/socket.cpp\<close>, TCP connect/listen/accept excepted
  (theory \<open>Tcp\<close>): construction, ownership of the native descriptor, direct reads and writes,
  options and the blocking-mode guard.

  An object is a record; derived classes extend the record, so a base operation applies to the
  record of every derived class (type \<open>'a sock_scheme\<close>). An operation takes the object
  and the world and returns its result with both updated. A pointer argument is an option,
  \<open>None\<close> the null pointer; a buffer the code writes to is returned.
\<close>

section \<open>State\<close>

definition max_buffer_size :: int where [simp]: "max_buffer_size = 256"

record sock =
  sockfd :: int
  last_n :: int
  remote_addr :: sockaddr_storage
  connected :: bool
  sk_flags :: int
  net_family :: int
  token_size :: int
  blocking :: bool
  inbuffer :: "byte list"
  outbuffer :: "byte list"
  hostname :: string
  parent_server :: "nat option"
  error_code :: int
  error_state :: int
  sock_port :: int
  read_timeout_ms :: int
  write_timeout_ms :: int
  connect_timeout_ms :: int

definition sock_init :: sock where
  "sock_init =
    \<lparr>sockfd = invalid_socket, last_n = 0, remote_addr = zero_sockaddr, connected = False,
     sk_flags = 0, net_family = AF_INET, token_size = 0, blocking = True,
     inbuffer = replicate 256 0, outbuffer = replicate 256 0, hostname = [],
     parent_server = None, error_code = err_none, error_state = 0, sock_port = 0,
     read_timeout_ms = 0, write_timeout_ms = 0, connect_timeout_ms = 0\<rparr>"

definition is_valid_socket :: "'a sock_scheme \<Rightarrow> bool" where
  "is_valid_socket s \<longleftrightarrow> 0 \<le> sockfd s"

definition set_error :: "int \<Rightarrow> 'a sock_scheme \<Rightarrow> 'a sock_scheme" where
  "set_error e s = s\<lparr>error_code := e\<rparr>"

definition set_parent_server :: "nat option \<Rightarrow> 'a sock_scheme \<Rightarrow> 'a sock_scheme" where
  "set_parent_server p s = s\<lparr>parent_server := p\<rparr>"

definition set_remote_hostname :: "string \<Rightarrow> 'a sock_scheme \<Rightarrow> 'a sock_scheme" where
  "set_remote_hostname h s = s\<lparr>hostname := h\<rparr>"

section \<open>Construction and destruction\<close>

definition clear_buffers :: "'a sock_scheme \<Rightarrow> 'a sock_scheme" where
  "clear_buffers s = s\<lparr>inbuffer := replicate 256 0, outbuffer := replicate 256 0\<rparr>"

definition socket_new :: "os \<Rightarrow> int \<Rightarrow> int \<Rightarrow> world \<Rightarrow> sock \<times> world" where
  "socket_new os family type w =
    (let s = sock_init\<lparr>net_family := family\<rparr>;
         (r, w) = sys os (Fd (Socket family type)) w;
         s = s\<lparr>sockfd := ret r\<rparr> in
     if \<not> is_valid_socket s
     then (s\<lparr>error_code := err_no_socket, error_state := state_create\<rparr>, w)
     else
       let (f, w) = sys os (Io (Getfl (sockfd s))) w;
           s = s\<lparr>sk_flags := ret f\<rparr>;
           s = (if sk_flags s < 0
                then s\<lparr>error_code := err_no_socket, error_state := state_create\<rparr> else s) in
       (clear_buffers s, w))"

definition socket_default :: "os \<Rightarrow> world \<Rightarrow> sock \<times> world" where
  "socket_default os w = socket_new os AF_INET SOCK_STREAM w"

definition socket_of_family :: "os \<Rightarrow> int \<Rightarrow> world \<Rightarrow> sock \<times> world" where
  "socket_of_family os family_type w = socket_new os family_type SOCK_STREAM w"

definition socket_adopt :: "os \<Rightarrow> int \<Rightarrow> world \<Rightarrow> sock \<times> world" where
  "socket_adopt os existing_fd w =
    (let s = sock_init\<lparr>connected := existing_fd \<noteq> invalid_socket, sockfd := existing_fd\<rparr> in
     if \<not> is_valid_socket s then (clear_buffers s, w)
     else
       let (p, w) = sys os (Io (Getpeername (sockfd s))) w;
           s = (if ret p = 0
                then s\<lparr>remote_addr := from_addr p, net_family := ss_family (from_addr p)\<rparr> else s);
           (f, w) = sys os (Io (Getfl (sockfd s))) w;
           s = s\<lparr>sk_flags := ret f\<rparr>;
           s = (if sk_flags s < 0
                then s\<lparr>error_code := err_no_socket, error_state := state_create\<rparr> else s) in
       (clear_buffers s, w))"

text \<open>The descriptor is given up before the system call.\<close>

definition socket_close ::
  "os \<Rightarrow> 'a sock_scheme \<Rightarrow> world \<Rightarrow> bool \<times> 'a sock_scheme \<times> world" where
  "socket_close os s w =
    (if \<not> is_valid_socket s then (False, s, w)
     else
       let owned = sockfd s;
           s = s\<lparr>sockfd := invalid_socket, connected := False\<rparr>;
           (r, w) = sys os (Fd (Close owned)) w in
       if ret r \<noteq> 0
       then (False, s\<lparr>error_code := translate_native_error (errno w)\<rparr>, w)
       else (True, s, w))"

text \<open>The destructor runs the class's own \<open>close\<close>, not an override.\<close>

definition socket_destroy :: "os \<Rightarrow> 'a sock_scheme \<Rightarrow> world \<Rightarrow> world" where
  "socket_destroy os s w =
    (if is_valid_socket s then snd (snd (socket_close os s w)) else w)"

section \<open>Remote endpoint\<close>

definition get_remote_ip :: "os \<Rightarrow> 'a sock_scheme \<Rightarrow> string" where
  "get_remote_ip os s =
    (let a = remote_addr s in
     if ss_family a = AF_INET
     then (case ntop os AF_INET (sin_addr a) of Some t \<Rightarrow> t | None \<Rightarrow> [])
     else if ss_family a = AF_INET6
     then
       (case (if take 12 (sin6_addr a) = mapped_prefix
              then ntop os AF_INET (drop 12 (sin6_addr a)) else None) of
          Some t \<Rightarrow> t
        | None \<Rightarrow> (case ntop os AF_INET6 (sin6_addr a) of Some t \<Rightarrow> t | None \<Rightarrow> []))
     else [])"

definition get_remote_port :: "'a sock_scheme \<Rightarrow> int" where
  "get_remote_port s =
    (let a = remote_addr s in
     if ss_family a = AF_INET then uint (ntohs (sin_port a))
     else if ss_family a = AF_INET6 then uint (ntohs (sin_port a))
     else 0)"

definition get_remote_address :: "'a sock_scheme \<Rightarrow> address" where
  "get_remote_address s = address_of_storage (remote_addr s)"

section \<open>Waiting for readiness\<close>

definition wait_for_readable :: "os \<Rightarrow> int \<Rightarrow> int \<Rightarrow> world \<Rightarrow> int \<times> world" where
  "wait_for_readable os fd timeout_ms w =
    (if timeout_ms \<le> 0 then (1, w)
     else let (r, w) = sys os (Io (Select_read fd timeout_ms)) w in (ret r, w))"

definition wait_for_writable :: "os \<Rightarrow> int \<Rightarrow> int \<Rightarrow> world \<Rightarrow> int \<times> world" where
  "wait_for_writable os fd timeout_ms w =
    (if timeout_ms \<le> 0 then (1, w)
     else let (r, w) = sys os (Io (Select_write fd timeout_ms)) w in (ret r, w))"

section \<open>Writing\<close>

text \<open>The argument errors that every transfer reports: the socket before the argument.\<close>

definition argument_error :: "'a sock_scheme \<Rightarrow> int" where
  "argument_error s = (if \<not> is_valid_socket s then err_no_socket else err_invalid_argument)"

definition c_string :: "byte list \<Rightarrow> byte list" where
  "c_string data = takeWhile (\<lambda>b. b \<noteq> 0) data"

definition sent_error :: "int \<Rightarrow> world \<Rightarrow> int" where
  "sent_error sent w = (if sent < 0 then translate_native_error (errno w) else err_none)"

definition socket_write_cstr ::
  "os \<Rightarrow> byte list option \<Rightarrow> 'a sock_scheme \<Rightarrow> world \<Rightarrow> int \<times> 'a sock_scheme \<times> world" where
  "socket_write_cstr os data s w =
    (if data = None \<or> \<not> is_valid_socket s
     then (socket_error, s\<lparr>error_code := argument_error s\<rparr>, w)
     else
       let str = c_string (the data); len = int (length str) in
       if len = 0 then (0, s, w)
       else
         let (r, w) = sys os (Io (send_call (sockfd s) str (to_int32 len) 0)) w in
         (ret r, s\<lparr>error_code := sent_error (ret r) w\<rparr>, w))"

definition socket_write ::
  "os \<Rightarrow> byte list option \<Rightarrow> int \<Rightarrow> 'a sock_scheme \<Rightarrow> world \<Rightarrow> int \<times> 'a sock_scheme \<times> world"
where
  "socket_write os data sz s w =
    (if data = None \<or> \<not> is_valid_socket s \<or> sz \<le> 0
     then (socket_error, s\<lparr>error_code := argument_error s\<rparr>, w)
     else
       let (wait_result, w) =
             (if write_timeout_ms s > 0
              then wait_for_writable os (sockfd s) (write_timeout_ms s) w else (1, w)) in
       if wait_result = 0 then (0, s\<lparr>error_code := err_timeout\<rparr>, w)
       else if wait_result < 0
       then (socket_error, s\<lparr>error_code := translate_native_error (errno w)\<rparr>, w)
       else
         let (r, w) = sys os (Io (send_call (sockfd s) (the data) sz 0)) w in
         (ret r, s\<lparr>error_code := sent_error (ret r) w\<rparr>, w))"

definition socket_write_string ::
  "os \<Rightarrow> byte list \<Rightarrow> 'a sock_scheme \<Rightarrow> world \<Rightarrow> int \<times> 'a sock_scheme \<times> world" where
  "socket_write_string os data s w =
    (if \<not> is_valid_socket s \<or> data = []
     then (socket_error, s\<lparr>error_code := argument_error s\<rparr>, w)
     else
       let (r, w) = sys os (Io (send_call (sockfd s) data (to_int32 (int (length data))) 0)) w in
       (ret r, s\<lparr>error_code := sent_error (ret r) w\<rparr>, w))"

section \<open>Reading\<close>

definition socket_read ::
  "os \<Rightarrow> byte list option \<Rightarrow> int \<Rightarrow> 'a sock_scheme \<Rightarrow> world \<Rightarrow>
    int \<times> byte list option \<times> 'a sock_scheme \<times> world"
where
  "socket_read os buffer sz s w =
    (if buffer = None \<or> \<not> is_valid_socket s \<or> sz \<le> 0
     then (socket_error, buffer,
           s\<lparr>error_code := argument_error s, last_n := socket_error\<rparr>, w)
     else
       let (ready, w) =
             (if read_timeout_ms s > 0
              then wait_for_readable os (sockfd s) (read_timeout_ms s) w else (1, w)) in
       if ready = 0 then (0, buffer, s\<lparr>error_code := err_timeout, last_n := 0\<rparr>, w)
       else if ready < 0
       then (socket_error, buffer,
             s\<lparr>error_code := translate_native_error (errno w), last_n := socket_error\<rparr>, w)
       else
         let (r, w) = sys os (Io (Recv (sockfd s) sz)) w;
             received = ret r;
             buffer = Some (overwrite (got r) (the buffer));
             s = s\<lparr>last_n := received\<rparr> in
         if received = 0
         then (received, buffer, s\<lparr>connected := False, error_code := err_none\<rparr>, w)
         else if received < 0
         then (received, buffer, s\<lparr>error_code := translate_native_error (errno w)\<rparr>, w)
         else (received, buffer, s\<lparr>error_code := err_none\<rparr>, w))"

text \<open>
  \<open>read_until\<close> calls the virtual \<open>read\<close>: the argument \<open>rd\<close>. The loop advances
  by what each call returned and stops at the first call that delivers nothing.
\<close>

function read_until_loop ::
  "(byte list option \<Rightarrow> int \<Rightarrow> 'a sock_scheme \<Rightarrow> world \<Rightarrow>
     int \<times> byte list option \<times> 'a sock_scheme \<times> world) \<Rightarrow>
   byte list \<Rightarrow> int \<Rightarrow> int \<Rightarrow> 'a sock_scheme \<Rightarrow> world \<Rightarrow>
     int \<times> byte list \<times> 'a sock_scheme \<times> world"
where
  "read_until_loop rd buffer sz tot s w =
    (if tot < sz
     then
       let (received, part, s', w') = rd (Some (drop (nat tot) buffer)) (sz - tot) s w;
           buffer' = take (nat tot) buffer @ (case part of Some b \<Rightarrow> b | None \<Rightarrow> []) in
       if received \<le> 0 then (tot, buffer', s', w')
       else read_until_loop rd buffer' sz (tot + received) s' w'
     else (tot, buffer, s, w))"
  by pat_completeness auto
termination
  by (relation "measure (\<lambda>(rd, buffer, sz, tot, s, w). nat (sz - tot))") auto

declare read_until_loop.simps [simp del]

definition socket_read_until ::
  "(byte list option \<Rightarrow> int \<Rightarrow> 'a sock_scheme \<Rightarrow> world \<Rightarrow>
     int \<times> byte list option \<times> 'a sock_scheme \<times> world) \<Rightarrow>
   byte list option \<Rightarrow> int \<Rightarrow> 'a sock_scheme \<Rightarrow> world \<Rightarrow>
     int \<times> byte list option \<times> 'a sock_scheme \<times> world"
where
  "socket_read_until rd buffer sz s w =
    (if buffer = None \<or> \<not> is_valid_socket s \<or> sz \<le> 0
     then (socket_error, buffer,
           s\<lparr>error_code := argument_error s, last_n := socket_error\<rparr>, w)
     else
       let (tot, buffer, s, w) = read_until_loop rd (the buffer) sz 0 s w in
       (tot, Some buffer, s, w))"

definition socket_read_internal ::
  "(byte list option \<Rightarrow> int \<Rightarrow> 'a sock_scheme \<Rightarrow> world \<Rightarrow>
     int \<times> byte list option \<times> 'a sock_scheme \<times> world) \<Rightarrow>
   'a sock_scheme \<Rightarrow> world \<Rightarrow> int \<times> 'a sock_scheme \<times> world"
where
  "socket_read_internal rd s w =
    (let (received, buffer, s, w) = rd (Some (inbuffer s)) (max_buffer_size - 1) s w;
         s = s\<lparr>inbuffer := (case buffer of Some b \<Rightarrow> b | None \<Rightarrow> inbuffer s)\<rparr> in
     if 0 \<le> received
     then (received, s\<lparr>inbuffer := (inbuffer s)[nat received := 0]\<rparr>, w)
     else (received, s, w))"

definition socket_read_string ::
  "(byte list option \<Rightarrow> int \<Rightarrow> 'a sock_scheme \<Rightarrow> world \<Rightarrow>
     int \<times> byte list option \<times> 'a sock_scheme \<times> world) \<Rightarrow>
   int \<Rightarrow> 'a sock_scheme \<Rightarrow> world \<Rightarrow> byte list \<times> 'a sock_scheme \<times> world"
where
  "socket_read_string rd sz s w =
    (if \<not> is_valid_socket s \<or> sz \<le> 0 then ([], s, w)
     else
       let (received, result, s, w) = rd (Some (replicate (nat sz) 0)) sz s w in
       if received \<le> 0 then ([], s, w)
       else (take (nat received) (case result of Some b \<Rightarrow> b | None \<Rightarrow> []), s, w))"

text \<open>
  \<open>read_line\<close> receives one byte at a time, ignores the read timeout, and stops once a
  carriage return and a line feed have both been seen.
\<close>

function read_line_loop ::
  "os \<Rightarrow> int \<Rightarrow> int \<Rightarrow> bool \<Rightarrow> bool \<Rightarrow> byte list \<Rightarrow> 'a sock_scheme \<Rightarrow> world \<Rightarrow>
    bool \<times> byte list \<times> 'a sock_scheme \<times> world"
where
  "read_line_loop os safe_size i carriage linefeed buffer s w =
    (if i < safe_size - 1
     then
       let (r, w) = sys os (Io (Recv (sockfd s) 1)) w; bytesread = ret r in
       if bytesread = 0 then (False, buffer, s\<lparr>connected := False\<rparr>, w)
       else if bytesread < 0
       then (False, buffer, s\<lparr>error_code := translate_native_error (errno w)\<rparr>, w)
       else
         let c = hd (got r);
             s = s\<lparr>last_n := last_n s + bytesread\<rparr>;
             buffer = buffer[nat i := c];
             carriage = (carriage \<or> c = 13);
             linefeed = (linefeed \<or> c \<noteq> 13 \<and> c = 10) in
         if carriage \<and> linefeed
         then (True, buffer[nat (min (i + 1) (safe_size - 1)) := 0], s, w)
         else read_line_loop os safe_size (i + 1) carriage linefeed buffer s w
     else (False, buffer, s, w))"
  by pat_completeness auto
termination
  by (relation "measure (\<lambda>(os, safe_size, i, carriage, linefeed, buffer, s, w).
       nat (safe_size - 1 - i))") auto

declare read_line_loop.simps [simp del]

definition socket_read_line ::
  "os \<Rightarrow> byte list option \<Rightarrow> int \<Rightarrow> 'a sock_scheme \<Rightarrow> world \<Rightarrow>
    int \<times> byte list option \<times> 'a sock_scheme \<times> world"
where
  "socket_read_line os buffer sz s w =
    (if buffer = None \<or> \<not> is_valid_socket s \<or> sz \<le> 0 then (socket_error, buffer, s, w)
     else
       let safe_size = (if sz > max_buffer_size then max_buffer_size else sz);
           buf = overwrite (replicate (nat safe_size) 0) (the buffer);
           (found, buf, s, w) =
             read_line_loop os safe_size 0 False False buf (s\<lparr>last_n := 0\<rparr>) w in
       if found then (last_n s, Some buf, s, w)
       else (last_n s, Some (buf[nat (safe_size - 1) := 0]), s, w))"

section \<open>Descriptor ownership\<close>

definition safe_step :: "'a sock_scheme \<Rightarrow> world \<Rightarrow> 'b sock_scheme \<Rightarrow> world \<Rightarrow> bool" where
  "safe_step s w s' w' \<longleftrightarrow> fd_safe (sockfd s) (trace w) (sockfd s') (trace w')"

lemma safe_step_refl [simp, intro]: "safe_step s w s w"
  by (simp add: safe_step_def)

lemma safe_step_trans [trans]:
  "safe_step s w s' w' \<Longrightarrow> safe_step s' w' s'' w'' \<Longrightarrow> safe_step s w s'' w''"
  unfolding safe_step_def by (rule fd_safe_trans)

lemma socket_close_invalid [simp]: "\<not> is_valid_socket s \<Longrightarrow> socket_close os s w = (False, s, w)"
  by (simp add: socket_close_def)

lemma socket_close_releases:
  "socket_close os s w = (b, s', w') \<Longrightarrow> sockfd s' < 0"
  by (auto simp: socket_close_def sys_def Let_def is_valid_socket_def split: if_splits)

lemma socket_close_safe:
  "socket_close os s w = (b, s', w') \<Longrightarrow> safe_step s w s' w'"
  by (auto simp: socket_close_def sys_def Let_def is_valid_socket_def safe_step_def fd_safe_close
      split: if_splits)

lemma socket_close_frame [frame_simps]:
  "blocking (fst (snd (socket_close os s w))) = blocking s"
  "read_timeout_ms (fst (snd (socket_close os s w))) = read_timeout_ms s"
  "write_timeout_ms (fst (snd (socket_close os s w))) = write_timeout_ms s"
  "connect_timeout_ms (fst (snd (socket_close os s w))) = connect_timeout_ms s"
  "hostname (fst (snd (socket_close os s w))) = hostname s"
  "sock_port (fst (snd (socket_close os s w))) = sock_port s"
  "net_family (fst (snd (socket_close os s w))) = net_family s"
  "parent_server (fst (snd (socket_close os s w))) = parent_server s"
  "remote_addr (fst (snd (socket_close os s w))) = remote_addr s"
  by (simp_all add: socket_close_def sys_def Let_def)

lemma socket_destroy_safe:
  assumes "held (sockfd s) \<subseteq> open_fds (trace w)"
  shows "open_fds (trace (socket_destroy os s w)) = open_fds (trace w) - held (sockfd s)"
    and "closes_ok (trace w) \<Longrightarrow> closes_ok (trace (socket_destroy os s w))"
proof -
  obtain b s' w' where c: "socket_close os s w = (b, s', w')" by (metis prod_cases3)
  have "safe_step s w s' w'" "sockfd s' < 0"
    using socket_close_safe [OF c] socket_close_releases [OF c] by auto
  then show "open_fds (trace (socket_destroy os s w)) = open_fds (trace w) - held (sockfd s)"
    "closes_ok (trace w) \<Longrightarrow> closes_ok (trace (socket_destroy os s w))"
    using assms c
    by (auto simp: socket_destroy_def safe_step_def fd_safe_def is_valid_socket_def)
qed

lemma socket_new_safe:
  assumes "fresh_fds os" "fd < 0" "socket_new os f t w = (s', w')"
  shows "fd_safe fd (trace w) (sockfd s') (trace w')"
  using assms(3) fd_safe_socket [OF assms(1,2), of "trace w" f t]
  by (auto simp: socket_new_def sys_def Let_def is_valid_socket_def clear_buffers_def
      split: if_splits)

lemma socket_new_outcome:
  assumes "fresh_fds os" "socket_new os f t w = (s', w')"
  shows "sockfd s' = -1 \<and> error_code s' = err_no_socket \<and> error_state s' = state_create
       \<or> 0 \<le> sockfd s' \<and> sockfd s' \<notin> open_fds (trace w) \<and> sockfd s' \<in> open_fds (trace w')"
proof -
  have "ret (os_call os (trace w) (Fd (Socket f t))) = -1 \<or>
    0 \<le> ret (os_call os (trace w) (Fd (Socket f t))) \<and>
    ret (os_call os (trace w) (Fd (Socket f t))) \<notin> open_fds (trace w)"
    using assms(1) unfolding fresh_fds_def by blast
  then show ?thesis using assms(2)
    by (auto simp: socket_new_def sys_def Let_def is_valid_socket_def clear_buffers_def
        split: if_splits)
qed

section \<open>Transfers keep descriptors\<close>

lemma socket_write_safe:
  "socket_write os d n s w = (r, s', w') \<Longrightarrow> safe_step s w s' w'"
  by (auto simp: socket_write_def wait_for_writable_def sys_def Let_def safe_step_def
      split: if_splits)

lemma socket_read_safe:
  "socket_read os d n s w = (r, d', s', w') \<Longrightarrow> safe_step s w s' w'"
  by (auto simp: socket_read_def wait_for_readable_def sys_def Let_def safe_step_def
      split: if_splits)

lemma read_line_loop_safe:
  "read_line_loop os k i cr lf b s w = (f, b', s', w') \<Longrightarrow> safe_step s w s' w'"
proof (induction os k i cr lf b s w rule: read_line_loop.induct)
  case (1 os k i cr lf b s w)
  then show ?case
    by (auto simp: read_line_loop.simps [of os k i cr lf b s w] sys_def Let_def safe_step_def
        split: if_splits)
qed

end
