(* ===== verification/Stream_Read.thy ===== *)
theory Stream_Read
  imports Base_Socket
begin

text \<open>
  What the reading operations deliver. The interface is the locale \<open>virtual_read\<close>: what
  every class's \<open>read(buffer, n)\<close> promises, with the lemmas of the operations that call it
  virtually (\<open>read_until\<close>, the internal-buffer read, the string read) proved once; the base
  class interprets it here, the UDP and TLS classes in their own theories. The last section is
  \<open>read_line\<close>, which receives directly.
\<close>

section \<open>The contract of a virtual read\<close>

text \<open>
  A \<open>read(buffer, n)\<close> of any class returns at most \<open>n\<close>, stores exactly the bytes
  it received at the front of the buffer and leaves the rest of the buffer alone.
\<close>

definition read_contract ::
  "byte list \<Rightarrow> int \<Rightarrow> world \<Rightarrow> int \<Rightarrow> byte list option \<Rightarrow> world \<Rightarrow> bool" where
  "read_contract buf n w r b' w' \<longleftrightarrow>
    r \<le> n \<and>
    (\<exists>buf'. b' = Some buf' \<and> length buf' = length buf \<and>
       drop (nat r) buf' = drop (nat r) buf \<and>
       inbound (trace w') = inbound (trace w) @ take (nat r) buf')"

lemma read_contractE:
  assumes "read_contract buf n w r b' w'"
  obtains buf' where "b' = Some buf'" "length buf' = length buf" "r \<le> n"
    "drop (nat r) buf' = drop (nat r) buf"
    "inbound (trace w') = inbound (trace w) @ take (nat r) buf'"
  using assms by (auto simp: read_contract_def)

lemma read_contract_overwrite:
  assumes "length new = nat r" "r \<le> n" "n \<le> int (length buf)"
    "inbound (trace w') = inbound (trace w) @ new"
  shows "read_contract buf n w r (Some (overwrite new buf)) w'"
proof -
  have "take (nat r) (overwrite new buf) = new" using assms(1) take_overwrite by metis
  then show ?thesis using assms by (simp add: read_contract_def)
qed

lemma read_contract_nothing:
  "r \<le> 0 \<Longrightarrow> 0 < n \<Longrightarrow> inbound (trace w') = inbound (trace w) \<Longrightarrow>
   read_contract buf n w r (Some buf) w'"
  by (simp add: read_contract_def)

locale virtual_read =
  fixes rd :: "os \<Rightarrow> byte list option \<Rightarrow> int \<Rightarrow> 'a sock_scheme \<Rightarrow> world \<Rightarrow>
    int \<times> byte list option \<times> 'a sock_scheme \<times> world"
  assumes rd_contract:
      "recv_bounded os \<Longrightarrow> 0 < n \<Longrightarrow> n \<le> int (length buf) \<Longrightarrow>
       rd os (Some buf) n s w = (r, b', s', w') \<Longrightarrow> read_contract buf n w r b' w'"
    and rd_safe: "rd os b n s w = (r, b', s', w') \<Longrightarrow> safe_step s w s' w'"
    and rd_inbuffer: "rd os b n s w = (r, b', s', w') \<Longrightarrow> inbuffer s' = inbuffer s"
begin

lemma until_step:
  assumes "recv_bounded os" "0 \<le> tot" "tot < n" "n \<le> int (length buf)"
    and rd: "rd os (Some (drop (nat tot) buf)) (n - tot) s w = (r, b', s', w')"
  obtains buf' where
    "take (nat tot) buf @ (case b' of Some b \<Rightarrow> b | None \<Rightarrow> []) = buf'"
    "length buf' = length buf" "take (nat tot) buf' = take (nat tot) buf" "r \<le> n - tot"
    "drop (nat (tot + r)) buf' = drop (nat (tot + r)) buf \<or> r \<le> 0 \<and>
       drop (nat tot) buf' = drop (nat tot) buf"
    "inbound (trace w') = inbound (trace w) @ take (nat r) (drop (nat tot) buf')"
proof -
  have c: "read_contract (drop (nat tot) buf) (n - tot) w r b' w'"
    by (rule rd_contract [OF assms(1) _ _ rd]) (use assms(2-4) in auto)
  then obtain sub where sub: "b' = Some sub" "length sub = length (drop (nat tot) buf)"
    "r \<le> n - tot" "drop (nat r) sub = drop (nat r) (drop (nat tot) buf)"
    "inbound (trace w') = inbound (trace w) @ take (nat r) sub"
    by (rule read_contractE)
  let ?b = "take (nat tot) buf @ sub"
  have tl: "nat tot \<le> length buf" using assms(2-4) by auto
  have pos: "drop (nat (tot + r)) ?b = drop (nat (tot + r)) buf" if "0 < r"
  proof -
    have "nat (tot + r) = nat tot + nat r" using that assms(2) by (simp add: nat_add_distrib)
    then show ?thesis using sub(4) tl by (simp add: add.commute)
  qed
  have none: "drop (nat tot) ?b = drop (nat tot) buf" if "r \<le> 0"
    using that sub(4) tl by simp
  have "drop (nat (tot + r)) ?b = drop (nat (tot + r)) buf \<or> r \<le> 0 \<and>
       drop (nat tot) ?b = drop (nat tot) buf"
    using pos none by (cases "0 < r") auto
  then show thesis
    by (rule that [of ?b, rotated 4]) (use sub tl in auto)
qed

text \<open>
  The loop delivers a contiguous piece of the stream: nothing is lost, repeated or reordered,
  and a short result means that the last read delivered nothing.
\<close>

lemma read_until_loop_contract:
  assumes "recv_bounded os" "0 \<le> tot" "tot \<le> n" "n \<le> int (length buf)"
    and "read_until_loop (rd os) buf n tot s w = (k, buf', s', w')"
  shows "tot \<le> k \<and> k \<le> n \<and> length buf' = length buf \<and>
    take (nat tot) buf' = take (nat tot) buf \<and> drop (nat k) buf' = drop (nat k) buf \<and>
    inbound (trace w') = inbound (trace w) @ take (nat (k - tot)) (drop (nat tot) buf') \<and>
    (k < n \<longrightarrow> (\<exists>b1 s1 w1 r b2. rd os b1 (n - k) s1 w1 = (r, b2, s', w') \<and> r \<le> 0))"
  using assms(2-5)
proof (induction "rd os" buf n tot s w rule: read_until_loop.induct)
  case (1 buf n tot s w)
  show ?case
  proof (cases "tot < n")
    case False
    with "1.prems" show ?thesis by (simp add: read_until_loop.simps)
  next
    case True
    obtain r b1 s1 w1 where rd: "rd os (Some (drop (nat tot) buf)) (n - tot) s w = (r, b1, s1, w1)"
      by (metis prod_cases4)
    obtain m where m: "take (nat tot) buf @ (case b1 of Some b \<Rightarrow> b | None \<Rightarrow> []) = m"
      "length m = length buf" "take (nat tot) m = take (nat tot) buf" "r \<le> n - tot"
      "drop (nat (tot + r)) m = drop (nat (tot + r)) buf \<or> r \<le> 0 \<and>
         drop (nat tot) m = drop (nat tot) buf"
      "inbound (trace w1) = inbound (trace w) @ take (nat r) (drop (nat tot) m)"
      by (rule until_step [OF assms(1) "1.prems"(1) True "1.prems"(3) rd]) blast
    note unf = read_until_loop.simps [of "rd os" buf n tot s w]
    show ?thesis
    proof (cases "r \<le> 0")
      case le: True
      then have res: "k = tot" "buf' = m" "s' = s1" "w' = w1"
        using "1.prems"(4) True rd m(1) by (auto simp: unf)
      have "drop (nat tot) m = drop (nat tot) buf"
      proof -
        have "nat (tot + r) \<le> nat tot" using le by simp
        then have "drop (nat tot) m = drop (nat tot) buf"
          if "drop (nat (tot + r)) m = drop (nat (tot + r)) buf"
          using that by (metis drop_drop le_add_diff_inverse2)
        with m(5) show ?thesis by blast
      qed
      moreover have "\<exists>b1 s1 w1 r b2. rd os b1 (n - k) s1 w1 = (r, b2, s', w') \<and> r \<le> 0"
        using rd res le by blast
      ultimately show ?thesis using res m le True by auto
    next
      case pos: False
      have rec: "read_until_loop (rd os) m n (tot + r) s1 w1 = (k, buf', s', w')"
        using "1.prems"(4) True rd m(1) pos by (simp add: unf)
      have IH: "tot + r \<le> k \<and> k \<le> n \<and> length buf' = length m \<and>
        take (nat (tot + r)) buf' = take (nat (tot + r)) m \<and> drop (nat k) buf' = drop (nat k) m \<and>
        inbound (trace w') = inbound (trace w1) @ take (nat (k - (tot + r))) (drop (nat (tot + r)) buf')
        \<and> (k < n \<longrightarrow> (\<exists>b1 s1 w1 r b2. rd os b1 (n - k) s1 w1 = (r, b2, s', w') \<and> r \<le> 0))"
        by (rule "1.hyps" [OF True rd [symmetric] refl refl refl m(1) [symmetric] pos _ _ _ rec])
          (use m "1.prems" pos in auto)
      have e: "nat (tot + r) = nat tot + nat r" "nat (k - tot) = nat r + nat (k - (tot + r))"
        "nat tot \<le> nat (tot + r)" "nat (tot + r) \<le> nat k"
        using IH pos "1.prems"(1) by auto
      have "take (nat tot) buf' = take (nat tot) m"
        using IH e(3) by (metis min.absorb1 take_take)
      moreover have "drop (nat k) m = drop (nat k) buf"
      proof -
        have "drop (nat (tot + r)) m = drop (nat (tot + r)) buf" using m(5) pos by auto
        then show ?thesis using e(4) by (metis drop_drop le_add_diff_inverse2)
      qed
      moreover have "take (nat r) (drop (nat tot) m) = take (nat r) (drop (nat tot) buf')"
      proof -
        have "take (nat tot + nat r) buf' = take (nat tot + nat r) m" using IH e(1) by simp
        then show ?thesis by (simp add: take_drop add.commute)
      qed
      moreover have "take (nat (k - tot)) (drop (nat tot) buf') =
          take (nat r) (drop (nat tot) buf') @
          take (nat (k - (tot + r))) (drop (nat (tot + r)) buf')"
        by (simp only: e(1,2) take_add_drop)
      ultimately show ?thesis using IH m(2,3,6) pos by auto
    qed
  qed
qed

lemma read_until_loop_safe:
  "read_until_loop (rd os) buf n tot s w = (k, buf', s', w') \<Longrightarrow> safe_step s w s' w'"
proof (induction "rd os" buf n tot s w rule: read_until_loop.induct)
  case (1 buf n tot s w)
  obtain r b1 s1 w1 where rd: "rd os (Some (drop (nat tot) buf)) (n - tot) s w = (r, b1, s1, w1)"
    by (metis prod_cases4)
  have st: "safe_step s w s1 w1" by (rule rd_safe [OF rd])
  show ?case
  proof (cases "tot < n \<and> \<not> r \<le> 0")
    case True
    then have "safe_step s1 w1 s' w'"
      using "1.prems" rd
      by (intro "1.hyps" [OF _ rd [symmetric] refl refl refl refl])
        (auto simp: read_until_loop.simps [of "rd os" buf n tot s w])
    with st show ?thesis by (rule safe_step_trans)
  next
    case False
    then show ?thesis using "1.prems" rd st
      by (auto simp: read_until_loop.simps [of "rd os" buf n tot s w] split: if_splits)
  qed
qed

lemma read_until_contract:
  assumes "recv_bounded os" "0 < n" "n \<le> int (length buf)" "is_valid_socket s"
    and "socket_read_until (rd os) (Some buf) n s w = (k, b', s', w')"
  shows "read_contract buf n w k b' w' \<and> 0 \<le> k \<and>
    (k < n \<longrightarrow> (\<exists>b1 s1 w1 r b2. rd os b1 (n - k) s1 w1 = (r, b2, s', w') \<and> r \<le> 0))"
proof -
  obtain buf' where l: "read_until_loop (rd os) buf n 0 s w = (k, buf', s', w')" "b' = Some buf'"
    using assms(2,4,5) by (auto simp: socket_read_until_def Let_def split: prod.splits)
  have "0 \<le> n" using assms(2) by simp
  note this_loop = read_until_loop_contract [OF assms(1) order_refl this assms(3) l(1)]
  then show ?thesis using l(2) by (auto simp: read_contract_def)
qed

lemma read_string_stream:
  assumes "recv_bounded os" "0 < n" "is_valid_socket s"
    and "socket_read_string (rd os) n s w = (str, s', w')"
  shows "inbound (trace w') = inbound (trace w) @ str \<and> int (length str) \<le> n"
proof -
  obtain r b1 s1 w1 where rd: "rd os (Some (replicate (nat n) 0)) n s w = (r, b1, s1, w1)"
    by (metis prod_cases4)
  have "read_contract (replicate (nat n) 0) n w r b1 w1"
    by (rule rd_contract [OF assms(1,2) _ rd]) simp
  then show ?thesis
    using assms rd
    by (elim read_contractE) (auto simp: socket_read_string_def split: if_splits)
qed

lemma read_internal_terminated:
  assumes "recv_bounded os" "length (inbuffer s) = 256"
    and "socket_read_internal (rd os) s w = (r, s', w')"
  shows "r \<le> 255 \<and> length (inbuffer s') = 256 \<and>
    (0 \<le> r \<longrightarrow> inbuffer s' ! nat r = 0 \<and>
       inbound (trace w') = inbound (trace w) @ take (nat r) (inbuffer s'))"
proof -
  obtain r1 b1 s1 w1 where rd: "rd os (Some (inbuffer s)) 255 s w = (r1, b1, s1, w1)"
    by (metis prod_cases4)
  have "read_contract (inbuffer s) 255 w r1 b1 w1"
    by (rule rd_contract [OF assms(1) _ _ rd]) (use assms(2) in auto)
  then show ?thesis
    using assms rd
    by (elim read_contractE) (auto simp: socket_read_internal_def Let_def split: if_splits)
qed

end

lemma socket_read_contract:
  assumes "recv_bounded os" "0 < n" "n \<le> int (length buf)"
    and "socket_read os (Some buf) n s w = (r, b', s', w')"
  shows "read_contract buf n w r b' w'"
proof -
  let ?c = "Io (Recv (sockfd s) n)"
  have bound: "ret (os_call os h ?c) \<le> n" "length (got (os_call os h ?c)) = nat (ret (os_call os h ?c))"
    for h using recv_boundedD [OF assms(1) _ assms(2), of ?c h] by simp_all
  show ?thesis
    using assms(2-4) bound
    by (auto simp: socket_read_def wait_for_readable_def sys_def Let_def
        intro!: read_contract_nothing read_contract_overwrite split: if_splits)
qed

interpretation base_read: virtual_read socket_read
proof
  show "read_contract buf n w r b' w'"
    if "recv_bounded os" "0 < n" "n \<le> int (length buf)"
      "socket_read os (Some buf) n s w = (r, b', s', w')" for os n buf s w r b' s' w'
    using that by (rule socket_read_contract)
  show "safe_step s w s' w'"
    if "socket_read os b n s w = (r, b', s', w')" for os b n s w r b' s' w'
    using that by (rule socket_read_safe)
  show "inbuffer s' = inbuffer s"
    if "socket_read os b n s w = (r, b', s', w')" for os b n s w r b' s' w'
    using that by (auto simp: socket_read_def wait_for_readable_def sys_def Let_def split: if_splits)
qed

section \<open>Lines\<close>

definition write_at :: "nat \<Rightarrow> 'a list \<Rightarrow> 'a list \<Rightarrow> 'a list" where
  "write_at i new buf = take i buf @ new @ drop (i + length new) buf"

lemma write_at_Nil [simp]: "write_at i [] buf = buf"
  by (simp add: write_at_def)

lemma write_at_Cons:
  "i < length buf \<Longrightarrow> write_at (Suc i) xs (buf[i := c]) = write_at i (c # xs) buf"
  by (simp add: write_at_def take_Suc_conv_app_nth)

lemma read_line_loop_spec:
  assumes "recv_bounded os" "read_line_loop os k i cr lf buf s w = (found, buf', s', w')"
    "0 \<le> i" "i \<le> k - 1" "k \<le> int (length buf)" "last_n s = i" "\<not> (cr \<and> lf)"
  shows "\<exists>line. last_n s' = i + int (length line) \<and> last_n s' \<le> k - 1 \<and>
    inbound (trace w') = inbound (trace w) @ line \<and>
    (found \<longleftrightarrow> (cr \<or> 13 \<in> set line) \<and> (lf \<or> 10 \<in> set line)) \<and>
    (found \<longrightarrow> line \<noteq> [] \<and>
       \<not> ((cr \<or> 13 \<in> set (butlast line)) \<and> (lf \<or> 10 \<in> set (butlast line)))) \<and>
    buf' = (if found then (write_at (nat i) line buf)[nat (last_n s') := 0]
            else write_at (nat i) line buf)"
  using assms
proof (induction os k i cr lf buf s w rule: read_line_loop.induct)
  case (1 os k i cr lf buf s w)
  note unf = read_line_loop.simps [of os k i cr lf buf s w]
  let ?c = "Io (Recv (sockfd s) 1)"
  let ?r = "os_call os (trace w) ?c"
  let ?w = "w\<lparr>trace := (?c, ?r) # trace w, errno := if ret ?r < 0 then err ?r else errno w\<rparr>"
  have b: "ret ?r \<le> 1" "length (got ?r) = nat (ret ?r)"
    using recv_boundedD [OF "1.prems"(1), of ?c 1 "trace w"] by simp_all
  consider "\<not> i < k - 1" | "i < k - 1" "ret ?r \<le> 0" | "i < k - 1" "ret ?r = 1"
    using b(1) by linarith
  then show ?case
  proof cases
    case 1
    with "1.prems" show ?thesis by (auto simp: unf intro!: exI [of _ "[]"])
  next
    case 2
    with "1.prems" b show ?thesis
      by (auto simp: unf sys_def Let_def intro!: exI [of _ "[]"] split: if_splits)
  next
    case 3
    then obtain c where c: "got ?r = [c]" using b(2) by (auto simp: length_Suc_conv)
    let ?s = "s\<lparr>last_n := last_n s + 1\<rparr>"
    let ?cr = "cr \<or> c = 13" and ?lf = "lf \<or> c \<noteq> 13 \<and> c = 10"
    have in1: "inbound (trace ?w) = inbound (trace w) @ [c]" using c by simp
    have il: "nat i < length buf" using 3 "1.prems"(3-5) by linarith
    show ?thesis
    proof (cases "?cr \<and> ?lf")
      case True
      then have "found" "buf' = buf[nat i := c, nat (min (i + 1) (k - 1)) := 0]" "s' = ?s" "w' = ?w"
        using "1.prems"(2) 3 c by (auto simp: unf sys_def Let_def)
      moreover have "min (i + 1) (k - 1) = i + 1" using 3 by simp
      moreover have "write_at (nat i) [c] buf = buf[nat i := c]"
        using write_at_Cons [OF il, of "[]" c] by simp
      ultimately show ?thesis
        using in1 True 3 "1.prems"(6,7) by (intro exI [of _ "[c]"]) auto
    next
      case False
      have rec: "read_line_loop os k (i + 1) ?cr ?lf (buf[nat i := c]) ?s ?w = (found, buf', s', w')"
        using "1.prems"(2) 3 c False by (simp add: unf sys_def Let_def)
      have sy: "(?r, ?w) = sys os ?c w" by (simp add: sys_def Let_def)
      have one: "1 = ret ?r" and hd: "c = hd (got ?r)" using 3 c by simp_all
      have pre: "(1::int) \<noteq> 0" "\<not> (1::int) < 0" "0 \<le> i + 1" "i + 1 \<le> k - 1"
        "k \<le> int (length (buf[nat i := c]))" "last_n ?s = i + 1"
        using 3 "1.prems"(3-6) by simp_all
      note IH = "1.IH" [OF 3(1) refl sy one pre(1,2) hd refl refl refl refl False "1.prems"(1) rec
          pre(3-6) False]
      obtain line where l: "last_n s' = i + 1 + int (length line)" "last_n s' \<le> k - 1"
        "inbound (trace w') = inbound (trace ?w) @ line"
        "found \<longleftrightarrow> (?cr \<or> 13 \<in> set line) \<and> (?lf \<or> 10 \<in> set line)"
        "found \<longrightarrow> line \<noteq> [] \<and>
          \<not> ((?cr \<or> 13 \<in> set (butlast line)) \<and> (?lf \<or> 10 \<in> set (butlast line)))"
        "buf' = (if found then (write_at (nat (i + 1)) line (buf[nat i := c]))[nat (last_n s') := 0]
            else write_at (nat (i + 1)) line (buf[nat i := c]))"
        using IH by blast
      have "write_at (nat (i + 1)) line (buf[nat i := c]) = write_at (nat i) (c # line) buf"
      proof -
        have "nat (i + 1) = Suc (nat i)" using "1.prems"(3) by linarith
        then show ?thesis by (simp only: write_at_Cons [OF il])
      qed
      then have buf: "buf' = (if found then (write_at (nat i) (c # line) buf)[nat (last_n s') := 0]
          else write_at (nat i) (c # line) buf)"
        using l(6) by simp
      have "found \<longleftrightarrow> (cr \<or> 13 \<in> set (c # line)) \<and> (lf \<or> 10 \<in> set (c # line))"
        using l(4) by auto
      moreover have "found \<longrightarrow> c # line \<noteq> [] \<and>
          \<not> ((cr \<or> 13 \<in> set (butlast (c # line))) \<and> (lf \<or> 10 \<in> set (butlast (c # line))))"
        using l(5) by auto
      moreover have "last_n s' = i + int (length (c # line))" using l(1) by simp
      moreover have "inbound (trace w') = inbound (trace w) @ c # line"
        using l(3) in1 by simp
      ultimately show ?thesis using l(2) buf by blast
    qed
  qed
qed

lemma list_update_same_zero:
  "i < length xs \<Longrightarrow> xs ! i = z \<Longrightarrow> xs[i := z] = xs"
  by (metis list_update_id)

lemma read_line_delivers:
  assumes "recv_bounded os" "is_valid_socket s" "0 < n" "n \<le> int (length buf)"
    and "socket_read_line os (Some buf) n s w = (r, b', s', w')"
  shows "\<exists>line. r = int (length line) \<and> r < min n 256 \<and>
    inbound (trace w') = inbound (trace w) @ line \<and>
    \<not> (13 \<in> set (butlast line) \<and> 10 \<in> set (butlast line)) \<and>
    b' = Some (overwrite (line @ replicate (nat (min n 256) - length line) 0) buf)"
proof -
  define k where "k = min n 256"
  let ?b0 = "overwrite (replicate (nat k) 0) buf"
  obtain found b1 s1 w1 where
    loop: "read_line_loop os k 0 False False ?b0 (s\<lparr>last_n := 0\<rparr>) w = (found, b1, s1, w1)"
    by (metis prod_cases4)
  have k: "0 < k" "k \<le> int (length buf)" using assms(3,4) by (auto simp: k_def)
  have res: "r = last_n s1" "w' = w1"
    "b' = Some (if found then b1 else b1[nat (k - 1) := 0])"
    using assms(2,3,5) loop
    by (cases "256 < n"; auto simp: socket_read_line_def Let_def k_def min_def split: if_splits)+
  have len0: "length ?b0 = length buf" using k by simp
  obtain line where l: "last_n s1 = int (length line)" "last_n s1 \<le> k - 1"
    "inbound (trace w1) = inbound (trace w) @ line"
    "found \<longleftrightarrow> 13 \<in> set line \<and> 10 \<in> set line"
    "found \<longrightarrow> \<not> (13 \<in> set (butlast line) \<and> 10 \<in> set (butlast line))"
    "b1 = (if found then (write_at 0 line ?b0)[length line := 0] else write_at 0 line ?b0)"
    using read_line_loop_spec [OF assms(1) loop] k len0 by fastforce
  have "length line < nat k" using l(1,2) k(1) by linarith
  then have w0: "write_at 0 line ?b0 = overwrite (line @ replicate (nat k - length line) 0) buf"
    by (simp add: write_at_def overwrite_def)
  have zero: "(write_at 0 line ?b0)[i := 0] = write_at 0 line ?b0"
    if "length line \<le> i" "i < nat k" for i
    unfolding w0 by (rule list_update_same_zero)
      (use that k in \<open>auto simp: overwrite_def nth_append\<close>)
  have "b' = Some (write_at 0 line ?b0)"
    using res(3) l(6) zero [of "length line"] zero [of "nat (k - 1)"] \<open>length line < nat k\<close> k(1)
    by (auto simp: nat_diff_distrib)
  moreover have "\<not> (13 \<in> set (butlast line) \<and> 10 \<in> set (butlast line))"
    using l(4,5) by (auto dest: in_set_butlastD)
  ultimately show ?thesis
    using res(1,2) l(1-3) w0 by (intro exI [of _ line]) (auto simp: k_def)
qed

section \<open>Properties\<close>

text \<open>
  C9. \<open>read_until\<close> delivers a contiguous piece of the byte stream: what it returns is what
  the descriptor received meanwhile, in order, stored at the front of the buffer, the rest of
  which is untouched; and it stops short only after a read that returned nothing.
\<close>

theorem socket_read_until_contiguous:
  assumes "recv_bounded os" "0 < n" "n \<le> int (length buf)" "is_valid_socket s"
    and "socket_read_until (socket_read os) (Some buf) n s w = (k, b', s', w')"
  shows "0 \<le> k \<and> k \<le> n \<and>
    (\<exists>buf'. b' = Some buf' \<and> length buf' = length buf \<and> drop (nat k) buf' = drop (nat k) buf \<and>
       inbound (trace w') = inbound (trace w) @ take (nat k) buf') \<and>
    (k = n \<or> (\<exists>b1 s1 w1 r b2. socket_read os b1 (n - k) s1 w1 = (r, b2, s', w') \<and> r \<le> 0))"
  using base_read.read_until_contract [OF assms] by (auto simp: read_contract_def)

definition sample_sock :: sock where
  "sample_sock = sock_init\<lparr>sockfd := 3, connected := True\<rparr>"

theorem socket_read_until_contiguous_witness:
  "\<exists>k b' s' w'. socket_read_until (socket_read (scripted_os [7, 8, 9])) (Some [0, 0, 0, 0, 0]) 4
      sample_sock world0 = (k, b', s', w') \<and>
    (\<exists>buf'. b' = Some buf' \<and> drop (nat k) buf' = drop (nat k) [0, 0, 0, 0, 0] \<and>
      inbound (trace w') = take (nat k) buf')"
proof -
  obtain k b' s' w' where r: "socket_read_until (socket_read (scripted_os [7, 8, 9]))
    (Some [0, 0, 0, 0, 0]) 4 sample_sock world0 = (k, b', s', w')" by (metis prod_cases4)
  have "inbound (trace world0) = []" by (simp add: world0_def)
  then show ?thesis
    using r socket_read_until_contiguous [OF scripted_recv_bounded _ _ _ r]
    by (auto simp: sample_sock_def sock_init_def is_valid_socket_def)
qed

text \<open>
  The string read returns exactly the bytes received by it, embedded zero bytes included, and
  never more than were asked for.
\<close>

lemma socket_read_string_binary:
  assumes "recv_bounded os" "0 < n" "is_valid_socket s"
    and "socket_read_string (socket_read os) n s w = (str, s', w')"
  shows "inbound (trace w') = inbound (trace w) @ str \<and> int (length str) \<le> n"
  by (rule base_read.read_string_stream [OF assms])

text \<open>
  \<open>read_line\<close> on a valid socket returns the length of the line it consumed, always
  below both the caller's size and 256; the line is what the stream delivered, it stops no later
  than the first position by which a carriage return and a line feed have both occurred, and the
  buffer then holds the line followed by zero bytes.
\<close>

lemma socket_read_line_delivers:
  assumes "recv_bounded os" "is_valid_socket s" "0 < n" "n \<le> int (length buf)"
    and "socket_read_line os (Some buf) n s w = (r, b', s', w')"
  shows "\<exists>line. r = int (length line) \<and> r < min n 256 \<and>
    inbound (trace w') = inbound (trace w) @ line \<and>
    \<not> (13 \<in> set (butlast line) \<and> 10 \<in> set (butlast line)) \<and>
    b' = Some (overwrite (line @ replicate (nat (min n 256) - length line) 0) buf)"
  by (rule read_line_delivers [OF assms])

end
