(* ===== verification/Socket_Options.thy ===== *)
theory Socket_Options
  imports Stream_Read
begin

text \<open>
  Timeouts, socket options and blocking mode of \<open>src/socket.cpp\<close>, and the RAII guard
  \<open>blocking_mode_guard\<close> as the two functions its constructor and destructor are.
\<close>

section \<open>Options\<close>

definition O_NONBLOCK :: int where [simp]: "O_NONBLOCK = 2048"

definition set_read_timeout :: "int \<Rightarrow> 'a sock_scheme \<Rightarrow> int \<times> 'a sock_scheme" where
  "set_read_timeout timeout_ms s =
    (if timeout_ms < 0 then (- 1, s\<lparr>error_code := err_invalid_argument\<rparr>)
     else (0, s\<lparr>read_timeout_ms := timeout_ms, error_code := err_none\<rparr>))"

definition set_write_timeout :: "int \<Rightarrow> 'a sock_scheme \<Rightarrow> int \<times> 'a sock_scheme" where
  "set_write_timeout timeout_ms s =
    (if timeout_ms < 0 then (- 1, s\<lparr>error_code := err_invalid_argument\<rparr>)
     else (0, s\<lparr>write_timeout_ms := timeout_ms, error_code := err_none\<rparr>))"

definition set_connect_timeout :: "int \<Rightarrow> 'a sock_scheme \<Rightarrow> int \<times> 'a sock_scheme" where
  "set_connect_timeout timeout_ms s =
    (if timeout_ms < 0 then (- 1, s\<lparr>error_code := err_invalid_argument\<rparr>)
     else (0, s\<lparr>connect_timeout_ms := timeout_ms, error_code := err_none\<rparr>))"

text \<open>The four option setters share one shape; only the option differs.\<close>

definition set_option ::
  "os \<Rightarrow> sockopt \<Rightarrow> 'a sock_scheme \<Rightarrow> world \<Rightarrow> int \<times> 'a sock_scheme \<times> world" where
  "set_option os opt s w =
    (if \<not> is_valid_socket s
     then (- 1, s\<lparr>error_code := err_no_socket, error_state := state_create\<rparr>, w)
     else
       let (r, w) = sys os (Io (Setsockopt (sockfd s) opt)) w in
       if ret r < 0
       then (- 1, s\<lparr>error_code := translate_native_error (errno w), error_state := state_create\<rparr>, w)
       else (0, s\<lparr>error_code := err_none\<rparr>, w))"

definition set_tcp_nodelay ::
  "os \<Rightarrow> bool \<Rightarrow> 'a sock_scheme \<Rightarrow> world \<Rightarrow> int \<times> 'a sock_scheme \<times> world" where
  "set_tcp_nodelay os enabled = set_option os (Tcp_nodelay (if enabled then 1 else 0))"

definition set_so_reuseaddr ::
  "os \<Rightarrow> bool \<Rightarrow> 'a sock_scheme \<Rightarrow> world \<Rightarrow> int \<times> 'a sock_scheme \<times> world" where
  "set_so_reuseaddr os enabled = set_option os (So_reuseaddr (if enabled then 1 else 0))"

definition set_so_linger ::
  "os \<Rightarrow> int \<Rightarrow> 'a sock_scheme \<Rightarrow> world \<Rightarrow> int \<times> 'a sock_scheme \<times> world" where
  "set_so_linger os linger_time_sec =
     set_option os (So_linger (if linger_time_sec > 0 then 1 else 0) linger_time_sec)"

definition set_ipv6_v6only ::
  "os \<Rightarrow> bool \<Rightarrow> 'a sock_scheme \<Rightarrow> world \<Rightarrow> int \<times> 'a sock_scheme \<times> world" where
  "set_ipv6_v6only os enabled = set_option os (Ipv6_v6only (if enabled then 1 else 0))"

text \<open>The fire-and-forget variants ignore the result.\<close>

definition set_option_quietly :: "os \<Rightarrow> sockopt \<Rightarrow> 'a sock_scheme \<Rightarrow> world \<Rightarrow> world" where
  "set_option_quietly os opt s w =
    (if \<not> is_valid_socket s then w
     else snd (sys os (Io (Setsockopt (sockfd s) opt)) w))"

definition set_socket_reuseaddr :: "os \<Rightarrow> 'a sock_scheme \<Rightarrow> world \<Rightarrow> world" where
  "set_socket_reuseaddr os = set_option_quietly os (So_reuseaddr 1)"

definition set_socket_tcp_nodelay :: "os \<Rightarrow> 'a sock_scheme \<Rightarrow> world \<Rightarrow> world" where
  "set_socket_tcp_nodelay os = set_option_quietly os (Tcp_nodelay 1)"

definition set_socket_linger :: "os \<Rightarrow> int \<Rightarrow> 'a sock_scheme \<Rightarrow> world \<Rightarrow> world" where
  "set_socket_linger os linger_sec =
     set_option_quietly os (So_linger (if linger_sec > 0 then 1 else 0) linger_sec)"

section \<open>Blocking mode\<close>

definition nonblocking_flags :: "bool \<Rightarrow> int \<Rightarrow> int" where
  "nonblocking_flags nonblocking fl =
    (if nonblocking then fl OR O_NONBLOCK else fl AND NOT O_NONBLOCK)"

definition set_socket_nonblocking ::
  "os \<Rightarrow> bool \<Rightarrow> 'a sock_scheme \<Rightarrow> world \<Rightarrow> int \<times> 'a sock_scheme \<times> world" where
  "set_socket_nonblocking os nonblocking s w =
    (if \<not> is_valid_socket s then (- 1, s\<lparr>error_code := err_no_socket\<rparr>, w)
     else
       let (f, w) = sys os (Io (Getfl (sockfd s))) w in
       if ret f < 0 then (- 1, s, w)
       else
         let (r, w) = sys os (Io (Setfl (sockfd s) (nonblocking_flags nonblocking (ret f)))) w in
         if ret r \<noteq> 0
         then (- 1, s\<lparr>error_code := translate_native_error (errno w)\<rparr>, w)
         else (0, s, w))"

definition set_blocking ::
  "os \<Rightarrow> bool \<Rightarrow> 'a sock_scheme \<Rightarrow> world \<Rightarrow> int \<times> 'a sock_scheme \<times> world" where
  "set_blocking os flag s w =
    (if \<not> is_valid_socket s
     then (- 1, s\<lparr>error_code := err_no_socket, error_state := state_create\<rparr>, w)
     else
       let (result, s, w) = set_socket_nonblocking os (\<not> flag) s w in
       if result \<noteq> 0
       then (- 1, s\<lparr>error_code := translate_native_error (errno w), error_state := state_create\<rparr>, w)
       else (0, s\<lparr>blocking := flag, error_code := err_none\<rparr>, w))"

text \<open>
  The guard remembers the mode of a (non-null) socket, enters non-blocking mode and, if that
  worked, restores the mode at the end of its scope, keeping an error reported meanwhile.
\<close>

record mode_guard =
  original_blocking :: bool
  guard_valid :: bool

definition guard_enter ::
  "os \<Rightarrow> 'a sock_scheme \<Rightarrow> world \<Rightarrow> mode_guard \<times> 'a sock_scheme \<times> world" where
  "guard_enter os s w =
    (let orig = blocking s; (r, s, w) = set_blocking os False s w in
     (\<lparr>original_blocking = orig, guard_valid = (r = 0)\<rparr>, s, w))"

definition guard_leave ::
  "os \<Rightarrow> mode_guard \<Rightarrow> 'a sock_scheme \<Rightarrow> world \<Rightarrow> 'a sock_scheme \<times> world" where
  "guard_leave os g s w =
    (if guard_valid g
     then
       let previous_error = error_code s;
           (r, s, w) = set_blocking os (original_blocking g) s w in
       (if r = 0 \<and> previous_error \<noteq> err_none then set_error previous_error s else s, w)
     else (s, w))"

section \<open>Lemmas\<close>

lemma nonblocking_flags_bit:
  "bit (nonblocking_flags nb fl) 11 = nb"
proof -
  have "(2048::int) = 2 ^ 11" by simp
  then have b: "bit (2048::int) i = (i = 11)" for i
    by (metis bit_exp_iff possible_bit_int)
  then show ?thesis
    by (simp add: nonblocking_flags_def bit_or_iff bit_and_iff bit_not_iff possible_bit_def)
qed

lemma nonblocking_flags_other_bits:
  "i \<noteq> 11 \<Longrightarrow> bit (nonblocking_flags nb fl) i = bit fl i"
proof -
  assume "i \<noteq> 11"
  have "(2048::int) = 2 ^ 11" by simp
  then have b: "bit (2048::int) j = (j = 11)" for j
    by (metis bit_exp_iff possible_bit_int)
  then have "bit (- 2049 :: int) j = (j \<noteq> 11)" for j
    using bit_not_int_iff [of 2048 j] by simp
  with b \<open>i \<noteq> 11\<close> show ?thesis
    by (simp add: nonblocking_flags_def bit_or_iff bit_and_iff bit_not_iff possible_bit_def)
qed

lemma set_option_safe:
  "set_option os opt s w = (r, s', w') \<Longrightarrow> safe_step s w s' w' \<and> sockfd s' = sockfd s"
  by (auto simp: set_option_def sys_def Let_def safe_step_def split: if_splits)

lemma set_socket_nonblocking_safe:
  "set_socket_nonblocking os nb s w = (r, s', w') \<Longrightarrow> safe_step s w s' w' \<and> sockfd s' = sockfd s"
  by (auto simp: set_socket_nonblocking_def sys_def Let_def safe_step_def split: if_splits)

lemma set_blocking_safe:
  "set_blocking os flag s w = (r, s', w') \<Longrightarrow> safe_step s w s' w' \<and> sockfd s' = sockfd s"
  by (auto simp: set_blocking_def set_socket_nonblocking_def sys_def Let_def safe_step_def
      split: if_splits)

lemma set_blocking_result:
  "set_blocking os flag s w = (r, s', w') \<Longrightarrow> r = 0 \<or> r = -1"
  by (auto simp: set_blocking_def set_socket_nonblocking_def sys_def Let_def split: if_splits)

text \<open>On success the object's mode and the flags stored in the kernel agree.\<close>

lemma set_blocking_agrees:
  assumes "set_blocking os flag s w = (0, s', w')"
  shows "blocking s' = flag \<and> error_code s' = err_none \<and>
    (\<exists>f. fl_state (trace w') (sockfd s') = Some f \<and> bit f 11 = (\<not> flag))"
  using assms nonblocking_flags_bit
  by (auto simp: set_blocking_def set_socket_nonblocking_def sys_def Let_def split: if_splits)

lemma set_blocking_failure_frame:
  assumes "set_blocking os flag s w = (r, s', w')" "r \<noteq> 0"
  shows "blocking s' = blocking s \<and> error_state s' = state_create"
  using assms
  by (auto simp: set_blocking_def set_socket_nonblocking_def sys_def Let_def split: if_splits)

lemma guard_enter_safe:
  "guard_enter os s w = (g, s', w') \<Longrightarrow> safe_step s w s' w' \<and> sockfd s' = sockfd s"
  by (auto simp: guard_enter_def Let_def split: prod.splits dest: set_blocking_safe)

lemma guard_leave_safe:
  "guard_leave os g s w = (s', w') \<Longrightarrow> safe_step s w s' w' \<and> sockfd s' = sockfd s"
  by (auto simp: guard_leave_def Let_def set_error_def safe_step_def
      split: prod.splits if_splits dest!: set_blocking_safe)

section \<open>Properties\<close>

text \<open>
  \<open>set_blocking\<close> keeps the object's mode and the kernel's in agreement: on success
  both are the mode asked for and no error is pending, on failure the object keeps the mode it
  had. No flag bit other than \<open>O_NONBLOCK\<close> is ever changed, and the descriptor stays.
\<close>

lemma set_blocking_agrees_with_kernel:
  assumes "set_blocking os flag s w = (r, s', w')"
  shows "sockfd s' = sockfd s \<and> open_fds (trace w') = open_fds (trace w) \<and>
    (if r = 0
     then blocking s' = flag \<and> error_code s' = err_none \<and>
       (\<exists>old new. fl_state (trace w') (sockfd s') = Some new \<and> bit new 11 = (\<not> flag) \<and>
          ret (os_call os (trace w) (Io (Getfl (sockfd s)))) = old \<and>
          (\<forall>i. i = 11 \<or> bit new i = bit old i))
     else r = - 1 \<and> blocking s' = blocking s \<and> error_state s' = state_create)"
  using assms nonblocking_flags_bit nonblocking_flags_other_bits
  by (auto simp: set_blocking_def set_socket_nonblocking_def sys_def Let_def split: if_splits)

end
