(* ===== verification/Tcp.thy ===== *)
theory Tcp
  imports Socket_Options
begin

text \<open>
  TCP connect, bind, listen and accept of \<open>src/socket.cpp\<close>. The code closes through the
  virtual \<open>close()\<close>; the argument \<open>cl\<close> stands for the override of the object's class.
  What these operations need from an override is the locale \<open>virtual_close\<close>, interpreted
  here for the base class and by each derived class in its theory.
\<close>

section \<open>Connecting\<close>

definition connect_direct ::
  "os \<Rightarrow> sockaddr_storage \<Rightarrow> 'a sock_scheme \<Rightarrow> world \<Rightarrow> bool \<times> 'a sock_scheme \<times> world" where
  "connect_direct os target s w =
    (let (r, w) = sys os (Io (Connect (sockfd s) target)) w in
     if ret r = 0 then (True, s, w)
     else (False, s\<lparr>error_code := translate_native_error (errno w),
                    error_state := state_connect\<rparr>, w))"

text \<open>The attempt on a descriptor in non-blocking mode, inside the scope of the guard.\<close>

definition connect_nonblocking ::
  "os \<Rightarrow> sockaddr_storage \<Rightarrow> 'a sock_scheme \<Rightarrow> world \<Rightarrow> bool \<times> 'a sock_scheme \<times> world" where
  "connect_nonblocking os target s w =
    (let (status, w) = sys os (Io (Connect (sockfd s) target)) w in
     if ret status = 0 then (True, s, w)
     else
       let error = errno w; pending = (error = EINPROGRESS \<or> error = EWOULDBLOCK) in
       if pending
       then
         let (ready, w) = wait_for_writable os (sockfd s) (connect_timeout_ms s) w in
         if ready > 0
         then
           let (so, w) = sys os (Io (So_error (sockfd s))) w in
           if ret so \<noteq> 0
           then (False, s\<lparr>error_code := translate_native_error (errno w),
                          error_state := state_connect\<rparr>, w)
           else if val so = 0 then (True, s, w)
           else (False, s\<lparr>error_code := translate_native_error (val so),
                          error_state := state_connect\<rparr>, w)
         else if ready = 0
         then (False, s\<lparr>error_code := err_timeout, error_state := state_connect\<rparr>, w)
         else (False, s\<lparr>error_code := translate_native_error (errno w),
                        error_state := state_connect\<rparr>, w)
       else (False, s\<lparr>error_code := translate_native_error error,
                      error_state := state_connect\<rparr>, w))"

definition connect_timed ::
  "os \<Rightarrow> sockaddr_storage \<Rightarrow> 'a sock_scheme \<Rightarrow> world \<Rightarrow> bool \<times> 'a sock_scheme \<times> world" where
  "connect_timed os target s w =
    (let (guard, s, w) = guard_enter os s w;
         (succeeded, s, w) =
           (if \<not> guard_valid guard
            then (False, s\<lparr>error_code := translate_native_error (errno w),
                           error_state := state_connect\<rparr>, w)
            else connect_nonblocking os target s w);
         (s, w) = guard_leave os guard s w in
     (succeeded, s, w))"

definition connect_attempt ::
  "os \<Rightarrow> sockaddr_storage \<Rightarrow> 'a sock_scheme \<Rightarrow> world \<Rightarrow> bool \<times> 'a sock_scheme \<times> world" where
  "connect_attempt os target s w =
    (if connect_timeout_ms s > 0 then connect_timed os target s w
     else connect_direct os target s w)"

definition tcp_connect_addr ::
  "os \<Rightarrow> (os \<Rightarrow> 'a sock_scheme \<Rightarrow> world \<Rightarrow> bool \<times> 'a sock_scheme \<times> world) \<Rightarrow>
   address \<Rightarrow> 'a sock_scheme \<Rightarrow> world \<Rightarrow> bool \<times> 'a sock_scheme \<times> world"
where
  "tcp_connect_addr os cl addr s w =
    (let target = get_sockaddr_storage addr; family = ss_family target in
     if family \<noteq> AF_INET \<and> family \<noteq> AF_INET6
     then (False, s\<lparr>error_code := err_no_socket, error_state := state_connect\<rparr>, w)
     else
       let (_, s, w) = cl os s w;
           (r, w) = sys os (Fd (Socket family SOCK_STREAM)) w;
           s = s\<lparr>sockfd := ret r, connected := False\<rparr> in
       if \<not> is_valid_socket s
       then (False, s\<lparr>error_code := err_no_socket, error_state := state_create\<rparr>, w)
       else
         let s = s\<lparr>net_family := family\<rparr>;
             (succeeded, s, w) = connect_attempt os target s w in
         if \<not> succeeded
         then let (_, s, w) = cl os s w in (False, s, w)
         else (True, (clear_buffers (s\<lparr>remote_addr := target, connected := True\<rparr>))
                       \<lparr>error_code := err_none, error_state := 0\<rparr>, w))"

fun tcp_connect_loop ::
  "os \<Rightarrow> (os \<Rightarrow> 'a sock_scheme \<Rightarrow> world \<Rightarrow> bool \<times> 'a sock_scheme \<times> world) \<Rightarrow>
   addrinfo list \<Rightarrow> 'a sock_scheme \<Rightarrow> world \<Rightarrow> bool \<times> 'a sock_scheme \<times> world"
where
  "tcp_connect_loop os cl [] s w = (False, s, w)"
| "tcp_connect_loop os cl (entry # rest) s w =
    (if ai_family entry \<noteq> AF_INET \<and> ai_family entry \<noteq> AF_INET6
     then tcp_connect_loop os cl rest s w
     else
       let (success, s, w) =
             (if ai_family entry = AF_INET
              then tcp_connect_addr os cl (address_of_in (deref_sockaddr (ai_addr entry))) s w
              else tcp_connect_addr os cl (address_of_in6 (deref_sockaddr (ai_addr entry))) s w) in
       if success then (True, s, w) else tcp_connect_loop os cl rest s w)"

definition tcp_connect_stored ::
  "os \<Rightarrow> (os \<Rightarrow> 'a sock_scheme \<Rightarrow> world \<Rightarrow> bool \<times> 'a sock_scheme \<times> world) \<Rightarrow>
   'a sock_scheme \<Rightarrow> world \<Rightarrow> bool \<times> 'a sock_scheme \<times> world"
where
  "tcp_connect_stored os cl s w =
    (if hostname s = [] \<or> \<not> is_valid_port (sock_port s)
     then (False, s\<lparr>error_code := err_no_host, error_state := state_resolve\<rparr>, w)
     else
       let (rv, w) =
             sys os (Io (Getaddrinfo (hostname s) (Some (sock_port s)) SOCK_STREAM False)) w in
       if ret rv \<noteq> 0
       then (False, s\<lparr>error_code := err_no_host, error_state := state_resolve\<rparr>, w)
       else
         let (success, s, w) = tcp_connect_loop os cl (infos rv) s w in
         (success, s\<lparr>connected := success\<rparr>, w))"

definition tcp_connect_host ::
  "os \<Rightarrow> (os \<Rightarrow> 'a sock_scheme \<Rightarrow> world \<Rightarrow> bool \<times> 'a sock_scheme \<times> world) \<Rightarrow>
   string option \<Rightarrow> int \<Rightarrow> 'a sock_scheme \<Rightarrow> world \<Rightarrow> bool \<times> 'a sock_scheme \<times> world"
where
  "tcp_connect_host os cl host p s w =
    (if host = None \<or> host = Some [] \<or> \<not> is_valid_port p
     then (False, s\<lparr>error_code := err_no_socket, error_state := state_connect\<rparr>, w)
     else tcp_connect_stored os cl ((set_remote_hostname (the host) s)\<lparr>sock_port := p\<rparr>) w)"

section \<open>Binding, listening, accepting\<close>

definition tcp_bind ::
  "os \<Rightarrow> sockaddr_storage option \<Rightarrow> 'a sock_scheme \<Rightarrow> world \<Rightarrow> int \<times> 'a sock_scheme \<times> world"
where
  "tcp_bind os addr s w =
    (if \<not> is_valid_socket s \<or> addr = None
     then (- 1, s\<lparr>error_code := err_no_socket, error_state := state_bind\<rparr>, w)
     else
       let (r, w) = sys os (Io (Bind (sockfd s) (the addr))) w in
       if ret r \<noteq> 0
       then (- 1, s\<lparr>error_code := translate_native_error (errno w), error_state := state_bind\<rparr>, w)
       else (0, s\<lparr>error_code := err_none\<rparr>, w))"

text \<open>The textual address: IPv6 first, then IPv4.\<close>

definition listen_target :: "os \<Rightarrow> string \<Rightarrow> int \<Rightarrow> sockaddr_storage option" where
  "listen_target os ip p =
    (case pton os AF_INET6 ip of
       Some b \<Rightarrow> Some ((set_sin6_addr b zero_sockaddr)
                    \<lparr>ss_family := AF_INET6, sin_port := htons (word_of_int p)\<rparr>)
     | None \<Rightarrow>
       (case pton os AF_INET ip of
          Some b \<Rightarrow> Some ((set_sin_addr b zero_sockaddr)
                       \<lparr>ss_family := AF_INET, sin_port := htons (word_of_int p)\<rparr>)
        | None \<Rightarrow> None))"

text \<open>Options, bind and listen on a fresh descriptor; the caller closes when this fails.\<close>

definition listen_attempt ::
  "os \<Rightarrow> sockaddr_storage \<Rightarrow> int \<Rightarrow> 'a sock_scheme \<Rightarrow> world \<Rightarrow> bool \<times> 'a sock_scheme \<times> world"
where
  "listen_attempt os target p s w =
    (let s = s\<lparr>net_family := ss_family target, sock_port := p\<rparr>;
         (_, s, w) = set_so_reuseaddr os True s w;
         (_, s, w) = (if ss_family target = AF_INET6 then set_ipv6_v6only os True s w
                      else (0, s, w));
         (b, s, w) = tcp_bind os (Some target) s w in
     if b \<noteq> 0 then (False, s, w)
     else
       let (l, w) = sys os (Io (Listen (sockfd s))) w in
       if ret l \<noteq> 0
       then (False, s\<lparr>error_code := translate_native_error (errno w),
                      error_state := state_accept\<rparr>, w)
       else (True, s, w))"

definition tcp_listen ::
  "os \<Rightarrow> (os \<Rightarrow> 'a sock_scheme \<Rightarrow> world \<Rightarrow> bool \<times> 'a sock_scheme \<times> world) \<Rightarrow>
   string option \<Rightarrow> int \<Rightarrow> 'a sock_scheme \<Rightarrow> world \<Rightarrow> bool \<times> 'a sock_scheme \<times> world"
where
  "tcp_listen os cl ip p s w =
    (if ip = None \<or> \<not> is_valid_port p
     then (False, s\<lparr>error_code := err_no_socket, error_state := state_bind\<rparr>, w)
     else case listen_target os (the ip) p of
       None \<Rightarrow> (False, s\<lparr>error_code := err_no_socket, error_state := state_bind\<rparr>, w)
     | Some target \<Rightarrow>
       let (_, s, w) = cl os s w;
           (r, w) = sys os (Fd (Socket (ss_family target) SOCK_STREAM)) w;
           s = s\<lparr>sockfd := ret r\<rparr> in
       if \<not> is_valid_socket s
       then (False, s\<lparr>error_code := err_no_socket, error_state := state_create\<rparr>, w)
       else
         let (ok, s, w) = listen_attempt os target p s w in
         if \<not> ok then let (_, s, w) = cl os s w in (False, s, w)
         else (True, s\<lparr>connected := True, error_state := 0, error_code := err_none\<rparr>, w))"

definition configure_accepted :: "os \<Rightarrow> int \<Rightarrow> bool \<Rightarrow> world \<Rightarrow> bool \<times> world" where
  "configure_accepted os fd block w =
    (let (f, w) = sys os (Io (Getfl fd)) w in
     if ret f < 0 then (False, w)
     else
       let (g, w) = sys os (Io (Setfl fd (nonblocking_flags (\<not> block) (ret f)))) w in
       (ret g = 0, w))"

definition tcp_accept ::
  "os \<Rightarrow> int \<Rightarrow> bool \<Rightarrow> 'a sock_scheme \<Rightarrow> world \<Rightarrow> int \<times> sockaddr_storage \<times> 'a sock_scheme \<times> world"
where
  "tcp_accept os timeout_ms block s w =
    (if \<not> is_valid_socket s
     then (invalid_socket, zero_sockaddr,
           s\<lparr>error_code := err_no_socket, error_state := state_accept\<rparr>, w)
     else
       let (ready, w) =
             (if timeout_ms > 0 then wait_for_readable os (sockfd s) timeout_ms w else (1, w)) in
       if ready = 0 then (invalid_socket, zero_sockaddr, s, w)
       else if ready < 0
       then (invalid_socket, zero_sockaddr,
             s\<lparr>error_code := translate_native_error (errno w), error_state := state_accept\<rparr>, w)
       else
         let (a, w) = sys os (Fd (Accept (sockfd s))) w; fd = ret a in
         if fd = invalid_socket
         then
           let error = errno w in
           if error = EAGAIN \<or> error = EWOULDBLOCK \<or> error = ECONNRESET
           then (invalid_socket, zero_sockaddr, s, w)
           else (invalid_socket, zero_sockaddr,
                 s\<lparr>error_code := translate_native_error error, error_state := state_accept\<rparr>, w)
         else
           let (ok, w) = configure_accepted os fd block w in
           if \<not> ok
           then
             let s = s\<lparr>error_code := translate_native_error (errno w), error_state := state_accept\<rparr>;
                 (_, w) = sys os (Fd (Close fd)) w in
             (invalid_socket, from_addr a, s, w)
           else
             let (_, w) = sys os (Io (Setsockopt fd (Tcp_nodelay 1))) w in
             (fd, from_addr a, s\<lparr>error_code := err_none, error_state := 0\<rparr>, w))"

section \<open>Lemmas on the attempts\<close>

lemma connect_direct_safe:
  "connect_direct os t s w = (ok, s', w') \<Longrightarrow> safe_step s w s' w' \<and> sockfd s' = sockfd s"
  by (auto simp: connect_direct_def sys_def Let_def safe_step_def split: if_splits)

lemma connect_direct_error:
  "errno_set os \<Longrightarrow> connect_direct os t s w = (False, s', w') \<Longrightarrow> error_code s' \<noteq> 0"
  by (auto simp: connect_direct_def Let_def split: if_splits prod.splits dest: sys_status_errno)

lemma connect_nonblocking_safe:
  "connect_nonblocking os t s w = (ok, s', w') \<Longrightarrow> safe_step s w s' w' \<and> sockfd s' = sockfd s"
  by (auto simp: connect_nonblocking_def wait_for_writable_def sys_def Let_def safe_step_def
      split: if_splits)

lemma connect_nonblocking_error:
  "errno_set os \<Longrightarrow> connect_nonblocking os t s w = (False, s', w') \<Longrightarrow> error_code s' \<noteq> 0"
  by (auto simp: connect_nonblocking_def wait_for_writable_def Let_def split: if_splits prod.splits
      dest: sys_status_errno sys_failed_errno)

text \<open>The three stages of a timed attempt: enter the mode, try, restore the mode.\<close>

lemma connect_timed_stages:
  assumes "connect_timed os t s w = (ok, s', w')"
  obtains g s1 w1 s2 w2 where "guard_enter os s w = (g, s1, w1)"
    "guard_leave os g s2 w2 = (s', w')"
    "if guard_valid g then connect_nonblocking os t s1 w1 = (ok, s2, w2)
     else \<not> ok \<and> w2 = w1 \<and>
       s2 = s1\<lparr>error_code := translate_native_error (errno w1), error_state := state_connect\<rparr>"
proof -
  obtain g s1 w1 where g: "guard_enter os s w = (g, s1, w1)" by (metis prod_cases3)
  obtain ok' s2 w2 where c: "connect_nonblocking os t s1 w1 = (ok', s2, w2)" by (metis prod_cases3)
  show thesis
  proof (cases "guard_valid g")
    case True
    then show thesis
      using assms g c by (intro that [OF g, of s2 w2])
        (auto simp: connect_timed_def Let_def split: prod.splits)
  next
    case False
    then show thesis
      using assms g by (intro that [OF g, of
          "s1\<lparr>error_code := translate_native_error (errno w1), error_state := state_connect\<rparr>" w1])
        (auto simp: connect_timed_def Let_def split: prod.splits)
  qed
qed

lemma connect_timed_safe:
  assumes "connect_timed os t s w = (ok, s', w')"
  shows "safe_step s w s' w' \<and> sockfd s' = sockfd s"
proof -
  obtain g s1 w1 s2 w2 where g: "guard_enter os s w = (g, s1, w1)"
    and l: "guard_leave os g s2 w2 = (s', w')"
    and m: "if guard_valid g then connect_nonblocking os t s1 w1 = (ok, s2, w2)
     else \<not> ok \<and> w2 = w1 \<and>
       s2 = s1\<lparr>error_code := translate_native_error (errno w1), error_state := state_connect\<rparr>"
    by (rule connect_timed_stages [OF assms])
  have "safe_step s1 w1 s2 w2 \<and> sockfd s2 = sockfd s1"
    using m connect_nonblocking_safe [of os t s1 w1 ok s2 w2]
    by (auto simp: safe_step_def split: if_splits)
  with guard_enter_safe [OF g] guard_leave_safe [OF l] show ?thesis
    by (auto intro: safe_step_trans)
qed

lemma connect_attempt_safe:
  "connect_attempt os t s w = (ok, s', w') \<Longrightarrow> safe_step s w s' w' \<and> sockfd s' = sockfd s"
  by (auto simp: connect_attempt_def split: if_splits
      dest: connect_timed_safe connect_direct_safe)

lemma set_blocking_error:
  assumes "errno_set os" "set_blocking os f s w = (r, s', w')" "r \<noteq> 0"
  shows "error_code s' \<noteq> 0"
  using assms
  by (auto simp: set_blocking_def set_socket_nonblocking_def Let_def
      split: if_splits prod.splits dest: sys_status_errno sys_failed_errno)

lemma guard_leave_error:
  assumes "errno_set os" "guard_leave os g s w = (s', w')" "error_code s \<noteq> 0"
  shows "error_code s' \<noteq> 0"
proof -
  obtain r s1 w1 where b: "set_blocking os (original_blocking g) s w = (r, s1, w1)"
    by (metis prod_cases3)
  show ?thesis
    using assms b set_blocking_error [OF assms(1) b]
    by (auto simp: guard_leave_def Let_def set_error_def split: if_splits)
qed

lemma guard_enter_invalid:
  assumes "errno_set os" "guard_enter os s w = (g, s', w')" "\<not> guard_valid g" "is_valid_socket s"
  shows "errno w' \<noteq> 0"
  using assms
  by (auto simp: guard_enter_def set_blocking_def set_socket_nonblocking_def Let_def
      split: if_splits prod.splits dest: sys_status_errno sys_failed_errno)

lemma connect_timed_error:
  assumes "errno_set os" "is_valid_socket s" "connect_timed os t s w = (False, s', w')"
  shows "error_code s' \<noteq> 0"
proof -
  obtain g s1 w1 s2 w2 where g: "guard_enter os s w = (g, s1, w1)"
    and l: "guard_leave os g s2 w2 = (s', w')"
    and m: "if guard_valid g then connect_nonblocking os t s1 w1 = (False, s2, w2)
     else \<not> False \<and> w2 = w1 \<and>
       s2 = s1\<lparr>error_code := translate_native_error (errno w1), error_state := state_connect\<rparr>"
    by (rule connect_timed_stages [OF assms(3)])
  have "error_code s2 \<noteq> 0"
    using m connect_nonblocking_error [OF assms(1), of t s1 w1 s2 w2] guard_enter_invalid [OF assms(1) g _ assms(2)]
    by (auto split: if_splits)
  then show ?thesis by (rule guard_leave_error [OF assms(1) l])
qed

lemma connect_attempt_error:
  "errno_set os \<Longrightarrow> is_valid_socket s \<Longrightarrow> connect_attempt os t s w = (False, s', w') \<Longrightarrow>
   error_code s' \<noteq> 0"
  by (auto simp: connect_attempt_def split: if_splits
      dest: connect_timed_error connect_direct_error)

lemma tcp_bind_safe:
  "tcp_bind os a s w = (r, s', w') \<Longrightarrow> safe_step s w s' w' \<and> sockfd s' = sockfd s"
  by (auto simp: tcp_bind_def sys_def Let_def safe_step_def split: if_splits)

lemma listen_attempt_safe:
  assumes "listen_attempt os t p s w = (ok, s', w')"
  shows "safe_step s w s' w' \<and> sockfd s' = sockfd s"
proof -
  let ?s0 = "s\<lparr>net_family := ss_family t, sock_port := p\<rparr>"
  obtain r1 s1 w1 where 1: "set_so_reuseaddr os True ?s0 w = (r1, s1, w1)" by (metis prod_cases3)
  obtain r2 s2 w2 where 2: "(if ss_family t = AF_INET6 then set_ipv6_v6only os True s1 w1
    else (0, s1, w1)) = (r2, s2, w2)" by (metis prod_cases3)
  obtain r3 s3 w3 where 3: "tcp_bind os (Some t) s2 w2 = (r3, s3, w3)" by (metis prod_cases3)
  have "safe_step s w s1 w1 \<and> sockfd s1 = sockfd s"
    using set_option_safe [OF 1 [unfolded set_so_reuseaddr_def]] by (auto simp: safe_step_def)
  moreover have "safe_step s1 w1 s2 w2 \<and> sockfd s2 = sockfd s1"
    using 2 set_option_safe [of os _ s1 w1 r2 s2 w2]
    by (auto simp: set_ipv6_v6only_def split: if_splits)
  moreover note tcp_bind_safe [OF 3]
  ultimately have "safe_step s w s3 w3 \<and> sockfd s3 = sockfd s"
    by (auto intro: safe_step_trans)
  then show ?thesis
    using assms 1 2 3
    by (auto simp: listen_attempt_def Let_def sys_def safe_step_def simp del: AF_INET6_def
        split: if_splits)
qed

lemma listen_attempt_error:
  assumes "errno_set os" "listen_attempt os t p s w = (False, s', w')"
  shows "error_code s' \<noteq> 0"
proof -
  let ?s0 = "s\<lparr>net_family := ss_family t, sock_port := p\<rparr>"
  obtain r1 s1 w1 where 1: "set_so_reuseaddr os True ?s0 w = (r1, s1, w1)" by (metis prod_cases3)
  obtain r2 s2 w2 where 2: "(if ss_family t = AF_INET6 then set_ipv6_v6only os True s1 w1
    else (0, s1, w1)) = (r2, s2, w2)" by (metis prod_cases3)
  obtain r3 s3 w3 where 3: "tcp_bind os (Some t) s2 w2 = (r3, s3, w3)" by (metis prod_cases3)
  have "error_code s3 \<noteq> 0" if "r3 \<noteq> 0"
    using 3 that assms(1) by (auto simp: tcp_bind_def Let_def split: if_splits prod.splits
        dest: sys_status_errno)
  then show ?thesis
    using assms 1 2 3
    by (auto simp: listen_attempt_def Let_def simp del: AF_INET6_def split: if_splits prod.splits
        dest: sys_status_errno)
qed

text \<open>
  Accepting hands over a fresh descriptor that is configured as asked, or none; a descriptor
  that could not be configured is closed. Other descriptors are untouched.
\<close>

lemma configure_accepted_effect:
  assumes "configure_accepted os fd block w = (ok, w')"
  shows "open_fds (trace w') = open_fds (trace w)" "closes_ok (trace w') = closes_ok (trace w)"
    "ok \<Longrightarrow> \<exists>f. fl_state (trace w') fd = Some f \<and> bit f 11 = (\<not> block)"
  using assms
  by (auto simp: configure_accepted_def sys_def Let_def nonblocking_flags_bit split: if_splits)

lemma tcp_accept_safe:
  assumes "fresh_fds os" "tcp_accept os t block s w = (fd, peer, s', w')"
  shows "fd_safe (-1) (trace w) fd (trace w') \<and> sockfd s' = sockfd s \<and>
    (fd = invalid_socket \<or> 0 \<le> fd \<and> fd \<notin> open_fds (trace w) \<and>
       (\<exists>f. fl_state (trace w') fd = Some f \<and> bit f 11 = (\<not> block)))"
proof -
  obtain ready w1 where r: "(if t > 0 then wait_for_readable os (sockfd s) t w else (1, w)) = (ready, w1)"
    by fastforce
  have w1: "open_fds (trace w1) = open_fds (trace w)" "closes_ok (trace w1) = closes_ok (trace w)"
    using r by (auto simp: wait_for_readable_def sys_def Let_def split: if_splits)
  obtain a w2 where a: "sys os (Fd (Accept (sockfd s))) w1 = (a, w2)" by fastforce
  obtain ok w3 where c: "configure_accepted os (ret a) block w2 = (ok, w3)" by fastforce
  note eff = configure_accepted_effect [OF c]
  have fresh: "ret a = -1 \<or> 0 \<le> ret a \<and> ret a \<notin> open_fds (trace w)"
    using fresh_accept [OF assms(1) a] w1(1) by simp
  have w2: "open_fds (trace w2) = (if 0 \<le> ret a then insert (ret a) (open_fds (trace w)) else open_fds (trace w))"
    "closes_ok (trace w2) = closes_ok (trace w)"
    using w1 by (simp_all add: sys_trace [OF a])
  show ?thesis
  proof (cases "is_valid_socket s \<and> 0 < ready \<and> 0 \<le> ret a")
    case True
    then have "\<exists>r. fd = ret a \<and> ok \<and> trace w' = (Io (Setsockopt (ret a) (Tcp_nodelay 1)), r) # trace w3
        \<or> fd = -1 \<and> trace w' = (Fd (Close (ret a)), r) # trace w3" "sockfd s' = sockfd s"
      using assms(2) r a c
      by (auto simp: tcp_accept_def Let_def split: if_splits prod.splits dest: sys_trace)
    then show ?thesis using True eff fresh w2 by (auto simp: fd_safe_def)
  next
    case False
    then have "fd = -1" "sockfd s' = sockfd s" "w' = w \<or> w' = w1 \<or> w' = w2 \<and> ret a = -1"
      using assms(2) r a c fresh by (auto simp: tcp_accept_def Let_def split: if_splits)
    then show ?thesis using w1 w2 by (auto simp: fd_safe_def)
  qed
qed

section \<open>The contract of a virtual close\<close>

definition entry_address :: "addrinfo \<Rightarrow> address" where
  "entry_address e =
    (if ai_family e = AF_INET then address_of_in (deref_sockaddr (ai_addr e))
     else address_of_in6 (deref_sockaddr (ai_addr e)))"

text \<open>
  An override of \<open>close\<close> gives up the descriptor, releases it exactly once, clears the
  connected flag of a live socket, leaves the mode alone and never clears an error.
\<close>

locale virtual_close =
  fixes cl :: "os \<Rightarrow> 'a sock_scheme \<Rightarrow> world \<Rightarrow> bool \<times> 'a sock_scheme \<times> world"
  assumes cl_releases: "cl os s w = (b, s', w') \<Longrightarrow> sockfd s' < 0"
    and cl_safe: "cl os s w = (b, s', w') \<Longrightarrow> safe_step s w s' w'"
    and cl_disconnects: "cl os s w = (b, s', w') \<Longrightarrow> is_valid_socket s \<Longrightarrow> \<not> connected s'"
    and cl_blocking: "cl os s w = (b, s', w') \<Longrightarrow> blocking s' = blocking s"
    and cl_timeout: "cl os s w = (b, s', w') \<Longrightarrow> connect_timeout_ms s' = connect_timeout_ms s"
    and cl_error: "errno_set os \<Longrightarrow> cl os s w = (b, s', w') \<Longrightarrow>
      error_code s' = error_code s \<or> error_code s' \<noteq> 0"
begin

lemma replace_descriptor_safe:
  assumes "fresh_fds os" "cl os s w = (b, s1, w1)" "sys os (Fd (Socket f t)) w1 = (r, w2)"
  shows "fd_safe (sockfd s) (trace w) (ret r) (trace w2)"
proof -
  have "fd_safe (sockfd s) (trace w) (sockfd s1) (trace w1)"
    using cl_safe [OF assms(2)] by (simp add: safe_step_def)
  moreover have "sockfd s1 < 0" by (rule cl_releases [OF assms(2)])
  ultimately show ?thesis
    using fd_safe_socket [OF assms(1)] assms(3)
    by (auto simp: sys_def Let_def intro: fd_safe_trans)
qed

lemma connect_addr_eq:
  assumes "t = get_sockaddr_storage a" "cl os s w = (b1, s1, w1)"
    "sys os (Fd (Socket (ss_family t) SOCK_STREAM)) w1 = (r, w2)"
    "connect_attempt os t
       (s1\<lparr>sockfd := ret r, connected := False, net_family := ss_family t\<rparr>) w2 = (ok, s3, w3)"
    "cl os s3 w3 = (b4, s4, w4)"
  shows "tcp_connect_addr os cl a s w =
    (if ss_family t \<noteq> AF_INET \<and> ss_family t \<noteq> AF_INET6
     then (False, s\<lparr>error_code := err_no_socket, error_state := state_connect\<rparr>, w)
     else if ret r < 0
     then (False, s1\<lparr>sockfd := ret r, connected := False, error_code := err_no_socket,
                     error_state := state_create\<rparr>, w2)
     else if \<not> ok then (False, s4, w4)
     else (True, (clear_buffers (s3\<lparr>remote_addr := t, connected := True\<rparr>))
                   \<lparr>error_code := err_none, error_state := 0\<rparr>, w3))"
  using assms
  by (cases "ss_family t \<noteq> AF_INET \<and> ss_family t \<noteq> AF_INET6")
    (auto simp: tcp_connect_addr_def Let_def is_valid_socket_def simp del: AF_INET_def AF_INET6_def)

lemma connect_addr_safe:
  assumes "fresh_fds os" "tcp_connect_addr os cl a s w = (b, s', w')"
  shows "safe_step s w s' w'"
proof -
  let ?t = "get_sockaddr_storage a"
  obtain b1 s1 w1 where c: "cl os s w = (b1, s1, w1)" by (metis prod_cases3)
  obtain r w2 where so: "sys os (Fd (Socket (ss_family ?t) SOCK_STREAM)) w1 = (r, w2)" by fastforce
  obtain ok s3 w3 where att: "connect_attempt os ?t
    (s1\<lparr>sockfd := ret r, connected := False, net_family := ss_family ?t\<rparr>) w2 = (ok, s3, w3)"
    by (metis prod_cases3)
  obtain b4 s4 w4 where c4: "cl os s3 w3 = (b4, s4, w4)" by (metis prod_cases3)
  have 1: "fd_safe (sockfd s) (trace w) (ret r) (trace w2)"
    by (rule replace_descriptor_safe [OF assms(1) c so])
  have 2: "fd_safe (ret r) (trace w2) (sockfd s3) (trace w3)"
    using connect_attempt_safe [OF att] by (auto simp: safe_step_def)
  have 3: "fd_safe (sockfd s3) (trace w3) (sockfd s4) (trace w4)"
    using cl_safe [OF c4] by (simp add: safe_step_def)
  show ?thesis
    using assms(2) 1 fd_safe_trans [OF 1 2] fd_safe_trans [OF fd_safe_trans [OF 1 2] 3]
    by (auto simp: connect_addr_eq [OF refl c so att c4] safe_step_def clear_buffers_def
        split: if_splits)
qed

text \<open>
  A successful attempt leaves a live, connected socket without an error; a failed one leaves no
  descriptor behind and reports an error.
\<close>

lemma connect_addr_outcome:
  assumes "fresh_fds os" "ss_family (get_sockaddr_storage a) \<in> {AF_INET, AF_INET6}"
    and "tcp_connect_addr os cl a s w = (b, s', w')"
  shows "if b then is_valid_socket s' \<and> connected s' \<and> error_code s' = err_none \<and>
              error_state s' = 0 \<and> remote_addr s' = get_sockaddr_storage a
         else sockfd s' < 0 \<and> \<not> connected s' \<and> (errno_set os \<longrightarrow> error_code s' \<noteq> err_none)"
proof -
  let ?t = "get_sockaddr_storage a"
  obtain b1 s1 w1 where c: "cl os s w = (b1, s1, w1)" by (metis prod_cases3)
  obtain r w2 where so: "sys os (Fd (Socket (ss_family ?t) SOCK_STREAM)) w1 = (r, w2)" by fastforce
  let ?s2 = "s1\<lparr>sockfd := ret r, connected := False, net_family := ss_family ?t\<rparr>"
  obtain ok s3 w3 where att: "connect_attempt os ?t ?s2 w2 = (ok, s3, w3)"
    by (metis prod_cases3)
  obtain b4 s4 w4 where c4: "cl os s3 w3 = (b4, s4, w4)" by (metis prod_cases3)
  have fd3: "sockfd s3 = ret r" using connect_attempt_safe [OF att] by simp
  have err: "error_code s4 \<noteq> 0" if "errno_set os" "\<not> ok" "0 \<le> ret r"
    using connect_attempt_error [OF that(1) _ att [unfolded that(2) [THEN Eq_FalseI]]]
      cl_error [OF that(1) c4] that(3) by (auto simp: is_valid_socket_def)
  show ?thesis
    using assms(2,3) err cl_releases [OF c4] cl_disconnects [OF c4] fd3
    by (auto simp: connect_addr_eq [OF refl c so att c4] clear_buffers_def is_valid_socket_def
        split: if_splits)
qed

text \<open>
  A direct attempt never touches the mode of the new descriptor: it is a blocking one, whatever
  the object's flag says. A timed attempt that restores the mode leaves the two in agreement.
\<close>

lemma connect_addr_direct_mode:
  assumes "connect_timeout_ms s \<le> 0" "tcp_connect_addr os cl a s w = (True, s', w')"
  shows "fl_state (trace w') (sockfd s') = None \<and> blocking s' = blocking s"
proof -
  let ?t = "get_sockaddr_storage a"
  obtain b1 s1 w1 where c: "cl os s w = (b1, s1, w1)" by (metis prod_cases3)
  obtain r w2 where so: "sys os (Fd (Socket (ss_family ?t) SOCK_STREAM)) w1 = (r, w2)" by fastforce
  let ?s2 = "s1\<lparr>sockfd := ret r, connected := False, net_family := ss_family ?t\<rparr>"
  obtain ok s3 w3 where att: "connect_attempt os ?t ?s2 w2 = (ok, s3, w3)"
    by (metis prod_cases3)
  obtain b4 s4 w4 where c4: "cl os s3 w3 = (b4, s4, w4)" by (metis prod_cases3)
  have "connect_direct os ?t ?s2 w2 = (ok, s3, w3)"
    using att assms(1) cl_timeout [OF c] by (simp add: connect_attempt_def)
  then have "\<exists>x. trace w3 = (Io (Connect (ret r) ?t), x) # trace w2"
    "blocking s3 = blocking s" "sockfd s3 = ret r"
    using cl_blocking [OF c]
    by (auto simp: connect_direct_def Let_def split: prod.splits if_splits dest: sys_trace)
  then show ?thesis
    using assms(2) sys_trace [OF so]
    by (auto simp: connect_addr_eq [OF refl c so att c4] clear_buffers_def split: if_splits)
qed

lemma connect_loop_safe:
  assumes "fresh_fds os" "tcp_connect_loop os cl es s w = (b, s', w')"
  shows "safe_step s w s' w'"
  using assms
proof (induction es arbitrary: s w)
  case (Cons e es)
  let ?a = "if ai_family e = AF_INET then address_of_in (deref_sockaddr (ai_addr e))
    else address_of_in6 (deref_sockaddr (ai_addr e))"
  obtain b1 s1 w1 where c: "tcp_connect_addr os cl ?a s w = (b1, s1, w1)" by (metis prod_cases3)
  have "safe_step s w s1 w1" by (rule connect_addr_safe [OF assms(1) c])
  then show ?case
    using Cons c by (auto simp: Let_def split: if_splits intro: safe_step_trans)
qed simp

text \<open>Trying every entry: success is the first entry that connects.\<close>

lemma connect_loop_outcome:
  assumes "fresh_fds os" "tcp_connect_loop os cl es s w = (True, s', w')"
  shows "is_valid_socket s' \<and> connected s' \<and> error_code s' = err_none \<and> error_state s' = 0 \<and>
    (\<exists>e\<in>set es. remote_addr s' = get_sockaddr_storage (entry_address e))"
  using assms
proof (induction es arbitrary: s w)
  case (Cons e es)
  obtain b1 s1 w1 where c: "tcp_connect_addr os cl (entry_address e) s w = (b1, s1, w1)"
    by (metis prod_cases3)
  have loop: "tcp_connect_loop os cl (e # es) s w =
    (if ai_family e \<noteq> AF_INET \<and> ai_family e \<noteq> AF_INET6 then tcp_connect_loop os cl es s w
     else if b1 then (True, s1, w1) else tcp_connect_loop os cl es s1 w1)"
    using c by (cases "ai_family e = AF_INET") (auto simp: entry_address_def)
  show ?case
  proof (cases "b1 \<and> \<not> (ai_family e \<noteq> AF_INET \<and> ai_family e \<noteq> AF_INET6)")
    case True
    have "ss_family (get_sockaddr_storage (entry_address e)) \<in> {AF_INET, AF_INET6}"
      using c True by (auto simp: tcp_connect_addr_def Let_def simp del: AF_INET_def AF_INET6_def
          split: if_splits)
    then show ?thesis
      using connect_addr_outcome [OF assms(1) _ c] True Cons.prems(2) loop
      by (auto simp del: AF_INET_def AF_INET6_def tcp_connect_loop.simps split: if_splits)
  next
    case False
    then have "\<exists>s0 w0. tcp_connect_loop os cl es s0 w0 = (True, s', w')"
      using Cons.prems(2) loop
      by (auto simp del: AF_INET_def AF_INET6_def tcp_connect_loop.simps split: if_splits)
    then obtain s0 w0 where "tcp_connect_loop os cl es s0 w0 = (True, s', w')" by blast
    from Cons.IH [OF assms(1) this] show ?thesis by auto
  qed
qed simp

lemma connect_stored_outcome:
  assumes "fresh_fds os" "tcp_connect_stored os cl s w = (True, s', w')"
  shows "is_valid_socket s' \<and> connected s' \<and> error_code s' = err_none \<and> error_state s' = 0"
proof -
  obtain rv w1 where g: "sys os (Io (Getaddrinfo (hostname s) (Some (sock_port s)) SOCK_STREAM False)) w
      = (rv, w1)" by fastforce
  obtain b2 s2 w2 where l: "tcp_connect_loop os cl (infos rv) s w1 = (b2, s2, w2)"
    by (metis prod_cases3)
  have "b2" "s' = s2\<lparr>connected := b2\<rparr>"
    using assms(2) g l by (auto simp: tcp_connect_stored_def Let_def split: if_splits)
  then show ?thesis
    using connect_loop_outcome [OF assms(1), of "infos rv" s w1 s2 w2] l
    by (auto simp: is_valid_socket_def)
qed

lemma connect_host_outcome:
  assumes "fresh_fds os" "tcp_connect_host os cl h p s w = (True, s', w')"
  shows "is_valid_port p \<and> is_valid_socket s' \<and> connected s' \<and> error_code s' = err_none \<and>
    error_state s' = 0"
  using assms connect_stored_outcome [OF assms(1)]
  by (auto simp: tcp_connect_host_def split: if_splits)

lemma connect_stored_safe:
  assumes "fresh_fds os" "tcp_connect_stored os cl s w = (b, s', w')"
  shows "safe_step s w s' w'"
proof -
  obtain rv w1 where g: "sys os (Io (Getaddrinfo (hostname s) (Some (sock_port s)) SOCK_STREAM False)) w
      = (rv, w1)" by fastforce
  obtain b2 s2 w2 where l: "tcp_connect_loop os cl (infos rv) s w1 = (b2, s2, w2)"
    by (metis prod_cases3)
  have "safe_step s w s w1" using g by (auto simp: sys_def Let_def safe_step_def)
  moreover have "safe_step s w1 s2 w2" by (rule connect_loop_safe [OF assms(1) l])
  ultimately have "safe_step s w s2 w2" by (rule safe_step_trans)
  then show ?thesis
    using assms(2) g l \<open>safe_step s w s w1\<close>
    by (auto simp: tcp_connect_stored_def Let_def safe_step_def split: if_splits)
qed

lemma connect_host_safe:
  assumes "fresh_fds os" "tcp_connect_host os cl h p s w = (b, s', w')"
  shows "safe_step s w s' w'"
proof (cases "h = None \<or> h = Some [] \<or> \<not> is_valid_port p")
  case True
  with assms show ?thesis by (auto simp: tcp_connect_host_def safe_step_def)
next
  case False
  with assms connect_stored_safe [of os "(set_remote_hostname (the h) s)\<lparr>sock_port := p\<rparr>" w b s' w']
  show ?thesis by (simp add: tcp_connect_host_def safe_step_def set_remote_hostname_def)
qed

lemma listen_eq:
  assumes "is_valid_port p" "listen_target os ip p = Some t" "cl os s w = (b1, s1, w1)"
    "sys os (Fd (Socket (ss_family t) SOCK_STREAM)) w1 = (r, w2)"
    "listen_attempt os t p (s1\<lparr>sockfd := ret r\<rparr>) w2 = (ok, s3, w3)"
    "cl os s3 w3 = (b4, s4, w4)"
  shows "tcp_listen os cl (Some ip) p s w =
    (if ret r < 0
     then (False, s1\<lparr>sockfd := ret r, error_code := err_no_socket, error_state := state_create\<rparr>, w2)
     else if \<not> ok then (False, s4, w4)
     else (True, s3\<lparr>connected := True, error_state := 0, error_code := err_none\<rparr>, w3))"
  using assms by (auto simp: tcp_listen_def Let_def is_valid_socket_def)

lemma listen_safe_outcome:
  assumes "fresh_fds os" "tcp_listen os cl ip p s w = (b, s', w')"
  shows "safe_step s w s' w' \<and>
    (b \<longrightarrow> is_valid_socket s' \<and> connected s' \<and> error_code s' = err_none \<and> error_state s' = 0) \<and>
    (\<not> b \<and> errno_set os \<longrightarrow> error_code s' \<noteq> err_none)"
proof (cases "ip = None \<or> \<not> is_valid_port p \<or> listen_target os (the ip) p = None")
  case True
  with assms(2) show ?thesis
    by (auto simp: tcp_listen_def safe_step_def split: if_splits)
next
  case False
  then obtain i t where i: "ip = Some i" "is_valid_port p" "listen_target os i p = Some t" by auto
  obtain b1 s1 w1 where c: "cl os s w = (b1, s1, w1)" by (metis prod_cases3)
  obtain r w2 where so: "sys os (Fd (Socket (ss_family t) SOCK_STREAM)) w1 = (r, w2)" by fastforce
  obtain ok s3 w3 where att: "listen_attempt os t p (s1\<lparr>sockfd := ret r\<rparr>) w2 = (ok, s3, w3)"
    by (metis prod_cases3)
  obtain b4 s4 w4 where c4: "cl os s3 w3 = (b4, s4, w4)" by (metis prod_cases3)
  have 1: "fd_safe (sockfd s) (trace w) (ret r) (trace w2)"
    by (rule replace_descriptor_safe [OF assms(1) c so])
  have 2: "fd_safe (ret r) (trace w2) (sockfd s3) (trace w3)" "sockfd s3 = ret r"
    using listen_attempt_safe [OF att] by (auto simp: safe_step_def)
  have 3: "fd_safe (sockfd s3) (trace w3) (sockfd s4) (trace w4)"
    using cl_safe [OF c4] by (simp add: safe_step_def)
  have err: "error_code s4 \<noteq> 0" if "errno_set os" "\<not> ok"
    using listen_attempt_error [OF that(1), of t p "s1\<lparr>sockfd := ret r\<rparr>" w2 s3 w3] att that(2)
      cl_error [OF that(1) c4] by auto
  show ?thesis
    using assms(2) i(1) err 2(2) 1 fd_safe_trans [OF 1 2(1)]
      fd_safe_trans [OF fd_safe_trans [OF 1 2(1)] 3]
    by (auto simp: listen_eq [OF i(2,3) c so att c4] safe_step_def is_valid_socket_def
        split: if_splits)
qed

end

interpretation base_close: virtual_close socket_close
proof
  show "sockfd s' < 0" if "socket_close os s w = (b, s', w')" for os s w b s' w'
    using that by (rule socket_close_releases)
  show "safe_step s w s' w'" if "socket_close os s w = (b, s', w')" for os s w b s' w'
    using that by (rule socket_close_safe)
  show "\<not> connected s'" if "socket_close os s w = (b, s', w')" "is_valid_socket s"
    for os s w b s' w'
    using that by (auto simp: socket_close_def Let_def split: prod.splits if_splits)
  show "blocking s' = blocking s" if "socket_close os s w = (b, s', w')" for os s w b s' w'
    using that by (auto simp: socket_close_def Let_def split: prod.splits if_splits)
  show "connect_timeout_ms s' = connect_timeout_ms s"
    if "socket_close os s w = (b, s', w')" for os s w b s' w'
    using that by (auto simp: socket_close_def Let_def split: prod.splits if_splits)
  show "error_code s' = error_code s \<or> error_code s' \<noteq> 0"
    if "errno_set os" "socket_close os s w = (b, s', w')" for os s w b s' w'
    using that by (auto simp: socket_close_def Let_def split: prod.splits if_splits
        dest: sys_status_errno)
qed

section \<open>Properties\<close>

lemma fd_safe_open_fds:
  "fd_safe a h b k \<Longrightarrow> held a \<subseteq> open_fds h \<Longrightarrow>
   open_fds k = open_fds h - held a \<union> held b \<and> (closes_ok h \<longrightarrow> closes_ok k)"
  by (auto simp: fd_safe_def)

text \<open>
  C7. A connect attempt replaces the descriptor the object held by at most one fresh one, on
  every path (failed socket call, refused connect, timed-out connect): nothing else is opened or
  closed and nothing is closed twice. A success leaves a live connected socket with no error and
  the target as its peer; a failure leaves no descriptor, an unconnected object and an error.
\<close>

theorem tcp_connect_addr_outcome:
  assumes "fresh_fds os" "errno_set os" "held (sockfd s) \<subseteq> open_fds (trace w)"
    and "ss_family (get_sockaddr_storage a) \<in> {AF_INET, AF_INET6}"
    and "tcp_connect_addr os socket_close a s w = (b, s', w')"
  shows "open_fds (trace w') = open_fds (trace w) - held (sockfd s) \<union> held (sockfd s') \<and>
    (closes_ok (trace w) \<longrightarrow> closes_ok (trace w')) \<and>
    (if b then is_valid_socket s' \<and> connected s' \<and> error_code s' = err_none \<and> error_state s' = 0 \<and>
              remote_addr s' = get_sockaddr_storage a
     else \<not> is_valid_socket s' \<and> \<not> connected s' \<and> error_code s' \<noteq> err_none)"
  using base_close.connect_addr_safe [OF assms(1,5)] base_close.connect_addr_outcome [OF assms(1,4,5)]
    fd_safe_open_fds assms(2,3)
  by (auto simp: safe_step_def is_valid_socket_def simp del: AF_INET_def AF_INET6_def split: if_splits)

definition sample_target :: address where
  "sample_target = address_of_storage (zero_sockaddr\<lparr>ss_family := AF_INET, sin_port := 80\<rparr>)"

definition sample_connect :: "bool \<times> sock \<times> world" where
  "sample_connect =
    tcp_connect_addr (scripted_os []) socket_close sample_target sock_init world0"

lemma sample_connect_ok: "fst sample_connect = True"
  by (simp add: sample_connect_def tcp_connect_addr_def sample_target_def address_of_storage_def
      get_sockaddr_storage_def connect_attempt_def connect_direct_def sys_def Let_def
      scripted_os_def sock_init_def is_valid_socket_def socket_close_def zero_sockaddr_def world0_def
      clear_buffers_def)

theorem tcp_connect_addr_outcome_witness:
  "fst sample_connect \<and> connected (fst (snd sample_connect)) \<and>
   open_fds (trace (snd (snd sample_connect))) = {sockfd (fst (snd sample_connect))}"
proof -
  obtain b s' w' where e: "sample_connect = (b, s', w')" by (metis prod_cases3)
  have "b" using sample_connect_ok unfolding e by simp
  then show ?thesis
    using tcp_connect_addr_outcome [OF scripted_fresh scripted_errno_set _ _
        e [unfolded sample_connect_def]]
    unfolding e by (simp add: sock_init_def world0_def sample_target_def address_of_storage_def
        get_sockaddr_storage_def zero_sockaddr_def is_valid_socket_def)
qed

text \<open>
  Connecting to a name tries the addresses of the answer on one descriptor slot: however
  many attempts fail, all but the last descriptor are closed again, each once; success means a
  live connected socket with no error.
\<close>

lemma tcp_connect_host_outcome:
  assumes "fresh_fds os" "held (sockfd s) \<subseteq> open_fds (trace w)"
    and "tcp_connect_host os socket_close h p s w = (b, s', w')"
  shows "open_fds (trace w') = open_fds (trace w) - held (sockfd s) \<union> held (sockfd s') \<and>
    (closes_ok (trace w) \<longrightarrow> closes_ok (trace w')) \<and>
    (b \<longrightarrow> is_valid_port p \<and> is_valid_socket s' \<and> connected s' \<and> error_code s' = err_none)"
  using base_close.connect_host_safe [OF assms(1,3)] fd_safe_open_fds assms(2)
    base_close.connect_host_outcome [OF assms(1), of h p s w s' w'] assms(3)
  by (cases b) (auto simp: safe_step_def)

text \<open>
  Listening replaces the object's descriptor by at most one fresh one and closes it again
  when binding or listening fails: whatever happens, the descriptors of the program change only
  in the object's own slot and none is closed twice. Success means a live, marked listener
  without an error, failure an error.
\<close>

lemma tcp_listen_outcome:
  assumes "fresh_fds os" "errno_set os" "held (sockfd s) \<subseteq> open_fds (trace w)"
    and "tcp_listen os socket_close ip p s w = (b, s', w')"
  shows "open_fds (trace w') = open_fds (trace w) - held (sockfd s) \<union> held (sockfd s') \<and>
    (closes_ok (trace w) \<longrightarrow> closes_ok (trace w')) \<and>
    (b \<longrightarrow> is_valid_socket s' \<and> connected s' \<and> error_state s' = 0) \<and>
    (b \<longleftrightarrow> error_code s' = err_none)"
  using base_close.listen_safe_outcome [OF assms(1,4)] fd_safe_open_fds assms(2,3)
  by (auto simp: safe_step_def)

text \<open>
  Accepting returns either no descriptor, and then the program holds exactly the
  descriptors it held, or a fresh one in the mode asked for that is the only new one. A
  descriptor that could not be configured has been closed, exactly once.
\<close>

lemma tcp_accept_hands_over_one:
  assumes "fresh_fds os" "tcp_accept os t block s w = (fd, peer, s', w')"
  shows "open_fds (trace w') = open_fds (trace w) \<union> held fd \<and> sockfd s' = sockfd s \<and>
    (closes_ok (trace w) \<longrightarrow> closes_ok (trace w')) \<and>
    (fd = invalid_socket \<or> 0 \<le> fd \<and> fd \<notin> open_fds (trace w) \<and>
       (\<exists>f. fl_state (trace w') fd = Some f \<and> bit f 11 = (\<not> block)))"
  using tcp_accept_safe [OF assms] fd_safe_open_fds [of "-1" "trace w" fd "trace w'"] by auto

end
