(* ===== verification/Write_Queue.thy ===== *)
theory Write_Queue
  imports Prelude
begin

text \<open>
  The outgoing queue of an event socket (\<open>event_socket::state\<close> in
  \<open>src/event_socket.cpp\<close>): a deque of chunks with an offset into the front one, a byte
  count and a limit. The abstract value of a queue is the list of bytes still to send; each
  operation on the chunks refines one on that list.
\<close>

section \<open>Representation and operations\<close>

record out_queue =
  chunks :: "byte list list"
  front_offset :: nat
  qbytes :: nat
  qlimit :: nat

definition queue_init :: out_queue where
  "queue_init = \<lparr>chunks = [], front_offset = 0, qbytes = 0, qlimit = 1024 * 1024\<rparr>"

definition coalesce_limit :: nat where
  "coalesce_limit = 16 * 1024"

text \<open>A small message joins the last chunk while that stays small; a large one is a chunk.\<close>

definition queue_append :: "byte list \<Rightarrow> out_queue \<Rightarrow> out_queue" where
  "queue_append data out =
    (let out =
       (if chunks out \<noteq> [] \<and> length (last (chunks out)) < coalesce_limit \<and>
           length data \<le> coalesce_limit - length (last (chunks out))
        then out\<lparr>chunks := butlast (chunks out) @ [last (chunks out) @ data]\<rparr>
        else out\<lparr>chunks := chunks out @ [data]\<rparr>) in
     out\<lparr>qbytes := qbytes out + length data\<rparr>)"

definition queue_advance :: "nat \<Rightarrow> out_queue \<Rightarrow> out_queue" where
  "queue_advance count out =
    (let front = hd (chunks out);
         out = out\<lparr>front_offset := front_offset out + count, qbytes := qbytes out - count\<rparr> in
     if front_offset out = length front
     then out\<lparr>chunks := tl (chunks out), front_offset := 0\<rparr> else out)"

definition queue_clear :: "out_queue \<Rightarrow> out_queue" where
  "queue_clear out = out\<lparr>chunks := [], front_offset := 0, qbytes := 0\<rparr>"

definition queue_front :: "out_queue \<Rightarrow> byte list" where
  "queue_front out = drop (front_offset out) (hd (chunks out))"

section \<open>Abstraction and invariant\<close>

definition pending :: "out_queue \<Rightarrow> byte list" where
  "pending out = drop (front_offset out) (concat (chunks out))"

definition queue_inv :: "out_queue \<Rightarrow> bool" where
  "queue_inv out \<longleftrightarrow>
    [] \<notin> set (chunks out) \<and>
    (if chunks out = [] then front_offset out = 0
     else front_offset out < length (hd (chunks out))) \<and>
    qbytes out = length (pending out) \<and> qbytes out \<le> qlimit out"

lemma queue_init_inv [simp]: "queue_inv queue_init" "pending queue_init = []"
  by (simp_all add: queue_inv_def queue_init_def pending_def)

lemma queue_init_fields [simp]: "qbytes queue_init = 0" "qlimit queue_init = 1048576"
  by (simp_all add: queue_init_def)

lemma queue_clear_inv [simp]: "queue_inv (queue_clear out)" "pending (queue_clear out) = []"
  by (simp_all add: queue_inv_def queue_clear_def pending_def)

lemma queue_clear_fields [simp]:
  "qbytes (queue_clear out) = 0" "qlimit (queue_clear out) = qlimit out"
  by (simp_all add: queue_clear_def)

lemma queue_inv_bytes: "queue_inv out \<Longrightarrow> qbytes out = length (pending out)"
  by (simp add: queue_inv_def)

lemma queue_inv_chunks: "queue_inv out \<Longrightarrow> qbytes out \<noteq> 0 \<Longrightarrow> chunks out \<noteq> []"
  by (auto simp: queue_inv_def pending_def)

lemma pending_front:
  assumes "queue_inv out" "chunks out \<noteq> []"
  shows "pending out = queue_front out @ concat (tl (chunks out))" "queue_front out \<noteq> []"
  using assms by (cases "chunks out"; simp add: queue_inv_def pending_def queue_front_def)+

lemma front_prefix:
  assumes "queue_inv out" "qbytes out \<noteq> 0" "k \<le> length (queue_front out)"
  shows "take k (queue_front out) = take k (pending out)"
  using assms pending_front [OF assms(1) queue_inv_chunks [OF assms(1,2)]] by simp

lemma concat_last:
  "xs \<noteq> [] \<Longrightarrow> concat (butlast xs @ [last xs @ data]) = concat xs @ data"
  by (metis append_assoc append_butlast_last_id concat.simps(2) concat_append append_Nil2 concat.simps(1))

lemma queue_append_refines:
  assumes "queue_inv out" "data \<noteq> []" "qbytes out + length data \<le> qlimit out"
  shows "pending (queue_append data out) = pending out @ data" "queue_inv (queue_append data out)"
proof -
  have off: "front_offset out \<le> length (concat (chunks out))"
    using assms(1) by (cases "chunks out") (auto simp: queue_inv_def)
  have "concat (chunks (queue_append data out)) = concat (chunks out) @ data"
    "front_offset (queue_append data out) = front_offset out"
    by (simp_all add: queue_append_def Let_def concat_last del: concat_append) (simp add: concat_append)
  then show p: "pending (queue_append data out) = pending out @ data"
    using off by (simp add: pending_def)
  have "[] \<notin> set (chunks (queue_append data out))"
    using assms(1,2) by (auto simp: queue_append_def queue_inv_def Let_def dest: in_set_butlastD)
  moreover have "chunks (queue_append data out) \<noteq> []"
    by (simp add: queue_append_def Let_def)
  moreover have "front_offset (queue_append data out) < length (hd (chunks (queue_append data out)))"
    using assms(1,2) by (cases "chunks out"; cases "tl (chunks out)")
      (auto simp: queue_append_def queue_inv_def Let_def)
  moreover have "qbytes (queue_append data out) = length (pending out) + length data"
    "qlimit (queue_append data out) = qlimit out"
    using assms(1) by (simp_all add: queue_append_def queue_inv_def Let_def)
  ultimately show "queue_inv (queue_append data out)"
    using p assms(1,3) by (simp add: queue_inv_def)
qed

lemma queue_advance_refines:
  assumes "queue_inv out" "qbytes out \<noteq> 0" "0 < k" "k \<le> length (queue_front out)"
  shows "pending (queue_advance k out) = drop k (pending out)" "queue_inv (queue_advance k out)"
proof -
  obtain c cs where c: "chunks out = c # cs"
    using queue_inv_chunks [OF assms(1,2)] by (cases "chunks out") auto
  have off: "front_offset out < length c" "k \<le> length c - front_offset out"
    using assms(1,4) c by (simp_all add: queue_inv_def queue_front_def)
  have p: "pending out = drop (front_offset out) c @ concat cs"
    using off c by (simp add: pending_def)
  show d: "pending (queue_advance k out) = drop k (pending out)"
  proof (cases "front_offset out + k = length c")
    case True
    then have "k = length c - front_offset out" by simp
    then show ?thesis using True c off p by (simp add: queue_advance_def pending_def Let_def)
  next
    case False
    then show ?thesis using c off p
      by (simp add: queue_advance_def pending_def Let_def add.commute)
  qed
  have ne: "[] \<notin> set cs" using assms(1) c by (simp add: queue_inv_def)
  have b: "qbytes (queue_advance k out) = length (pending out) - k"
    "qlimit (queue_advance k out) = qlimit out"
    using assms(1) by (simp_all add: queue_advance_def queue_inv_def Let_def)
  have "if chunks (queue_advance k out) = [] then front_offset (queue_advance k out) = 0
    else front_offset (queue_advance k out) < length (hd (chunks (queue_advance k out)))"
    using c off ne by (cases cs) (auto simp: queue_advance_def Let_def)
  moreover have "[] \<notin> set (chunks (queue_advance k out))"
    using assms(1) c by (auto simp: queue_advance_def queue_inv_def Let_def)
  ultimately show "queue_inv (queue_advance k out)"
    using b d assms(1) unfolding queue_inv_def by (metis diff_le_self le_trans length_drop)
qed

lemma queue_advance_limit [simp]: "qlimit (queue_advance k out) = qlimit out"
  by (simp add: queue_advance_def Let_def)

lemma queue_append_limit [simp]: "qlimit (queue_append d out) = qlimit out"
  by (simp add: queue_append_def Let_def)

text \<open>Appending never changes the bytes already offered at the front.\<close>

lemma queue_append_front:
  assumes "queue_inv out" "qbytes out \<noteq> 0"
  shows "\<exists>more. queue_front (queue_append data out) = queue_front out @ more"
proof -
  obtain c cs where c: "chunks out = c # cs"
    using queue_inv_chunks [OF assms] by (cases "chunks out") auto
  have "front_offset out < length c" using assms(1) c by (simp add: queue_inv_def)
  then show ?thesis
    using c by (cases cs) (auto simp: queue_append_def queue_front_def Let_def)
qed

end
