(* ===== verification/Event_Socket.thy ===== *)
theory Event_Socket
  imports Tcp Write_Queue
begin

text \<open>
  \<open>src/event_socket.cpp\<close>: the event-driven socket. Its transport hooks
  (\<open>poll_send\<close>, \<open>poll_send_queued\<close>, \<open>poll_receive\<close>, ...) are virtual, so
  the operations that use them take them as arguments; the TCP hooks are defined here, the TLS
  ones in \<open>Tls_Event\<close>. User handlers are arbitrary code outside the library: an argument
  \<open>user\<close> on the object and the world, run only when its slot is registered.

  The queue's mutex only serialises threads; each operation holds it throughout, so an operation
  is one step on the queue.
\<close>

section \<open>State\<close>

record ev_sock = sock +
  outgoing :: out_queue
  slots :: "bool list"

definition handler_data :: nat where [simp]: "handler_data = 0"
definition handler_connect :: nat where [simp]: "handler_connect = 1"
definition handler_close :: nat where [simp]: "handler_close = 2"
definition handler_listen :: nat where [simp]: "handler_listen = 3"
definition handler_error :: nat where [simp]: "handler_error = 4"
definition handler_drain :: nat where [simp]: "handler_drain = 5"
definition handler_write :: nat where [simp]: "handler_write = 6"

text \<open>\<open>vector::at\<close> throws on a bad slot: \<open>None\<close>.\<close>

definition set_handler :: "nat \<Rightarrow> bool \<Rightarrow> 'a ev_sock_scheme \<Rightarrow> 'a ev_sock_scheme option" where
  "set_handler slot present s =
    (if slot < length (slots s) then Some (s\<lparr>slots := (slots s)[slot := present]\<rparr>) else None)"

definition get_handler :: "nat \<Rightarrow> 'a ev_sock_scheme \<Rightarrow> bool option" where
  "get_handler slot s = (if slot < length (slots s) then Some (slots s ! slot) else None)"

definition ev_of_sock :: "sock \<Rightarrow> ev_sock" where
  "ev_of_sock s = sock.extend s (ev_sock.fields queue_init (replicate 7 False))"

text \<open>A socket that cannot be made non-blocking is closed.\<close>

definition event_socket_setup :: "os \<Rightarrow> ev_sock \<Rightarrow> world \<Rightarrow> ev_sock \<times> world" where
  "event_socket_setup os s w =
    (if is_valid_socket s
     then let (r, s, w) = set_blocking os False s w in
       if r \<noteq> 0 then snd (socket_close os s w) else (s, w)
     else (s, w))"

definition event_socket_new :: "os \<Rightarrow> world \<Rightarrow> ev_sock \<times> world" where
  "event_socket_new os w =
    (let (s, w) = socket_default os w in event_socket_setup os (ev_of_sock s) w)"

definition event_socket_adopt :: "os \<Rightarrow> int \<Rightarrow> world \<Rightarrow> ev_sock \<times> world" where
  "event_socket_adopt os fd w =
    (let (s, w) = socket_adopt os fd w in event_socket_setup os (ev_of_sock s) w)"

section \<open>The TCP transport hooks\<close>

definition POLLIN :: int where [simp]: "POLLIN = 1"
definition POLLOUT :: int where [simp]: "POLLOUT = 4"
definition POLLERR :: int where [simp]: "POLLERR = 8"
definition POLLHUP :: int where [simp]: "POLLHUP = 16"
definition POLLNVAL :: int where [simp]: "POLLNVAL = 32"
definition MSG_DONTWAIT :: int where [simp]: "MSG_DONTWAIT = 64"
definition MSG_NOSIGNAL :: int where [simp]: "MSG_NOSIGNAL = 16384"

definition flagged :: "int \<Rightarrow> int \<Rightarrow> bool" where
  "flagged readiness bits \<longleftrightarrow> readiness AND bits \<noteq> 0"

definition tcp_poll_receive ::
  "os \<Rightarrow> int \<Rightarrow> 'a ev_sock_scheme \<Rightarrow> world \<Rightarrow> int \<times> byte list \<times> 'a ev_sock_scheme \<times> world" where
  "tcp_poll_receive os capacity s w =
    (let (r, w) = sys os (Io (Recv (sockfd s) capacity)) w in (ret r, got r, s, w))"

definition tcp_poll_send ::
  "int \<Rightarrow> os \<Rightarrow> byte list \<Rightarrow> int \<Rightarrow> 'a ev_sock_scheme \<Rightarrow> world \<Rightarrow> int \<times> 'a ev_sock_scheme \<times> world"
where
  "tcp_poll_send flags os data sz s w =
    (let (r, w) = sys os (Io (send_call (sockfd s) data sz flags)) w in (ret r, s, w))"

definition tcp_poll_send_queued ::
  "os \<Rightarrow> byte list \<Rightarrow> int \<Rightarrow> 'a ev_sock_scheme \<Rightarrow> world \<Rightarrow> int \<times> 'a ev_sock_scheme \<times> world"
where
  "tcp_poll_send_queued = tcp_poll_send (MSG_NOSIGNAL OR MSG_DONTWAIT)"

definition queued_bytes :: "'a ev_sock_scheme \<Rightarrow> nat" where
  "queued_bytes s = qbytes (outgoing s)"

definition tcp_wants_write :: "'a ev_sock_scheme \<Rightarrow> bool" where
  "tcp_wants_write s \<longleftrightarrow> queued_bytes s \<noteq> 0"

definition tcp_read_ready :: "int \<Rightarrow> 'a ev_sock_scheme \<Rightarrow> bool" where
  "tcp_read_ready readiness s \<longleftrightarrow> flagged readiness (POLLIN OR POLLHUP)"

definition tcp_queue_ready :: "int \<Rightarrow> 'a ev_sock_scheme \<Rightarrow> bool" where
  "tcp_queue_ready readiness s \<longleftrightarrow> flagged readiness POLLOUT"

section \<open>Queued writes\<close>

definition set_max_queued_bytes :: "nat \<Rightarrow> 'a ev_sock_scheme \<Rightarrow> bool \<times> 'a ev_sock_scheme" where
  "set_max_queued_bytes lim s =
    (if lim < qbytes (outgoing s) then (False, s)
     else (True, s\<lparr>outgoing := (outgoing s)\<lparr>qlimit := lim\<rparr>\<rparr>))"

text \<open>The argument \<open>accepts\<close> is the hook \<open>poll_accepts_queued_write\<close>.\<close>

definition queue_write ::
  "('a ev_sock_scheme \<Rightarrow> bool) \<Rightarrow> byte list option \<Rightarrow> nat \<Rightarrow> 'a ev_sock_scheme \<Rightarrow>
    bool \<times> 'a ev_sock_scheme"
where
  "queue_write accepts data sz s =
    (if \<not> is_valid_socket s \<or> \<not> connected s \<or> blocking s \<or> sz \<noteq> 0 \<and> data = None \<or> \<not> accepts s
     then (False, s)
     else if sz = 0 then (True, s)
     else
       let out = outgoing s in
       if sz > qlimit out - qbytes out then (False, s)
       else (True, s\<lparr>outgoing := queue_append (take sz (the data)) out\<rparr>))"

definition queue_write_string ::
  "('a ev_sock_scheme \<Rightarrow> bool) \<Rightarrow> byte list \<Rightarrow> 'a ev_sock_scheme \<Rightarrow> bool \<times> 'a ev_sock_scheme" where
  "queue_write_string accepts data s = queue_write accepts (Some data) (length data) s"

definition clear_queue :: "'a ev_sock_scheme \<Rightarrow> 'a ev_sock_scheme" where
  "clear_queue s = s\<lparr>outgoing := queue_clear (outgoing s)\<rparr>"

record flush_result =
  fl_bytes :: nat
  fl_error :: int
  fl_drained :: bool

text \<open>The error a failed transfer reports: the transport's own one if it left one.\<close>

definition transport_error :: "bool \<Rightarrow> 'a ev_sock_scheme \<Rightarrow> int \<Rightarrow> int" where
  "transport_error terminal s native =
    (if terminal \<and> error_code s < 0 \<and> error_code s \<noteq> socket_error then error_code s
     else translate_native_error native)"

text \<open>
  The loop of \<open>flush_queued\<close>: \<open>psend\<close> is \<open>poll_send_queued\<close>, \<open>terminal\<close> the
  value of \<open>poll_error_terminal()\<close>, \<open>total\<close> the bytes sent so far. It ends since every
  round sends bytes or counts an interrupt.
\<close>

function flush_loop ::
  "(byte list \<Rightarrow> int \<Rightarrow> 'a ev_sock_scheme \<Rightarrow> world \<Rightarrow> int \<times> 'a ev_sock_scheme \<times> world) \<Rightarrow> bool \<Rightarrow>
   nat \<Rightarrow> nat \<Rightarrow> nat \<Rightarrow> 'a ev_sock_scheme \<Rightarrow> world \<Rightarrow> (nat \<times> int) \<times> 'a ev_sock_scheme \<times> world"
where
  "flush_loop psend terminal budget interrupts tot s w =
    (if queued_bytes s \<noteq> 0 \<and> tot < budget
     then
       let front = queue_front (outgoing s);
           requested = min (min (length front) (budget - tot)) (nat int_max);
           (sent, s, w) = psend (take requested front) (int requested) s w;
           error = (if sent < 0 then errno w else 0) in
       if sent < 0
       then
         if error = EINTR \<and> interrupts + 1 \<le> 4
         then flush_loop psend terminal budget (interrupts + 1) tot s w
         else if error = EINTR \<or> would_block_error error then ((tot, 0), s, w)
         else ((tot, transport_error terminal s
                        (if error \<noteq> 0 then error else invalid_descriptor_error)), clear_queue s, w)
       else if sent = 0 then ((tot, 0), s, w)
       else if sent > int requested then ((tot, err_system), clear_queue s, w)
       else flush_loop psend terminal budget 0 (tot + nat sent)
              (s\<lparr>outgoing := queue_advance (nat sent) (outgoing s)\<rparr>) w
     else ((tot, 0), s, w))"
  by pat_completeness auto
termination
  by (relation "measures [\<lambda>(psend, t, budget, i, tot, s, w). budget - tot,
       \<lambda>(psend, t, budget, i, tot, s, w). 5 - i]") auto

declare flush_loop.simps [simp del]

definition flush_queued ::
  "(byte list \<Rightarrow> int \<Rightarrow> 'a ev_sock_scheme \<Rightarrow> world \<Rightarrow> int \<times> 'a ev_sock_scheme \<times> world) \<Rightarrow> bool \<Rightarrow>
   nat \<Rightarrow> 'a ev_sock_scheme \<Rightarrow> world \<Rightarrow> flush_result \<times> 'a ev_sock_scheme \<times> world"
where
  "flush_queued psend terminal budget s w =
    (if \<not> is_valid_socket s \<or> blocking s \<or> budget = 0
     then (\<lparr>fl_bytes = 0, fl_error = 0, fl_drained = False\<rparr>, s, w)
     else
       let was_nonempty = queued_bytes s \<noteq> 0;
           ((tot, e), s, w) = flush_loop psend terminal budget 0 0 s w in
       (\<lparr>fl_bytes = tot, fl_error = e,
         fl_drained = (was_nonempty \<and> queued_bytes s = 0 \<and> e = 0)\<rparr>, s, w))"

section \<open>Handlers, direct writes and close\<close>

type_synonym 's user_handlers = "event \<Rightarrow> 's \<Rightarrow> world \<Rightarrow> 's \<times> world"

definition fire ::
  "('a ev_sock_scheme) user_handlers \<Rightarrow> nat \<Rightarrow> event \<Rightarrow> 'a ev_sock_scheme \<Rightarrow> world \<Rightarrow>
    'a ev_sock_scheme \<times> world"
where
  "fire user slot ev s w = (if slots s ! slot then user ev s w else (s, w))"

text \<open>A handler that leaves this object alone: its run shows in the history only.\<close>

definition log_user :: "os \<Rightarrow> nat \<Rightarrow> ('a ev_sock_scheme) user_handlers" where
  "log_user os addr ev s w = (s, snd (sys os (Cb addr ev) w))"

definition event_close ::
  "('a ev_sock_scheme) user_handlers \<Rightarrow> os \<Rightarrow> 'a ev_sock_scheme \<Rightarrow> world \<Rightarrow>
    bool \<times> 'a ev_sock_scheme \<times> world"
where
  "event_close user os s w =
    (let s = clear_queue s;
         (closed, s, w) = socket_close os s w;
         (s, w) = (if closed then fire user handler_close Ev_close s w else (s, w)) in
     (closed, s, w))"

text \<open>\<open>psend\<close> is the hook \<open>poll_send\<close>.\<close>

definition event_write ::
  "(byte list \<Rightarrow> int \<Rightarrow> 'a ev_sock_scheme \<Rightarrow> world \<Rightarrow> int \<times> 'a ev_sock_scheme \<times> world) \<Rightarrow> bool \<Rightarrow>
   ('a ev_sock_scheme) user_handlers \<Rightarrow> byte list option \<Rightarrow> int \<Rightarrow> 'a ev_sock_scheme \<Rightarrow> world \<Rightarrow>
   int \<times> 'a ev_sock_scheme \<times> world"
where
  "event_write psend terminal user data sz s w =
    (if \<not> is_valid_socket s \<or> data = None \<or> sz \<le> 0
     then (socket_error, s\<lparr>error_code := argument_error s\<rparr>, w)
     else
       let (sent, s, w) = psend (the data) sz s w;
           (s, w) =
             (if sent < 0
              then
                let native = errno w;
                    code = transport_error (\<not> would_block_error native \<and> terminal) s native;
                    s = s\<lparr>error_code := code\<rparr> in
                fire user handler_error (Ev_error code) s w
              else (s\<lparr>error_code := err_none\<rparr>, w));
           (s, w) = fire user handler_write
             (Ev_write (the data) sz (if sent < 0 then 0 else sent)) s w in
       (sent, s, w))"

definition event_write_cstr ::
  "(byte list \<Rightarrow> int \<Rightarrow> 'a ev_sock_scheme \<Rightarrow> world \<Rightarrow> int \<times> 'a ev_sock_scheme \<times> world) \<Rightarrow> bool \<Rightarrow>
   ('a ev_sock_scheme) user_handlers \<Rightarrow> byte list option \<Rightarrow> 'a ev_sock_scheme \<Rightarrow> world \<Rightarrow>
   int \<times> 'a ev_sock_scheme \<times> world"
where
  "event_write_cstr psend terminal user data s w =
    (if data = None \<or> \<not> is_valid_socket s then (socket_error, s, w)
     else
       let len = int (length (c_string (the data))) in
       if len = 0 then (0, s, w)
       else if len > int_max then (socket_error, s, w)
       else event_write psend terminal user data (to_int32 len) s w)"

definition event_write_string ::
  "(byte list \<Rightarrow> int \<Rightarrow> 'a ev_sock_scheme \<Rightarrow> world \<Rightarrow> int \<times> 'a ev_sock_scheme \<times> world) \<Rightarrow> bool \<Rightarrow>
   ('a ev_sock_scheme) user_handlers \<Rightarrow> byte list \<Rightarrow> 'a ev_sock_scheme \<Rightarrow> world \<Rightarrow>
   int \<times> 'a ev_sock_scheme \<times> world"
where
  "event_write_string psend terminal user data s w =
    (if \<not> is_valid_socket s \<or> data = [] \<or> int (length data) > int_max then (socket_error, s, w)
     else event_write psend terminal user (Some data) (to_int32 (int (length data))) s w)"

section \<open>The event client\<close>

definition finish_connect ::
  "('a ev_sock_scheme) user_handlers \<Rightarrow> os \<Rightarrow> 'a ev_sock_scheme \<Rightarrow> world \<Rightarrow>
    bool \<times> 'a ev_sock_scheme \<times> world"
where
  "finish_connect user os s w =
    (let (r, s, w) = set_blocking os False s w in
     if r \<noteq> 0 then (False, snd (socket_close os s w))
     else (True, fire user handler_connect Ev_connect s w))"

definition client_event_connect_stored ::
  "('a ev_sock_scheme) user_handlers \<Rightarrow> os \<Rightarrow> 'a ev_sock_scheme \<Rightarrow> world \<Rightarrow>
    bool \<times> 'a ev_sock_scheme \<times> world"
where
  "client_event_connect_stored user os s w =
    (let (b, s, w) = tcp_connect_stored os (event_close user) s w in
     if \<not> b then (False, s, w) else finish_connect user os s w)"

definition client_event_connect_host ::
  "('a ev_sock_scheme) user_handlers \<Rightarrow> os \<Rightarrow> string option \<Rightarrow> int \<Rightarrow> 'a ev_sock_scheme \<Rightarrow> world \<Rightarrow>
    bool \<times> 'a ev_sock_scheme \<times> world"
where
  "client_event_connect_host user os host p s w =
    (let (b, s, w) = tcp_connect_host os (event_close user) host p s w in
     if \<not> b then (False, s, w) else finish_connect user os s w)"

definition client_event_connect ::
  "('a ev_sock_scheme) user_handlers \<Rightarrow> os \<Rightarrow> address \<Rightarrow> 'a ev_sock_scheme \<Rightarrow> world \<Rightarrow>
    bool \<times> 'a ev_sock_scheme \<times> world"
where
  "client_event_connect user os a s w =
    (let (b, s, w) = tcp_connect_addr os (event_close user) a s w in
     if \<not> b then (False, s, w) else finish_connect user os s w)"

section \<open>The contract of a queued transport\<close>

text \<open>One round of the loop, with the answer of the transport given.\<close>

lemma flush_loop_round:
  assumes "queued_bytes s \<noteq> 0 \<and> tot < budget"
    and "k = min (min (length (queue_front (outgoing s))) (budget - tot)) (nat int_max)"
    and "psend (take k (queue_front (outgoing s))) (int k) s w = (sent, s1, w1)"
  shows "flush_loop psend terminal budget i tot s w =
    (if sent < 0
     then
       if errno w1 = EINTR \<and> i + 1 \<le> 4 then flush_loop psend terminal budget (i + 1) tot s1 w1
       else if errno w1 = EINTR \<or> would_block_error (errno w1) then ((tot, 0), s1, w1)
       else ((tot, transport_error terminal s1
                     (if errno w1 \<noteq> 0 then errno w1 else invalid_descriptor_error)), clear_queue s1, w1)
     else if sent = 0 then ((tot, 0), s1, w1)
     else if sent > int k then ((tot, err_system), clear_queue s1, w1)
     else flush_loop psend terminal budget 0 (tot + nat sent)
            (s1\<lparr>outgoing := queue_advance (nat sent) (outgoing s1)\<rparr>) w1)"
  using assms(1) assms(3) [unfolded assms(2)] unfolding assms(2)
  by (simp add: flush_loop.simps [of psend terminal budget i tot s w] Let_def cong: if_cong)

text \<open>What every transport call keeps and the queue has no part in, the loop keeps.\<close>

lemma flush_loop_preserves:
  assumes queue: "\<And>s q w. P (s\<lparr>outgoing := q\<rparr>) w = P s w"
    and call: "\<And>data n s w r s' w'. P s w \<Longrightarrow> psend data n s w = (r, s', w') \<Longrightarrow> P s' w'"
    and "P s w" "flush_loop psend terminal budget i tot s w = (r, s', w')"
  shows "P s' w'"
  using assms(2-4)
proof (induction psend terminal budget i tot s w rule: flush_loop.induct)
  case (1 psend terminal budget i tot s w)
  let ?k = "min (min (length (queue_front (outgoing s))) (budget - tot)) (nat int_max)"
  show ?case
  proof (cases "queued_bytes s \<noteq> 0 \<and> tot < budget")
    case False
    then show ?thesis using "1.prems" flush_loop.simps [of psend terminal budget i tot s w] by auto
  next
    case True
    obtain sent s1 w1 where p: "psend (take ?k (queue_front (outgoing s))) (int ?k) s w = (sent, s1, w1)"
      by (metis prod_cases3)
    note round = flush_loop_round [where psend = psend and terminal = terminal and i = i, OF True refl p]
    have st: "P s1 w1" by (rule "1.prems"(1) [OF "1.prems"(2) p])
    let ?err = "if sent < 0 then errno w1 else 0"
    let ?s2 = "s1\<lparr>outgoing := queue_advance (nat sent) (outgoing s1)\<rparr>"
    consider (again) "sent < 0" "?err = EINTR \<and> i + 1 \<le> 4"
      | (more) "\<not> sent < 0" "sent \<noteq> 0" "\<not> int ?k < sent"
      | (stop) "sent < 0 \<and> \<not> (errno w1 = EINTR \<and> i + 1 \<le> 4) \<or> sent = 0 \<or> int ?k < sent"
      by (cases "sent < 0"; cases "errno w1 = EINTR \<and> i + 1 \<le> 4"; cases "int ?k < sent"; cases "sent = 0") simp_all
    then show ?thesis
    proof cases
      case again
      then have rec: "flush_loop psend terminal budget (i + 1) tot s1 w1 = (r, s', w')"
        using "1.prems"(3) unfolding round by auto
      note IH = "1.IH"(1) [OF True refl refl p [symmetric] refl refl refl again]
      show ?thesis by (rule IH [OF _ st rec]) (rule "1.prems"(1))
    next
      case more
      then have rec: "flush_loop psend terminal budget 0 (tot + nat sent) ?s2 w1 = (r, s', w')"
        using "1.prems"(3) unfolding round by auto
      have st2: "P ?s2 w1" using st by (simp add: queue)
      note IH = "1.IH"(2) [OF True refl refl p [symmetric] refl refl refl more]
      show ?thesis by (rule IH [OF _ st2 rec]) (rule "1.prems"(1))
    next
      case stop
      then have "w' = w1" "s' = s1 \<or> s' = clear_queue s1"
        using "1.prems"(3) unfolding round by (auto split: if_splits)
      then show ?thesis using st by (auto simp: clear_queue_def queue)
    qed
  qed
qed

lemma flush_queued_preserves:
  assumes "\<And>s q w. P (s\<lparr>outgoing := q\<rparr>) w = P s w"
    and "\<And>data n s w r s' w'. P s w \<Longrightarrow> psend data n s w = (r, s', w') \<Longrightarrow> P s' w'"
    and "P s w" "flush_queued psend terminal budget s w = (res, s', w')"
  shows "P s' w'"
proof (cases "\<not> is_valid_socket s \<or> blocking s \<or> budget = 0")
  case True
  then show ?thesis using assms(3,4) by (auto simp: flush_queued_def)
next
  case False
  obtain r s1 w1 where f: "flush_loop psend terminal budget 0 0 s w = (r, s1, w1)" by (metis prod_cases3)
  have "s' = s1" "w' = w1"
    using assms(4) [unfolded flush_queued_def if_not_P [OF False] f] by (auto simp: Let_def split: prod.splits)
  then show ?thesis using flush_loop_preserves [of P, OF assms(1-3) f] by simp
qed

text \<open>
  What \<open>flush_queued\<close> relies on from \<open>poll_send_queued\<close>: it sends a prefix of what it
  was offered, and leaves the queue and the descriptor alone. \<open>ok\<close> is the invariant of the
  transport's own state, which the queue is no part of.
\<close>

definition same_descriptors :: "'a sock_scheme \<Rightarrow> world \<Rightarrow> 'b sock_scheme \<Rightarrow> world \<Rightarrow> bool" where
  "same_descriptors s w s' w' \<longleftrightarrow> sockfd s' = sockfd s \<and>
    open_fds (trace w') = open_fds (trace w) \<and> closes_ok (trace w') = closes_ok (trace w)"

lemma transport_error_nonzero: "native \<noteq> 0 \<Longrightarrow> transport_error terminal s native \<noteq> 0"
  by (simp add: transport_error_def)

definition takes_some ::
  "(byte list \<Rightarrow> int \<Rightarrow> 'a ev_sock_scheme \<Rightarrow> world \<Rightarrow> int \<times> 'a ev_sock_scheme \<times> world) \<Rightarrow> bool"
where
  "takes_some psend \<longleftrightarrow>
    (\<forall>data s w. data = [] \<or> 0 < fst (psend data (int (length data)) s w))"

lemma takes_someD:
  "takes_some psend \<Longrightarrow> data \<noteq> [] \<Longrightarrow> psend data (int (length data)) s w = (r, s', w') \<Longrightarrow> 0 < r"
  unfolding takes_some_def by (metis fst_conv)

locale queued_transport =
  fixes psend :: "os \<Rightarrow> byte list \<Rightarrow> int \<Rightarrow> 'a ev_sock_scheme \<Rightarrow> world \<Rightarrow>
    int \<times> 'a ev_sock_scheme \<times> world"
    and ok :: "'a ev_sock_scheme \<Rightarrow> bool"
  assumes psend_contract:
      "send_bounded os \<Longrightarrow> ok s \<Longrightarrow> data \<noteq> [] \<Longrightarrow>
       psend os data (int (length data)) s w = (r, s', w') \<Longrightarrow>
       r \<le> int (length data) \<and>
       outbound (trace w') = outbound (trace w) @ take (nat r) data \<and> outgoing s' = outgoing s \<and>
       ok s'"
    and ok_outgoing: "ok (s\<lparr>outgoing := q\<rparr>) = ok s"
    and psend_neutral: "psend os data n s w = (r, s', w') \<Longrightarrow> same_descriptors s w s' w'"
begin

text \<open>One round offers a nonempty prefix of the pending bytes.\<close>

lemma offer:
  assumes "queue_inv q" "qbytes q \<noteq> 0" "tot < budget"
  defines "k \<equiv> min (min (length (queue_front q)) (budget - tot)) (nat int_max)"
  shows "take k (queue_front q) = take k (pending q)" "0 < k" "k \<le> budget - tot"
    "k \<le> length (queue_front q)" "k \<le> length (pending q)" "length (take k (queue_front q)) = k"
proof -
  have ne: "queue_front q \<noteq> []"
    by (rule pending_front(2) [OF assms(1) queue_inv_chunks [OF assms(1,2)]])
  have le: "k \<le> length (queue_front q)" by (simp add: k_def)
  show "take k (queue_front q) = take k (pending q)" by (rule front_prefix [OF assms(1,2) le])
  show "0 < k" using ne assms(3) by (simp add: k_def)
  show "k \<le> budget - tot" "k \<le> length (queue_front q)" "length (take k (queue_front q)) = k"
    by (simp_all add: k_def)
  show "k \<le> length (pending q)"
    using le pending_front(1) [OF assms(1) queue_inv_chunks [OF assms(1,2)]] by simp
qed

text \<open>
  The loop transmits a prefix of the pending bytes, in order, and keeps exactly the rest, unless
  it reports an error, in which case the queue is discarded.
\<close>

lemma flush_loop_fifo:
  assumes "send_bounded os" "queue_inv (outgoing s)" "ok s" "tot \<le> budget"
    and "flush_loop (psend os) terminal budget i tot s w = ((k, e), s', w')"
  shows "ok s' \<and> tot \<le> k \<and> k \<le> budget \<and> queue_inv (outgoing s') \<and>
    qlimit (outgoing s') = qlimit (outgoing s) \<and> k - tot \<le> length (pending (outgoing s)) \<and>
    outbound (trace w') = outbound (trace w) @ take (k - tot) (pending (outgoing s)) \<and>
    pending (outgoing s') = (if e = 0 then drop (k - tot) (pending (outgoing s)) else [])"
  using assms(2-5)
proof (induction "psend os" terminal budget i tot s w rule: flush_loop.induct)
  case (1 terminal budget i tot s w)
  let ?q = "outgoing s" and ?front = "queue_front (outgoing s)"
  let ?k = "min (min (length ?front) (budget - tot)) (nat int_max)"
  show ?case
  proof (cases "queued_bytes s \<noteq> 0 \<and> tot < budget")
    case False
    then show ?thesis using "1.prems" flush_loop.simps [of "psend os" terminal budget i tot s w] by auto
  next
    case True
    then have busy: "qbytes ?q \<noteq> 0" "tot < budget" by (auto simp: queued_bytes_def)
    note off = offer [OF "1.prems"(1) busy]
    obtain sent s1 w1 where p: "psend os (take ?k ?front) (int ?k) s w = (sent, s1, w1)"
      by (metis prod_cases3)
    note round = flush_loop_round [where psend = "psend os" and terminal = terminal and i = i,
      OF True refl p]
    have data: "take ?k ?front \<noteq> []" using off(2) by auto
    have c: "sent \<le> int ?k"
      "outbound (trace w1) = outbound (trace w) @ take (nat sent) (take ?k ?front)"
      "outgoing s1 = ?q" and ok1: "ok s1"
      using psend_contract [OF assms(1) "1.prems"(2) data, of w sent s1 w1] p unfolding off(6) by auto
    let ?err = "if sent < 0 then errno w1 else 0"
    let ?again = "sent < 0 \<and> ?err = EINTR \<and> i + 1 \<le> 4"
    consider (again) "?again" | (stop) "sent < 0" "\<not> ?again" | (none) "sent = 0" | (some) "0 < sent"
      by linarith
    then show ?thesis
    proof cases
      case again
      have again1: "sent < 0" and again2: "?err = EINTR \<and> i + 1 \<le> 4" using again by auto
      have inv1: "queue_inv (outgoing s1)" using "1.prems"(1) c(3) by simp
      have rec: "flush_loop (psend os) terminal budget (i + 1) tot s1 w1 = ((k, e), s', w')"
        using "1.prems"(4) again unfolding round by auto
      have IH: "ok s' \<and> tot \<le> k \<and> k \<le> budget \<and> queue_inv (outgoing s') \<and>
        qlimit (outgoing s') = qlimit (outgoing s1) \<and> k - tot \<le> length (pending (outgoing s1)) \<and>
        outbound (trace w') = outbound (trace w1) @ take (k - tot) (pending (outgoing s1)) \<and>
        pending (outgoing s') = (if e = 0 then drop (k - tot) (pending (outgoing s1)) else [])"
        by (rule "1.hyps"(1) [OF True refl refl p [symmetric] refl refl refl again1 again2 inv1
            ok1 "1.prems"(3) rec])
      then show ?thesis using c again by simp
    next
      case stop
      let ?code = "transport_error terminal s1 (if errno w1 \<noteq> 0 then errno w1 else invalid_descriptor_error)"
      have "((k, e), s', w') = (if errno w1 = EINTR \<or> would_block_error (errno w1)
          then ((tot, 0), s1, w1) else ((tot, ?code), clear_queue s1, w1))"
        using "1.prems"(4) stop unfolding round by auto
      then have "k = tot" "w' = w1" "e = 0 \<and> s' = s1 \<or> e \<noteq> 0 \<and> s' = clear_queue s1"
        using transport_error_nonzero by (auto simp: invalid_descriptor_error_def split: if_splits)
      then show ?thesis using "1.prems"(1,3) c stop(1) ok1 by (auto simp: clear_queue_def ok_outgoing)
    next
      case none
      then show ?thesis using "1.prems" c ok1 unfolding round by auto
    next
      case some
      let ?s2 = "s1\<lparr>outgoing := queue_advance (nat sent) (outgoing s1)\<rparr>"
      have adv: "pending (queue_advance (nat sent) ?q) = drop (nat sent) (pending ?q)"
        "queue_inv (queue_advance (nat sent) ?q)"
        using queue_advance_refines [OF "1.prems"(1) busy(1), of "nat sent"] some c(1) off(4) by auto
      have rec: "flush_loop (psend os) terminal budget 0 (tot + nat sent) ?s2 w1 = ((k, e), s', w')"
        using "1.prems"(4) some c(1) unfolding round by auto
      have pos: "\<not> sent < 0" "sent \<noteq> 0" "\<not> int ?k < sent" using some c(1) by auto
      have inv2: "queue_inv (outgoing ?s2)" using adv(2) c(3) by simp
      have ok2: "ok ?s2" using ok1 by (simp add: ok_outgoing)
      have in_budget: "tot + nat sent \<le> budget" using off(3) c(1) busy(2) by linarith
      have le: "nat sent \<le> budget - tot" "nat sent \<le> ?k" using off(3) c(1) by linarith+
      have IH: "ok s' \<and> tot + nat sent \<le> k \<and> k \<le> budget \<and> queue_inv (outgoing s') \<and>
        qlimit (outgoing s') = qlimit (outgoing ?s2) \<and>
        k - (tot + nat sent) \<le> length (pending (outgoing ?s2)) \<and>
        outbound (trace w') =
          outbound (trace w1) @ take (k - (tot + nat sent)) (pending (outgoing ?s2)) \<and>
        pending (outgoing s') =
          (if e = 0 then drop (k - (tot + nat sent)) (pending (outgoing ?s2)) else [])"
        by (rule "1.hyps"(2) [OF True refl refl p [symmetric] refl refl refl pos(1,2) pos(3) inv2
            ok2 in_budget rec])
      have sum: "k - tot = nat sent + (k - (tot + nat sent))" using IH by linarith
      have pieces: "take (k - tot) xs = take (nat sent) xs @ take (k - (tot + nat sent)) (drop (nat sent) xs)"
        "drop (k - tot) xs = drop (k - (tot + nat sent)) (drop (nat sent) xs)" for xs :: "byte list"
        unfolding sum take_add drop_drop by (simp_all add: add.commute)
      have pl: "nat sent \<le> length (pending ?q)" using le(2) off(5) by linarith
      have "take (nat sent) (take ?k ?front) = take (nat sent) (pending ?q)"
        using off(1) le(2) by (metis min.absorb1 take_take)
      then have "outbound (trace w') = outbound (trace w) @ take (k - tot) (pending ?q)"
        using IH c(2,3) adv(1) pieces(1) by simp
      moreover have "pending (outgoing s') = (if e = 0 then drop (k - tot) (pending ?q) else [])"
        using IH c(3) adv(1) pieces(2) by simp
      moreover have "k - tot \<le> length (pending ?q)"
      proof -
        have "k - (tot + nat sent) \<le> length (pending ?q) - nat sent" using IH c(3) adv(1) by simp
        then show ?thesis using pl sum by linarith
      qed
      ultimately show ?thesis using IH c(3) by auto
    qed
  qed
qed

lemma flush_loop_neutral:
  assumes "flush_loop (psend os) terminal budget i tot s w = (r, s', w')"
  shows "same_descriptors s w s' w'"
proof (rule flush_loop_preserves [of "same_descriptors s w", OF _ _ _ assms])
  show "same_descriptors s w s2 w2"
    if "same_descriptors s w s1 w1" "psend os data n s1 w1 = (k, s2, w2)" for data n s1 w1 k s2 w2
    using that(1) psend_neutral [OF that(2)] by (simp add: same_descriptors_def)
qed (simp_all add: same_descriptors_def)

lemma flush_queued_cases:
  assumes "flush_queued (psend os) terminal budget s w = (res, s', w')"
  shows "\<not> (is_valid_socket s \<and> \<not> blocking s \<and> budget \<noteq> 0) \<and> s' = s \<and> w' = w \<and>
       res = \<lparr>fl_bytes = 0, fl_error = 0, fl_drained = False\<rparr>
    \<or> flush_loop (psend os) terminal budget 0 0 s w = ((fl_bytes res, fl_error res), s', w') \<and>
      fl_drained res = (queued_bytes s \<noteq> 0 \<and> queued_bytes s' = 0 \<and> fl_error res = 0)"
  using assms by (auto simp: flush_queued_def Let_def split: if_splits prod.splits)

lemma flush_queued_fifo:
  assumes "send_bounded os" "queue_inv (outgoing s)" "ok s"
    and "flush_queued (psend os) terminal budget s w = (res, s', w')"
  shows "ok s' \<and> fl_bytes res \<le> budget \<and> queue_inv (outgoing s') \<and>
    qlimit (outgoing s') = qlimit (outgoing s) \<and>
    outbound (trace w') = outbound (trace w) @ take (fl_bytes res) (pending (outgoing s)) \<and>
    pending (outgoing s') =
      (if fl_error res = 0 then drop (fl_bytes res) (pending (outgoing s)) else []) \<and>
    fl_drained res =
      (pending (outgoing s) \<noteq> [] \<and> pending (outgoing s') = [] \<and> fl_error res = 0 \<and>
       is_valid_socket s \<and> \<not> blocking s \<and> budget \<noteq> 0) \<and>
    sockfd s' = sockfd s \<and> open_fds (trace w') = open_fds (trace w)"
  using flush_queued_cases [OF assms(4)]
proof
  assume none: "\<not> (is_valid_socket s \<and> \<not> blocking s \<and> budget \<noteq> 0) \<and> s' = s \<and> w' = w \<and>
       res = \<lparr>fl_bytes = 0, fl_error = 0, fl_drained = False\<rparr>"
  then show ?thesis using assms(2,3) by auto
next
  assume run: "flush_loop (psend os) terminal budget 0 0 s w = ((fl_bytes res, fl_error res), s', w') \<and>
      fl_drained res = (queued_bytes s \<noteq> 0 \<and> queued_bytes s' = 0 \<and> fl_error res = 0)"
  show ?thesis
  proof (cases "is_valid_socket s \<and> \<not> blocking s \<and> budget \<noteq> 0")
    case True
    note f = flush_loop_fifo [OF assms(1-3) le0 conjunct1 [OF run]]
    have safe: "open_fds (trace w') = open_fds (trace w)" "sockfd s' = sockfd s"
      using flush_loop_neutral [OF conjunct1 [OF run]] by (simp_all add: same_descriptors_def)
    show ?thesis
      using f safe conjunct2 [OF run] queue_inv_bytes [OF assms(2)] True
        queue_inv_bytes [of "outgoing s'"]
      by (auto simp: queued_bytes_def)
  next
    case False
    then show ?thesis using assms by (auto simp: flush_queued_def)
  qed
qed

text \<open>A transport that takes at least one byte per call empties the queue, up to the budget.\<close>

lemma flush_loop_drains:
  assumes "send_bounded os" "queue_inv (outgoing s)" "ok s" "tot \<le> budget"
    and willing: "takes_some (psend os)"
    and "flush_loop (psend os) terminal budget i tot s w = ((k, e), s', w')"
  shows "e = 0 \<and> k = tot + min (budget - tot) (length (pending (outgoing s)))"
  using assms(2,3,4,6)
proof (induction "psend os" terminal budget i tot s w rule: flush_loop.induct)
  case (1 terminal budget i tot s w)
  let ?q = "outgoing s"
  let ?k = "min (min (length (queue_front ?q)) (budget - tot)) (nat int_max)"
  show ?case
  proof (cases "queued_bytes s \<noteq> 0 \<and> tot < budget")
    case False
    then show ?thesis
      using "1.prems" flush_loop.simps [of "psend os" terminal budget i tot s w]
        queue_inv_bytes [OF "1.prems"(1)] by (auto simp: queued_bytes_def)
  next
    case True
    then have busy: "qbytes ?q \<noteq> 0" "tot < budget" by (auto simp: queued_bytes_def)
    note off = offer [OF "1.prems"(1) busy]
    obtain sent s1 w1 where p: "psend os (take ?k (queue_front ?q)) (int ?k) s w = (sent, s1, w1)"
      by (metis prod_cases3)
    note round = flush_loop_round [where psend = "psend os" and terminal = terminal and i = i,
      OF True refl p]
    have data: "take ?k (queue_front ?q) \<noteq> []" using off(2) by auto
    have c: "sent \<le> int ?k" "outgoing s1 = ?q" "0 < sent" and ok1: "ok s1"
      using psend_contract [OF assms(1) "1.prems"(2) data, of w sent s1 w1] p takes_someD [OF willing data, of s w sent s1 w1]
      unfolding off(6) by auto
    let ?s2 = "s1\<lparr>outgoing := queue_advance (nat sent) (outgoing s1)\<rparr>"
    have pos: "\<not> sent < 0" "sent \<noteq> 0" "\<not> int ?k < sent" using c by auto
    have rec: "flush_loop (psend os) terminal budget 0 (tot + nat sent) ?s2 w1 = ((k, e), s', w')"
      using "1.prems"(4) pos unfolding round by auto
    have adv: "pending (queue_advance (nat sent) ?q) = drop (nat sent) (pending ?q)"
      "queue_inv (queue_advance (nat sent) ?q)"
      using queue_advance_refines [OF "1.prems"(1) busy(1), of "nat sent"] c(1,3) off(4) by auto
    have inv2: "queue_inv (outgoing ?s2)" using adv(2) c(2) by simp
    have ok2: "ok ?s2" using ok1 by (simp add: ok_outgoing)
    have le: "tot + nat sent \<le> budget" "nat sent \<le> length (pending ?q)"
      using off(3,5) c(1) busy(2) by linarith+
    have "e = 0 \<and> k = tot + nat sent + min (budget - (tot + nat sent)) (length (pending (outgoing ?s2)))"
      by (rule "1.hyps"(2) [OF True refl refl p [symmetric] refl refl refl pos inv2 ok2 le(1) rec])
    then show ?thesis using c(2) adv(1) le by (simp add: min_def) linarith
  qed
qed

end

interpretation tcp_queue: queued_transport tcp_poll_send_queued "\<lambda>_. True"
proof
  show "r \<le> int (length data) \<and> outbound (trace w') = outbound (trace w) @ take (nat r) data \<and>
      outgoing s' = outgoing s \<and> True"
    if "send_bounded os" True "data \<noteq> []"
      "tcp_poll_send_queued os data (int (length data)) s w = (r, s', w')" for os data s w r s' w'
    using that(3,4) send_boundedD [OF that(1), of "Io (Send (sockfd s) data f)" data "trace w" for f]
    by (auto simp: tcp_poll_send_queued_def tcp_poll_send_def send_call_def sys_def Let_def)
  show "True = True" ..
  show "same_descriptors s w s' w'"
    if "tcp_poll_send_queued os data n s w = (r, s', w')" for os data n s w r s' w'
    using that
    by (auto simp: tcp_poll_send_queued_def tcp_poll_send_def sys_def Let_def same_descriptors_def)
qed

section \<open>The stream a queue carries\<close>

text \<open>
  Any interleaving of queued writes, limit changes and flushes without a transport error, over
  the transport hook \<open>psend\<close>. The first component collects the bytes that were accepted.
\<close>

inductive stream_step ::
  "(byte list \<Rightarrow> int \<Rightarrow> 'a ev_sock_scheme \<Rightarrow> world \<Rightarrow> int \<times> 'a ev_sock_scheme \<times> world) \<Rightarrow> bool \<Rightarrow>
   ('a ev_sock_scheme \<Rightarrow> bool) \<Rightarrow> byte list \<times> 'a ev_sock_scheme \<times> world \<Rightarrow>
   byte list \<times> 'a ev_sock_scheme \<times> world \<Rightarrow> bool"
  for psend terminal accepts
where
  enqueue: "queue_write accepts (Some data) n s = (b, s') \<Longrightarrow> n \<le> length data \<Longrightarrow>
    stream_step psend terminal accepts (acc, s, w) (if b then acc @ take n data else acc, s', w)"
| set_limit: "set_max_queued_bytes lim s = (b, s') \<Longrightarrow>
    stream_step psend terminal accepts (acc, s, w) (acc, s', w)"
| flush: "flush_queued psend terminal budget s w = (res, s', w') \<Longrightarrow> fl_error res = 0 \<Longrightarrow>
    stream_step psend terminal accepts (acc, s, w) (acc, s', w')"

inductive_cases stream_stepE: "stream_step psend terminal accepts (acc, s, w) (acc', s', w')"

definition stream_inv :: "byte list \<Rightarrow> byte list \<times> 'a ev_sock_scheme \<times> world \<Rightarrow> bool" where
  "stream_inv base st =
    (case st of (acc, s, w) \<Rightarrow> queue_inv (outgoing s) \<and>
       outbound (trace w) @ pending (outgoing s) = base @ acc)"

lemma queue_write_refines:
  assumes "queue_inv (outgoing s)" "queue_write accepts (Some data) n s = (b, s')" "n \<le> length data"
  shows "queue_inv (outgoing s') \<and>
    pending (outgoing s') = pending (outgoing s) @ (if b then take n data else []) \<and>
    (\<not> b \<longrightarrow> s' = s) \<and> qlimit (outgoing s') = qlimit (outgoing s) \<and> sockfd s' = sockfd s"
proof (cases "n = 0")
  case True
  then show ?thesis using assms by (auto simp: queue_write_def split: if_splits)
next
  case False
  show ?thesis
  proof (cases b)
    case True
    then have "s' = s\<lparr>outgoing := queue_append (take n data) (outgoing s)\<rparr>"
      "n \<le> qlimit (outgoing s) - qbytes (outgoing s)"
      using assms(2) False by (auto simp: queue_write_def Let_def split: if_splits)
    moreover have "qbytes (outgoing s) \<le> qlimit (outgoing s)" "take n data \<noteq> []"
      using assms(1,3) False by (auto simp: queue_inv_def)
    ultimately show ?thesis
      using True queue_append_refines [OF assms(1), of "take n data"] assms(3) by simp
  next
    case unchanged: False
    then show ?thesis using assms by (auto simp: queue_write_def Let_def split: if_splits)
  qed
qed

lemma set_max_queued_bytes_inv:
  "queue_inv (outgoing s) \<Longrightarrow> set_max_queued_bytes lim s = (b, s') \<Longrightarrow>
   queue_inv (outgoing s') \<and> pending (outgoing s') = pending (outgoing s) \<and> sockfd s' = sockfd s"
  by (auto simp: set_max_queued_bytes_def queue_inv_def pending_def split: if_splits)

context queued_transport
begin

lemma queue_write_ok: "queue_write accepts data n s = (b, s') \<Longrightarrow> ok s' = ok s"
  by (auto simp: queue_write_def Let_def ok_outgoing split: if_splits)

lemma set_max_queued_bytes_ok: "set_max_queued_bytes lim s = (b, s') \<Longrightarrow> ok s' = ok s"
  by (auto simp: set_max_queued_bytes_def ok_outgoing split: if_splits)

lemma stream_step_inv:
  assumes "send_bounded os" "stream_step (psend os) terminal accepts st st'" "stream_inv base st"
    "ok (fst (snd st))"
  shows "stream_inv base st' \<and> ok (fst (snd st'))"
  using assms(2-4)
proof cases
  case (enqueue data n s b s' acc w)
  have inv: "queue_inv (outgoing s)" "outbound (trace w) @ pending (outgoing s) = base @ acc"
    using assms(3) enqueue(1) by (auto simp: stream_inv_def)
  show ?thesis
    using queue_write_refines [OF inv(1) enqueue(3,4)] inv(2) enqueue(2)
      queue_write_ok [OF enqueue(3)] assms(4) enqueue(1)
    by (auto simp: stream_inv_def)
next
  case (set_limit lim s b s' acc w)
  then show ?thesis 
    using assms(3,4) set_max_queued_bytes_inv [of s lim b s'] set_max_queued_bytes_ok [of lim s b s']
    by (auto simp: stream_inv_def)
next
  case (flush budget s w res s' w' acc)
  have inv: "queue_inv (outgoing s)" "outbound (trace w) @ pending (outgoing s) = base @ acc"
    using assms(3) flush(1) by (auto simp: stream_inv_def)
  have okay: "ok s" using assms(4) flush(1) by simp
  note f = flush_queued_fifo [OF assms(1) inv(1) okay flush(3)]
  have "take (fl_bytes res) (pending (outgoing s)) @ drop (fl_bytes res) (pending (outgoing s)) =
    pending (outgoing s)" by (rule append_take_drop_id)
  then show ?thesis using f inv(2) flush(2,4) by (simp add: stream_inv_def)
qed

lemma stream_reachable_inv:
  "(stream_step (psend os) terminal accepts)\<^sup>*\<^sup>* st st' \<Longrightarrow> send_bounded os \<Longrightarrow> stream_inv base st \<Longrightarrow>
   ok (fst (snd st)) \<Longrightarrow> stream_inv base st' \<and> ok (fst (snd st'))"
  by (induction rule: rtranclp_induct) (use stream_step_inv in blast)+

end

section \<open>Closing and connecting\<close>

lemma fire_log_user:
  "fire (log_user os addr) slot ev s w =
    (s, if slots s ! slot then snd (sys os (Cb addr ev) w) else w)"
  by (simp add: fire_def log_user_def)

text \<open>The stages of a close: the queue is dropped, then the descriptor, then the handler runs.\<close>

lemma event_close_eq:
  "event_close user os s w =
    (case socket_close os (clear_queue s) w of (closed, s1, w1) \<Rightarrow>
       if closed then (closed, fire user handler_close Ev_close s1 w1) else (closed, s1, w1))"
  by (simp add: event_close_def Let_def split: prod.splits)

lemma socket_close_queue:
  "socket_close os s w = (b, s', w') \<Longrightarrow> outgoing s' = outgoing s \<and> slots s' = slots s"
  by (auto simp: socket_close_def Let_def split: prod.splits if_splits)

lemma event_close_logged:
  assumes "event_close (log_user os addr) os s w = (b, s', w')"
    and "socket_close os (clear_queue s) w = (c, s1, w1)"
  shows "b = c \<and> s' = s1 \<and>
    w' = (if c \<and> slots s ! handler_close then snd (sys os (Cb addr Ev_close) w1) else w1)"
  using assms socket_close_queue [OF assms(2)]
  by (auto simp: event_close_eq fire_log_user clear_queue_def split: if_splits)

interpretation event_close: virtual_close "\<lambda>os. event_close (log_user os addr) os" for addr
proof
  fix os :: os and s :: "'a ev_sock_scheme" and w b s' w'
  assume e: "event_close (log_user os addr) os s w = (b, s', w')"
  obtain c s1 w1 where c: "socket_close os (clear_queue s) w = (c, s1, w1)" by (metis prod_cases3)
  note eq = event_close_logged [OF e c]
  have frame: "sockfd (clear_queue s) = sockfd s" "blocking (clear_queue s) = blocking s"
    "connect_timeout_ms (clear_queue s) = connect_timeout_ms s" "error_code (clear_queue s) = error_code s"
    "is_valid_socket (clear_queue s) = is_valid_socket s"
    by (simp_all add: clear_queue_def is_valid_socket_def)
  show "sockfd s' < 0" using eq base_close.cl_releases [OF c] by simp
  show "safe_step s w s' w'"
    using eq base_close.cl_safe [OF c] frame(1)
    by (auto simp: safe_step_def sys_def Let_def)
  show "\<not> connected s'" if "is_valid_socket s" using eq base_close.cl_disconnects [OF c] frame(5) that by simp
  show "blocking s' = blocking s" using eq base_close.cl_blocking [OF c] frame(2) by simp
  show "connect_timeout_ms s' = connect_timeout_ms s" using eq base_close.cl_timeout [OF c] frame(3) by simp
  show "error_code s' = error_code s \<or> error_code s' \<noteq> 0" if "errno_set os"
    using eq base_close.cl_error [OF that c] frame(4) by simp
qed

lemma finish_connect_safe:
  assumes "finish_connect (log_user os addr) os s w = (b, s', w')"
  shows "safe_step s w s' w'"
proof -
  obtain r s1 w1 where bl: "set_blocking os False s w = (r, s1, w1)" by (metis prod_cases3)
  obtain c s2 w2 where cl: "socket_close os s1 w1 = (c, s2, w2)" by (metis prod_cases3)
  have "safe_step s w s1 w1" using set_blocking_safe [OF bl] by simp
  moreover have "safe_step s1 w1 s2 w2" by (rule socket_close_safe [OF cl])
  ultimately show ?thesis
    using assms bl cl
    by (auto simp: finish_connect_def fire_log_user Let_def safe_step_def sys_def split: if_splits
        intro: fd_safe_trans)
qed

lemma finish_connect_outcome:
  assumes "finish_connect (log_user os addr) os s w = (b, s', w')"
  shows "if b then sockfd s' = sockfd s \<and> \<not> blocking s' \<and> connected s' = connected s \<and>
       (\<exists>f. fl_state (trace w') (sockfd s') = Some f \<and> bit f 11)
     else sockfd s' < 0"
proof -
  obtain r s1 w1 where bl: "set_blocking os False s w = (r, s1, w1)" by (metis prod_cases3)
  have con: "connected s1 = connected s" "slots s1 = slots s"
    using bl by (auto simp: set_blocking_def set_socket_nonblocking_def Let_def split: prod.splits if_splits)
  show ?thesis
  proof (cases "r = 0")
    case True
    then show ?thesis
      using assms bl set_blocking_agrees [of os False s w s1 w1] set_blocking_safe [OF bl] con
      by (auto simp: finish_connect_def fire_log_user Let_def sys_def)
  next
    case False
    obtain c s2 w2 where cl: "socket_close os s1 w1 = (c, s2, w2)" by (metis prod_cases3)
    then show ?thesis
      using assms bl False socket_close_releases [OF cl] by (simp add: finish_connect_def)
  qed
qed

lemma client_event_connect_result:
  assumes "fresh_fds os" "ss_family (get_sockaddr_storage a) \<in> {AF_INET, AF_INET6}"
    and "client_event_connect (log_user os addr) os a s w = (b, s', w')"
  shows "safe_step s w s' w' \<and>
    (if b then is_valid_socket s' \<and> connected s' \<and> \<not> blocking s' \<and>
         (\<exists>f. fl_state (trace w') (sockfd s') = Some f \<and> bit f 11)
     else sockfd s' < 0)"
proof -
  obtain c s1 w1 where t: "tcp_connect_addr os (\<lambda>os. event_close (log_user os addr) os) a s w = (c, s1, w1)"
    by (rule prod_cases3) (rule that)
  have t': "tcp_connect_addr os (event_close (log_user os addr)) a s w = (c, s1, w1)"
    using t unfolding tcp_connect_addr_def .
  obtain d s2 w2 where f: "finish_connect (log_user os addr) os s1 w1 = (d, s2, w2)"
    by (metis prod_cases3)
  have s1: "safe_step s w s1 w1" by (rule event_close.connect_addr_safe [OF assms(1) t])
  have s2: "safe_step s1 w1 s2 w2" by (rule finish_connect_safe [OF f])
  note out = event_close.connect_addr_outcome [OF assms(1,2) t]
  show ?thesis
  proof (cases c)
    case True
    then have "b = d" "s' = s2" "w' = w2" using assms(3) t' f by (simp_all add: client_event_connect_def)
    then show ?thesis
      using out True finish_connect_outcome [OF f] safe_step_trans [OF s1 s2]
      by (cases d) (auto simp: is_valid_socket_def)
  next
    case False
    then have "\<not> b" "s' = s1" "w' = w1" using assms(3) t' by (auto simp: client_event_connect_def)
    then show ?thesis using out False s1 by simp
  qed
qed

section \<open>Properties\<close>

text \<open>
  C1. The write queue is a reliable byte stream. However queued writes, limit changes and
  flushes are interleaved, and however the transport splits, delays or interrupts the sends, the
  bytes handed to the transport followed by the bytes still queued are exactly the accepted
  bytes in the order of their acceptance; the byte count is exact and within the limit.
\<close>

theorem queued_stream_in_order:
  assumes "send_bounded os" "queue_inv (outgoing s0)"
    and "(stream_step (tcp_poll_send_queued os) terminal accepts)\<^sup>*\<^sup>* ([], s0, w0) (acc, s, w)"
  shows "outbound (trace w) @ pending (outgoing s) =
      outbound (trace w0) @ pending (outgoing s0) @ acc \<and>
    queued_bytes s = length (pending (outgoing s)) \<and> queued_bytes s \<le> qlimit (outgoing s)"
proof -
  have "stream_inv (outbound (trace w0) @ pending (outgoing s0)) (acc, s, w)"
    using tcp_queue.stream_reachable_inv [OF assms(3,1)] by (simp add: stream_inv_def assms(2))
  then show ?thesis by (simp add: stream_inv_def queue_inv_def queued_bytes_def)
qed

definition sample_ev :: ev_sock where
  "sample_ev = ev_of_sock (sock_init\<lparr>sockfd := 3, connected := True, blocking := False\<rparr>)"

lemma sample_ev_simps [simp]:
  "outgoing sample_ev = queue_init" "sockfd sample_ev = 3" "connected sample_ev"
  "\<not> blocking sample_ev" "is_valid_socket sample_ev" "slots sample_ev = replicate 7 False"
  "error_code sample_ev = 0"
  by (simp_all add: sample_ev_def ev_of_sock_def sock.defs ev_sock.defs sock_init_def
      is_valid_socket_def)

theorem queued_stream_in_order_witness:
  "\<exists>s. queue_write (\<lambda>_. True) (Some [1, 2, 3]) 3 sample_ev = (True, s) \<and>
    outbound (trace world0) @ pending (outgoing s) = [1, 2, 3]"
proof -
  obtain b s where q: "queue_write (\<lambda>_. True) (Some [1, 2, 3]) 3 sample_ev = (b, s)" by fastforce
  then have b: "b" by (auto simp: queue_write_def Let_def queue_init_def)
  have "stream_step (tcp_poll_send_queued (scripted_os [])) False (\<lambda>_. True) ([], sample_ev, world0)
    ([1, 2, 3], s, world0)"
    using stream_step.enqueue [OF q, where acc = "[]" and w = world0] b by auto
  then have "(stream_step (tcp_poll_send_queued (scripted_os [])) False (\<lambda>_. True))\<^sup>*\<^sup>*
    ([], sample_ev, world0) ([1, 2, 3], s, world0)" by (rule r_into_rtranclp)
  from queued_stream_in_order [OF scripted_send_bounded _ this]
  have "outbound (trace world0) @ pending (outgoing s) = [1, 2, 3]" by (simp add: world0_def)
  then show ?thesis using q b by auto
qed

text \<open>
  A flush transmits a prefix of the pending bytes within its budget and keeps exactly the
  rest. Only a reported error discards the rest, and drained is reported exactly when a nonempty
  queue was emptied without an error. Descriptors are not touched.
\<close>

lemma flush_queued_sends_prefix:
  assumes "send_bounded os" "queue_inv (outgoing s)"
    and "flush_queued (tcp_poll_send_queued os) terminal budget s w = (res, s', w')"
  shows "fl_bytes res \<le> budget \<and> queue_inv (outgoing s') \<and>
    outbound (trace w') = outbound (trace w) @ take (fl_bytes res) (pending (outgoing s)) \<and>
    pending (outgoing s') =
      (if fl_error res = 0 then drop (fl_bytes res) (pending (outgoing s)) else []) \<and>
    fl_drained res =
      (pending (outgoing s) \<noteq> [] \<and> pending (outgoing s') = [] \<and> fl_error res = 0 \<and>
       is_valid_socket s \<and> \<not> blocking s \<and> budget \<noteq> 0) \<and>
    sockfd s' = sockfd s \<and> open_fds (trace w') = open_fds (trace w)"
  using tcp_queue.flush_queued_fifo [OF assms(1,2) TrueI assms(3)] by blast

definition sample_queued :: ev_sock where
  "sample_queued = snd (queue_write (\<lambda>_. True) (Some [1, 2, 3]) 3 sample_ev)"

lemma sample_queued_simps [simp]:
  "outgoing sample_queued = queue_append [1, 2, 3] queue_init" "sockfd sample_queued = 3"
  "connected sample_queued" "\<not> blocking sample_queued" "is_valid_socket sample_queued"
  by (simp_all add: sample_queued_def queue_write_def Let_def)
    (simp_all add: queue_init_def is_valid_socket_def)

lemma sample_queued_inv:
  "queue_inv (outgoing sample_queued)" "pending (outgoing sample_queued) = [1, 2, 3]"
  using queue_append_refines [of queue_init "[1, 2, 3]"] by simp_all

text \<open>
  If the transport takes at least one byte of every offer, a flush transmits all pending
  bytes up to the budget and reports no error.
\<close>

lemma flush_queued_makes_progress:
  fixes s :: "'a ev_sock_scheme"
  assumes "send_bounded os" "queue_inv (outgoing s)" "is_valid_socket s" "\<not> blocking s"
    and "takes_some (tcp_poll_send_queued os :: _ \<Rightarrow> _ \<Rightarrow> 'a ev_sock_scheme \<Rightarrow> _)"
    and "flush_queued (tcp_poll_send_queued os) terminal budget s w = (res, s', w')"
  shows "fl_error res = 0 \<and> fl_bytes res = min budget (length (pending (outgoing s)))"
proof (cases "budget = 0")
  case True
  then show ?thesis using assms(6) by (auto simp: flush_queued_def)
next
  case False
  have "flush_loop (tcp_poll_send_queued os) terminal budget 0 0 s w
    = ((fl_bytes res, fl_error res), s', w')"
    using tcp_queue.flush_queued_cases [OF assms(6)] assms(3,4) False by blast
  from tcp_queue.flush_loop_drains [OF assms(1,2) TrueI le0 assms(5) this] show ?thesis by simp
qed

text \<open>
  A queued write is all or nothing: it is accepted exactly when the socket is live,
  connected and non-blocking, the transport still takes queued data and the bytes fit under the
  limit; then all of them are appended, otherwise the object is unchanged. Nothing is sent.
\<close>

lemma queue_write_all_or_nothing:
  assumes "queue_inv (outgoing s)" "n \<le> length data"
  shows "case queue_write accepts (Some data) n s of (b, s') \<Rightarrow>
    b = (is_valid_socket s \<and> connected s \<and> \<not> blocking s \<and> accepts s \<and>
         queued_bytes s + n \<le> qlimit (outgoing s)) \<and>
    pending (outgoing s') = pending (outgoing s) @ (if b then take n data else []) \<and>
    queue_inv (outgoing s') \<and> (b \<or> s' = s)"
proof -
  obtain b s' where q: "queue_write accepts (Some data) n s = (b, s')" by fastforce
  have "b = (is_valid_socket s \<and> connected s \<and> \<not> blocking s \<and> accepts s \<and>
         queued_bytes s + n \<le> qlimit (outgoing s))"
    using q assms(1) by (auto simp: queue_write_def Let_def queued_bytes_def queue_inv_def split: if_splits)
  then show ?thesis using q queue_write_refines [OF assms(1) q assms(2)] by auto
qed

text \<open>The effect of a close whose handler only logs.\<close>

lemma event_close_effect:
  assumes "held (sockfd s) \<subseteq> open_fds (trace w)"
    and "event_close (log_user os addr) os s w = (b, s', w')"
  shows "pending (outgoing s') = [] \<and> \<not> is_valid_socket s' \<and>
    open_fds (trace w') = open_fds (trace w) - held (sockfd s) \<and>
    (closes_ok (trace w) \<longrightarrow> closes_ok (trace w')) \<and>
    (b \<longrightarrow> is_valid_socket s) \<and>
    (\<exists>added. trace w' = added @ trace w \<and>
       map fst added = (if b \<and> slots s ! handler_close then [Cb addr Ev_close] else []) @
         (if is_valid_socket s then [Fd (Close (sockfd s))] else [])) \<and>
    event_close (log_user os addr) os s' w' = (False, clear_queue s', w')"
proof -
  obtain c s1 w1 where c: "socket_close os (clear_queue s) w = (c, s1, w1)" by (metis prod_cases3)
  note eq = event_close_logged [OF assms(2) c]
  have fd: "sockfd (clear_queue s) = sockfd s" by (simp add: clear_queue_def)
  have neg: "sockfd s1 < 0" by (rule base_close.cl_releases [OF c])
  have q: "outgoing s1 = queue_clear (outgoing s)"
    using socket_close_queue [OF c] by (simp add: clear_queue_def)
  have tr: "if is_valid_socket s then \<exists>r. trace w1 = (Fd (Close (sockfd s)), r) # trace w \<and> c = (ret r = 0)
    else w1 = w \<and> \<not> c"
    using c by (auto simp: socket_close_def clear_queue_def is_valid_socket_def Let_def
        dest: sys_trace split: prod.splits if_splits)
  have again: "event_close (log_user os addr) os s1 v = (False, clear_queue s1, v)" for v
    using neg by (simp add: event_close_eq clear_queue_def is_valid_socket_def)
  show ?thesis
  proof (cases "is_valid_socket s")
    case True
    then obtain r where r: "trace w1 = (Fd (Close (sockfd s)), r) # trace w" "c = (ret r = 0)"
      using tr by auto
    have "\<exists>added. trace w' = added @ trace w \<and>
       map fst added = (if b \<and> slots s ! handler_close then [Cb addr Ev_close] else []) @
         [Fd (Close (sockfd s))]"
      using eq r(1) by (auto simp: sys_def Let_def)
    then show ?thesis
      using eq neg q again assms(1) True r
      by (auto simp: is_valid_socket_def sys_def Let_def clear_queue_def)
  next
    case False
    then show ?thesis
      using eq neg q again assms(1) tr by (auto simp: is_valid_socket_def)
  qed
qed

text \<open>
  Closing an event socket discards its queue, releases its descriptor exactly once and runs
  the close handler exactly when the descriptor was released, after the object has given up both.
  Closing again does nothing.
\<close>

lemma event_close_once:
  assumes "held (sockfd s) \<subseteq> open_fds (trace w)"
    and "event_close (log_user os addr) os s w = (b, s', w')"
  shows "pending (outgoing s') = [] \<and> \<not> is_valid_socket s' \<and>
    open_fds (trace w') = open_fds (trace w) - held (sockfd s) \<and>
    (closes_ok (trace w) \<longrightarrow> closes_ok (trace w')) \<and>
    (b \<longrightarrow> is_valid_socket s) \<and>
    (\<exists>added. trace w' = added @ trace w \<and>
       map fst added = (if b \<and> slots s ! handler_close then [Cb addr Ev_close] else []) @
         (if is_valid_socket s then [Fd (Close (sockfd s))] else [])) \<and>
    event_close (log_user os addr) os s' w' = (False, clear_queue s', w')"
  by (rule event_close_effect [OF assms])

text \<open>
  The event client hands the application a live, connected socket whose descriptor really is
  in non-blocking mode, or none: on every failing path the descriptor of the attempt has been
  closed, and no other descriptor was touched.
\<close>

lemma client_event_connect_outcome:
  assumes "fresh_fds os" "held (sockfd s) \<subseteq> open_fds (trace w)"
    and "ss_family (get_sockaddr_storage a) \<in> {AF_INET, AF_INET6}"
    and "client_event_connect (log_user os addr) os a s w = (b, s', w')"
  shows "open_fds (trace w') = open_fds (trace w) - held (sockfd s) \<union> held (sockfd s') \<and>
    (closes_ok (trace w) \<longrightarrow> closes_ok (trace w')) \<and>
    (if b then is_valid_socket s' \<and> connected s' \<and> \<not> blocking s' \<and>
       (\<exists>f. fl_state (trace w') (sockfd s') = Some f \<and> bit f 11)
     else \<not> is_valid_socket s')"
  using client_event_connect_result [OF assms(1,3,4)] fd_safe_open_fds assms(2)
  by (auto simp: safe_step_def is_valid_socket_def)

text \<open>
  A direct write with valid arguments makes one transport call with the caller's bytes and
  reports it: the write handler sees the bytes, the requested count and what was sent (zero on a
  failure), and on a failure the error handler runs before it, with the code that is also the
  object's error. A success clears the error.
\<close>

lemma event_write_reports:
  assumes "errno_set os" "is_valid_socket s" "0 < n" "n \<le> int (length data)"
    and "slots s ! handler_error" "slots s ! handler_write"
    and "event_write (tcp_poll_send 0 os) terminal (log_user os addr) (Some data) n s w = (r, s', w')"
  shows "\<exists>added. trace w' = added @ trace w \<and> r = ret (snd (last added)) \<and>
    map fst added =
      Cb addr (Ev_write data n (if r < 0 then 0 else r)) #
      (if r < 0 then [Cb addr (Ev_error (error_code s'))] else []) @
      [Io (Send (sockfd s) (take (nat n) data) 0)] \<and>
    (error_code s' = err_none \<longleftrightarrow> 0 \<le> r)"
proof -
  let ?c = "Io (Send (sockfd s) (take (nat n) data) 0)"
  obtain x w1 where x: "sys os ?c w = (x, w1)" by fastforce
  have send: "tcp_poll_send 0 os data n s w = (ret x, s, w1)"
    using assms(3,4) x by (simp add: tcp_poll_send_def send_call_def)
  have tr: "trace w1 = (?c, x) # trace w" by (rule sys_trace [OF x])
  show ?thesis
  proof (cases "ret x < 0")
    case True
    let ?e = "transport_error (\<not> would_block_error (errno w1) \<and> terminal) s (errno w1)"
    have "?e \<noteq> 0" by (rule transport_error_nonzero) (rule sys_failed_errno [OF x assms(1) True])
    moreover have "event_write (tcp_poll_send 0 os) terminal (log_user os addr) (Some data) n s w =
      (ret x, s\<lparr>error_code := ?e\<rparr>, snd (sys os (Cb addr (Ev_write data n 0))
         (snd (sys os (Cb addr (Ev_error ?e)) w1))))"
      using assms(2,3,5,6) True send by (simp add: event_write_def fire_log_user Let_def)
    ultimately show ?thesis using assms(7) tr True by (auto simp: sys_def Let_def)
  next
    case False
    have "event_write (tcp_poll_send 0 os) terminal (log_user os addr) (Some data) n s w =
      (ret x, s\<lparr>error_code := err_none\<rparr>, snd (sys os (Cb addr (Ev_write data n (ret x))) w1))"
      using assms(2,3,6) False send by (simp add: event_write_def fire_log_user Let_def)
    then show ?thesis using assms(7) tr False by (auto simp: sys_def Let_def)
  qed
qed

definition sample_handled :: ev_sock where
  "sample_handled = sample_ev\<lparr>slots := replicate 7 True\<rparr>"

end
