(* ===== verification/Tls_Event.thy ===== *)
theory Tls_Event
  imports Event_Socket
begin

text \<open>
  \<open>src/ssl_event_socket.cpp\<close>: the event-driven TLS transport. It overrides the hooks of
  \<open>event_socket\<close>: handshake and orderly shutdown are driven by \<open>poll_step\<close>, the
  queue is flushed through \<open>SSL_write\<close>, whose unfinished call must be retried with the same
  bytes. OpenSSL is outside the program; a handle is an integer, \<open>0\<close> the null pointer. The
  clock counts nanoseconds.
\<close>

section \<open>State\<close>

definition ssl_error :: int where [simp]: "ssl_error = - 0x020001"
definition ssl_error_init :: int where [simp]: "ssl_error_init = - 0x020002"
definition ssl_error_cert :: int where [simp]: "ssl_error_cert = - 0x020003"
definition ssl_error_key :: int where [simp]: "ssl_error_key = - 0x020004"
definition ssl_error_handshake :: int where [simp]: "ssl_error_handshake = - 0x020005"
definition ssl_error_io :: int where [simp]: "ssl_error_io = - 0x020006"

definition SSL_ERROR_WANT_READ :: int where [simp]: "SSL_ERROR_WANT_READ = 2"
definition SSL_ERROR_WANT_WRITE :: int where [simp]: "SSL_ERROR_WANT_WRITE = 3"
definition SSL_ERROR_ZERO_RETURN :: int where [simp]: "SSL_ERROR_ZERO_RETURN = 6"
definition SSL_SENT_SHUTDOWN :: int where [simp]: "SSL_SENT_SHUTDOWN = 1"
definition X509_V_OK :: int where [simp]: "X509_V_OK = 0"
definition X509_V_ERR_DEPTH_ZERO_SELF_SIGNED_CERT :: int where
  [simp]: "X509_V_ERR_DEPTH_ZERO_SELF_SIGNED_CERT = 18"

datatype ssl_verify_mode = Strict | Off

record tls_sock = ev_sock +
  tls_ctx :: int
  session :: int
  server_side :: bool
  tls_ready :: bool
  need_write :: bool
  send_need_read :: bool
  recv_need_write :: bool
  pending_write_len :: int
  ssl_failed :: bool
  peer_notified_close :: bool
  shutdown_requested :: bool
  shutdown_notify_sent :: bool
  shutdown_need_write :: bool
  shutdown_need_read :: bool
  shutdown_deadline :: int
  pending_write_queued :: bool
  pending_write_hash :: "64 word"
  handshake_timeout_ms :: int
  handshake_deadline :: int
  verify_mode :: ssl_verify_mode
  allow_self_signed :: bool
  expected_identity :: string

definition tls_of_ev :: "int \<Rightarrow> bool \<Rightarrow> ssl_verify_mode \<Rightarrow> ev_sock \<Rightarrow> tls_sock" where
  "tls_of_ev c server mode s =
    ev_sock.extend s
     \<lparr>tls_ctx = c, session = 0, server_side = server, tls_ready = False, need_write = False,
      send_need_read = False, recv_need_write = False, pending_write_len = 0, ssl_failed = False,
      peer_notified_close = False, shutdown_requested = False, shutdown_notify_sent = False,
      shutdown_need_write = False, shutdown_need_read = False, shutdown_deadline = 0,
      pending_write_queued = False, pending_write_hash = 0, handshake_timeout_ms = 5000,
      handshake_deadline = 0, verify_mode = mode, allow_self_signed = False,
      expected_identity = []\<rparr>"

text \<open>\<open>steady_clock::now()\<close>, and a time point some milliseconds later.\<close>

definition now :: "os \<Rightarrow> world \<Rightarrow> int \<times> world" where
  "now os w = (let (r, w) = sys os (Io Now) w in (val r, w))"

definition after_ms :: "int \<Rightarrow> int \<Rightarrow> int" where
  "after_ms t ms = t + ms * 1000000"

text \<open>The certificate callback: verdict and error it leaves, for a depth and an error.\<close>

definition allow_self_signed_leaf :: "int \<Rightarrow> int \<Rightarrow> int \<Rightarrow> int \<times> int" where
  "allow_self_signed_leaf ok depth e =
    (if ok \<noteq> 0 then (1, e)
     else if depth = 0 \<and> e = X509_V_ERR_DEPTH_ZERO_SELF_SIGNED_CERT then (1, X509_V_OK)
     else (0, e))"

definition is_numeric_ip :: "os \<Rightarrow> string \<Rightarrow> bool" where
  "is_numeric_ip os t \<longleftrightarrow> pton os AF_INET t \<noteq> None \<or> pton os AF_INET6 t \<noteq> None"

text \<open>64-bit FNV-1a.\<close>

definition bytes_hash :: "byte list \<Rightarrow> int \<Rightarrow> 64 word" where
  "bytes_hash data sz =
    foldl (\<lambda>h b. (h XOR ucast b) * 1099511628211) 14695981039346656037 (take (nat sz) data)"

definition set_would_block :: "world \<Rightarrow> world" where
  "set_would_block w = w\<lparr>errno := EWOULDBLOCK\<rparr>"

definition set_transport_error :: "world \<Rightarrow> world" where
  "set_transport_error w = w\<lparr>errno := EPROTO\<rparr>"

definition err_clear :: "os \<Rightarrow> world \<Rightarrow> world" where
  "err_clear os w = snd (sys os (Tls Err_clear_error) w)"

section \<open>Session and close\<close>

definition init_session ::
  "os \<Rightarrow> bool \<Rightarrow> 'a tls_sock_scheme \<Rightarrow> world \<Rightarrow> bool \<times> 'a tls_sock_scheme \<times> world" where
  "init_session os server s w =
    (if tls_ctx s = 0 \<or> \<not> is_valid_socket s then (False, s, w)
     else
       let (s, w) = (if session s \<noteq> 0
             then (s\<lparr>session := 0\<rparr>, snd (sys os (Tls (Ssl_free (session s))) w)) else (s, w));
           w = err_clear os w;
           (r, w) = sys os (Tls (Ssl_new (tls_ctx s))) w;
           s = s\<lparr>session := ret r\<rparr> in
       if session s = 0 then (False, s, w)
       else
         let (f, w) = sys os (Tls (Ssl_set_fd (session s) (sockfd s))) w in
         if ret f \<noteq> 1 then (False, s, w)
         else
           let w = snd (sys os (Tls (Ssl_set_mode (session s))) w);
               w = snd (sys os (Tls (if server then Ssl_set_accept_state (session s)
                                     else Ssl_set_connect_state (session s))) w);
               (t, w) = now os w in
           (True, s\<lparr>tls_ready := False, need_write := \<not> server, send_need_read := False,
              recv_need_write := False, pending_write_len := 0, ssl_failed := False,
              peer_notified_close := False, shutdown_requested := False,
              shutdown_notify_sent := False, shutdown_need_write := False,
              shutdown_need_read := False, pending_write_queued := False,
              pending_write_hash := 0, handshake_deadline := after_ms t (handshake_timeout_ms s)\<rparr>, w))"

text \<open>What \<open>close\<close> clears before it closes the transport.\<close>

definition clear_tls :: "'a tls_sock_scheme \<Rightarrow> 'a tls_sock_scheme" where
  "clear_tls s =
    s\<lparr>session := 0, tls_ready := False, need_write := False, send_need_read := False,
      recv_need_write := False, pending_write_len := 0, ssl_failed := False,
      peer_notified_close := False, shutdown_requested := False, shutdown_notify_sent := False,
      shutdown_need_write := False, shutdown_need_read := False, pending_write_queued := False,
      pending_write_hash := 0\<rparr>"

definition tls_close ::
  "('a tls_sock_scheme) user_handlers \<Rightarrow> os \<Rightarrow> 'a tls_sock_scheme \<Rightarrow> world \<Rightarrow>
    bool \<times> 'a tls_sock_scheme \<times> world"
where
  "tls_close user os s w =
    (let w =
       (if session s \<noteq> 0
        then
          let w = (if tls_ready s \<and> \<not> ssl_failed s \<and> \<not> peer_notified_close s \<and>
                      \<not> shutdown_notify_sent s \<and> is_valid_socket s
                   then snd (sys os (Tls (Ssl_shutdown (session s))) (err_clear os w)) else w) in
          snd (sys os (Tls (Ssl_free (session s))) w)
        else w) in
     event_close user os (clear_tls s) w)"

definition tls_event_new :: "os \<Rightarrow> world \<Rightarrow> tls_sock \<times> world" where
  "tls_event_new os w =
    (let (s, w) = event_socket_new os w;
         (c, w) = sys os (Tls (Ctx_new False)) w;
         s = tls_of_ev (ret c) False Strict s in
     if tls_ctx s = 0 then (set_error ssl_error_init s, w)
     else (s, snd (sys os (Tls (Ctx_default_paths (tls_ctx s))) w)))"

text \<open>An accepted connection, on the retained context of its server.\<close>

definition tls_event_accept :: "os \<Rightarrow> int \<Rightarrow> int \<Rightarrow> world \<Rightarrow> tls_sock \<times> world" where
  "tls_event_accept os fd server_ctx w =
    (let (s, w) = event_socket_adopt os fd w;
         s = tls_of_ev server_ctx True Off s;
         (retained, w) = (if tls_ctx s = 0 then (False, w)
           else let (r, w) = sys os (Tls (Ctx_up_ref (tls_ctx s))) w in (ret r = 1, w)) in
     if \<not> retained then (set_error ssl_error_init (s\<lparr>tls_ctx := 0\<rparr>), w)
     else
       let (ok, s, w) = init_session os True s w in
       (if \<not> ok then set_error ssl_error_init s else s, w))"

definition tls_event_destroy :: "tls_sock user_handlers \<Rightarrow> os \<Rightarrow> tls_sock \<Rightarrow> world \<Rightarrow> world" where
  "tls_event_destroy user os s w =
    (let (b, s, w) = tls_close user os s w;
         w = (if tls_ctx s \<noteq> 0 then snd (sys os (Tls (Ctx_free (tls_ctx s))) w) else w) in
     socket_destroy os s w)"

definition set_ca_file ::
  "os \<Rightarrow> string option \<Rightarrow> 'a tls_sock_scheme \<Rightarrow> world \<Rightarrow> int \<times> 'a tls_sock_scheme \<times> world" where
  "set_ca_file os path s w =
    (let (ok, w) =
       (if tls_ctx s = 0 \<or> path = None \<or> path = Some [] then (False, w)
        else let (r, w) = sys os (Tls (Ctx_load_ca (tls_ctx s) (the path))) w in (ret r = 1, w)) in
     if \<not> ok then (ssl_error_cert, set_error ssl_error_cert s, w)
     else (err_none, set_error err_none s, w))"

definition set_peer_verification ::
  "ssl_verify_mode \<Rightarrow> 'a tls_sock_scheme \<Rightarrow> int \<times> 'a tls_sock_scheme" where
  "set_peer_verification mode s = (err_none, s\<lparr>verify_mode := mode\<rparr>)"

definition set_allow_self_signed :: "bool \<Rightarrow> 'a tls_sock_scheme \<Rightarrow> int \<times> 'a tls_sock_scheme" where
  "set_allow_self_signed enabled s = (err_none, s\<lparr>allow_self_signed := enabled\<rparr>)"

section \<open>Connecting\<close>

text \<open>Strict verification binds the session to the requested name or address.\<close>

definition bind_identity ::
  "os \<Rightarrow> string \<Rightarrow> 'a tls_sock_scheme \<Rightarrow> world \<Rightarrow> bool \<times> world" where
  "bind_identity os identity s w =
    (if verify_mode s = Strict
     then
       let w = snd (sys os (Tls (Ssl_set_verify (session s) True (allow_self_signed s))) w);
           w = snd (sys os (Tls (Ssl_set_hostflags (session s))) w);
           (r, w) = sys os (Tls (if is_numeric_ip os identity then Ssl_set_ip (session s) identity
                                 else Ssl_set_host (session s) identity)) w in
       (ret r = 1, w)
     else (True, snd (sys os (Tls (Ssl_set_verify (session s) False False)) w)))"

definition start_client ::
  "('a tls_sock_scheme) user_handlers \<Rightarrow> os \<Rightarrow> string \<Rightarrow> 'a tls_sock_scheme \<Rightarrow> world \<Rightarrow>
    bool \<times> 'a tls_sock_scheme \<times> world"
where
  "start_client user os identity s w =
    (let s = s\<lparr>expected_identity := identity\<rparr>;
         (ok, s, w) =
           (if \<not> is_valid_socket s then (False, s, w)
            else
              let (r, s, w) = set_blocking os False s w in
              if r \<noteq> err_none then (False, s, w) else init_session os False s w) in
     if \<not> ok then (False, snd (tls_close user os (set_error ssl_error_init s) w))
     else
       let (bound, w) = bind_identity os identity s w in
       if \<not> bound then (False, snd (tls_close user os (set_error ssl_error_cert s) w))
       else
         let (named, w) =
           (if is_numeric_ip os identity then (True, w)
            else let (r, w) = sys os (Tls (Ssl_set_sni (session s) identity)) w in (ret r = 1, w)) in
         if \<not> named then (False, snd (tls_close user os (set_error ssl_error_init s) w))
         else (True, set_error err_none s, w))"

text \<open>An earlier session is torn down before its descriptor is replaced.\<close>

definition drop_session ::
  "('a tls_sock_scheme) user_handlers \<Rightarrow> os \<Rightarrow> 'a tls_sock_scheme \<Rightarrow> world \<Rightarrow>
    'a tls_sock_scheme \<times> world"
where
  "drop_session user os s w =
    (let (s, w) = (if session s \<noteq> 0 \<or> connected s then snd (tls_close user os s w) else (s, w)) in
     snd (set_blocking os True s w))"

definition tls_connect_host ::
  "('a tls_sock_scheme) user_handlers \<Rightarrow> os \<Rightarrow> string option \<Rightarrow> int \<Rightarrow> 'a tls_sock_scheme \<Rightarrow> world \<Rightarrow>
    bool \<times> 'a tls_sock_scheme \<times> world"
where
  "tls_connect_host user os host p s w =
    (if server_side s \<or> host = None \<or> host = Some [] \<or> p < 1 \<or> p > 65535
     then (False, set_error ssl_error s, w)
     else
       let (s, w) = drop_session user os s w;
           (b, s, w) = tcp_connect_host os (tls_close user) host p s w in
       if \<not> b then (False, s, w) else start_client user os (the host) s w)"

text \<open>\<open>inet_ntop\<close> cannot fail on the two families; the model then uses the empty name.\<close>

definition tls_connect_addr ::
  "('a tls_sock_scheme) user_handlers \<Rightarrow> os \<Rightarrow> address \<Rightarrow> 'a tls_sock_scheme \<Rightarrow> world \<Rightarrow>
    bool \<times> 'a tls_sock_scheme \<times> world"
where
  "tls_connect_addr user os a s w =
    (if server_side s \<or> \<not> is_ipv4 a \<and> \<not> is_ipv6 a \<or> get_port a = 0
     then (False, set_error ssl_error s, w)
     else
       let identity = (case get_string os a of Some t \<Rightarrow> t | None \<Rightarrow> []);
           (s, w) = drop_session user os s w;
           (b, s, w) = tcp_connect_addr os (tls_close user) a s w in
       if \<not> b then (False, s, w) else start_client user os identity s w)"

section \<open>Handshake timeout and graceful shutdown\<close>

definition set_handshake_timeout ::
  "os \<Rightarrow> int \<Rightarrow> 'a tls_sock_scheme \<Rightarrow> world \<Rightarrow> int \<times> 'a tls_sock_scheme \<times> world" where
  "set_handshake_timeout os ms s w =
    (if ms < 100 \<or> ms > 60000 then (ssl_error, set_error ssl_error s, w)
     else
       let s = s\<lparr>handshake_timeout_ms := ms\<rparr>;
           (s, w) = (if session s \<noteq> 0 \<and> \<not> tls_ready s
             then let (t, w) = now os w in (s\<lparr>handshake_deadline := after_ms t ms\<rparr>, w) else (s, w)) in
       (err_none, set_error err_none s, w))"

definition begin_graceful_shutdown ::
  "os \<Rightarrow> int \<Rightarrow> 'a tls_sock_scheme \<Rightarrow> world \<Rightarrow> bool \<times> 'a tls_sock_scheme \<times> world" where
  "begin_graceful_shutdown os timeout s w =
    (if timeout < 100 \<or> timeout > 60000 \<or> \<not> tls_ready s \<or> session s = 0 \<or>
        \<not> is_valid_socket s \<or> ssl_failed s \<or> peer_notified_close s \<or>
        pending_write_len s \<noteq> 0 \<and> \<not> pending_write_queued s
     then (False, set_error ssl_error_io s, w)
     else if shutdown_requested s then (False, s, w)
     else
       let s = s\<lparr>shutdown_requested := True, shutdown_notify_sent := False,
                 shutdown_need_write := False, shutdown_need_read := False\<rparr>;
           (t, w) = now os w in
       (True, set_error err_none (s\<lparr>shutdown_deadline := after_ms t timeout\<rparr>), w))"

definition remaining_ms :: "int \<Rightarrow> int \<Rightarrow> int" where
  "remaining_ms deadline t =
    (if t \<ge> deadline then 0 else to_int32 ((deadline - t) div 1000000 + 1))"

definition poll_timeout_ms :: "os \<Rightarrow> 'a tls_sock_scheme \<Rightarrow> world \<Rightarrow> int \<times> world" where
  "poll_timeout_ms os s w =
    (if session s = 0 \<or> \<not> is_valid_socket s then (- 1, w)
     else if tls_ready s \<and> shutdown_requested s
     then let (t, w) = now os w in (remaining_ms (shutdown_deadline s) t, w)
     else if tls_ready s then (- 1, w)
     else let (t, w) = now os w in (remaining_ms (handshake_deadline s) t, w))"

section \<open>The state machine of the poller\<close>

text \<open>
  Results of a step: \<open>1\<close> application data may flow, \<open>0\<close> nothing to do yet,
  \<open>-1\<close> terminal error, \<open>2\<close> handshake completed, \<open>3\<close> orderly shutdown.
\<close>

definition poll_step_shutdown ::
  "os \<Rightarrow> int \<Rightarrow> 'a tls_sock_scheme \<Rightarrow> world \<Rightarrow> int \<times> 'a tls_sock_scheme \<times> world" where
  "poll_step_shutdown os ready s w =
    (let (t, w) = now os w in
     if t \<ge> shutdown_deadline s then (- 1, set_error ssl_error_io s, w\<lparr>errno := ETIMEDOUT\<rparr>)
     else if flagged ready (POLLERR OR POLLNVAL)
     then (if peer_notified_close s then (3, s, w)
           else (- 1, set_error ssl_error_io (s\<lparr>ssl_failed := True\<rparr>), w))
     else if peer_notified_close s \<and> flagged ready POLLHUP then (3, s, w)
     else if queued_bytes s \<noteq> 0 then (1, s, w)
     else if shutdown_need_read s \<and> \<not> flagged ready (POLLIN OR POLLHUP) then (0, s, w)
     else if shutdown_need_write s \<and> \<not> flagged ready POLLOUT then (0, s, w)
     else if \<not> shutdown_need_read s \<and> \<not> shutdown_need_write s \<and> shutdown_notify_sent s \<and>
             \<not> flagged ready POLLIN then (0, s, w)
     else if \<not> shutdown_need_read s \<and> \<not> shutdown_need_write s \<and> \<not> shutdown_notify_sent s \<and>
             \<not> flagged ready POLLOUT then (0, s, w)
     else
       let w = err_clear os w;
           (d, w) = sys os (Tls (Ssl_shutdown (session s))) w in
       if ret d = 1 then (3, s, w)
       else if ret d = 0
       then (0, s\<lparr>shutdown_notify_sent := True, shutdown_need_write := False,
                  shutdown_need_read := True\<rparr>, w)
       else
         let (e, w) = sys os (Tls (Ssl_get_error (session s) (ret d))) w; reason = ret e in
         if reason = SSL_ERROR_WANT_READ \<or> reason = SSL_ERROR_WANT_WRITE
         then
           let (g, w) = sys os (Tls (Ssl_get_shutdown (session s))) w;
               s = s\<lparr>shutdown_notify_sent := flagged (ret g) SSL_SENT_SHUTDOWN,
                     shutdown_need_write := reason = SSL_ERROR_WANT_WRITE,
                     shutdown_need_read := reason = SSL_ERROR_WANT_READ\<rparr> in
           if peer_notified_close s \<and> shutdown_notify_sent s \<and> flagged ready POLLHUP
           then (3, s, w) else (0, s, w)
         else if peer_notified_close s then (3, s, w)
         else (- 1, set_error ssl_error_io (s\<lparr>ssl_failed := True\<rparr>), w))"

text \<open>\<open>SSL_get_verify_result\<close> is only asked of a client in strict mode.\<close>

definition verify_refused :: "os \<Rightarrow> 'a tls_sock_scheme \<Rightarrow> world \<Rightarrow> bool \<times> world" where
  "verify_refused os s w =
    (if \<not> server_side s \<and> verify_mode s = Strict
     then let (v, w) = sys os (Tls (Ssl_get_verify_result (session s))) w in (ret v \<noteq> X509_V_OK, w)
     else (False, w))"

definition poll_step_handshake ::
  "('a tls_sock_scheme) user_handlers \<Rightarrow> os \<Rightarrow> int \<Rightarrow> 'a tls_sock_scheme \<Rightarrow> world \<Rightarrow>
    int \<times> 'a tls_sock_scheme \<times> world"
where
  "poll_step_handshake user os ready s w =
    (if flagged ready (POLLERR OR POLLNVAL OR POLLHUP)
     then (- 1, set_error ssl_error_handshake s, w)
     else if need_write s \<and> \<not> flagged ready POLLOUT \<or>
             \<not> need_write s \<and> \<not> flagged ready (POLLIN OR POLLHUP) then (0, s, w)
     else
       let w = err_clear os w;
           (h, w) = sys os (Tls (Ssl_do_handshake (session s))) w in
       if ret h = 1
       then
         let (refused, w) = verify_refused os s w in
         if refused then (- 1, set_error ssl_error_cert s, w)
         else
           let s = set_error err_none (s\<lparr>tls_ready := True, need_write := False\<rparr>);
               (s, w) = fire user handler_connect Ev_connect s w in
           (2, s, w)
       else
         let (e, w) = sys os (Tls (Ssl_get_error (session s) (ret h))) w in
         if ret e = SSL_ERROR_WANT_READ then (0, s\<lparr>need_write := False\<rparr>, w)
         else if ret e = SSL_ERROR_WANT_WRITE then (0, s\<lparr>need_write := True\<rparr>, w)
         else
           let (refused, w) = verify_refused os s w in
           (- 1, set_error (if refused then ssl_error_cert else ssl_error_handshake) s, w))"

definition tls_poll_step ::
  "('a tls_sock_scheme) user_handlers \<Rightarrow> os \<Rightarrow> int \<Rightarrow> 'a tls_sock_scheme \<Rightarrow> world \<Rightarrow>
    int \<times> 'a tls_sock_scheme \<times> world"
where
  "tls_poll_step user os ready s w =
    (let (expired, w) =
       (if session s \<noteq> 0 \<and> \<not> tls_ready s
        then let (t, w) = now os w in (t \<ge> handshake_deadline s, w) else (False, w)) in
     if expired then (- 1, set_error ssl_error_handshake s, w)
     else if session s = 0 then (- 1, set_error ssl_error_init s, w)
     else if tls_ready s
     then
       if shutdown_requested s then poll_step_shutdown os ready s w
       else if flagged ready (POLLERR OR POLLNVAL)
       then (- 1, set_error ssl_error_io (s\<lparr>ssl_failed := True\<rparr>), w)
       else (1, s, w)
     else poll_step_handshake user os ready s w)"

section \<open>Receiving and sending\<close>

definition tls_poll_receive ::
  "os \<Rightarrow> int \<Rightarrow> 'a tls_sock_scheme \<Rightarrow> world \<Rightarrow> int \<times> byte list \<times> 'a tls_sock_scheme \<times> world" where
  "tls_poll_receive os capacity s w =
    (if \<not> tls_ready s \<or> session s = 0
     then (- 1, [], set_error ssl_error_io s, set_transport_error w)
     else
       let w = err_clear os w;
           (r, w) = sys os (Tls (Ssl_read (session s) capacity)) w in
       if ret r > 0 then (ret r, got r, set_error err_none (s\<lparr>recv_need_write := False\<rparr>), w)
       else
         let (e, w) = sys os (Tls (Ssl_get_error (session s) (ret r))) w; code = ret e in
         if code = SSL_ERROR_ZERO_RETURN
         then
           let s = s\<lparr>peer_notified_close := True\<rparr>;
               (s, w) =
                 (if \<not> shutdown_requested s
                  then
                    let (t, w) = now os w in
                    (s\<lparr>shutdown_requested := True, shutdown_notify_sent := False,
                       shutdown_need_write := False, shutdown_need_read := False,
                       shutdown_deadline := after_ms t 5000\<rparr>, w)
                  else (s, w)) in
           (- 1, [], s, set_would_block w)
         else if code = SSL_ERROR_WANT_READ \<or> code = SSL_ERROR_WANT_WRITE
         then (- 1, [], s\<lparr>recv_need_write := code = SSL_ERROR_WANT_WRITE\<rparr>, set_would_block w)
         else (- 1, [], set_error ssl_error_io (s\<lparr>ssl_failed := True\<rparr>), set_transport_error w))"

definition forget_write :: "'a tls_sock_scheme \<Rightarrow> 'a tls_sock_scheme" where
  "forget_write s =
    s\<lparr>send_need_read := False, pending_write_len := 0, pending_write_queued := False,
      pending_write_hash := 0\<rparr>"

definition write_tls ::
  "os \<Rightarrow> byte list \<Rightarrow> int \<Rightarrow> bool \<Rightarrow> 'a tls_sock_scheme \<Rightarrow> world \<Rightarrow> int \<times> 'a tls_sock_scheme \<times> world"
where
  "write_tls os data requested queued s w =
    (let w = err_clear os w;
         (r, w) = sys os (Tls (ssl_write_call (session s) data requested)) w in
     if ret r > 0 then (ret r, set_error err_none (forget_write s), w)
     else
       let (e, w) = sys os (Tls (Ssl_get_error (session s) (ret r))) w; code = ret e in
       if code = SSL_ERROR_WANT_READ \<or> code = SSL_ERROR_WANT_WRITE
       then
         let s = (if pending_write_len s = 0
               then s\<lparr>pending_write_len := requested, pending_write_queued := queued,
                      pending_write_hash := bytes_hash data requested\<rparr> else s) in
         (- 1, s\<lparr>send_need_read := code = SSL_ERROR_WANT_READ\<rparr>, set_would_block w)
       else (- 1, set_error ssl_error_io ((forget_write s)\<lparr>ssl_failed := True\<rparr>),
             set_transport_error w))"

text \<open>
  A pending write must be retried by the same kind of caller with the same bytes; a direct write
  never overtakes queued bytes.
\<close>

definition send_tls ::
  "os \<Rightarrow> bool \<Rightarrow> byte list option \<Rightarrow> int \<Rightarrow> 'a tls_sock_scheme \<Rightarrow> world \<Rightarrow>
    int \<times> 'a tls_sock_scheme \<times> world"
where
  "send_tls os queued data sz s w =
    (if \<not> tls_ready s \<or> session s = 0 \<or> data = None \<or> sz \<le> 0 \<or> shutdown_requested s \<and> \<not> queued
     then (- 1, set_error ssl_error_io s, set_transport_error w)
     else if \<not> queued \<and> pending_write_len s = 0 \<and> queued_bytes s \<noteq> 0
     then (- 1, s, set_would_block w)
     else if pending_write_len s \<noteq> 0 \<and> queued \<noteq> pending_write_queued s
     then (- 1, s, set_would_block w)
     else if pending_write_len s \<noteq> 0 \<and>
       (sz < pending_write_len s \<or> \<not> queued \<and> sz \<noteq> pending_write_len s \<or>
        bytes_hash (the data) (pending_write_len s) \<noteq> pending_write_hash s)
     then (- 1, set_error ssl_error_io s, set_transport_error w)
     else write_tls os (the data)
            (if pending_write_len s \<noteq> 0 then pending_write_len s else sz) queued s w)"

definition tls_poll_send ::
  "os \<Rightarrow> byte list \<Rightarrow> int \<Rightarrow> 'a tls_sock_scheme \<Rightarrow> world \<Rightarrow> int \<times> 'a tls_sock_scheme \<times> world" where
  "tls_poll_send os data sz = send_tls os False (Some data) sz"

definition tls_poll_send_queued ::
  "os \<Rightarrow> byte list \<Rightarrow> int \<Rightarrow> 'a tls_sock_scheme \<Rightarrow> world \<Rightarrow> int \<times> 'a tls_sock_scheme \<times> world" where
  "tls_poll_send_queued os data sz = send_tls os True (Some data) sz"

definition tls_wants_write :: "'a tls_sock_scheme \<Rightarrow> bool" where
  "tls_wants_write s \<longleftrightarrow>
    (if \<not> tls_ready s then need_write s
     else if shutdown_requested s \<and> queued_bytes s = 0
     then shutdown_need_write s \<or> \<not> shutdown_notify_sent s \<and> \<not> shutdown_need_read s
     else recv_need_write s \<or>
       \<not> send_need_read s \<and> \<not> (pending_write_len s \<noteq> 0 \<and> \<not> pending_write_queued s) \<and>
       queued_bytes s \<noteq> 0)"

definition tls_accepts_queued_write :: "'a tls_sock_scheme \<Rightarrow> bool" where
  "tls_accepts_queued_write s \<longleftrightarrow> \<not> shutdown_requested s"

definition tls_read_ready :: "int \<Rightarrow> 'a tls_sock_scheme \<Rightarrow> bool" where
  "tls_read_ready ready s \<longleftrightarrow>
    \<not> send_need_read s \<and> flagged ready (POLLIN OR POLLHUP) \<or>
    recv_need_write s \<and> flagged ready POLLOUT"

definition tls_queue_ready :: "int \<Rightarrow> 'a tls_sock_scheme \<Rightarrow> bool" where
  "tls_queue_ready ready s \<longleftrightarrow>
    (if pending_write_len s \<noteq> 0 \<and> \<not> pending_write_queued s then False
     else queued_bytes s \<noteq> 0 \<and> flagged ready (if send_need_read s then POLLIN else POLLOUT))"

definition tls_has_buffered_input :: "os \<Rightarrow> 'a tls_sock_scheme \<Rightarrow> world \<Rightarrow> bool \<times> world" where
  "tls_has_buffered_input os s w =
    (if tls_ready s \<and> session s \<noteq> 0
     then let (r, w) = sys os (Tls (Ssl_pending (session s))) w in (ret r > 0, w)
     else (False, w))"

section \<open>Direct reads\<close>

definition tls_read ::
  "os \<Rightarrow> byte list option \<Rightarrow> int \<Rightarrow> 'a tls_sock_scheme \<Rightarrow> world \<Rightarrow>
    int \<times> byte list option \<times> 'a tls_sock_scheme \<times> world"
where
  "tls_read os buffer sz s w =
    (if buffer = None \<or> sz \<le> 0 \<or> \<not> tls_ready s
     then (- 1, buffer, set_error ssl_error_io s, set_transport_error w)
     else
       let (r, d, s, w) = tls_poll_receive os sz s w in
       (r, Some (overwrite d (the buffer)), s\<lparr>last_n := r\<rparr>, w))"

definition tls_read_inbuffer ::
  "os \<Rightarrow> 'a tls_sock_scheme \<Rightarrow> world \<Rightarrow> int \<times> 'a tls_sock_scheme \<times> world" where
  "tls_read_inbuffer os s w =
    (let (r, b, s, w) = tls_read os (Some (inbuffer s)) max_buffer_size s w;
         s = s\<lparr>inbuffer := the b\<rparr> in
     (r, if r > 0 then s\<lparr>token_size := r\<rparr> else s, w))"

text \<open>The result and the buffer; it stops after a line feed or when a read delivers nothing.\<close>

function tls_read_line_loop ::
  "os \<Rightarrow> byte list \<Rightarrow> int \<Rightarrow> int \<Rightarrow> 'a tls_sock_scheme \<Rightarrow> world \<Rightarrow>
    int \<times> byte list \<times> 'a tls_sock_scheme \<times> world"
where
  "tls_read_line_loop os buffer sz count s w =
    (if count < sz - 1
     then
       let (received, b, s, w) = tls_read os (Some [0]) 1 s w in
       if received \<le> 0
       then (if count \<noteq> 0 then count else received, buffer[nat count := 0], s, w)
       else
         let c = hd (the b); buffer = buffer[nat count := c] in
         if c = 10 then (count + 1, buffer[nat (count + 1) := 0], s, w)
         else tls_read_line_loop os buffer sz (count + 1) s w
     else (count, buffer[nat count := 0], s, w))"
  by pat_completeness auto
termination
  by (relation "measure (\<lambda>(os, buffer, sz, count, s, w). nat (sz - 1 - count))") auto

declare tls_read_line_loop.simps [simp del]

definition tls_read_line ::
  "os \<Rightarrow> byte list option \<Rightarrow> int \<Rightarrow> 'a tls_sock_scheme \<Rightarrow> world \<Rightarrow>
    int \<times> byte list option \<times> 'a tls_sock_scheme \<times> world"
where
  "tls_read_line os buffer sz s w =
    (if buffer = None \<or> sz < 1 then (- 1, buffer, set_error ssl_error_io s, w)
     else
       let (r, b, s, w) = tls_read_line_loop os (the buffer) sz 0 s w in (r, Some b, s, w))"

definition tls_read_until ::
  "os \<Rightarrow> byte list option \<Rightarrow> int \<Rightarrow> 'a tls_sock_scheme \<Rightarrow> world \<Rightarrow>
    int \<times> byte list option \<times> 'a tls_sock_scheme \<times> world"
where
  "tls_read_until os buffer sz s w = tls_read_line os buffer sz s w"

definition tls_read_string ::
  "os \<Rightarrow> int \<Rightarrow> 'a tls_sock_scheme \<Rightarrow> world \<Rightarrow> byte list \<times> 'a tls_sock_scheme \<times> world" where
  "tls_read_string os sz s w =
    (if sz \<le> 0 then ([], s, w)
     else
       let (r, b, s, w) = tls_read os (Some (replicate (nat sz) 0)) sz s w in
       if r \<le> 0 then ([], s, w) else (take (nat r) (the b), s, w))"

end
