(* ===== verification/Tls_Retry.thy ===== *)
theory Tls_Retry
  imports Tls_Event
begin

text \<open>
  What the event-driven TLS transport promises its queue: it is a queued transport in the sense
  of \<open>Event_Socket\<close>, and it keeps OpenSSL's retry contract in every interleaving of queued
  writes, flushes, reads, handshake and shutdown steps. The case rules for the steps of the poller
  (\<open>handshake_cases\<close>, \<open>shutdown_cases\<close>, \<open>tls_poll_step_cases\<close>) are
  shared with \<open>Tls_Session\<close>.
\<close>

section \<open>The TLS transport as a queued transport\<close>

lemma err_clear_trace: "\<exists>c. trace (err_clear os w) = (Tls Err_clear_error, c) # trace w"
  by (simp add: err_clear_def sys_def Let_def)

text \<open>The three ways a write to OpenSSL ends: sent, to be retried, failed.\<close>

lemma write_tls_cases:
  assumes "write_tls os data n queued s w = (r, s', w')"
  obtains
    (sent) ans c where "0 < ret ans" "r = ret ans" "s' = set_error err_none (forget_write s)"
      "trace w' = (Tls (ssl_write_call (session s) data n), ans) # (Tls Err_clear_error, c) # trace w"
      "ans = os_call os ((Tls Err_clear_error, c) # trace w) (Tls (ssl_write_call (session s) data n))"
  | (retry) ans c e where "ret ans \<le> 0" "r = - 1" "ret e \<in> {SSL_ERROR_WANT_READ, SSL_ERROR_WANT_WRITE}"
      "s' = (if pending_write_len s = 0
               then s\<lparr>pending_write_len := n, pending_write_queued := queued,
                      pending_write_hash := bytes_hash data n\<rparr> else s)
            \<lparr>send_need_read := ret e = SSL_ERROR_WANT_READ\<rparr>"
      "trace w' = (Tls (Ssl_get_error (session s) (ret ans)), e) #
         (Tls (ssl_write_call (session s) data n), ans) # (Tls Err_clear_error, c) # trace w"
      "errno w' = EWOULDBLOCK"
  | (failed) ans c e where "ret ans \<le> 0" "r = - 1" "ret e \<notin> {SSL_ERROR_WANT_READ, SSL_ERROR_WANT_WRITE}"
      "s' = set_error ssl_error_io ((forget_write s)\<lparr>ssl_failed := True\<rparr>)"
      "trace w' = (Tls (Ssl_get_error (session s) (ret ans)), e) #
         (Tls (ssl_write_call (session s) data n), ans) # (Tls Err_clear_error, c) # trace w"
      "errno w' = EPROTO"
proof -
  obtain c where c: "trace (err_clear os w) = (Tls Err_clear_error, c) # trace w"
    using err_clear_trace by blast
  obtain ans w1 where a: "sys os (Tls (ssl_write_call (session s) data n)) (err_clear os w) = (ans, w1)"
    by fastforce
  obtain e w2 where e: "sys os (Tls (Ssl_get_error (session s) (ret ans))) w1 = (e, w2)" by fastforce
  note tr = sys_trace [OF a] sys_trace [OF e] sys_answer [OF a]
  show thesis
  proof (cases "0 < ret ans")
    case True
    then show thesis using assms a c tr by (intro sent [of ans c]) (simp_all add: write_tls_def)
  next
    case no: False
    show thesis
    proof (cases "ret e \<in> {SSL_ERROR_WANT_READ, SSL_ERROR_WANT_WRITE}")
      case True
      then show thesis
        using assms a c e tr no
        by (intro retry [of ans e c]) (auto simp: write_tls_def Let_def set_would_block_def)
    next
      case False
      then show thesis
        using assms a c e tr no
        by (intro failed [of ans e c]) (auto simp: write_tls_def Let_def set_transport_error_def)
    qed
  qed
qed

text \<open>
  A send is refused without a call, or is one write of the pending length (of the offered one if
  no write is pending).
\<close>

definition write_len :: "int \<Rightarrow> 'a tls_sock_scheme \<Rightarrow> int" where
  "write_len sz s = (if pending_write_len s \<noteq> 0 then pending_write_len s else sz)"

lemma send_tls_cases:
  assumes "send_tls os queued (Some data) sz s w = (r, s', w')"
  obtains
    (refused) "r = - 1" "trace w' = trace w" "s' = s \<or> s' = set_error ssl_error_io s"
  | (call) "write_tls os data (write_len sz s) queued s w = (r, s', w')" "tls_ready s" "session s \<noteq> 0"
      "0 < sz" "shutdown_requested s \<Longrightarrow> queued"
      "pending_write_len s = 0 \<or> queued = pending_write_queued s \<and> pending_write_len s \<le> sz \<and>
       bytes_hash data (pending_write_len s) = pending_write_hash s"
  using assms
  by (auto simp: send_tls_def write_len_def set_would_block_def set_transport_error_def split: if_splits)

definition write_len_ok :: "'a tls_sock_scheme \<Rightarrow> bool" where
  "write_len_ok s \<longleftrightarrow> 0 \<le> pending_write_len s"

lemma write_tls_neutral:
  assumes "write_tls os data n queued s w = (r, s', w')"
  shows "same_descriptors s w s' w' \<and> outgoing s' = outgoing s \<and> session s' = session s"
  using assms
  by (cases rule: write_tls_cases)
    (auto simp: same_descriptors_def forget_write_def set_error_def ssl_write_call_def)

lemma write_tls_sends_prefix:
  assumes "send_bounded os" "0 < n" "n \<le> int (length data)"
    and "write_tls os data n queued s w = (r, s', w')"
  shows "r \<le> n \<and> outbound (trace w') = outbound (trace w) @ take (nat r) data"
proof -
  let ?c = "ssl_write_call (session s) data n"
  have c: "?c = Ssl_write (session s) (take (nat n) data)"
    using assms(2,3) by (simp add: ssl_write_call_def)
  from assms(4) show ?thesis
  proof (cases rule: write_tls_cases)
    case (sent ans c')
    have "ret ans \<le> n"
      using send_boundedD [OF assms(1), of "Tls ?c" "take (nat n) data"] sent(5) assms(2,3) c by simp
    then have "take (nat (ret ans)) (take (nat n) data) = take (nat r) data"
      using sent(2) by (simp add: min_absorb1)
    then show ?thesis using sent c \<open>ret ans \<le> n\<close> by simp
  qed (use assms(2) c in simp_all)
qed

lemma write_tls_len_ok:
  "write_len_ok s \<Longrightarrow> 0 < n \<Longrightarrow> write_tls os data n queued s w = (r, s', w') \<Longrightarrow> write_len_ok s'"
  by (erule write_tls_cases) (auto simp: write_len_ok_def forget_write_def set_error_def)

interpretation tls_queue: queued_transport tls_poll_send_queued write_len_ok
proof
  fix os :: os and data :: "byte list" and n :: int and s :: "'a tls_sock_scheme" and w r s' w'
  { assume a: "send_bounded os" "write_len_ok s" "data \<noteq> []"
      "tls_poll_send_queued os data (int (length data)) s w = (r, s', w')"
    have "send_tls os True (Some data) (int (length data)) s w = (r, s', w')"
      using a(4) by (simp add: tls_poll_send_queued_def)
    then show "r \<le> int (length data) \<and> outbound (trace w') = outbound (trace w) @ take (nat r) data \<and>
        outgoing s' = outgoing s \<and> write_len_ok s'"
    proof (cases rule: send_tls_cases)
      case refused
      then show ?thesis using a(2) by (auto simp: set_error_def write_len_ok_def)
    next
      case call
      let ?n = "write_len (int (length data)) s"
      have n: "0 < ?n" "?n \<le> int (length data)"
        using a(2,3) call(6) by (auto simp: write_len_def write_len_ok_def)
      show ?thesis
        using write_tls_sends_prefix [OF a(1) n call(1)] write_tls_neutral [OF call(1)]
          write_tls_len_ok [OF a(2) n(1) call(1)] n(2) by auto
    qed }
  { assume "tls_poll_send_queued os data n s w = (r, s', w')"
    then have "send_tls os True (Some data) n s w = (r, s', w')" by (simp add: tls_poll_send_queued_def)
    then show "same_descriptors s w s' w'"
    proof (cases rule: send_tls_cases)
      case refused
      then show ?thesis by (auto simp: same_descriptors_def set_error_def)
    qed (use write_tls_neutral in blast) }
  show "write_len_ok (s\<lparr>outgoing := q\<rparr>) = write_len_ok s" for s :: "'a tls_sock_scheme" and q
    by (simp add: write_len_ok_def)
qed


section \<open>The retry contract of OpenSSL\<close>

text \<open>
  After \<open>SSL_write\<close> asked for a retry (\<open>WANT_READ\<close> or \<open>WANT_WRITE\<close>), the next
  \<open>SSL_write\<close> on the session must present the same bytes. \<open>unfinished_write\<close> is the
  payload of the write a history leaves unfinished.
\<close>

definition ssl_payload :: "int \<Rightarrow> ext_call \<Rightarrow> byte list option" where
  "ssl_payload ssl c =
    (case c of Tls t \<Rightarrow> (case t of Ssl_write k b \<Rightarrow> if k = ssl then Some b else None | _ \<Rightarrow> None)
     | _ \<Rightarrow> None)"

definition wants_retry :: "int \<Rightarrow> ext_call \<times> call_result \<Rightarrow> bool" where
  "wants_retry ssl x =
    (case fst x of Tls t \<Rightarrow> (case t of Ssl_get_error k n \<Rightarrow> k = ssl \<and>
         ret (snd x) \<in> {SSL_ERROR_WANT_READ, SSL_ERROR_WANT_WRITE} | _ \<Rightarrow> False)
     | _ \<Rightarrow> False)"

fun unfinished_write :: "int \<Rightarrow> history \<Rightarrow> byte list option" where
  "unfinished_write ssl [] = None"
| "unfinished_write ssl (x # h) =
    (if ssl_payload ssl (fst x) \<noteq> None then None
     else if wants_retry ssl x \<and> h \<noteq> [] \<and> ssl_payload ssl (fst (hd h)) \<noteq> None
     then ssl_payload ssl (fst (hd h))
     else unfinished_write ssl h)"

fun retries_ok :: "int \<Rightarrow> history \<Rightarrow> bool" where
  "retries_ok ssl [] = True"
| "retries_ok ssl (x # h) =
    (retries_ok ssl h \<and>
     (ssl_payload ssl (fst x) = None \<or> unfinished_write ssl h = None \<or>
      ssl_payload ssl (fst x) = unfinished_write ssl h))"

lemma ssl_payload_simps [simp]:
  "ssl_payload ssl (Tls (Ssl_write k b)) = (if k = ssl then Some b else None)"
  "ssl_payload ssl (Tls (Ssl_get_error k n)) = None" "ssl_payload ssl (Tls (Ssl_read k n)) = None"
  "ssl_payload ssl (Tls (Ssl_shutdown k)) = None" "ssl_payload ssl (Tls (Ssl_get_shutdown k)) = None"
  "ssl_payload ssl (Tls (Ssl_do_handshake k)) = None"
  "ssl_payload ssl (Tls (Ssl_get_verify_result k)) = None"
  "ssl_payload ssl (Tls Err_clear_error) = None" "ssl_payload ssl (Io i) = None"
  "ssl_payload ssl (Cb a e) = None"
  by (simp_all add: ssl_payload_def)

lemma wants_retry_simps [simp]:
  "wants_retry ssl (Tls (Ssl_get_error k n), r) \<longleftrightarrow>
    k = ssl \<and> ret r \<in> {SSL_ERROR_WANT_READ, SSL_ERROR_WANT_WRITE}"
  "\<not> wants_retry ssl (Tls (Ssl_write k b), r)" "\<not> wants_retry ssl (Tls (Ssl_read k n), r)"
  "\<not> wants_retry ssl (Tls (Ssl_shutdown k), r)" "\<not> wants_retry ssl (Tls (Ssl_get_shutdown k), r)"
  "\<not> wants_retry ssl (Tls (Ssl_do_handshake k), r)"
  "\<not> wants_retry ssl (Tls (Ssl_get_verify_result k), r)"
  "\<not> wants_retry ssl (Tls Err_clear_error, r)" "\<not> wants_retry ssl (Io i, r)"
  "\<not> wants_retry ssl (Cb a e, r)"
  by (simp_all add: wants_retry_def)

text \<open>Calls that leave the write history of every session alone.\<close>

definition same_writes :: "history \<Rightarrow> history \<Rightarrow> bool" where
  "same_writes h h' \<longleftrightarrow>
    (\<forall>ssl. unfinished_write ssl h' = unfinished_write ssl h \<and> retries_ok ssl h' = retries_ok ssl h)"

text \<open>What one flush of the poller may send, its \<open>send_budget\<close>.\<close>

definition send_budget :: nat where "send_budget = 64 * 1024"

text \<open>A pending write is a queued one, and its bytes are still the first ones of the queue.\<close>

definition retry_inv :: "'a tls_sock_scheme \<Rightarrow> world \<Rightarrow> bool" where
  "retry_inv s w \<longleftrightarrow> queue_inv (outgoing s) \<and> retries_ok (session s) (trace w) \<and>
    (if pending_write_len s = 0 then unfinished_write (session s) (trace w) = None
     else qbytes (outgoing s) \<noteq> 0 \<and> pending_write_queued s \<and> tls_ready s \<and> session s \<noteq> 0 \<and>
       (\<exists>b more. unfinished_write (session s) (trace w) = Some b \<and>
         pending_write_len s = int (length b) \<and> length b \<le> send_budget \<and>
         pending_write_hash s = bytes_hash b (int (length b)) \<and>
         queue_front (outgoing s) = b @ more))"

lemma retry_inv_queue: "retry_inv s w \<Longrightarrow> queue_inv (outgoing s)"
  by (simp add: retry_inv_def)

lemma bytes_hash_prefix: "n \<le> length d \<Longrightarrow> bytes_hash (take n d) (int n) = bytes_hash d (int n)"
  by (simp add: bytes_hash_def)

lemma bytes_hash_append: "bytes_hash (b @ d) (int (length b)) = bytes_hash b (int (length b))"
  by (simp add: bytes_hash_def)

text \<open>One write of the flush loop keeps the contract and never reports an interrupt.\<close>

lemma retry_write:
  fixes s :: "'a tls_sock_scheme"
  assumes inv: "retry_inv s w" and k: "qbytes (outgoing s) \<noteq> 0" "0 < k" "k \<le> send_budget"
      "k \<le> length (queue_front (outgoing s))" "pending_write_len s \<le> int k"
    and wr: "write_tls os (take k (queue_front (outgoing s))) (write_len (int k) s) True s w = (r, s', w')"
      "tls_ready s" "session s \<noteq> 0"
  shows "(if 0 < r then pending_write_len s' = 0 \<and> retries_ok (session s) (trace w') \<and>
       unfinished_write (session s) (trace w') = None
     else retry_inv s' w' \<and> errno w' \<noteq> EINTR \<and>
       (errno w' = EWOULDBLOCK \<or> pending_write_len s' = 0))"
proof -
  let ?f = "queue_front (outgoing s)"
  obtain m where m: "write_len (int k) s = int m" "0 < m" "m \<le> k"
    "pending_write_len s \<noteq> 0 \<Longrightarrow> pending_write_len s = int m \<and>
       unfinished_write (session s) (trace w) = Some (take m ?f) \<and> pending_write_queued s \<and>
       pending_write_hash s = bytes_hash (take m ?f) (int m)"
    "pending_write_len s = 0 \<Longrightarrow> unfinished_write (session s) (trace w) = None \<and> m = k"
  proof (cases "pending_write_len s = 0")
    case True
    then show ?thesis using that [of k] inv k(2) by (simp add: write_len_def retry_inv_def)
  next
    case False
    then obtain b more where b: "unfinished_write (session s) (trace w) = Some b"
        "pending_write_len s = int (length b)" "pending_write_queued s" "?f = b @ more"
        "pending_write_hash s = bytes_hash b (int (length b))"
      using inv by (auto simp: retry_inv_def)
    show ?thesis
    proof (rule that [of "length b"])
      show "write_len (int k) s = int (length b)" "0 < length b" "length b \<le> k"
        using False k(5) b(2) by (auto simp: write_len_def)
    qed (use False b in simp_all)
  qed
  have call: "ssl_write_call (session s) (take k ?f) (int m) = Ssl_write (session s) (take m ?f)"
    using m(3) k(4) by (simp add: ssl_write_call_def min_absorb1)
  have ok: "retries_ok (session s) (trace w)" using inv by (simp add: retry_inv_def)
  have retry: "unfinished_write (session s) (trace w) \<in> {None, Some (take m ?f)}"
    using m(4,5) by (cases "pending_write_len s = 0") simp_all
  have hash: "bytes_hash (take k ?f) (int m) = bytes_hash (take m ?f) (int m)"
    using m(3) by (simp add: bytes_hash_def min_absorb1)
  have len: "length (take m ?f) = m" "m \<le> send_budget" using m(3) k(3,4) by auto
  have front: "?f = take m ?f @ drop m ?f" by simp
  from wr(1) [unfolded m(1)] show ?thesis
  proof (cases rule: write_tls_cases)
    case (sent ans c)
    then show ?thesis using ok retry by (auto simp: call forget_write_def set_error_def)
  next
    case (retry ans c e)
    have st: "outgoing s' = outgoing s" "session s' = session s" "pending_write_len s' = int m"
      "pending_write_queued s'" "pending_write_hash s' = bytes_hash (take m ?f) (int m)"
      "tls_ready s'"
      using retry(4) m(2,4) wr(2) hash by auto
    have "unfinished_write (session s) (trace w') = Some (take m ?f)"
      "retries_ok (session s) (trace w')"
      using retry(3,5) ok \<open>unfinished_write (session s) (trace w) \<in> {None, Some (take m ?f)}\<close>
      by (auto simp: call)
    then have "retry_inv s' w'"
      unfolding retry_inv_def using st inv k(1) m(2) wr(3) len front
      by (auto simp: retry_inv_def intro!: exI [of _ "drop m ?f"])
    then show ?thesis using retry(1,2,6) by simp
  next
    case (failed ans c e)
    then show ?thesis
      using ok retry inv by (auto simp: call forget_write_def set_error_def retry_inv_def)
  qed
qed

lemma retry_round:
  fixes s :: "'a tls_sock_scheme"
  assumes inv: "retry_inv s w" and k: "qbytes (outgoing s) \<noteq> 0" "0 < k" "k \<le> send_budget"
      "k \<le> length (queue_front (outgoing s))" "pending_write_len s \<le> int k"
    and p: "tls_poll_send_queued os (take k (queue_front (outgoing s))) (int k) s w = (r, s', w')"
  shows "(if 0 < r then pending_write_len s' = 0 \<and> retries_ok (session s) (trace w') \<and>
       unfinished_write (session s) (trace w') = None
     else r < 0 \<and> retry_inv s' w' \<and> errno w' \<noteq> EINTR \<and>
       (errno w' = EWOULDBLOCK \<or> pending_write_len s' = 0)) \<and>
    outgoing s' = outgoing s \<and> session s' = session s"
proof -
  let ?f = "queue_front (outgoing s)"
  have send: "send_tls os True (Some (take k ?f)) (int k) s w = (r, s', w')"
    using p by (simp add: tls_poll_send_queued_def)
  have pend: "pending_write_len s \<noteq> 0 \<Longrightarrow> pending_write_queued s \<and> tls_ready s \<and> session s \<noteq> 0 \<and>
      bytes_hash (take k ?f) (pending_write_len s) = pending_write_hash s"
    using inv k(4,5) by (auto simp: retry_inv_def bytes_hash_def)
  show ?thesis
  proof (cases "tls_ready s \<and> session s \<noteq> 0")
    case True
    have wr: "write_tls os (take k ?f) (write_len (int k) s) True s w = (r, s', w')"
    proof (cases "pending_write_len s = 0")
      case False
      then show ?thesis using send pend [OF False] k(2,5) by (simp add: send_tls_def write_len_def)
    qed (use send True k(2) in \<open>simp add: send_tls_def write_len_def\<close>)
    have "0 < r \<or> r = - 1" using wr by (cases rule: write_tls_cases) simp_all
    then show ?thesis
      using retry_write [OF inv k wr] write_tls_neutral [OF wr] True by (simp split: if_splits)
  next
    case False
    then have "r = - 1" "s' = set_error ssl_error_io s" "w' = set_transport_error w"
      "pending_write_len s = 0"
      using send pend by (auto simp: send_tls_def)
    then show ?thesis using inv by (simp add: retry_inv_def set_error_def set_transport_error_def)
  qed
qed

lemma retry_flush_loop:
  fixes s :: "'a tls_sock_scheme"
  assumes "retry_inv s w" "pending_write_len s = 0 \<or> tot = 0"
    and "flush_loop (tls_poll_send_queued os) terminal send_budget i tot s w = (r, s', w')"
  shows "retry_inv s' w' \<and> session s' = session s"
  using assms
proof (induction "tls_poll_send_queued os :: byte list \<Rightarrow> int \<Rightarrow> 'a tls_sock_scheme \<Rightarrow> world \<Rightarrow> _"
    terminal send_budget i tot s w rule: flush_loop.induct)
  case (1 terminal i tot s w)
  let ?f = "queue_front (outgoing s)"
  let ?k = "min (min (length ?f) (send_budget - tot)) (nat int_max)"
  show ?case
  proof (cases "queued_bytes s \<noteq> 0 \<and> tot < send_budget")
    case False
    then show ?thesis
      using "1.prems" flush_loop.simps [of "tls_poll_send_queued os" terminal send_budget i tot s w] by auto
  next
    case True
    note inv = retry_inv_queue [OF "1.prems"(1)]
    have busy: "qbytes (outgoing s) \<noteq> 0" "tot < send_budget" using True by (auto simp: queued_bytes_def)
    note off = tls_queue.offer [OF inv busy]
    have kb: "?k \<le> send_budget" "?k \<le> length ?f" using off(3,4) by linarith+
    have "pending_write_len s \<le> int ?k"
    proof (cases "pending_write_len s = 0")
      case False
      then obtain b more where "pending_write_len s = int (length b)" "length b \<le> send_budget"
        "?f = b @ more" using "1.prems"(1) by (auto simp: retry_inv_def)
      then show ?thesis using "1.prems"(2) False by (simp add: send_budget_def)
    qed (use off(2) in simp)
    note round_inv = retry_round [OF "1.prems"(1) busy(1) off(2) kb this]
    obtain sent s1 w1 where p: "tls_poll_send_queued os (take ?k ?f) (int ?k) s w = (sent, s1, w1)"
      by (metis prod_cases3)
    note r = round_inv [OF p]
    note round = flush_loop_round [where psend = "tls_poll_send_queued os" and terminal = terminal
      and i = i, OF True refl p]
    consider (stop) "sent < 0" | (over) "int ?k < sent" | (more) "0 < sent" "\<not> int ?k < sent"
      using r by (cases "0 < sent") auto
    then show ?thesis
    proof cases
      case stop
      then have "retry_inv s1 w1" "session s1 = session s" "errno w1 \<noteq> EINTR"
        "errno w1 = EWOULDBLOCK \<or> pending_write_len s1 = 0" using r by auto
      moreover have "w' = w1" "s' = s1 \<or> s' = clear_queue s1 \<and> errno w1 \<noteq> EWOULDBLOCK"
        using "1.prems"(3) stop \<open>errno w1 \<noteq> EINTR\<close> unfolding round
        by (auto simp: would_block_error_def split: if_splits)
      ultimately show ?thesis by (auto simp: retry_inv_def clear_queue_def)
    next
      case over
      then have "w' = w1" "s' = clear_queue s1" using "1.prems"(3) unfolding round by auto
      then show ?thesis using r over by (auto simp: retry_inv_def clear_queue_def)
    next
      case more
      let ?s2 = "s1\<lparr>outgoing := queue_advance (nat sent) (outgoing s1)\<rparr>"
      have rec: "flush_loop (tls_poll_send_queued os) terminal send_budget 0 (tot + nat sent) ?s2 w1 = (r, s', w')"
        using "1.prems"(3) more unfolding round by auto
      have "nat sent \<le> length ?f" using more(2) kb(2) by linarith
      then have "retry_inv ?s2 w1"
        using r more(1) queue_advance_refines(2) [OF inv busy(1), of "nat sent"]
        by (simp add: retry_inv_def)
      moreover have "pending_write_len ?s2 = 0 \<or> tot + nat sent = 0" using r more(1) by simp
      ultimately show ?thesis
        using "1.hyps"(2) [OF True refl refl p [symmetric] refl refl refl _ _ more(2) _ _ rec] more(1) r
        by auto
    qed
  qed
qed

lemma retry_flush:
  assumes "retry_inv s w"
    and "flush_queued (tls_poll_send_queued os) terminal send_budget s w = (res, s', w')"
  shows "retry_inv s' w' \<and> session s' = session s"
  using tls_queue.flush_queued_cases [OF assms(2)]
proof
  assume run: "flush_loop (tls_poll_send_queued os) terminal send_budget 0 0 s w =
      ((fl_bytes res, fl_error res), s', w') \<and>
    fl_drained res = (queued_bytes s \<noteq> 0 \<and> queued_bytes s' = 0 \<and> fl_error res = 0)"
  show ?thesis by (rule retry_flush_loop [OF assms(1) _ conjunct1 [OF run]]) simp
qed (use assms(1) in simp)

lemma retry_queue_write:
  assumes "retry_inv s w" "queue_write accepts (Some data) n s = (b, s')" "n \<le> length data"
  shows "retry_inv s' w \<and> session s' = session s"
proof (cases "s' = s")
  case False
  then have s': "s' = s\<lparr>outgoing := queue_append (take n data) (outgoing s)\<rparr>"
    using assms(2) by (auto simp: queue_write_def Let_def split: if_splits)
  note q = queue_write_refines [OF retry_inv_queue [OF assms(1)] assms(2,3)]
  show ?thesis
  proof (cases "pending_write_len s = 0")
    case True
    then show ?thesis using assms(1) q s' by (simp add: retry_inv_def)
  next
    case pend: False
    then have "qbytes (outgoing s) \<noteq> 0" using assms(1) by (simp add: retry_inv_def)
    then obtain more where "queue_front (outgoing s') = queue_front (outgoing s) @ more"
      "qbytes (outgoing s') \<noteq> 0"
      using queue_append_front [OF retry_inv_queue [OF assms(1)], of "take n data"]
      unfolding s' by (auto simp: queue_append_def Let_def)
    then show ?thesis using assms(1) q s' pend by (auto simp: retry_inv_def)
  qed
qed (use assms(1) in simp)

section \<open>The other steps leave pending writes alone\<close>

definition write_frame :: "'a tls_sock_scheme \<Rightarrow> world \<Rightarrow> 'a tls_sock_scheme \<Rightarrow> world \<Rightarrow> bool" where
  "write_frame s w s' w' \<longleftrightarrow>
    session s' = session s \<and> outgoing s' = outgoing s \<and> (tls_ready s \<longrightarrow> tls_ready s') \<and>
    pending_write_len s' = pending_write_len s \<and> pending_write_queued s' = pending_write_queued s \<and>
    pending_write_hash s' = pending_write_hash s \<and> same_writes (trace w) (trace w')"

lemma write_frame_retry:
  "write_frame s w s' w' \<Longrightarrow> retry_inv s w \<Longrightarrow> retry_inv s' w' \<and> session s' = session s"
  by (auto simp: write_frame_def retry_inv_def same_writes_def)

lemma same_writes_refl [simp]: "same_writes h h"
  by (simp add: same_writes_def)

lemma same_writes_Cons:
  "(\<And>ssl. ssl_payload ssl (fst x) = None) \<Longrightarrow> (\<And>ssl. \<not> wants_retry ssl x) \<Longrightarrow>
   same_writes h h' \<Longrightarrow> same_writes h (x # h')"
  by (simp add: same_writes_def)

lemma same_writes_get_error:
  "(\<And>ssl. ssl_payload ssl (fst y) = None) \<Longrightarrow> (\<And>ssl. \<not> wants_retry ssl y) \<Longrightarrow> same_writes h h' \<Longrightarrow>
   same_writes h ((Tls (Ssl_get_error k n), e) # y # h')"
  by (simp add: same_writes_def)

lemmas write_frame_calls = same_writes_Cons same_writes_get_error

lemma now_trace: "now os w = (t, w') \<Longrightarrow> \<exists>r. trace w' = (Io Now, r) # trace w \<and> t = val r"
  by (auto simp: now_def sys_def Let_def)

lemma sys_ev: "sys os c w = (os_call os (trace w) c, w\<lparr>trace := (c, os_call os (trace w) c) # trace w,
    errno := if ret (os_call os (trace w) c) < 0 then err (os_call os (trace w) c) else errno w\<rparr>)"
  by (simp add: sys_def Let_def)

lemma tls_poll_receive_frame:
  assumes "tls_poll_receive os cap s w = (r, d, s', w')"
  shows "write_frame s w s' w'"
  using assms
  by (auto simp: tls_poll_receive_def write_frame_def err_clear_def now_def sys_ev Let_def
      set_error_def set_would_block_def set_transport_error_def
      intro!: write_frame_calls split: if_splits)

text \<open>
  The ways a handshake step ends. \<open>verify_calls s vs\<close>: the calls \<open>vs\<close> with which
  the result of the certificate check was asked.
\<close>

definition verify_calls :: "'a tls_sock_scheme \<Rightarrow> history \<Rightarrow> bool" where
  "verify_calls s vs \<longleftrightarrow>
    (if \<not> server_side s \<and> verify_mode s = Strict
     then \<exists>v. vs = [(Tls (Ssl_get_verify_result (session s)), v)] else vs = [])"

lemma verify_refused_result:
  assumes "verify_refused os s w = (b, w')"
  obtains vs where "verify_calls s vs" "trace w' = vs @ trace w" "b = (\<exists>x\<in>set vs. ret (snd x) \<noteq> X509_V_OK)"
proof (cases "\<not> server_side s \<and> verify_mode s = Strict")
  case True
  obtain v w1 where v: "sys os (Tls (Ssl_get_verify_result (session s))) w = (v, w1)" by fastforce
  show thesis
    by (rule that [of "[(Tls (Ssl_get_verify_result (session s)), v)]"])
      (use assms v True sys_trace [OF v] in \<open>simp_all add: verify_refused_def verify_calls_def\<close>)
next
  case False
  then show thesis
    using assms [unfolded verify_refused_def if_not_P [OF False]]
    by (intro that [of "[]"]) (auto simp: verify_calls_def)
qed

lemma handshake_cases:
  assumes "poll_step_handshake user os ready s w = (r, s', w')"
  obtains
    (hangup) "r = - 1" "s' = set_error ssl_error_handshake s" "w' = w"
  | (idle) "r = 0" "s' = s" "w' = w"
  | (completed) c h vs w1 where "r = 2" "ret h = 1" "verify_calls s vs"
      "\<forall>x\<in>set vs. ret (snd x) = X509_V_OK"
      "trace w1 = vs @ (Tls (Ssl_do_handshake (session s)), h) # (Tls Err_clear_error, c) # trace w"
      "fire user handler_connect Ev_connect
         (set_error err_none (s\<lparr>tls_ready := True, need_write := False\<rparr>)) w1 = (s', w')"
  | (refused) c h vs where "r = - 1" "ret h = 1" "s' = set_error ssl_error_cert s" "verify_calls s vs"
      "trace w' = vs @ (Tls (Ssl_do_handshake (session s)), h) # (Tls Err_clear_error, c) # trace w"
  | (want) c h e b where "r = 0" "ret h \<noteq> 1" "s' = s\<lparr>need_write := b\<rparr>"
      "trace w' = (Tls (Ssl_get_error (session s) (ret h)), e) #
         (Tls (Ssl_do_handshake (session s)), h) # (Tls Err_clear_error, c) # trace w"
  | (failed) c h e vs where "r = - 1" "ret h \<noteq> 1" "verify_calls s vs"
      "s' = set_error ssl_error_cert s \<or> s' = set_error ssl_error_handshake s"
      "trace w' = vs @ (Tls (Ssl_get_error (session s) (ret h)), e) #
         (Tls (Ssl_do_handshake (session s)), h) # (Tls Err_clear_error, c) # trace w"
proof -
  let ?hup = "flagged ready (POLLERR OR POLLNVAL OR POLLHUP)"
  let ?wait = "need_write s \<and> \<not> flagged ready POLLOUT \<or>
    \<not> need_write s \<and> \<not> flagged ready (POLLIN OR POLLHUP)"
  obtain c where c: "trace (err_clear os w) = (Tls Err_clear_error, c) # trace w"
    using err_clear_trace by blast
  obtain h w1 where h: "sys os (Tls (Ssl_do_handshake (session s))) (err_clear os w) = (h, w1)"
    by fastforce
  obtain e w2 where e: "sys os (Tls (Ssl_get_error (session s) (ret h))) w1 = (e, w2)" by fastforce
  note tr = sys_trace [OF h, unfolded c] sys_trace [OF e]
  obtain b1 v1 where v1: "verify_refused os s w1 = (b1, v1)" by fastforce
  obtain b2 v2 where v2: "verify_refused os s w2 = (b2, v2)" by fastforce
  from verify_refused_result [OF v1] obtain vs1 where vs1: "verify_calls s vs1"
    "trace v1 = vs1 @ trace w1" "b1 = (\<exists>x\<in>set vs1. ret (snd x) \<noteq> X509_V_OK)" .
  from verify_refused_result [OF v2] obtain vs2 where vs2: "verify_calls s vs2"
    "trace v2 = vs2 @ trace w2" .
  note d = assms [unfolded poll_step_handshake_def Let_def h e v1 v2 prod.case]
  consider ?hup | "\<not> ?hup" ?wait | (run) "\<not> ?hup" "\<not> ?wait" by blast
  then show thesis
  proof cases
    case 1
    then show thesis using d by (intro hangup) simp_all
  next
    case 2
    then show thesis using d by (intro idle) simp_all
  next
    case run
    note d = d [unfolded if_not_P [OF run(1)] if_not_P [OF run(2)]]
    show thesis
    proof (cases "ret h = 1")
      case True
      show thesis
      proof (cases b1)
        case no: True
        then show thesis using d True vs1 tr by (intro refused [of h vs1 c]) simp_all
      next
        case False
        then show thesis using d True vs1 tr
          by (intro completed [of h vs1 v1 c]) (simp_all split: prod.splits)
      qed
    next
      case no: False
      consider "ret e = SSL_ERROR_WANT_READ" | "ret e = SSL_ERROR_WANT_WRITE" |
        "ret e \<noteq> SSL_ERROR_WANT_READ" "ret e \<noteq> SSL_ERROR_WANT_WRITE" by blast
      then show thesis
      proof cases
        case 1
        then show thesis using d no tr by (intro want [of h False e c]) simp_all
      next
        case 2
        then show thesis using d no tr by (intro want [of h True e c]) simp_all
      next
        case 3
        then show thesis using d no tr vs2 by (intro failed [of h vs2 e c]) (auto split: if_splits)
      qed
    qed
  qed
qed

text \<open>The ways a shutdown step ends.\<close>

lemma shutdown_cases:
  assumes "poll_step_shutdown os ready s w = (r, s', w')"
  obtains
    (late) t where "trace w' = (Io Now, t) # trace w" "shutdown_deadline s \<le> val t" "r = - 1"
      "s' = set_error ssl_error_io s"
  | (early) t where "trace w' = (Io Now, t) # trace w" "val t < shutdown_deadline s"
      "r \<in> {0, 1, 3} \<and> s' = s \<or> r = - 1 \<and> s' = set_error ssl_error_io (s\<lparr>ssl_failed := True\<rparr>)"
      "r = 1 \<Longrightarrow> queued_bytes s \<noteq> 0" "r = 3 \<Longrightarrow> peer_notified_close s"
  | (shut) t c d where "val t < shutdown_deadline s" "queued_bytes s = 0"
      "\<not> flagged ready (POLLERR OR POLLNVAL)" "0 \<le> ret d" "ret d \<le> 1" 
      "trace w' = (Tls (Ssl_shutdown (session s)), d) # (Tls Err_clear_error, c) # (Io Now, t) # trace w"
      "if ret d = 1 then r = 3 \<and> s' = s
       else r = 0 \<and> s' = s\<lparr>shutdown_notify_sent := True, shutdown_need_write := False,
                  shutdown_need_read := True\<rparr>"
  | (retry) t c d e g where "val t < shutdown_deadline s" "queued_bytes s = 0"
      "ret d \<noteq> 0" "ret d \<noteq> 1"
      "trace w' = (Tls (Ssl_get_shutdown (session s)), g) # (Tls (Ssl_get_error (session s) (ret d)), e) #
         (Tls (Ssl_shutdown (session s)), d) # (Tls Err_clear_error, c) # (Io Now, t) # trace w"
      "s' = s\<lparr>shutdown_notify_sent := flagged (ret g) SSL_SENT_SHUTDOWN,
              shutdown_need_write := ret e = SSL_ERROR_WANT_WRITE,
              shutdown_need_read := ret e = SSL_ERROR_WANT_READ\<rparr>"
      "r = 0 \<or> r = 3 \<and> peer_notified_close s"
  | (failed) t c d e where "val t < shutdown_deadline s" "queued_bytes s = 0"
      "ret d \<noteq> 0" "ret d \<noteq> 1"
      "trace w' = (Tls (Ssl_get_error (session s) (ret d)), e) #
         (Tls (Ssl_shutdown (session s)), d) # (Tls Err_clear_error, c) # (Io Now, t) # trace w"
      "if peer_notified_close s then r = 3 \<and> s' = s
       else r = - 1 \<and> s' = set_error ssl_error_io (s\<lparr>ssl_failed := True\<rparr>)"
proof -
  obtain t w0 where t: "sys os (Io Now) w = (t, w0)" by fastforce
  obtain c where c: "trace (err_clear os w0) = (Tls Err_clear_error, c) # trace w0"
    using err_clear_trace by blast
  obtain d w1 where d: "sys os (Tls (Ssl_shutdown (session s))) (err_clear os w0) = (d, w1)" by fastforce
  obtain e w2 where e: "sys os (Tls (Ssl_get_error (session s) (ret d))) w1 = (e, w2)" by fastforce
  obtain g w3 where g: "sys os (Tls (Ssl_get_shutdown (session s))) w2 = (g, w3)" by fastforce
  note tr = sys_trace [OF t] sys_trace [OF d, unfolded c] sys_trace [OF e] sys_trace [OF g]
  note df = assms [unfolded poll_step_shutdown_def now_def Let_def t d e g prod.case]
  let ?err = "flagged ready (POLLERR OR POLLNVAL)"
  let ?idle = "shutdown_need_read s \<and> \<not> flagged ready (POLLIN OR POLLHUP) \<or>
    shutdown_need_write s \<and> \<not> flagged ready POLLOUT \<or>
    \<not> shutdown_need_read s \<and> \<not> shutdown_need_write s \<and> shutdown_notify_sent s \<and> \<not> flagged ready POLLIN \<or>
    \<not> shutdown_need_read s \<and> \<not> shutdown_need_write s \<and> \<not> shutdown_notify_sent s \<and> \<not> flagged ready POLLOUT"
  consider (late) "shutdown_deadline s \<le> val t"
    | (early) "\<not> shutdown_deadline s \<le> val t" "?err \<or> peer_notified_close s \<and> flagged ready POLLHUP \<or>
        queued_bytes s \<noteq> 0 \<or> ?idle"
    | (run) "\<not> shutdown_deadline s \<le> val t" "\<not> ?err" "\<not> (peer_notified_close s \<and> flagged ready POLLHUP)"
        "\<not> queued_bytes s \<noteq> 0" "\<not> (shutdown_need_read s \<and> \<not> flagged ready (POLLIN OR POLLHUP))"
        "\<not> (shutdown_need_write s \<and> \<not> flagged ready POLLOUT)"
        "\<not> (\<not> shutdown_need_read s \<and> \<not> shutdown_need_write s \<and> shutdown_notify_sent s \<and> \<not> flagged ready POLLIN)"
        "\<not> (\<not> shutdown_need_read s \<and> \<not> shutdown_need_write s \<and> \<not> shutdown_notify_sent s \<and> \<not> flagged ready POLLOUT)"
    by blast
  then show thesis
  proof cases
    case late
    then show thesis using df tr by (intro that(1) [of t]) auto
  next
    case early
    then have "r \<in> {0, 1, 3} \<and> s' = s \<or> r = - 1 \<and> s' = set_error ssl_error_io (s\<lparr>ssl_failed := True\<rparr>)"
      "r = 1 \<longrightarrow> queued_bytes s \<noteq> 0" "r = 3 \<longrightarrow> peer_notified_close s" "w' = w0"
      using df by (simp_all del: POLLERR_def POLLNVAL_def POLLHUP_def POLLIN_def POLLOUT_def split: if_splits)
    then show thesis using early(1) tr by (intro that(2) [of t]) simp_all
  next
    case run
    note df = df [unfolded if_not_P [OF run(1)] if_not_P [OF run(2)] if_not_P [OF run(3)]
      if_not_P [OF run(4)] if_not_P [OF run(5)] if_not_P [OF run(6)] if_not_P [OF run(7)] if_not_P [OF run(8)]]
    consider "ret d = 0 \<or> ret d = 1" | (ask) "ret d \<noteq> 0" "ret d \<noteq> 1"
      "ret e = SSL_ERROR_WANT_READ \<or> ret e = SSL_ERROR_WANT_WRITE"
      | (bad) "ret d \<noteq> 0" "ret d \<noteq> 1" "\<not> (ret e = SSL_ERROR_WANT_READ \<or> ret e = SSL_ERROR_WANT_WRITE)"
      by blast
    then show thesis
    proof cases
      case 1
      show thesis
      proof (cases "ret d = 1")
        case True
        note df = df [unfolded if_P [OF True]]
        show thesis using df run(1,2,4) tr(1,2) True by (intro that(3) [of t d c]) auto
      next
        case False
        then have zero: "ret d = 0" using 1 by simp
        note df = df [unfolded if_not_P [OF False] if_P [OF zero]]
        show thesis using df run(1,2,4) tr(1,2) zero by (intro that(3) [of t d c]) auto
      qed
    next
      case ask
      note df = df [unfolded if_not_P [OF ask(1)] if_not_P [OF ask(2)] if_P [OF ask(3)]]
      show thesis using df run(1,4) ask tr by (intro that(4) [of t d g e c]) (auto split: if_splits)
    next
      case bad
      note df = df [unfolded if_not_P [OF bad(1)] if_not_P [OF bad(2)] if_not_P [OF bad(3)]]
      show thesis using df run(1,4) bad tr by (intro that(5) [of t d e c]) (auto split: if_splits)
    qed
  qed
qed

lemma same_writes_verify:
  "verify_calls s vs \<Longrightarrow> same_writes h h' \<Longrightarrow> same_writes h (vs @ h')"
  by (auto simp: verify_calls_def intro!: same_writes_Cons split: if_splits)

lemma poll_step_shutdown_frame:
  "poll_step_shutdown os ready s w = (r, s', w') \<Longrightarrow> write_frame s w s' w'"
  by (erule shutdown_cases)
    (auto simp: write_frame_def set_error_def intro!: write_frame_calls split: if_splits)

lemma poll_step_handshake_frame:
  assumes "poll_step_handshake (log_user os addr) os ready s w = (r, s', w')"
  shows "write_frame s w s' w'"
  using assms
proof (cases rule: handshake_cases)
  case (completed c h vs w1)
  have "same_writes (trace w) (trace w1)"
    unfolding completed(5) by (rule same_writes_verify [OF completed(3)]) (auto intro!: write_frame_calls)
  then have "same_writes (trace w) (trace w')"
    using completed(6) by (auto simp: fire_log_user sys_def Let_def intro!: same_writes_Cons)
  then show ?thesis
    using completed(6) by (auto simp: write_frame_def fire_log_user set_error_def split: if_splits)
next
  case (refused c h vs)
  then show ?thesis
    by (auto simp: write_frame_def set_error_def intro!: write_frame_calls same_writes_verify)
next
  case (failed c h e vs)
  then show ?thesis
    by (auto simp: write_frame_def set_error_def intro!: write_frame_calls same_writes_verify)
qed (auto simp: write_frame_def set_error_def intro!: write_frame_calls)

lemma write_frame_trans:
  "write_frame s w s1 w1 \<Longrightarrow> write_frame s1 w1 s2 w2 \<Longrightarrow> write_frame s w s2 w2"
  by (simp add: write_frame_def same_writes_def)

text \<open>A step of the poller: the clock is read during a handshake, then one branch runs.\<close>

lemma tls_poll_step_cases:
  assumes "tls_poll_step user os ready s w = (r, s', w')"
  obtains
    (expired) t where "session s \<noteq> 0" "\<not> tls_ready s" "trace w' = (Io Now, t) # trace w"
      "handshake_deadline s \<le> val t" "r = - 1" "s' = set_error ssl_error_handshake s"
  | (no_session) "session s = 0" "r = - 1" "s' = set_error ssl_error_init s" "w' = w"
  | (handshake) t w1 where "session s \<noteq> 0" "\<not> tls_ready s" "trace w1 = (Io Now, t) # trace w"
      "val t < handshake_deadline s" "poll_step_handshake user os ready s w1 = (r, s', w')"
  | (shutdown) "session s \<noteq> 0" "tls_ready s" "shutdown_requested s"
      "poll_step_shutdown os ready s w = (r, s', w')"
  | (transport_failed) "session s \<noteq> 0" "tls_ready s" "\<not> shutdown_requested s" "flagged ready (POLLERR OR POLLNVAL)" "r = - 1"
      "s' = set_error ssl_error_io (s\<lparr>ssl_failed := True\<rparr>)" "w' = w"
  | (open_session) "session s \<noteq> 0" "tls_ready s" "\<not> shutdown_requested s" "r = 1" "s' = s" "w' = w"
proof -
  obtain t w1 where t: "sys os (Io Now) w = (t, w1)" by fastforce
  note d = assms [unfolded tls_poll_step_def now_def Let_def t prod.case]
  consider "session s = 0" | "session s \<noteq> 0" "tls_ready s" | "session s \<noteq> 0" "\<not> tls_ready s" by blast
  then show thesis
  proof cases
    case 1
    then show thesis using d by (intro no_session) simp_all
  next
    case 2
    then show thesis using d shutdown transport_failed open_session by (simp split: if_splits)
  next
    case 3
    then show thesis
      using d expired [of t] handshake [of w1 t] sys_trace [OF t] by (simp split: if_splits)
  qed
qed

lemma tls_poll_step_frame:
  assumes "tls_poll_step (log_user os addr) os ready s w = (r, s', w')"
  shows "write_frame s w s' w'"
  using assms
proof (cases rule: tls_poll_step_cases)
  case (handshake t w1)
  have "write_frame s w s w1" using handshake(3) by (auto simp: write_frame_def intro!: same_writes_Cons)
  then show ?thesis by (rule write_frame_trans) (rule poll_step_handshake_frame [OF handshake(5)])
next
  case shutdown
  then show ?thesis by (intro poll_step_shutdown_frame)
qed (auto simp: write_frame_def set_error_def intro!: same_writes_Cons)

lemma begin_graceful_shutdown_frame:
  assumes "begin_graceful_shutdown os timeout s w = (b, s', w')"
  shows "write_frame s w s' w'"
proof -
  obtain t w1 where t: "sys os (Io Now) w = (t, w1)" by fastforce
  show ?thesis
    using assms [unfolded begin_graceful_shutdown_def now_def Let_def t prod.case] sys_trace [OF t]
    by (auto simp: write_frame_def set_error_def intro!: same_writes_Cons split: if_splits)
qed

section \<open>What a poller and its application do\<close>

inductive tls_step :: "os \<Rightarrow> nat \<Rightarrow> 'a tls_sock_scheme \<times> world \<Rightarrow> 'a tls_sock_scheme \<times> world \<Rightarrow> bool"
  for os addr
where
  enqueue: "queue_write tls_accepts_queued_write (Some data) n s = (b, s') \<Longrightarrow> n \<le> length data \<Longrightarrow>
    tls_step os addr (s, w) (s', w)"
| flush: "flush_queued (tls_poll_send_queued os) True send_budget s w = (res, s', w') \<Longrightarrow>
    tls_step os addr (s, w) (s', w')"
| progress: "tls_poll_step (log_user os addr) os ready s w = (r, s', w') \<Longrightarrow>
    tls_step os addr (s, w) (s', w')"
| receive: "tls_poll_receive os cap s w = (r, d, s', w') \<Longrightarrow> tls_step os addr (s, w) (s', w')"
| shutdown: "begin_graceful_shutdown os timeout s w = (b, s', w') \<Longrightarrow>
    tls_step os addr (s, w) (s', w')"

lemma tls_step_retry:
  assumes "tls_step os addr st st'" "retry_inv (fst st) (snd st)"
  shows "retry_inv (fst st') (snd st') \<and> session (fst st') = session (fst st)"
  using assms
proof cases
  case (enqueue data n s b s' w)
  then show ?thesis using retry_queue_write [of s w, OF _ enqueue(3,4)] assms(2) by simp
next
  case (flush s w res s' w')
  then show ?thesis using retry_flush [OF _ flush(3)] assms(2) by simp
next
  case (progress ready s w r s' w')
  then show ?thesis using write_frame_retry [OF tls_poll_step_frame [OF progress(3)]] assms(2) by simp
next
  case (receive cap s w r d s' w')
  then show ?thesis using write_frame_retry [OF tls_poll_receive_frame [OF receive(3)]] assms(2) by simp
next
  case (shutdown timeout s w b s' w')
  then show ?thesis
    using write_frame_retry [OF begin_graceful_shutdown_frame [OF shutdown(3)]] assms(2) by simp
qed

lemma tls_reachable_retry:
  assumes "(tls_step os addr)\<^sup>*\<^sup>* st st'" "retry_inv (fst st) (snd st)"
  shows "retry_inv (fst st') (snd st') \<and> session (fst st') = session (fst st)"
  using assms
proof (induction rule: rtranclp_induct)
  case (step y z)
  then show ?case using tls_step_retry [OF step(2)] by simp
qed simp

section \<open>Properties\<close>

definition sample_tls :: tls_sock where
  "sample_tls = (tls_of_ev 1 False Strict sample_ev)\<lparr>session := 1, tls_ready := True\<rparr>"

lemma sample_tls_simps [simp]:
  "outgoing sample_tls = queue_init" "sockfd sample_tls = 3" "connected sample_tls"
  "\<not> blocking sample_tls" "is_valid_socket sample_tls" "session sample_tls = 1"
  "tls_ready sample_tls" "pending_write_len sample_tls = 0" "\<not> shutdown_requested sample_tls"
  "error_code sample_tls = 0" "slots sample_tls = replicate 7 False"
  by (simp_all add: sample_tls_def tls_of_ev_def sample_ev_def ev_of_sock_def sock.defs ev_sock.defs
      sock_init_def is_valid_socket_def)

lemma sample_tls_write:
  "queue_write tls_accepts_queued_write (Some [1, 2, 3]) 3 sample_tls =
    (True, sample_tls\<lparr>outgoing := queue_append [1, 2, 3] queue_init\<rparr>)"
  by (simp add: queue_write_def tls_accepts_queued_write_def Let_def)

text \<open>
  C6. Over TLS the write queue is a reliable byte stream too: however queued writes, limit
  changes and flushes interleave, and however OpenSSL splits, delays or retries the records, the
  bytes it accepted followed by the bytes still queued are exactly the bytes accepted from the
  application, in order.
\<close>

theorem tls_stream_in_order:
  assumes "send_bounded os" "queue_inv (outgoing s0)" "0 \<le> pending_write_len s0"
    and "(stream_step (tls_poll_send_queued os) True tls_accepts_queued_write)\<^sup>*\<^sup>* ([], s0, w0) (acc, s, w)"
  shows "outbound (trace w) @ pending (outgoing s) =
      outbound (trace w0) @ pending (outgoing s0) @ acc \<and>
    queued_bytes s = length (pending (outgoing s)) \<and> queued_bytes s \<le> qlimit (outgoing s)"
proof -
  have "stream_inv (outbound (trace w0) @ pending (outgoing s0)) (acc, s, w)"
    using tls_queue.stream_reachable_inv [OF assms(4,1)] assms(2,3)
    by (simp add: stream_inv_def write_len_ok_def)
  then show ?thesis by (simp add: stream_inv_def queue_inv_def queued_bytes_def)
qed

theorem tls_stream_in_order_witness:
  "\<exists>s. queue_write tls_accepts_queued_write (Some [1, 2, 3]) 3 sample_tls = (True, s) \<and>
    outbound (trace world0) @ pending (outgoing s) = [1, 2, 3]"
proof -
  let ?s = "sample_tls\<lparr>outgoing := queue_append [1, 2, 3] queue_init\<rparr>"
  have "stream_step (tls_poll_send_queued (scripted_os [])) True tls_accepts_queued_write
    ([], sample_tls, world0) ([1, 2, 3], ?s, world0)"
    using stream_step.enqueue [OF sample_tls_write, where acc = "[]" and w = world0] by simp
  from tls_stream_in_order [OF scripted_send_bounded _ _ r_into_rtranclp [of "stream_step _ _ _", OF this]]
  have "outbound (trace world0) @ pending (outgoing ?s) = [1, 2, 3]" by (simp add: world0_def)
  then show ?thesis using sample_tls_write by auto
qed

text \<open>
  C5. In every interleaving of queued writes, flushes, reads, handshake and shutdown steps, each
  time \<open>SSL_write\<close> asked for a retry the next \<open>SSL_write\<close> on that session presents
  exactly the same bytes, although the queue grew, was coalesced, or offered a longer front; a
  write still unfinished is a queued one and its bytes are the first bytes of the queue.
\<close>

theorem tls_retry_same_bytes:
  assumes "queue_inv (outgoing s0)" "pending_write_len s0 = 0"
    and "retries_ok (session s0) (trace w0)" "unfinished_write (session s0) (trace w0) = None"
    and "(tls_step os addr)\<^sup>*\<^sup>* (s0, w0) (s, w)"
  shows "retries_ok (session s0) (trace w) \<and> session s = session s0 \<and>
    (case unfinished_write (session s0) (trace w) of None \<Rightarrow> pending_write_len s = 0
     | Some b \<Rightarrow> pending_write_len s = int (length b) \<and> pending_write_queued s \<and>
         take (length b) (pending (outgoing s)) = b)"
proof -
  have "retry_inv s0 w0" using assms(1-4) by (simp add: retry_inv_def)
  then have inv: "retry_inv s w" "session s = session s0"
    using tls_reachable_retry [OF assms(5)] by simp_all
  show ?thesis
  proof (cases "pending_write_len s = 0")
    case True
    then show ?thesis using inv by (simp add: retry_inv_def)
  next
    case False
    then obtain b more where b: "unfinished_write (session s) (trace w) = Some b"
      "pending_write_len s = int (length b)" "pending_write_queued s"
      "queue_front (outgoing s) = b @ more" "qbytes (outgoing s) \<noteq> 0"
      using inv(1) by (auto simp: retry_inv_def)
    then have "take (length b) (pending (outgoing s)) = b"
      using front_prefix [OF retry_inv_queue [OF inv(1)] b(5), of "length b"] by simp
    then show ?thesis using b inv by (simp add: retry_inv_def)
  qed
qed

text \<open>An environment in which the first \<open>SSL_write\<close> asks for a retry.\<close>

definition retry_os :: os where
  "retry_os = (scripted_os [])\<lparr>os_call := (\<lambda>h c.
     case c of Tls (Ssl_write k b) \<Rightarrow> result0\<lparr>ret := if length h \<le> 1 then - 1 else int (length b)\<rparr>
     | Tls (Ssl_get_error k n) \<Rightarrow> result0\<lparr>ret := SSL_ERROR_WANT_WRITE\<rparr>
     | _ \<Rightarrow> result0)\<rparr>"

theorem tls_retry_same_bytes_witness:
  "\<exists>s w. (tls_step retry_os 1)\<^sup>*\<^sup>* (sample_tls\<lparr>outgoing := queue_append [1, 2, 3] queue_init\<rparr>, world0) (s, w) \<and>
    pending_write_len s = 3 \<and> unfinished_write 1 (trace w) = Some [1, 2, 3] \<and>
    retries_ok 1 (trace w) \<and> take 3 (pending (outgoing s)) = [1, 2, 3]"
proof -
  let ?q = "queue_append [1, 2, 3] queue_init"
  let ?s = "sample_tls\<lparr>outgoing := ?q\<rparr>"
  have q: "queue_front ?q = [1, 2, 3]" "qbytes ?q = 3" "queue_inv ?q"
    by (simp_all add: queue_front_def queue_append_def queue_init_def queue_inv_def pending_def)
  obtain res s w where f: "flush_queued (tls_poll_send_queued retry_os) True send_budget ?s world0
    = (res, s, w)" by (metis prod_cases3)
  have p: "pending_write_len s = 3 \<and> unfinished_write 1 (trace w) = Some [1, 2, 3]"
    using f q
    by (simp add: flush_queued_def flush_loop.simps queued_bytes_def send_budget_def
        tls_poll_send_queued_def send_tls_def write_tls_def err_clear_def sys_def Let_def retry_os_def
        ssl_write_call_def set_would_block_def world0_def is_valid_socket_def would_block_error_def)
      (auto simp: would_block_error_def)
  have step: "(tls_step retry_os 1)\<^sup>*\<^sup>* (?s, world0) (s, w)"
    by (rule r_into_rtranclp) (rule tls_step.flush [OF f])
  have "retries_ok 1 (trace w) \<and> take 3 (pending (outgoing s)) = [1, 2, 3]"
    using tls_retry_same_bytes [OF _ _ _ _ step] p q(3) by (simp add: world0_def eval_nat_numeral)
  then show ?thesis using step p by blast
qed

end
