(* ===== verification/Tls_Session.thy ===== *)
theory Tls_Session
  imports Tls_Retry
begin

text \<open>
  The life of a TLS session: no application byte before an authenticated handshake, whatever the
  application calls (\<open>tls_app_step\<close>), orderly shutdown only after the queue is drained,
  close, connect, and the deadlines that drive the poller's timeout.
\<close>

section \<open>The handshake gate\<close>

text \<open>
  \<open>authenticated\<close>: a handshake on the session succeeded, and where the certificate is to
  be checked, the check succeeded. \<open>gated\<close>: every read and write of application data on
  the session came after that.
\<close>

definition authenticated :: "int \<Rightarrow> bool \<Rightarrow> history \<Rightarrow> bool" where
  "authenticated ssl strict h \<longleftrightarrow>
    (\<exists>x\<in>set h. fst x = Tls (Ssl_do_handshake ssl) \<and> ret (snd x) = 1) \<and>
    (strict \<longrightarrow> (\<exists>x\<in>set h. fst x = Tls (Ssl_get_verify_result ssl) \<and> ret (snd x) = X509_V_OK))"

definition carries_data :: "int \<Rightarrow> ext_call \<Rightarrow> bool" where
  "carries_data ssl c =
    (case c of Tls t \<Rightarrow> (case t of Ssl_write k b \<Rightarrow> k = ssl | Ssl_write_overrun k n \<Rightarrow> k = ssl
        | Ssl_read k n \<Rightarrow> k = ssl | _ \<Rightarrow> False) | _ \<Rightarrow> False)"

fun gated :: "int \<Rightarrow> bool \<Rightarrow> history \<Rightarrow> bool" where
  "gated ssl strict [] = True"
| "gated ssl strict (x # h) =
    (gated ssl strict h \<and> (carries_data ssl (fst x) \<longrightarrow> authenticated ssl strict h))"

lemma carries_data_simps [simp]:
  "carries_data ssl (Tls (Ssl_write k b)) \<longleftrightarrow> k = ssl" "carries_data ssl (Tls (Ssl_read k n)) \<longleftrightarrow> k = ssl"
  "carries_data ssl (Tls (ssl_write_call k b n)) \<longleftrightarrow> k = ssl"
  "\<not> carries_data ssl (Tls (Ssl_get_error k n))" "\<not> carries_data ssl (Tls (Ssl_shutdown k))"
  "\<not> carries_data ssl (Tls (Ssl_get_shutdown k))" "\<not> carries_data ssl (Tls (Ssl_do_handshake k))"
  "\<not> carries_data ssl (Tls (Ssl_get_verify_result k))" "\<not> carries_data ssl (Tls Err_clear_error)"
  "\<not> carries_data ssl (Io i)" "\<not> carries_data ssl (Cb a e)"
  by (simp_all add: carries_data_def ssl_write_call_def)

lemma authenticated_Cons: "authenticated ssl strict h \<Longrightarrow> authenticated ssl strict (x # h)"
  by (auto simp: authenticated_def)

lemma authenticated_weaken: "authenticated ssl strict h \<Longrightarrow> (strict' \<longrightarrow> strict) \<Longrightarrow> authenticated ssl strict' h"
  by (auto simp: authenticated_def)

lemma authenticated_append: "authenticated ssl strict h \<Longrightarrow> authenticated ssl strict (g @ h)"
  by (auto simp: authenticated_def)

definition strict_client :: "'a tls_sock_scheme \<Rightarrow> bool" where
  "strict_client s \<longleftrightarrow> \<not> server_side s \<and> verify_mode s = Strict"

text \<open>
  The invariant: the object holds the session or, once closed, none and is not ready; it is ready
  only when the session is authenticated.
\<close>

definition gate_inv :: "int \<Rightarrow> bool \<Rightarrow> 'a tls_sock_scheme \<Rightarrow> world \<Rightarrow> bool" where
  "gate_inv ssl strict s w \<longleftrightarrow> (session s = ssl \<or> session s = 0 \<and> \<not> tls_ready s) \<and>
    (strict \<longrightarrow> strict_client s) \<and>
    gated ssl strict (trace w) \<and> (tls_ready s \<longrightarrow> authenticated ssl strict (trace w))"

lemma gate_inv_outgoing: "gate_inv ssl strict (s\<lparr>outgoing := q\<rparr>) w = gate_inv ssl strict s w"
  by (simp add: gate_inv_def strict_client_def)

lemmas gate_defs = gate_inv_def strict_client_def set_error_def forget_write_def

lemma gate_send:
  assumes "gate_inv ssl strict s w" "send_tls os queued (Some data) n s w = (r, s', w')"
  shows "gate_inv ssl strict s' w'"
  using assms(2)
proof (cases rule: send_tls_cases)
  case refused
  then show ?thesis using assms(1) by (auto simp: gate_defs)
next
  case call
  have auth: "authenticated ssl strict (trace w)" using assms(1) call(2) by (simp add: gate_inv_def)
  show ?thesis
    by (rule write_tls_cases [OF call(1)])
      (use assms(1) auth in \<open>auto simp: gate_defs intro: authenticated_Cons\<close>)
qed

lemma gate_receive:
  assumes "gate_inv ssl strict s w" "tls_poll_receive os cap s w = (r, d, s', w')"
  shows "gate_inv ssl strict s' w'"
  using assms
  by (auto simp: tls_poll_receive_def gate_defs err_clear_def now_def sys_ev Let_def
      set_would_block_def set_transport_error_def intro!: authenticated_Cons split: if_splits)

lemma gate_shutdown:
  assumes "gate_inv ssl strict s w" "tls_ready s" "poll_step_shutdown os ready s w = (r, s', w')"
  shows "gate_inv ssl strict s' w'"
  using assms(3)
  by (cases rule: shutdown_cases)
    (use assms(1,2) in \<open>auto simp: gate_defs intro!: authenticated_Cons split: if_splits\<close>)

text \<open>What a completed handshake leaves in the history authenticates the session.\<close>

lemma handshake_authenticates:
  assumes "verify_calls s vs" "\<forall>x\<in>set vs. ret (snd x) = X509_V_OK" "ret h = 1"
  shows "authenticated (session s) (strict_client s) (vs @ (Tls (Ssl_do_handshake (session s)), h) # g)"
  using assms by (auto simp: authenticated_def verify_calls_def strict_client_def split: if_splits)

lemma gated_verify: "verify_calls s vs \<Longrightarrow> gated ssl strict (vs @ h) = gated ssl strict h"
  by (auto simp: verify_calls_def split: if_splits)

lemma gate_handshake:
  assumes "gate_inv ssl strict s w" "\<not> tls_ready s" "session s \<noteq> 0"
    and "poll_step_handshake (log_user os addr) os ready s w = (r, s', w')"
  shows "gate_inv ssl strict s' w'"
  using assms(4)
proof (cases rule: handshake_cases)
  case (completed c h vs w1)
  have "authenticated ssl strict (trace w1)"
    using authenticated_weaken [OF handshake_authenticates [OF completed(3,4,2)]] assms(1,3) completed(5)
    by (simp add: gate_inv_def)
  moreover have "gated ssl strict (trace w1)"
    using assms(1) completed(5) gated_verify [OF completed(3)] by (simp add: gate_inv_def)
  ultimately show ?thesis
    using completed(6) assms(1,3)
    by (auto simp: fire_log_user gate_defs sys_def Let_def intro: authenticated_Cons split: if_splits)
next
  case (refused c h vs)
  then show ?thesis using assms(1,2) gated_verify [OF refused(4)] by (auto simp: gate_defs)
next
  case (failed c h e vs)
  then show ?thesis using assms(1,2) gated_verify [OF failed(3)] by (auto simp: gate_defs)
qed (use assms(1,2) in \<open>auto simp: gate_defs\<close>)

lemma gate_step:
  assumes "gate_inv ssl strict s w" "tls_poll_step (log_user os addr) os ready s w = (r, s', w')"
  shows "gate_inv ssl strict s' w'"
  using assms(2)
proof (cases rule: tls_poll_step_cases)
  case (handshake t w1)
  have "gate_inv ssl strict s w1" using assms(1) handshake(2,3) by (simp add: gate_inv_def)
  then show ?thesis by (rule gate_handshake [OF _ handshake(2,1,5)])
next
  case shutdown
  then show ?thesis using gate_shutdown [OF assms(1)] by blast
qed (use assms(1) in \<open>auto simp: gate_defs\<close>)

lemma begin_shutdown_cases:
  assumes "begin_graceful_shutdown os timeout s w = (b, s', w')"
  obtains (refused) "\<not> b" "w' = w" "s' = s \<or> s' = set_error ssl_error_io s"
  | (started) t where "b" "trace w' = (Io Now, t) # trace w" "\<not> shutdown_requested s" "tls_ready s"
      "s' = set_error err_none (s\<lparr>shutdown_requested := True, shutdown_notify_sent := False,
              shutdown_need_write := False, shutdown_need_read := False,
              shutdown_deadline := after_ms (val t) timeout\<rparr>)"
proof -
  obtain t w1 where t: "sys os (Io Now) w = (t, w1)" by fastforce
  let ?bad = "timeout < 100 \<or> timeout > 60000 \<or> \<not> tls_ready s \<or> session s = 0 \<or>
        \<not> is_valid_socket s \<or> ssl_failed s \<or> peer_notified_close s \<or>
        pending_write_len s \<noteq> 0 \<and> \<not> pending_write_queued s"
  note d = assms [unfolded begin_graceful_shutdown_def now_def Let_def t prod.case]
  consider ?bad | "\<not> ?bad" "shutdown_requested s" | (go) "\<not> ?bad" "\<not> shutdown_requested s" by blast
  then show thesis
  proof cases
    case 1
    show thesis using d [unfolded if_P [OF 1]] by (intro refused) simp_all
  next
    case 2
    show thesis using d [unfolded if_not_P [OF 2(1)] if_P [OF 2(2)]] by (intro refused) simp_all
  next
    case go
    show thesis
      using d [unfolded if_not_P [OF go(1)] if_not_P [OF go(2)]] go(2) sys_trace [OF t]
      by (intro started [of t]) (use go(1) in auto)
  qed
qed

lemma gate_begin_shutdown:
  assumes "gate_inv ssl strict s w" "begin_graceful_shutdown os timeout s w = (b, s', w')"
  shows "gate_inv ssl strict s' w'"
  using assms(2)
  by (cases rule: begin_shutdown_cases)
    (use assms(1) in \<open>auto simp: gate_defs intro: authenticated_Cons\<close>)

lemma gate_tls_step:
  assumes "tls_step os addr st st'" "gate_inv ssl strict (fst st) (snd st)"
  shows "gate_inv ssl strict (fst st') (snd st')"
  using assms
proof cases
  case (enqueue data n s b s' w)
  have "gate_inv ssl strict s' w"
  proof (cases "s' = s")
    case False
    then have "s' = s\<lparr>outgoing := queue_append (take n data) (outgoing s)\<rparr>"
      using enqueue(3) by (auto simp: queue_write_def Let_def split: if_splits)
    then show ?thesis using assms(2) enqueue(1) by (simp add: gate_inv_outgoing)
  qed (use assms(2) enqueue(1) in simp)
  then show ?thesis using enqueue(2) by simp
next
  case (flush s w res s' w')
  have "gate_inv ssl strict s' w'"
    by (rule flush_queued_preserves [OF gate_inv_outgoing _ _ flush(3)])
      (use assms(2) flush(1) in \<open>auto simp: tls_poll_send_queued_def intro: gate_send\<close>)
  then show ?thesis using flush(2) by simp
next
  case (progress ready s w r s' w')
  then show ?thesis using gate_step [OF _ progress(3)] assms(2) by simp
next
  case (receive cap s w r d s' w')
  then show ?thesis using gate_receive [OF _ receive(3)] assms(2) by simp
next
  case (shutdown timeout s w b s' w')
  then show ?thesis using gate_begin_shutdown [OF _ shutdown(3)] assms(2) by simp
qed

section \<open>Calls that touch neither descriptors nor flags\<close>

definition quiet_call :: "ext_call \<Rightarrow> bool" where
  "quiet_call c = (case c of Tls t \<Rightarrow> True | Io i \<Rightarrow> i = Now | _ \<Rightarrow> False)"

definition quiet :: "history \<Rightarrow> history \<Rightarrow> bool" where
  "quiet h h' \<longleftrightarrow> (\<exists>cs. h' = cs @ h \<and> (\<forall>x\<in>set cs. quiet_call (fst x)))"

lemma quiet_call_simps [simp]: "quiet_call (Tls t)" "quiet_call (Io Now)"
  by (simp_all add: quiet_call_def)

lemma quiet_refl [simp, intro]: "quiet h h"
  by (simp add: quiet_def)

lemma quiet_trans [trans]: "quiet h k \<Longrightarrow> quiet k l \<Longrightarrow> quiet h l"
  unfolding quiet_def by (metis Un_iff append.assoc set_append)

lemma quiet_sys: "sys os c w = (r, w') \<Longrightarrow> quiet_call c \<Longrightarrow> quiet (trace w) (trace w')"
  unfolding quiet_def by (rule exI [of _ "[(c, r)]"]) (simp add: sys_trace)

lemma quiet_snd_sys: "quiet_call c \<Longrightarrow> quiet (trace w) (trace (snd (sys os c w)))"
  by (metis prod.collapse quiet_sys)

lemma quiet_err_clear: "quiet (trace w) (trace (err_clear os w))"
  by (simp add: err_clear_def quiet_snd_sys)

lemma quiet_now: "now os w = (t, w') \<Longrightarrow> quiet (trace w) (trace w')"
  by (auto simp: now_def intro: quiet_sys split: prod.splits)

lemma quiet_keeps:
  assumes "quiet h h'"
  shows "open_fds h' = open_fds h" "closes_ok h' = closes_ok h" "fl_state h' fd = fl_state h fd"
    "set h \<subseteq> set h'"
proof -
  obtain cs where cs: "h' = cs @ h" "\<forall>x\<in>set cs. quiet_call (fst x)" using assms by (auto simp: quiet_def)
  have "open_fds (cs @ h) = open_fds h \<and> closes_ok (cs @ h) = closes_ok h \<and>
    fl_state (cs @ h) fd = fl_state h fd"
    using cs(2)
  proof (induction cs)
    case (Cons x cs)
    obtain c r where x: "x = (c, r)" by fastforce
    have "quiet_call c" using Cons(2) x by simp
    then show ?case using Cons x by (cases c) (auto simp: quiet_call_def)
  qed simp
  then show "open_fds h' = open_fds h" "closes_ok h' = closes_ok h" "fl_state h' fd = fl_state h fd"
    "set h \<subseteq> set h'" using cs(1) by auto
qed

lemma quiet_safe: "quiet (trace w) (trace w') \<Longrightarrow> sockfd s' = sockfd s \<Longrightarrow> safe_step s w s' w'"
  by (simp add: safe_step_def fd_safe_def quiet_keeps)

section \<open>Closing\<close>

text \<open>The TLS calls of a close: a close notification where one is due, then the session is freed.\<close>

definition notify_due :: "'a tls_sock_scheme \<Rightarrow> bool" where
  "notify_due s \<longleftrightarrow> tls_ready s \<and> \<not> ssl_failed s \<and> \<not> peer_notified_close s \<and>
    \<not> shutdown_notify_sent s \<and> is_valid_socket s"

definition close_calls :: "'a tls_sock_scheme \<Rightarrow> ext_call list" where
  "close_calls s =
    (if session s = 0 then []
     else Tls (Ssl_free (session s)) #
       (if notify_due s then [Tls (Ssl_shutdown (session s)), Tls Err_clear_error] else []))"

lemma tls_close_stages:
  assumes "tls_close user os s w = (b, s', w')"
  obtains w1 cs where "trace w1 = cs @ trace w" "map fst cs = close_calls s"
    "event_close user os (clear_tls s) w1 = (b, s', w')"
proof (cases "session s = 0")
  case True
  then show thesis using assms that [of w "[]"] by (simp add: tls_close_def close_calls_def)
next
  case False
  let ?w0 = "if notify_due s then snd (sys os (Tls (Ssl_shutdown (session s))) (err_clear os w)) else w"
  have e: "event_close user os (clear_tls s) (snd (sys os (Tls (Ssl_free (session s))) ?w0)) = (b, s', w')"
    using assms False unfolding tls_close_def notify_due_def by (simp add: Let_def)
  obtain c where c: "trace (err_clear os w) = (Tls Err_clear_error, c) # trace w"
    using err_clear_trace by blast
  obtain cs where "trace (snd (sys os (Tls (Ssl_free (session s))) ?w0)) = cs @ trace w"
    "map fst cs = close_calls s"
    using False c by (cases "notify_due s") (simp_all add: close_calls_def os_simps)
  then show thesis using e by (rule that)
qed

lemma close_calls_quiet: "map fst cs = close_calls s \<Longrightarrow> quiet h (cs @ h)"
  unfolding quiet_def by (rule exI [of _ cs]) (auto simp: close_calls_def Cons_eq_map_conv map_eq_Cons_conv
      split: if_splits)

lemma clear_tls_frame [simp]:
  "sockfd (clear_tls s) = sockfd s" "is_valid_socket (clear_tls s) = is_valid_socket s"
  "blocking (clear_tls s) = blocking s" "connected (clear_tls s) = connected s"
  "connect_timeout_ms (clear_tls s) = connect_timeout_ms s" "error_code (clear_tls s) = error_code s"
  "slots (clear_tls s) = slots s" "session (clear_tls s) = 0"
  by (simp_all add: clear_tls_def is_valid_socket_def)

lemma event_close_tls_state:
  assumes "event_close (log_user os addr) os s w = (b, s', w')"
  shows "session s' = session s \<and> tls_ready s' = tls_ready s \<and>
    pending_write_len s' = pending_write_len s \<and> shutdown_requested s' = shutdown_requested s"
proof -
  obtain c s1 w1 where c: "socket_close os (clear_queue s) w = (c, s1, w1)" by (metis prod_cases3)
  have "session s1 = session s \<and> tls_ready s1 = tls_ready s \<and>
    pending_write_len s1 = pending_write_len s \<and> shutdown_requested s1 = shutdown_requested s"
    using c by (auto simp: socket_close_def clear_queue_def Let_def split: prod.splits if_splits)
  then show ?thesis using event_close_logged [OF assms c] by simp
qed

interpretation tls_close: virtual_close "\<lambda>os. tls_close (log_user os addr) os" for addr
proof
  fix os :: os and s :: "'a tls_sock_scheme" and w b s' w'
  assume "tls_close (log_user os addr) os s w = (b, s', w')"
  then obtain w1 cs where st: "trace w1 = cs @ trace w" "map fst cs = close_calls s"
    "event_close (log_user os addr) os (clear_tls s) w1 = (b, s', w')" by (rule tls_close_stages)
  note e = st(3)
  show "sockfd s' < 0" by (rule event_close.cl_releases [OF e])
  have "safe_step s w (clear_tls s) w1" using close_calls_quiet [OF st(2)] st(1) by (intro quiet_safe) simp_all
  then show "safe_step s w s' w'" by (rule safe_step_trans) (rule event_close.cl_safe [OF e])
  show "\<not> connected s'" if "is_valid_socket s" using event_close.cl_disconnects [OF e] that by simp
  show "blocking s' = blocking s" using event_close.cl_blocking [OF e] by simp
  show "connect_timeout_ms s' = connect_timeout_ms s" using event_close.cl_timeout [OF e] by simp
  show "error_code s' = error_code s \<or> error_code s' \<noteq> 0" if "errno_set os"
    using event_close.cl_error [OF that e] by simp
qed

section \<open>Everything the application does\<close>

text \<open>
  The steps of \<open>tls_step\<close> and the calls the application makes itself: direct writes through
  the hook \<open>poll_send\<close>, direct reads, the settings and \<open>close\<close>. The mode of the
  verification is not lowered on the way. A closed object may be connected again, which begins a
  new session; these steps describe the life of one.
\<close>

inductive tls_app_step ::
  "os \<Rightarrow> nat \<Rightarrow> 'a tls_sock_scheme \<times> world \<Rightarrow> 'a tls_sock_scheme \<times> world \<Rightarrow> bool"
  for os addr
where
  poller: "tls_step os addr st st' \<Longrightarrow> tls_app_step os addr st st'"
| direct_write: "event_write (tls_poll_send os) True (log_user os addr) data n s w = (r, s', w') \<Longrightarrow>
    tls_app_step os addr (s, w) (s', w')"
| write_cstr: "event_write_cstr (tls_poll_send os) True (log_user os addr) data s w = (r, s', w') \<Longrightarrow>
    tls_app_step os addr (s, w) (s', w')"
| write_string: "event_write_string (tls_poll_send os) True (log_user os addr) str s w = (r, s', w') \<Longrightarrow>
    tls_app_step os addr (s, w) (s', w')"
| direct_read: "tls_read os buffer n s w = (r, b, s', w') \<Longrightarrow> tls_app_step os addr (s, w) (s', w')"
| read_inbuffer: "tls_read_inbuffer os s w = (r, s', w') \<Longrightarrow> tls_app_step os addr (s, w) (s', w')"
| read_line: "tls_read_line os buffer n s w = (r, b, s', w') \<Longrightarrow> tls_app_step os addr (s, w) (s', w')"
| read_until: "tls_read_until os buffer n s w = (r, b, s', w') \<Longrightarrow> tls_app_step os addr (s, w) (s', w')"
| read_string: "tls_read_string os n s w = (str, s', w') \<Longrightarrow> tls_app_step os addr (s, w) (s', w')"
| pending_input: "tls_has_buffered_input os s w = (b, w') \<Longrightarrow> tls_app_step os addr (s, w) (s, w')"
| next_timeout: "poll_timeout_ms os s w = (r, w') \<Longrightarrow> tls_app_step os addr (s, w) (s, w')"
| limit: "set_max_queued_bytes lim s = (b, s') \<Longrightarrow> tls_app_step os addr (s, w) (s', w)"
| timeout: "set_handshake_timeout os ms s w = (r, s', w') \<Longrightarrow> tls_app_step os addr (s, w) (s', w')"
| ca_file: "set_ca_file os path s w = (r, s', w') \<Longrightarrow> tls_app_step os addr (s, w) (s', w')"
| self_signed: "set_allow_self_signed e s = (r, s') \<Longrightarrow> tls_app_step os addr (s, w) (s', w)"
| verification: "set_peer_verification mode s = (r, s') \<Longrightarrow> mode = verify_mode s \<or> mode = Strict \<Longrightarrow>
    tls_app_step os addr (s, w) (s', w)"
| shut: "tls_close (log_user os addr) os s w = (b, s', w') \<Longrightarrow> tls_app_step os addr (s, w) (s', w')"

text \<open>A call that is neither a read nor a write of the session keeps the gate.\<close>

lemma gated_append:
  "gated ssl strict h \<Longrightarrow> \<forall>x\<in>set cs. \<not> carries_data ssl (fst x) \<Longrightarrow> gated ssl strict (cs @ h)"
  by (induction cs) auto

lemma gate_trace:
  assumes "gate_inv ssl strict s w" "trace w' = cs @ trace w" "\<forall>x\<in>set cs. \<not> carries_data ssl (fst x)"
  shows "gate_inv ssl strict s w'"
  using assms gated_append [OF _ assms(3), of strict "trace w"]
  by (auto simp: gate_inv_def authenticated_append)

lemma gate_sys:
  "gate_inv ssl strict s w \<Longrightarrow> \<not> carries_data ssl c \<Longrightarrow> gate_inv ssl strict s (snd (sys os c w))"
  by (rule gate_trace [where cs = "[(c, os_call os (trace w) c)]"]) (simp_all add: os_simps)

lemma gate_frame:
  "gate_inv ssl strict s w \<Longrightarrow> session s' = session s \<Longrightarrow> tls_ready s' = tls_ready s \<Longrightarrow>
   verify_mode s' = verify_mode s \<Longrightarrow> server_side s' = server_side s \<Longrightarrow> gate_inv ssl strict s' w"
  by (simp add: gate_inv_def strict_client_def)

lemma gate_error: "gate_inv ssl strict (s\<lparr>error_code := e\<rparr>) w = gate_inv ssl strict s w"
  by (simp add: gate_inv_def strict_client_def)

lemma gate_fire:
  "gate_inv ssl strict s w \<Longrightarrow> fire (log_user os addr) slot ev s w = (s', w') \<Longrightarrow> gate_inv ssl strict s' w'"
  by (auto simp: fire_log_user gate_sys split: if_splits)

lemma gate_write:
  assumes "gate_inv ssl strict s w"
    and "event_write (tls_poll_send os) True (log_user os addr) data n s w = (r, s', w')"
  shows "gate_inv ssl strict s' w'"
proof (cases "\<not> is_valid_socket s \<or> data = None \<or> n \<le> 0")
  case True
  then show ?thesis using assms by (auto simp: event_write_def gate_error)
next
  case False
  obtain sent s1 w1 where p: "tls_poll_send os (the data) n s w = (sent, s1, w1)" by (metis prod_cases3)
  have g: "gate_inv ssl strict s1 w1" using p gate_send [OF assms(1)] by (simp add: tls_poll_send_def)
  let ?code = "transport_error (\<not> would_block_error (errno w1) \<and> True) s1 (errno w1)"
  obtain s2 w2 where e: "(if sent < 0 then fire (log_user os addr) handler_error (Ev_error ?code)
      (s1\<lparr>error_code := ?code\<rparr>) w1 else (s1\<lparr>error_code := err_none\<rparr>, w1)) = (s2, w2)" by fastforce
  have "gate_inv ssl strict s2 w2"
    using e g gate_fire [OF iffD2 [OF gate_error g]] by (cases "sent < 0") (auto simp: gate_error)
  moreover obtain s3 w3 where f: "fire (log_user os addr) handler_write
      (Ev_write (the data) n (if sent < 0 then 0 else sent)) s2 w2 = (s3, w3)" by fastforce
  ultimately have "gate_inv ssl strict s3 w3" by (rule gate_fire)
  then show ?thesis
    using assms(2) [unfolded event_write_def if_not_P [OF False] Let_def p prod.case e f] by simp
qed

lemma gate_read:
  assumes "gate_inv ssl strict s w" "tls_read os buffer n s w = (r, b, s', w')"
  shows "gate_inv ssl strict s' w'"
proof (cases "buffer = None \<or> n \<le> 0 \<or> \<not> tls_ready s")
  case True
  then show ?thesis using assms by (auto simp: tls_read_def gate_defs set_transport_error_def)
next
  case False
  obtain q d s1 w1 where p: "tls_poll_receive os n s w = (q, d, s1, w1)" by (metis prod_cases4)
  show ?thesis
    using gate_receive [OF assms(1) p] assms(2) [unfolded tls_read_def if_not_P [OF False] Let_def p prod.case]
    by (auto simp: gate_inv_def strict_client_def)
qed

lemma gate_read_line_loop:
  "gate_inv ssl strict s w \<Longrightarrow> tls_read_line_loop os buffer n count s w = (r, b, s', w') \<Longrightarrow>
   gate_inv ssl strict s' w'"
proof (induction os buffer n count s w rule: tls_read_line_loop.induct)
  case (1 os buffer n count s w)
  obtain q d s1 w1 where p: "tls_read os (Some [0]) 1 s w = (q, d, s1, w1)" by (metis prod_cases4)
  have g: "gate_inv ssl strict s1 w1" by (rule gate_read [OF 1(2) p])
  show ?case
  proof (cases "count < n - 1 \<and> 0 < q \<and> hd (the d) \<noteq> 10")
    case True
    then show ?thesis
      using 1(1) [OF _ refl p [symmetric] refl refl _ refl refl _ g] 1(3) p
      by (simp add: tls_read_line_loop.simps [of os buffer] Let_def)
  next
    case False
    then show ?thesis
      using 1(2,3) g p by (auto simp: tls_read_line_loop.simps [of os buffer] Let_def split: if_splits)
  qed
qed

lemma gate_read_line:
  assumes "gate_inv ssl strict s w" "tls_read_line os buffer n s w = (r, b, s', w')"
  shows "gate_inv ssl strict s' w'"
  using assms gate_read_line_loop [OF assms(1)]
  by (auto simp: tls_read_line_def gate_defs split: if_splits prod.splits)

lemma gate_close:
  assumes "gate_inv ssl strict s w" "tls_close (log_user os addr) os s w = (b, s', w')"
  shows "gate_inv ssl strict s' w'"
proof -
  obtain w1 cs where st: "trace w1 = cs @ trace w" "map fst cs = close_calls s"
    "event_close (log_user os addr) os (clear_tls s) w1 = (b, s', w')"
    by (rule tls_close_stages [OF assms(2)])
  have "\<forall>c\<in>set (close_calls s). \<not> carries_data ssl c"
    by (auto simp: close_calls_def carries_data_def split: if_splits)
  then have "\<forall>x\<in>set cs. \<not> carries_data ssl (fst x)" using st(2) by (metis image_eqI list.set_map)
  then have "gate_inv ssl strict s w1" by (rule gate_trace [OF assms(1) st(1)])
  then have g: "gate_inv ssl strict (clear_queue (clear_tls s)) w1"
    by (simp add: gate_inv_def clear_tls_def clear_queue_def strict_client_def)
  obtain c s2 w2 where c: "socket_close os (clear_queue (clear_tls s)) w1 = (c, s2, w2)"
    by (metis prod_cases3)
  obtain x w3 where x: "sys os (Fd (Close (sockfd (clear_queue (clear_tls s))))) w1 = (x, w3)" by fastforce
  have "gate_inv ssl strict (clear_queue (clear_tls s)) w3"
    using gate_sys [OF g, of "Fd (Close (sockfd (clear_queue (clear_tls s))))" os] x
    by (simp add: carries_data_def)
  then have "gate_inv ssl strict s2 w2"
    using c g x by (auto simp: socket_close_def Let_def gate_inv_def strict_client_def split: if_splits)
  then show ?thesis
    using event_close_logged [OF st(3) c] by (simp add: gate_sys)
qed

lemma gate_app_step:
  assumes "tls_app_step os addr st st'" "gate_inv ssl strict (fst st) (snd st)"
  shows "gate_inv ssl strict (fst st') (snd st')"
  using assms
proof cases
  case poller
  then show ?thesis using assms(2) gate_tls_step by blast
next
  case (direct_write data n s w r s' w')
  then show ?thesis using assms(2) gate_write [OF _ direct_write(3)] by simp
next
  case (write_cstr data s w r s' w')
  then show ?thesis
    using assms(2) gate_write [of ssl strict s w os addr]
    by (auto simp: event_write_cstr_def Let_def split: if_splits)
next
  case (write_string str s w r s' w')
  then show ?thesis
    using assms(2) gate_write [of ssl strict s w os addr]
    by (auto simp: event_write_string_def split: if_splits)
next
  case (direct_read buffer n s w r b s' w')
  then show ?thesis using assms(2) gate_read [OF _ direct_read(3)] by simp
next
  case (read_inbuffer s w r s' w')
  obtain q b s1 w1 where p: "tls_read os (Some (inbuffer s)) max_buffer_size s w = (q, b, s1, w1)"
    by (metis prod_cases4)
  have "gate_inv ssl strict s1 w1" using assms(2) read_inbuffer(1) gate_read [OF _ p] by simp
  moreover have "w' = w1" "session s' = session s1" "tls_ready s' = tls_ready s1"
    "verify_mode s' = verify_mode s1" "server_side s' = server_side s1"
    using read_inbuffer(3) [unfolded tls_read_inbuffer_def p Let_def prod.case] by (auto split: if_splits)
  ultimately show ?thesis using read_inbuffer(2) gate_frame by simp
next
  case (read_line buffer n s w r b s' w')
  then show ?thesis using assms(2) gate_read_line [OF _ read_line(3)] by simp
next
  case (read_until buffer n s w r b s' w')
  then show ?thesis using assms(2) gate_read_line [OF _ read_until(3) [unfolded tls_read_until_def]] by simp
next
  case (read_string n s w str s' w')
  then show ?thesis
    using assms(2) gate_read [of ssl strict s w os "Some (replicate (nat n) 0)" n]
    by (auto simp: tls_read_string_def split: if_splits prod.splits)
next
  case (pending_input s w b w')
  then show ?thesis
    using assms(2) gate_sys [of ssl strict s w "Tls (Ssl_pending (session s))" os]
    by (auto simp: tls_has_buffered_input_def carries_data_def split: if_splits prod.splits)
next
  case (next_timeout s w r w')
  then show ?thesis
    using assms(2) gate_sys [of ssl strict s w "Io Now" os]
    by (auto simp: poll_timeout_ms_def now_def split: if_splits prod.splits)
next
  case (limit lim s b s' w)
  then show ?thesis
    using assms(2) by (auto simp: set_max_queued_bytes_def gate_inv_outgoing split: if_splits)
next
  case (timeout ms s w r s' w')
  then show ?thesis
    using assms(2)
    by (auto simp: set_handshake_timeout_def now_def gate_defs sys_ev Let_def intro: authenticated_Cons
        split: if_splits)
next
  case (ca_file path s w r s' w')
  then show ?thesis
    using assms(2)
    by (auto simp: set_ca_file_def gate_defs sys_ev Let_def carries_data_def intro: authenticated_Cons
        split: if_splits)
next
  case (self_signed e s r s' w)
  then show ?thesis using assms(2) by (auto simp: set_allow_self_signed_def gate_defs)
next
  case (verification mode s r s' w)
  then show ?thesis using assms(2) by (auto simp: set_peer_verification_def gate_defs)
next
  case (shut s w b s' w')
  then show ?thesis using assms(2) gate_close [OF _ shut(3)] by simp
qed

section \<open>Starting a session\<close>

lemma init_session_result:
  assumes "init_session os server s w = (ok, s', w')"
  shows "quiet (trace w) (trace w') \<and> sockfd s' = sockfd s \<and> connected s' = connected s \<and>
    blocking s' = blocking s \<and> verify_mode s' = verify_mode s \<and>
    allow_self_signed s' = allow_self_signed s \<and> expected_identity s' = expected_identity s \<and>
    outgoing s' = outgoing s \<and>
    (ok \<longrightarrow> session s' \<noteq> 0 \<and> \<not> tls_ready s' \<and> pending_write_len s' = 0 \<and> \<not> shutdown_requested s')"
proof (cases "tls_ctx s = 0 \<or> \<not> is_valid_socket s")
  case True
  then show ?thesis using assms by (auto simp: init_session_def)
next
  case False
  obtain s0 w0 where drop: "(if session s \<noteq> 0
      then (s\<lparr>session := 0\<rparr>, snd (sys os (Tls (Ssl_free (session s))) w)) else (s, w)) = (s0, w0)"
    by fastforce
  have s0: "s0 = s \<or> s0 = s\<lparr>session := 0\<rparr>" "quiet (trace w) (trace w0)"
    using drop by (auto simp: quiet_snd_sys split: if_splits)
  obtain r w1 where r: "sys os (Tls (Ssl_new (tls_ctx s0))) (err_clear os w0) = (r, w1)" by fastforce
  let ?s1 = "s0\<lparr>session := ret r\<rparr>"
  obtain f w2 where f: "sys os (Tls (Ssl_set_fd (session ?s1) (sockfd ?s1))) w1 = (f, w2)" by fastforce
  let ?w3 = "snd (sys os (Tls (Ssl_set_mode (session ?s1))) w2)"
  let ?w4 = "snd (sys os (Tls (if server then Ssl_set_accept_state (session ?s1)
                                     else Ssl_set_connect_state (session ?s1))) ?w3)"
  obtain t w5 where t: "now os ?w4 = (t, w5)" by fastforce
  note d = assms [unfolded init_session_def if_not_P [OF False] drop Let_def prod.case r f t]
  have q1: "quiet (trace w) (trace w1)"
    using s0(2) quiet_err_clear [of w0 os] quiet_sys [OF r] quiet_trans by (metis quiet_call_simps(1))
  have q2: "quiet (trace w) (trace w2)" using quiet_trans [OF q1 quiet_sys [OF f]] by simp
  have q5: "quiet (trace w) (trace w5)"
    using quiet_trans [OF q2] quiet_trans [OF quiet_snd_sys quiet_trans [OF quiet_snd_sys quiet_now [OF t]]]
    by simp
  consider "session ?s1 = 0" | "session ?s1 \<noteq> 0" "ret f \<noteq> 1" | "session ?s1 \<noteq> 0" "\<not> ret f \<noteq> 1" by blast
  then show ?thesis
  proof cases
    case 1
    then show ?thesis using d [unfolded if_P [OF 1]] s0(1) q1 by auto
  next
    case 2
    then show ?thesis using d [unfolded if_not_P [OF 2(1)] if_P [OF 2(2)]] s0(1) q2 by auto
  next
    case 3
    then show ?thesis using d [unfolded if_not_P [OF 3(1)] if_not_P [OF 3(2)]] s0(1) q5 by auto
  qed
qed

text \<open>The session is bound to the name or address the certificate must match.\<close>

definition identity_call :: "os \<Rightarrow> string \<Rightarrow> int \<Rightarrow> tls_call" where
  "identity_call os identity ssl =
    (if is_numeric_ip os identity then Ssl_set_ip ssl identity else Ssl_set_host ssl identity)"

definition bound_to :: "os \<Rightarrow> string \<Rightarrow> 'a tls_sock_scheme \<Rightarrow> history \<Rightarrow> bool" where
  "bound_to os identity s h \<longleftrightarrow>
    (if verify_mode s = Strict
     then Tls (Ssl_set_verify (session s) True (allow_self_signed s)) \<in> fst ` set h \<and>
       (\<exists>x\<in>set h. fst x = Tls (identity_call os identity (session s)) \<and> ret (snd x) = 1)
     else Tls (Ssl_set_verify (session s) False False) \<in> fst ` set h)"

lemma bound_to_quiet: "bound_to os identity s h \<Longrightarrow> quiet h h' \<Longrightarrow> bound_to os identity s h'"
  using quiet_keeps(4) [of h h'] by (auto simp: bound_to_def split: if_splits)

lemma sys_in_trace: "sys os c w = (r, w') \<Longrightarrow> (c, r) \<in> set (trace w')"
  by (simp add: sys_trace)

lemma bind_identity_result:
  assumes "bind_identity os identity s w = (b, w')"
  shows "quiet (trace w) (trace w') \<and> (b \<longrightarrow> bound_to os identity s (trace w'))"
proof (cases "verify_mode s = Strict")
  case True
  obtain v w1 where v: "sys os (Tls (Ssl_set_verify (session s) True (allow_self_signed s))) w = (v, w1)"
    by fastforce
  obtain f w2 where f: "sys os (Tls (Ssl_set_hostflags (session s))) w1 = (f, w2)" by fastforce
  obtain r w3 where r: "sys os (Tls (identity_call os identity (session s))) w2 = (r, w3)" by fastforce
  have b: "b = (ret r = 1)" "w' = w3"
    using assms True v f r by (simp_all add: bind_identity_def identity_call_def [symmetric] Let_def)
  have "quiet (trace w) (trace w3)"
    using quiet_sys [OF v] quiet_sys [OF f] quiet_sys [OF r] quiet_trans by (metis quiet_call_simps(1))
  moreover have "trace w3 = (Tls (identity_call os identity (session s)), r) #
      (Tls (Ssl_set_hostflags (session s)), f) #
      (Tls (Ssl_set_verify (session s) True (allow_self_signed s)), v) # trace w"
    using sys_trace [OF v] sys_trace [OF f] sys_trace [OF r] by simp
  ultimately show ?thesis using b True by (auto simp: bound_to_def)
next
  case False
  then show ?thesis
    using assms quiet_snd_sys [of "Tls (Ssl_set_verify (session s) False False)" w os]
    by (auto simp: bind_identity_def bound_to_def os_simps)
qed

lemma start_client_result:
  assumes "start_client (log_user os addr) os identity s w = (b, s', w')"
  shows "safe_step s w s' w' \<and>
    (if b then is_valid_socket s' \<and> connected s' = connected s \<and> \<not> blocking s' \<and> error_code s' = err_none \<and>
         session s' \<noteq> 0 \<and> \<not> tls_ready s' \<and> bound_to os identity s' (trace w')
     else \<not> is_valid_socket s')"
proof -
  let ?s = "s\<lparr>expected_identity := identity\<rparr>"
  obtain ok s1 w1 where init: "(if \<not> is_valid_socket ?s then (False, ?s, w)
      else let (r, s, w) = set_blocking os False ?s w in
        if r \<noteq> err_none then (False, s, w) else init_session os False s w) = (ok, s1, w1)"
    by (rule prod_cases3) (rule that)
  have fd: "sockfd ?s = sockfd s" by simp
  have one: "safe_step s w s1 w1 \<and> sockfd s1 = sockfd s \<and> (ok \<longrightarrow> is_valid_socket s1 \<and>
      connected s1 = connected s \<and> \<not> blocking s1 \<and> session s1 \<noteq> 0 \<and> \<not> tls_ready s1)"
  proof (cases "is_valid_socket ?s")
    case False
    then show ?thesis using init by (auto simp: safe_step_def)
  next
    case True
    obtain r sb wb where bl: "set_blocking os False ?s w = (r, sb, wb)" by (metis prod_cases3)
    have sb: "safe_step s w sb wb" "sockfd sb = sockfd s"
      using set_blocking_safe [OF bl] by (auto simp: safe_step_def)
    have con: "connected sb = connected s"
      using bl by (auto simp: set_blocking_def set_socket_nonblocking_def Let_def split: prod.splits if_splits)
    show ?thesis
    proof (cases "r = 0")
      case False
      then show ?thesis using init True bl sb by auto
    next
      case zero: True
      then have i: "init_session os False sb wb = (ok, s1, w1)" using init True bl by simp
      note res = init_session_result [OF i]
      have "\<not> blocking sb" using set_blocking_agrees [of os False ?s w sb wb] bl zero by simp
      moreover have "safe_step s w s1 w1"
        by (rule safe_step_trans [OF sb(1)]) (rule quiet_safe, use res in simp_all)
      ultimately show ?thesis using res sb(2) con True by (simp add: is_valid_socket_def)
    qed
  qed
  have close: "safe_step s w s' w' \<and> \<not> is_valid_socket s'"
    if qv: "quiet (trace w1) (trace v)" and cl: "snd (tls_close (log_user os addr) os (set_error e s1) v) = (s', w')" for v e
  proof -
    obtain c where c: "tls_close (log_user os addr) os (set_error e s1) v = (c, s', w')"
      using cl by (metis prod.collapse)
    have "safe_step s w (set_error e s1) v"
      using safe_step_trans [OF conjunct1 [OF one] quiet_safe [OF qv, of "set_error e s1"]]
      by (simp add: set_error_def)
    then show ?thesis
      using safe_step_trans tls_close.cl_safe [OF c] tls_close.cl_releases [OF c]
      by (auto simp: is_valid_socket_def)
  qed
  obtain bd w2 where bd: "bind_identity os identity s1 w1 = (bd, w2)" by fastforce
  note bres = bind_identity_result [OF bd]
  obtain nm w3 where nm: "(if is_numeric_ip os identity then (True, w2)
     else let (r, w) = sys os (Tls (Ssl_set_sni (session s1) identity)) w2 in (ret r = 1, w)) = (nm, w3)"
    by fastforce
  have q3: "quiet (trace w2) (trace w3)"
    using nm by (auto split: if_splits prod.splits intro: quiet_sys)
  have q13: "quiet (trace w1) (trace w3)" using quiet_trans bres q3 by blast
  have d: "(b, s', w') =
     (if \<not> ok then (False, snd (tls_close (log_user os addr) os (set_error ssl_error_init s1) w1))
      else if \<not> bd then (False, snd (tls_close (log_user os addr) os (set_error ssl_error_cert s1) w2))
      else if \<not> nm then (False, snd (tls_close (log_user os addr) os (set_error ssl_error_init s1) w3))
      else (True, set_error err_none s1, w3))"
    using assms [unfolded start_client_def Let_def init [unfolded Let_def] prod.case bd
        nm [unfolded Let_def]] by (rule sym)
  show ?thesis
  proof (cases "ok \<and> bd \<and> nm")
    case True
    then have e: "b" "s' = set_error err_none s1" "w' = w3" using d by simp_all
    have "safe_step s w s' w'"
      using safe_step_trans [OF conjunct1 [OF one] quiet_safe [OF q13, of s' s1]] e
      by (simp add: set_error_def)
    moreover have "bound_to os identity s' (trace w')"
      using bound_to_quiet [OF conjunct2 [OF bres, rule_format] q3] True e by (simp add: bound_to_def set_error_def)
    ultimately show ?thesis using one e True by (simp add: is_valid_socket_def set_error_def)
  next
    case False
    then have "\<not> b" using d by (auto split: if_splits)
    moreover have "safe_step s w s' w' \<and> \<not> is_valid_socket s'"
      using False d close [OF quiet_refl] close [OF conjunct1 [OF bres]] close [OF q13]
      by (auto split: if_splits)
    ultimately show ?thesis by simp
  qed
qed

section \<open>Connecting\<close>

lemma drop_session_safe:
  assumes "drop_session (log_user os addr) os s w = (s', w')"
  shows "safe_step s w s' w'"
proof -
  obtain s1 w1 where one: "(if session s \<noteq> 0 \<or> connected s then snd (tls_close (log_user os addr) os s w)
      else (s, w)) = (s1, w1)" by fastforce
  have "safe_step s w s1 w1"
  proof (cases "session s \<noteq> 0 \<or> connected s")
    case True
    then obtain c where "tls_close (log_user os addr) os s w = (c, s1, w1)"
      using one by (metis (full_types) prod.collapse)
    then show ?thesis by (rule tls_close.cl_safe)
  next
    case False
    then show ?thesis using one by auto
  qed
  moreover obtain r where "set_blocking os True s1 w1 = (r, s', w')"
    using assms one unfolding drop_session_def by (auto simp: Let_def) (metis prod.collapse)
  ultimately show ?thesis using safe_step_trans set_blocking_safe by blast
qed

lemma tls_connect_tail:
  assumes "safe_step s w s1 w1" "is_valid_socket s1 \<and> connected s1"
    and "start_client (log_user os addr) os identity s1 w1 = (b, s', w')"
  shows "safe_step s w s' w' \<and>
    (if b then is_valid_socket s' \<and> connected s' \<and> \<not> blocking s' \<and> error_code s' = err_none \<and>
         session s' \<noteq> 0 \<and> \<not> tls_ready s' \<and> bound_to os identity s' (trace w')
     else \<not> is_valid_socket s')"
  using start_client_result [OF assms(3)] safe_step_trans [OF assms(1)] assms(2) by (cases b) auto

lemma tls_connect_addr_result:
  assumes "fresh_fds os" "ss_family (get_sockaddr_storage a) \<in> {AF_INET, AF_INET6}"
    and "\<not> server_side s" "is_ipv4 a \<or> is_ipv6 a" "get_port a \<noteq> 0"
    and "tls_connect_addr (log_user os addr) os a s w = (b, s', w')"
  shows "safe_step s w s' w' \<and>
    (if b then is_valid_socket s' \<and> connected s' \<and> \<not> blocking s' \<and> error_code s' = err_none \<and>
         session s' \<noteq> 0 \<and> \<not> tls_ready s' \<and>
         bound_to os (case get_string os a of Some t \<Rightarrow> t | None \<Rightarrow> []) s' (trace w')
     else \<not> is_valid_socket s')"
proof -
  let ?id = "case get_string os a of Some t \<Rightarrow> t | None \<Rightarrow> []"
  obtain s1 w1 where one: "drop_session (log_user os addr) os s w = (s1, w1)" by fastforce
  obtain c s2 w2 where t: "tcp_connect_addr os (\<lambda>os. tls_close (log_user os addr) os) a s1 w1 = (c, s2, w2)"
    by (rule prod_cases3) (rule that)
  have t': "tcp_connect_addr os (tls_close (log_user os addr)) a s1 w1 = (c, s2, w2)"
    using t unfolding tcp_connect_addr_def .
  have ok: "\<not> (server_side s \<or> \<not> is_ipv4 a \<and> \<not> is_ipv6 a \<or> get_port a = 0)" using assms(3-5) by simp
  note d = assms(6) [unfolded tls_connect_addr_def if_not_P [OF ok] Let_def one prod.case t']
  have safe: "safe_step s w s2 w2"
    using safe_step_trans [OF drop_session_safe [OF one]] tls_close.connect_addr_safe [OF assms(1) t] by blast
  note out = tls_close.connect_addr_outcome [OF assms(1,2) t]
  show ?thesis
  proof (cases c)
    case True
    then show ?thesis using tls_connect_tail [OF safe, of os addr ?id b s' w'] d out by simp
  next
    case False
    then show ?thesis using d out safe by (simp add: is_valid_socket_def)
  qed
qed

text \<open>A connect only closes in the environment it runs in.\<close>

lemma tcp_connect_loop_same_close:
  "cl os = cl' os \<Longrightarrow> tcp_connect_loop os cl es s w = tcp_connect_loop os cl' es s w"
proof (induction es arbitrary: s w)
  case (Cons e es)
  then have "tcp_connect_addr os cl a s w = tcp_connect_addr os cl' a s w" for a s w
    by (simp only: tcp_connect_addr_def)
  then show ?case using Cons by (simp split: prod.splits)
qed simp

lemma tcp_connect_host_same_close:
  assumes "cl os = cl' os"
  shows "tcp_connect_host os cl host p s w = tcp_connect_host os cl' host p s w"
  by (simp only: tcp_connect_host_def tcp_connect_stored_def tcp_connect_loop_same_close [of cl os cl', OF assms])

lemma tls_connect_host_result:
  assumes "fresh_fds os" "tls_connect_host (log_user os addr) os host p s w = (True, s', w')"
  shows "safe_step s w s' w' \<and> is_valid_socket s' \<and> connected s' \<and> \<not> blocking s' \<and>
    error_code s' = err_none \<and> session s' \<noteq> 0 \<and> \<not> tls_ready s' \<and> host \<noteq> None \<and>
    bound_to os (the host) s' (trace w')"
proof -
  have ok: "\<not> (server_side s \<or> host = None \<or> host = Some [] \<or> p < 1 \<or> p > 65535)"
    using assms(2) by (auto simp: tls_connect_host_def split: if_splits)
  obtain s1 w1 where one: "drop_session (log_user os addr) os s w = (s1, w1)" by fastforce
  obtain c s2 w2 where t: "tcp_connect_host os (\<lambda>os. tls_close (log_user os addr) os) host p s1 w1 = (c, s2, w2)"
    by (rule prod_cases3) (rule that)
  have t': "tcp_connect_host os (tls_close (log_user os addr)) host p s1 w1 = (c, s2, w2)"
    by (rule trans [OF tcp_connect_host_same_close t]) (rule refl)
  note d = assms(2) [unfolded tls_connect_host_def if_not_P [OF ok] Let_def one prod.case t']
  have c: c using d by (cases c) simp_all
  then have c': "c = True" by simp
  have safe: "safe_step s w s2 w2"
    using safe_step_trans [OF drop_session_safe [OF one]] tls_close.connect_host_safe [OF assms(1) t] by blast
  have live: "is_valid_socket s2 \<and> connected s2"
    using tls_close.connect_host_outcome [OF assms(1) t [unfolded c']] by simp
  have "start_client (log_user os addr) os (the host) s2 w2 = (True, s', w')" using d c by simp
  from tls_connect_tail [OF safe live this] show ?thesis using ok by simp
qed

section \<open>Properties\<close>

text \<open>
  C2. No application byte crosses an unauthenticated session. Starting from a session whose
  handshake has not begun, and whatever the poller and the application then do with it (queued and
  direct writes, flushes, reads of every kind, shutdown, settings, close, as long as the
  verification mode is not lowered), every \<open>SSL_read\<close> and \<open>SSL_write\<close> on it
  comes after a successful handshake, and for a client in strict mode after a successful certificate
  check; the session is marked ready only then.
\<close>

theorem tls_no_data_before_handshake:
  assumes "\<not> tls_ready s0" "\<forall>x\<in>set (trace w0). \<not> carries_data (session s0) (fst x)"
    and "(tls_app_step os addr)\<^sup>*\<^sup>* (s0, w0) (s, w)"
  shows "gated (session s0) (strict_client s0) (trace w) \<and>
    (tls_ready s \<longrightarrow> authenticated (session s0) (strict_client s0) (trace w))"
proof -
  have "gated ssl strict h" if "\<forall>x\<in>set h. \<not> carries_data ssl (fst x)" for ssl strict h
    using that by (induction h) auto
  then have "gate_inv (session s0) (strict_client s0) s0 w0"
    using assms(1,2) by (simp add: gate_inv_def)
  with assms(3) have "gate_inv (session s0) (strict_client s0) (fst (s, w)) (snd (s, w))"
    by (induction rule: rtranclp_induct) (auto intro: gate_app_step)
  then show ?thesis by (simp add: gate_inv_def)
qed

definition sample_handshaking :: tls_sock where
  "sample_handshaking = sample_tls\<lparr>tls_ready := False, need_write := True, handshake_deadline := 5\<rparr>"

lemma sample_handshaking_simps [simp]:
  "session sample_handshaking = 1" "\<not> tls_ready sample_handshaking"
  "need_write sample_handshaking" "handshake_deadline sample_handshaking = 5"
  "strict_client sample_handshaking" "slots sample_handshaking = replicate 7 False"
  "sockfd sample_handshaking = 3" "outgoing sample_handshaking = queue_init"
  "pending_write_len sample_handshaking = 0" "\<not> shutdown_requested sample_handshaking"
  by (simp_all add: sample_handshaking_def strict_client_def sample_ev_def ev_of_sock_def sock.defs
      sock_init_def sample_tls_def tls_of_ev_def ev_sock.defs)

text \<open>An environment whose certificate check succeeds and that sends what it is given.\<close>

definition verified_os :: os where
  "verified_os = (scripted_os [])\<lparr>os_call := (\<lambda>h c.
     case c of Tls (Ssl_do_handshake k) \<Rightarrow> result0\<lparr>ret := 1\<rparr>
     | Tls (Ssl_write k b) \<Rightarrow> result0\<lparr>ret := int (length b)\<rparr> | _ \<Rightarrow> result0)\<rparr>"

text \<open>The application writes three bytes: before the handshake nothing is sent, after it they are.\<close>

theorem tls_no_data_before_handshake_witness:
  "\<exists>s w. (tls_app_step verified_os 1)\<^sup>*\<^sup>* (sample_handshaking, world0) (s, w) \<and> tls_ready s \<and>
    outbound (trace w) = [1, 2, 3] \<and> gated 1 True (trace w) \<and> authenticated 1 True (trace w)"
proof -
  let ?put = "\<lambda>s w. event_write (tls_poll_send verified_os) True (log_user verified_os 1)
    (Some [1, 2, 3]) 3 s w"
  obtain r0 s0 w0 where p0: "?put sample_handshaking world0 = (r0, s0, w0)" by (metis prod_cases3)
  obtain r1 s1 w1 where p1: "tls_poll_step (log_user verified_os 1) verified_os POLLOUT s0 w0
    = (r1, s1, w1)" by (metis prod_cases3)
  obtain r s w where p: "?put s1 w1 = (r, s, w)" by (metis prod_cases3)
  have client: "\<not> server_side sample_handshaking" "verify_mode sample_handshaking = Strict"
    using sample_handshaking_simps(5) unfolding strict_client_def by blast+
  have s0: "s0 = sample_handshaking\<lparr>error_code := ssl_error_io\<rparr>" "trace w0 = []"
    using p0
    by (auto simp: event_write_def tls_poll_send_def send_tls_def set_error_def set_transport_error_def
        transport_error_def would_block_error_def is_valid_socket_def fire_log_user world0_def Let_def)
  have s1: "s1 = sample_handshaking\<lparr>tls_ready := True, need_write := False, error_code := err_none\<rparr>"
    "outbound (trace w1) = []"
    using p1 s0 client
    by (auto simp: tls_poll_step_def now_def poll_step_handshake_def verify_refused_def err_clear_def sys_def
        Let_def verified_os_def flagged_def fire_log_user set_error_def)
  have f1: "is_valid_socket s1" "tls_ready s1" "session s1 = 1" "\<not> shutdown_requested s1"
    "queued_bytes s1 = 0" "pending_write_len s1 = 0" "slots s1 = replicate 7 False"
    using s1(1) by (simp_all add: is_valid_socket_def queued_bytes_def queue_init_def)
  obtain n s2 w2 where n: "tls_poll_send verified_os [1, 2, 3] 3 s1 w1 = (n, s2, w2)" by (metis prod_cases3)
  have s2: "n = 3" "s2 = set_error err_none (forget_write s1)" "outbound (trace w2) = [1, 2, 3]"
    using n s1(2) f1
    by (auto simp: tls_poll_send_def send_tls_def write_tls_def ssl_write_call_def err_clear_def sys_def
        verified_os_def Let_def)
  have s: "tls_ready s" "outbound (trace w) = [1, 2, 3]"
    using p s2 f1 by (auto simp: event_write_def n fire_log_user forget_write_def set_error_def)
  have step: "(tls_app_step verified_os 1)\<^sup>*\<^sup>* (sample_handshaking, world0) (s, w)"
    by (rule rtranclp.rtrancl_into_rtrancl [OF rtranclp.rtrancl_into_rtrancl
          [OF r_into_rtranclp [where r = "tls_app_step verified_os 1"]]])
      (rule tls_app_step.direct_write [OF p0] tls_app_step.poller [OF tls_step.progress [OF p1]]
        tls_app_step.direct_write [OF p])+
  have "gated 1 True (trace w) \<and> authenticated 1 True (trace w)"
    using tls_no_data_before_handshake [OF _ _ step] s(1) by (simp add: world0_def)
  with step s show ?thesis by blast
qed

text \<open>
  C18. Orderly shutdown never cuts off accepted output. While bytes are queued the shutdown step
  makes no TLS call and hands control to the flush; \<open>SSL_shutdown\<close> is only called on an
  empty queue; it ends in success only when our \<open>SSL_shutdown\<close> reported completion or the
  peer's close notification was received before, and in an error when the deadline has passed.
  Meanwhile new output, queued or direct, is refused without a call.
\<close>

theorem tls_shutdown_after_drain:
  assumes "session s \<noteq> 0" "tls_ready s" "shutdown_requested s"
    and "tls_poll_step (log_user os addr) os ready s w = (r, s', w')"
  shows "(\<exists>t calls. trace w' = calls @ (Io Now, t) # trace w \<and>
      (calls \<noteq> [] \<longrightarrow> queued_bytes s = 0) \<and>
      (shutdown_deadline s \<le> val t \<longrightarrow> r = - 1 \<and> calls = []) \<and>
      (r = 3 \<longrightarrow> peer_notified_close s \<or> (\<exists>d. hd calls = (Tls (Ssl_shutdown (session s)), d) \<and> ret d = 1))) \<and>
    (r = - 1 \<longrightarrow> error_code s' = ssl_error_io) \<and> (r = 1 \<longrightarrow> queued_bytes s \<noteq> 0) \<and>
    outgoing s' = outgoing s \<and> sockfd s' = sockfd s \<and>
    queue_write tls_accepts_queued_write data n s = (False, s) \<and>
    tls_poll_send os d n' s w = (- 1, set_error ssl_error_io s, set_transport_error w)"
proof -
  have refuse: "queue_write tls_accepts_queued_write data n s = (False, s) \<and>
    tls_poll_send os d n' s w = (- 1, set_error ssl_error_io s, set_transport_error w)"
    using assms(3)
    by (simp add: queue_write_def tls_accepts_queued_write_def tls_poll_send_def send_tls_def)
  have step: "poll_step_shutdown os ready s w = (r, s', w')"
    using assms(4) by (rule tls_poll_step_cases) (use assms(1-3) in simp_all)
  have "(\<exists>t calls. trace w' = calls @ (Io Now, t) # trace w \<and>
      (calls \<noteq> [] \<longrightarrow> queued_bytes s = 0) \<and>
      (shutdown_deadline s \<le> val t \<longrightarrow> r = - 1 \<and> calls = []) \<and>
      (r = 3 \<longrightarrow> peer_notified_close s \<or> (\<exists>d. hd calls = (Tls (Ssl_shutdown (session s)), d) \<and> ret d = 1))) \<and>
    (r = - 1 \<longrightarrow> error_code s' = ssl_error_io) \<and> (r = 1 \<longrightarrow> queued_bytes s \<noteq> 0) \<and>
    outgoing s' = outgoing s \<and> sockfd s' = sockfd s"
    using step
  proof (cases rule: shutdown_cases)
    case (late t)
    then show ?thesis by (auto simp: set_error_def intro!: exI [of _ t])
  next
    case (early t)
    then show ?thesis by (auto simp: set_error_def intro!: exI [of _ t])
  next
    case (shut t c d)
    let ?calls = "[(Tls (Ssl_shutdown (session s)), d), (Tls Err_clear_error, c)]"
    have "trace w' = ?calls @ (Io Now, t) # trace w" using shut(6) by simp
    then show ?thesis
      using shut(1-5,7) by (intro conjI exI [of _ t] exI [of _ ?calls]) (auto split: if_splits)
  next
    case (retry t c d e g)
    let ?calls = "[(Tls (Ssl_get_shutdown (session s)), g), (Tls (Ssl_get_error (session s) (ret d)), e),
      (Tls (Ssl_shutdown (session s)), d), (Tls Err_clear_error, c)]"
    have "trace w' = ?calls @ (Io Now, t) # trace w" using retry(5) by simp
    then show ?thesis using retry(1-4,6,7) by (intro conjI exI [of _ t] exI [of _ ?calls]) auto
  next
    case (failed t c d e)
    let ?calls = "[(Tls (Ssl_get_error (session s) (ret d)), e), (Tls (Ssl_shutdown (session s)), d),
      (Tls Err_clear_error, c)]"
    have "trace w' = ?calls @ (Io Now, t) # trace w" using failed(5) by simp
    then show ?thesis
      using failed(1-4,6)
      by (intro conjI exI [of _ t] exI [of _ ?calls]) (auto simp: set_error_def split: if_splits)
  qed
  with refuse show ?thesis by simp
qed

definition sample_closing :: tls_sock where
  "sample_closing = sample_tls\<lparr>shutdown_requested := True, shutdown_deadline := 5000\<rparr>"

lemma sample_closing_simps [simp]:
  "session sample_closing = 1" "tls_ready sample_closing" "shutdown_requested sample_closing"
  "shutdown_deadline sample_closing = 5000" "outgoing sample_closing = queue_init"
  "\<not> peer_notified_close sample_closing" "\<not> shutdown_need_read sample_closing"
  "\<not> shutdown_need_write sample_closing" "\<not> shutdown_notify_sent sample_closing"
  by (simp_all add: sample_closing_def) (simp_all add: sample_tls_def tls_of_ev_def ev_sock.defs)

theorem tls_shutdown_after_drain_witness:
  "\<exists>r s' w'. tls_poll_step (log_user (scripted_os []) 1) (scripted_os []) POLLOUT sample_closing world0
      = (r, s', w') \<and> r = 3 \<and> outgoing s' = queue_init"
proof -
  obtain r s' w' where p: "tls_poll_step (log_user (scripted_os []) 1) (scripted_os []) POLLOUT
    sample_closing world0 = (r, s', w')" by (metis prod_cases3)
  have "outgoing s' = queue_init" using tls_shutdown_after_drain [OF _ _ _ p] by simp
  moreover have "r = 3"
    using p
    by (simp add: tls_poll_step_def now_def poll_step_shutdown_def err_clear_def sys_def Let_def
        scripted_os_def queued_bytes_def world0_def flagged_def)
  ultimately show ?thesis using p by blast
qed

text \<open>
  C17. Closing a TLS socket makes a fixed sequence of calls: a close notification exactly when a
  live, unfailed session has not exchanged one, then the session is freed once, then the descriptor
  is closed once, then the close handler runs. Queue, session, pending write and shutdown are
  cleared, and closing again touches neither session nor descriptor.
\<close>

theorem tls_close_once:
  assumes "held (sockfd s) \<subseteq> open_fds (trace w)"
    and "tls_close (log_user os addr) os s w = (b, s', w')"
  shows "(\<exists>added. trace w' = added @ trace w \<and>
      map fst added = (if b \<and> slots s ! handler_close then [Cb addr Ev_close] else []) @
        (if is_valid_socket s then [Fd (Close (sockfd s))] else []) @ close_calls s) \<and>
    session s' = 0 \<and> \<not> tls_ready s' \<and> pending_write_len s' = 0 \<and> \<not> shutdown_requested s' \<and>
    pending (outgoing s') = [] \<and> \<not> is_valid_socket s' \<and>
    open_fds (trace w') = open_fds (trace w) - held (sockfd s) \<and>
    (closes_ok (trace w) \<longrightarrow> closes_ok (trace w')) \<and>
    (\<exists>s2. tls_close (log_user os addr) os s' w' = (False, s2, w'))"
proof -
  obtain w1 cs where st: "trace w1 = cs @ trace w" "map fst cs = close_calls s"
    "event_close (log_user os addr) os (clear_tls s) w1 = (b, s', w')"
    using assms(2) by (rule tls_close_stages)
  have q: "quiet (trace w) (trace w1)" using close_calls_quiet [OF st(2)] st(1) by simp
  have fds: "held (sockfd (clear_tls s)) \<subseteq> open_fds (trace w1)"
    using assms(1) quiet_keeps(1) [OF q] by simp
  note e = event_close_effect [OF fds st(3)]
  have state: "session s' = 0" "\<not> tls_ready s'" "pending_write_len s' = 0" "\<not> shutdown_requested s'"
    using event_close_tls_state [OF st(3)] by (simp_all add: clear_tls_def)
  have clear: "clear_tls s' = clear_tls s' \<and> \<not> is_valid_socket (clear_tls s')" using e by simp
  have "tls_close (log_user os addr) os s' w' = event_close (log_user os addr) os (clear_tls s') w'"
    using state(1) by (simp add: tls_close_def)
  moreover have "event_close (log_user os addr) os (clear_tls s') w' = (False, clear_queue (clear_tls s'), w')"
    using clear by (simp add: event_close_eq clear_queue_def is_valid_socket_def)
  ultimately have again: "\<exists>s2. tls_close (log_user os addr) os s' w' = (False, s2, w')" by simp
  obtain added where "trace w' = added @ trace w1"
    "map fst added = (if b \<and> slots s ! handler_close then [Cb addr Ev_close] else []) @
         (if is_valid_socket s then [Fd (Close (sockfd s))] else [])"
    using e by auto
  then have calls: "\<exists>added. trace w' = added @ trace w \<and>
      map fst added = (if b \<and> slots s ! handler_close then [Cb addr Ev_close] else []) @
        (if is_valid_socket s then [Fd (Close (sockfd s))] else []) @ close_calls s"
    using st(1,2) by (intro exI [of _ "added @ cs"]) simp
  show ?thesis
    using calls state e again quiet_keeps(1,2) [OF q] by simp
qed

theorem tls_close_once_witness:
  "\<exists>b s' w'. tls_close (log_user (scripted_os []) 1) (scripted_os []) sample_tls
      (world0\<lparr>trace := [(Fd (Socket AF_INET SOCK_STREAM), result0\<lparr>ret := 3\<rparr>)]\<rparr>) = (b, s', w') \<and>
    session s' = 0 \<and> open_fds (trace w') = {}"
proof -
  let ?w = "world0\<lparr>trace := [(Fd (Socket AF_INET SOCK_STREAM), result0\<lparr>ret := 3\<rparr>)]\<rparr>"
  obtain b s' w' where e: "tls_close (log_user (scripted_os []) 1) (scripted_os []) sample_tls ?w
    = (b, s', w')" by (metis prod_cases3)
  then show ?thesis using tls_close_once [OF _ e] by auto
qed

text \<open>
  Connecting a TLS client to an address owns at most one fresh descriptor on every path. A
  success hands over a connected, non-blocking socket with a fresh session that is not ready yet
  and has been bound to the address: in strict mode verification is on and the expected identity
  was accepted by OpenSSL before any handshake. Every failure leaves no descriptor.
\<close>

lemma tls_connect_addr_outcome:
  assumes "fresh_fds os" "held (sockfd s) \<subseteq> open_fds (trace w)" "\<not> server_side s"
    and "ss_family (get_sockaddr_storage a) \<in> {AF_INET, AF_INET6}" "is_ipv4 a \<or> is_ipv6 a"
    and "get_port a \<noteq> 0" "get_string os a = Some identity"
    and "tls_connect_addr (log_user os addr) os a s w = (b, s', w')"
  shows "open_fds (trace w') = open_fds (trace w) - held (sockfd s) \<union> held (sockfd s') \<and>
    (closes_ok (trace w) \<longrightarrow> closes_ok (trace w')) \<and>
    (if b then is_valid_socket s' \<and> connected s' \<and> \<not> blocking s' \<and> error_code s' = err_none \<and>
       session s' \<noteq> 0 \<and> \<not> tls_ready s' \<and> bound_to os identity s' (trace w')
     else \<not> is_valid_socket s')"
  using tls_connect_addr_result [OF assms(1,4,3,5,6,8)] fd_safe_open_fds assms(2,7)
  by (auto simp: safe_step_def)

text \<open>
  C19. A TLS client connected to a host name verifies that very name: on success, in strict mode,
  verification with the requested name as the only accepted identity was set on the session the
  object holds, which is not ready before its handshake, and the descriptors are accounted for.
\<close>

theorem tls_connect_host_binds_identity:
  assumes "fresh_fds os" "held (sockfd s) \<subseteq> open_fds (trace w)"
    and "tls_connect_host (log_user os addr) os (Some host) p s w = (True, s', w')"
  shows "session s' \<noteq> 0 \<and> \<not> tls_ready s' \<and> is_valid_socket s' \<and> connected s' \<and> \<not> blocking s' \<and>
    (verify_mode s' = Strict \<longrightarrow>
       Tls (Ssl_set_verify (session s') True (allow_self_signed s')) \<in> fst ` set (trace w') \<and>
       (\<exists>x\<in>set (trace w'). fst x = Tls (if is_numeric_ip os host then Ssl_set_ip (session s') host
            else Ssl_set_host (session s') host) \<and> ret (snd x) = 1)) \<and>
    open_fds (trace w') = open_fds (trace w) - held (sockfd s) \<union> {sockfd s'}"
  using tls_connect_host_result [OF assms(1,3)] fd_safe_open_fds [of "sockfd s" "trace w"] assms(2)
  by (auto simp: safe_step_def bound_to_def identity_call_def is_valid_socket_def)

lemma scripted_sys: "sys (scripted_os script) c w =
    (scripted_call script (trace w) c, w\<lparr>trace := (c, scripted_call script (trace w) c) # trace w\<rparr>)"
  using scripted_nonneg [of script "trace w" c] by (auto simp: sys_def Let_def scripted_os_def)

definition sample_tls_connect :: "bool \<times> tls_sock \<times> world" where
  "sample_tls_connect = tls_connect_host (log_user (scripted_os []) 1) (scripted_os []) (Some ''a'') 443
    (tls_of_ev 1 False Strict (ev_of_sock sock_init)) world0"

lemma sample_client_fields: "tls_of_ev 1 False Strict (ev_of_sock sock_init) =
   \<lparr>sockfd = -1, last_n = 0, remote_addr = zero_sockaddr, connected = False,
     sk_flags = 0, net_family = 2, token_size = 0, blocking = True,
     inbuffer = replicate 256 0, outbuffer = replicate 256 0, hostname = [],
     parent_server = None, error_code = 0, error_state = 0, sock_port = 0,
     read_timeout_ms = 0, write_timeout_ms = 0, connect_timeout_ms = 0,
     outgoing = queue_init, slots = replicate 7 False,
     tls_ctx = 1, session = 0, server_side = False, tls_ready = False, need_write = False,
     send_need_read = False, recv_need_write = False, pending_write_len = 0, ssl_failed = False,
     peer_notified_close = False, shutdown_requested = False, shutdown_notify_sent = False,
     shutdown_need_write = False, shutdown_need_read = False, shutdown_deadline = 0,
     pending_write_queued = False, pending_write_hash = 0, handshake_timeout_ms = 5000,
     handshake_deadline = 0, verify_mode = Strict, allow_self_signed = False,
     expected_identity = []\<rparr>"
  by (simp add: tls_of_ev_def ev_of_sock_def sock_init_def sock.defs ev_sock.defs)

lemma sample_host_is_ip: "is_numeric_ip (scripted_os []) ''a''"
  by (simp add: is_numeric_ip_def scripted_os_def)

lemma sample_tls_connect_ok: "fst sample_tls_connect"
  unfolding sample_tls_connect_def
  apply (simp add: tls_connect_host_def sample_client_fields drop_session_def set_blocking_def
      is_valid_socket_def)
  apply (simp add: tcp_connect_host_def set_remote_hostname_def is_valid_port_def tcp_connect_stored_def
      scripted_sys world0_def)
  apply (simp add: tcp_connect_addr_def tls_close_def event_close_eq clear_queue_def clear_tls_def
      socket_close_def is_valid_socket_def address_of_in_def deref_sockaddr_def
      get_sockaddr_storage_def scripted_sys connect_attempt_def connect_direct_def clear_buffers_def Let_def)
  apply (simp add: start_client_def set_blocking_def set_socket_nonblocking_def is_valid_socket_def
      scripted_sys Let_def init_session_def err_clear_def now_def bind_identity_def sample_host_is_ip
      set_error_def)
  done

theorem tls_connect_host_binds_identity_witness:
  "case sample_tls_connect of (b, s, w) \<Rightarrow> b \<and> session s \<noteq> 0 \<and> \<not> tls_ready s \<and>
     open_fds (trace w) = {sockfd s}"
proof -
  let ?s = "tls_of_ev 1 False Strict (ev_of_sock sock_init)"
  obtain s w where e: "sample_tls_connect = (True, s, w)"
    using sample_tls_connect_ok by (metis (full_types) fst_conv prod_cases3)
  have fd: "held (sockfd ?s) = {}"
    by (simp_all add: tls_of_ev_def ev_of_sock_def sock.defs ev_sock.defs sock_init_def)
  show ?thesis
    using tls_connect_host_binds_identity [OF scripted_fresh _ e [unfolded sample_tls_connect_def]]
    by (simp add: e fd world0_def)
qed

text \<open>
  The timeout handed to \<open>poll\<close> is \<open>0\<close> exactly when the deadline has passed;
  otherwise it is positive, so the poller does not spin, waiting it out reaches the deadline, and
  it overshoots by at most a millisecond. The conversion to \<open>int\<close> cannot wrap for the
  timeouts the setters accept.
\<close>

lemma poll_timeout_covers_deadline:
  assumes "session s \<noteq> 0" "is_valid_socket s" "\<not> tls_ready s \<or> shutdown_requested s"
    and "poll_timeout_ms os s w = (ms, w')"
    and "d = (if tls_ready s then shutdown_deadline s else handshake_deadline s)"
  shows "\<exists>t. trace w' = (Io Now, t) # trace w \<and> (d \<le> val t \<longrightarrow> ms = 0) \<and>
    (val t < d \<and> d \<le> after_ms (val t) 60000 \<longrightarrow>
       0 < ms \<and> ms \<le> 60001 \<and> d < after_ms (val t) ms \<and> after_ms (val t) (ms - 1) \<le> d)"
proof -
  obtain t w1 where t: "sys os (Io Now) w = (t, w1)" by fastforce
  have ms: "ms = remaining_ms d (val t)" "w' = w1"
    using assms t by (auto simp: poll_timeout_ms_def now_def split: if_splits)
  have "0 < ms \<and> ms \<le> 60001 \<and> d < after_ms (val t) ms \<and> after_ms (val t) (ms - 1) \<le> d"
    if "val t < d" "d \<le> after_ms (val t) 60000"
  proof -
    let ?q = "(d - val t) div 1000000"
    have "?q * 1000000 \<le> d - val t" "d - val t < ?q * 1000000 + 1000000" "0 \<le> ?q"
      using that(1) by (simp_all add: pos_imp_zdiv_nonneg_iff)
    moreover have "?q \<le> 60000" using calculation that(2) by (simp add: after_ms_def)
    moreover have "ms = ?q + 1" using ms(1) that(1) calculation by (simp add: remaining_ms_def)
    ultimately show ?thesis by (simp add: after_ms_def algebra_simps)
  qed
  then show ?thesis using ms sys_trace [OF t] by (auto simp: remaining_ms_def)
qed

end
