(* ===== verification/Event_Registry.thy ===== *)
theory Event_Registry
  imports Prelude
begin

text \<open>
  \<open>basic_socket_registry\<close> of \<open>src/event_socket_set.cpp\<close>: the non-owning registrations
  of an event set. A registration is a shared token, known by its number; a poll keeps a snapshot
  of tokens while callbacks add and remove registrations, so a token outlives its entry and says
  itself whether it is still active. The mutex only serialises the operations.
\<close>

section \<open>State and operations\<close>

record registry =
  entries :: "nat list"
  token_socket :: "nat \<Rightarrow> nat"
  token_active :: "nat \<Rightarrow> bool"
  next_token :: nat

definition registry_empty :: registry where
  "registry_empty = \<lparr>entries = [], token_socket = (\<lambda>_. 0), token_active = (\<lambda>_. False), next_token = 0\<rparr>"

definition get_if_active :: "registry \<Rightarrow> nat \<Rightarrow> nat option" where
  "get_if_active r t = (if token_active r t then Some (token_socket r t) else None)"

definition deactivate :: "nat \<Rightarrow> registry \<Rightarrow> registry" where
  "deactivate t r = r\<lparr>token_active := (token_active r)(t := False)\<rparr>"

fun first_where :: "('a \<Rightarrow> bool) \<Rightarrow> 'a list \<Rightarrow> nat option" where
  "first_where p [] = None"
| "first_where p (x # xs) = (if p x then Some 0 else map_option Suc (first_where p xs))"

definition registry_find :: "nat \<Rightarrow> registry \<Rightarrow> nat option" where
  "registry_find a r = first_where (\<lambda>t. get_if_active r t = Some a) (entries r)"

definition registry_add :: "nat option \<Rightarrow> registry \<Rightarrow> bool \<times> registry" where
  "registry_add socket_ref r =
    (case socket_ref of
       None \<Rightarrow> (False, r)
     | Some a \<Rightarrow>
         if registry_find a r \<noteq> None then (False, r)
         else
           let t = next_token r in
           (True, r\<lparr>entries := entries r @ [t], token_socket := (token_socket r)(t := a),
                    token_active := (token_active r)(t := True), next_token := t + 1\<rparr>))"

definition remove_entry :: "nat \<Rightarrow> registry \<Rightarrow> registry" where
  "remove_entry i r =
    (let r = deactivate (entries r ! i) r in r\<lparr>entries := erase_at i (entries r)\<rparr>)"

definition registry_remove_index :: "nat \<Rightarrow> registry \<Rightarrow> bool \<times> registry" where
  "registry_remove_index i r =
    (if i \<ge> length (entries r) then (False, r) else (True, remove_entry i r))"

definition registry_remove_socket :: "nat option \<Rightarrow> registry \<Rightarrow> bool \<times> registry" where
  "registry_remove_socket socket_ref r =
    (case socket_ref of
       None \<Rightarrow> (False, r)
     | Some a \<Rightarrow>
         (case registry_find a r of None \<Rightarrow> (False, r) | Some i \<Rightarrow> (True, remove_entry i r)))"

definition registry_size :: "registry \<Rightarrow> int" where
  "registry_size r = to_int32 (int (length (entries r)))"

definition registry_snapshot :: "registry \<Rightarrow> nat list" where
  "registry_snapshot r = entries r"

definition registry_clear :: "registry \<Rightarrow> registry" where
  "registry_clear r = (fold deactivate (entries r) r)\<lparr>entries := []\<rparr>"

section \<open>One live registration per socket\<close>

text \<open>
  The entries are distinct and below the next token, the active tokens are exactly the entries,
  and no socket has two of them.
\<close>

definition registry_inv :: "registry \<Rightarrow> bool" where
  "registry_inv r \<longleftrightarrow> distinct (entries r) \<and> (\<forall>t\<in>set (entries r). t < next_token r) \<and>
    {t. token_active r t} = set (entries r) \<and> inj_on (token_socket r) (set (entries r))"

text \<open>The sockets registered, the abstract value of a registry.\<close>

definition registered :: "registry \<Rightarrow> nat list" where
  "registered r = map (token_socket r) (entries r)"

lemma registry_empty_inv [simp]: "registry_inv registry_empty" "registered registry_empty = []"
  by (simp_all add: registry_inv_def registry_empty_def registered_def)

lemma first_where_None: "first_where p xs = None \<longleftrightarrow> (\<forall>x\<in>set xs. \<not> p x)"
  by (induction xs) auto

lemma first_where_Some:
  "first_where p xs = Some i \<Longrightarrow> i < length xs \<and> p (xs ! i) \<and> (\<forall>j<i. \<not> p (xs ! j))"
proof (induction xs arbitrary: i)
  case (Cons x xs)
  then show ?case by (cases i) (auto simp: less_Suc_eq_0_disj split: if_splits)
qed simp

lemma active_entry: "registry_inv r \<Longrightarrow> t \<in> set (entries r) \<Longrightarrow> token_active r t"
  by (auto simp: registry_inv_def)

lemma active_registered:
  "registry_inv r \<Longrightarrow> get_if_active r t = Some a \<Longrightarrow> a \<in> set (registered r)"
  by (auto simp: registry_inv_def get_if_active_def registered_def split: if_splits)

lemma registry_find_None:
  "registry_inv r \<Longrightarrow> registry_find a r = None \<longleftrightarrow> a \<notin> set (registered r)"
  by (auto simp: registry_find_def first_where_None get_if_active_def registered_def active_entry)

lemma registry_add_result:
  assumes "registry_inv r" "registry_add (Some a) r = (b, r')"
  shows "registry_inv r' \<and> b = (a \<notin> set (registered r)) \<and>
    registered r' = registered r @ (if b then [a] else []) \<and> (\<not> b \<longrightarrow> r' = r) \<and>
    (\<forall>t. t < next_token r \<longrightarrow> get_if_active r' t = get_if_active r t)"
proof (cases "registry_find a r = None")
  case True
  let ?t = "next_token r"
  have fresh: "?t \<notin> set (entries r)" "\<not> token_active r ?t" using assms(1) by (auto simp: registry_inv_def)
  have r': "r' = r\<lparr>entries := entries r @ [?t], token_socket := (token_socket r)(?t := a),
      token_active := (token_active r)(?t := True), next_token := ?t + 1\<rparr>" "b"
    using assms(2) True by (simp_all add: registry_add_def Let_def)
  have "a \<notin> set (registered r)" using True registry_find_None [OF assms(1)] by simp
  moreover have "map ((token_socket r)(?t := a)) (entries r) = map (token_socket r) (entries r)"
    using fresh by (auto intro: map_cong)
  moreover have "registry_inv r'"
    using assms(1) fresh r' calculation(1)
    by (auto simp: registry_inv_def registered_def inj_on_def)
  ultimately show ?thesis using r' by (auto simp: registered_def get_if_active_def)
next
  case False
  then show ?thesis
    using assms registry_find_None [OF assms(1), of a] by (auto simp: registry_add_def)
qed

lemma remove_entry_result:
  assumes "registry_inv r" "i < length (entries r)"
  shows "registry_inv (remove_entry i r) \<and> registered (remove_entry i r) = erase_at i (registered r) \<and>
    get_if_active (remove_entry i r) (entries r ! i) = None \<and>
    (\<forall>t. t \<noteq> entries r ! i \<longrightarrow> get_if_active (remove_entry i r) t = get_if_active r t)"
proof -
  have d: "distinct (entries r)" using assms(1) by (simp add: registry_inv_def)
  note e = distinct_erase_at [OF d, of i] set_erase_at [OF d assms(2)]
  have "registered (remove_entry i r) = erase_at i (registered r)"
    by (simp add: registered_def remove_entry_def deactivate_def erase_at_def Let_def take_map drop_map)
  moreover have "registry_inv (remove_entry i r)"
    using assms(1) e
    by (auto simp: registry_inv_def remove_entry_def deactivate_def Let_def intro: inj_on_diff)
  ultimately show ?thesis
    by (simp add: remove_entry_def deactivate_def Let_def get_if_active_def)
qed

lemma erase_at_remove1:
  assumes "distinct xs" "i < length xs"
  shows "erase_at i xs = remove1 (xs ! i) xs"
proof -
  have "distinct (take i xs @ xs ! i # drop (Suc i) xs)" using assms split_at by metis
  then have "remove1 (xs ! i) (take i xs @ xs ! i # drop (Suc i) xs) = erase_at i xs"
    by (simp add: remove1_append erase_at_def)
  then show ?thesis using split_at [OF assms(2)] by metis
qed

lemma registry_remove_socket_result:
  assumes "registry_inv r" "registry_remove_socket (Some a) r = (b, r')"
  shows "registry_inv r' \<and> b = (a \<in> set (registered r)) \<and> registered r' = remove1 a (registered r) \<and>
    (\<not> b \<longrightarrow> r' = r) \<and> (\<forall>t. get_if_active r' t \<noteq> Some a) \<and>
    (\<forall>t c. c \<noteq> a \<longrightarrow> (get_if_active r' t = Some c \<longleftrightarrow> get_if_active r t = Some c))"
proof (cases "registry_find a r")
  case None
  then have "a \<notin> set (registered r)" using registry_find_None [OF assms(1)] by simp
  moreover from this have "get_if_active r t \<noteq> Some a" for t
    using active_registered [OF assms(1)] by auto
  ultimately show ?thesis using assms None by (auto simp: registry_remove_socket_def remove1_idem)
next
  case (Some i)
  then have i: "i < length (entries r)" "get_if_active r (entries r ! i) = Some a"
    using first_where_Some unfolding registry_find_def by blast+
  have r': "r' = remove_entry i r" "b" using assms(2) Some by (simp_all add: registry_remove_socket_def)
  note rem = remove_entry_result [OF assms(1) i(1)]
  have tok: "token_socket r (entries r ! i) = a" using i(2) by (simp add: get_if_active_def split: if_splits)
  have inj: "distinct (registered r)"
    using assms(1) by (simp add: registered_def registry_inv_def distinct_map)
  have at: "i < length (registered r)" "registered r ! i = a" using i(1) tok by (simp_all add: registered_def)
  have eq: "registered r' = remove1 a (registered r)"
    using rem r'(1) erase_at_remove1 [OF inj at(1)] at(2) by simp
  then have set: "set (registered r') = set (registered r) - {a}" using inj by simp
  have gone: "get_if_active r' t \<noteq> Some a" for t
    using active_registered [of r' t a] rem r'(1) set by auto
  have mem: "a \<in> set (registered r)" using i(1) tok by (auto simp: registered_def)
  show ?thesis
    using rem r' eq gone mem i(2) by (metis option.inject option.simps(3))
qed

lemma fold_deactivate:
  "fold deactivate ts r = r\<lparr>token_active := (\<lambda>t. token_active r t \<and> t \<notin> set ts)\<rparr>"
  by (induction ts arbitrary: r) (auto simp: deactivate_def fun_eq_iff)

lemma registry_clear_result:
  "registry_inv r \<Longrightarrow> registry_inv (registry_clear r) \<and> registered (registry_clear r) = [] \<and>
    get_if_active (registry_clear r) t = None"
  by (auto simp: registry_clear_def fold_deactivate registry_inv_def registered_def get_if_active_def)

lemma registry_add_inv: "registry_inv r \<Longrightarrow> registry_inv (snd (registry_add x r))"
proof (cases x)
  case (Some a)
  assume "registry_inv r"
  with Some show ?thesis
    using registry_add_result [of r a "fst (registry_add x r)" "snd (registry_add x r)"] by simp
qed (simp add: registry_add_def)

lemma registry_remove_socket_inv: "registry_inv r \<Longrightarrow> registry_inv (snd (registry_remove_socket x r))"
proof (cases x)
  case (Some a)
  assume "registry_inv r"
  with Some show ?thesis
    using registry_remove_socket_result [of r a "fst (registry_remove_socket x r)" "snd (registry_remove_socket x r)"]
    by simp
qed (simp add: registry_remove_socket_def)

lemma registry_remove_index_inv: "registry_inv r \<Longrightarrow> registry_inv (snd (registry_remove_index i r))"
  using remove_entry_result by (simp add: registry_remove_index_def)

section \<open>Properties\<close>

text \<open>
  C16. The registry is a list of distinct sockets: adding appends a socket that is not there,
  removing takes it out, by position or by socket, clearing empties it, and each reports exactly
  whether it did. Tokens held by a running poll stay truthful: a token answers the socket it was
  made for exactly as long as that registration exists, and never again afterwards.
\<close>

theorem registry_refines_list:
  assumes "registry_inv r"
  shows "(case registry_add (Some a) r of (b, r') \<Rightarrow> registry_inv r' \<and>
      b = (a \<notin> set (registered r)) \<and> registered r' = registered r @ (if b then [a] else []) \<and>
      (\<forall>t < next_token r. get_if_active r' t = get_if_active r t)) \<and>
    (case registry_remove_socket (Some a) r of (b, r') \<Rightarrow> registry_inv r' \<and>
      b = (a \<in> set (registered r)) \<and> registered r' = remove1 a (registered r) \<and>
      (\<forall>t. get_if_active r' t \<noteq> Some a) \<and>
      (\<forall>t c. c \<noteq> a \<longrightarrow> (get_if_active r' t = Some c \<longleftrightarrow> get_if_active r t = Some c))) \<and>
    (case registry_remove_index i r of (b, r') \<Rightarrow> registry_inv r' \<and>
      b = (i < length (registered r)) \<and>
      registered r' = (if b then erase_at i (registered r) else registered r)) \<and>
    registry_inv (registry_clear r) \<and> registered (registry_clear r) = [] \<and>
      get_if_active (registry_clear r) t = None"
proof -
  obtain b1 r1 where add: "registry_add (Some a) r = (b1, r1)" by fastforce
  obtain b2 r2 where rem: "registry_remove_socket (Some a) r = (b2, r2)" by fastforce
  obtain b3 r3 where idx: "registry_remove_index i r = (b3, r3)" by fastforce
  have "registry_inv r3 \<and> b3 = (i < length (registered r)) \<and>
      registered r3 = (if b3 then erase_at i (registered r) else registered r)"
    using idx remove_entry_result [OF assms, of i] assms
    by (auto simp: registry_remove_index_def registered_def split: if_splits)
  then show ?thesis
    unfolding add rem idx
    using registry_add_result [OF assms add] registry_remove_socket_result [OF assms rem]
      registry_clear_result [OF assms] by simp
qed

theorem registry_refines_list_witness:
  "case registry_add (Some 7) registry_empty of (b, r) \<Rightarrow> b \<and> registered r = [7] \<and>
     \<not> fst (registry_add (Some 7) r) \<and> registered (snd (registry_remove_socket (Some 7) r)) = []"
proof -
  obtain b r where r: "registry_add (Some 7) registry_empty = (b, r)" by fastforce
  have one: "registry_inv r" "b" "registered r = [7]"
    using registry_refines_list [of registry_empty 7] r by auto
  obtain b1 r1 where add: "registry_add (Some 7) r = (b1, r1)" by fastforce
  obtain b2 r2 where rem: "registry_remove_socket (Some 7) r = (b2, r2)" by fastforce
  show ?thesis
    using registry_refines_list [OF one(1), of 7 0] one add rem r by simp
qed

end
