(* ===== verification/Udp.thy ===== *)
theory Udp
  imports Tcp
begin

text \<open>
  \<open>src/udp_socket.cpp\<close> and \<open>src/udp_client_socket.cpp\<close>. A UDP object either owns a
  native descriptor or is a logical peer of a server, which owns the only descriptor. The
  argument \<open>par\<close> of an operation is the object the member \<open>parent_\<close> points to
  (\<open>None\<close>: null).
\<close>

section \<open>State\<close>

record udp_sock = sock +
  udp_parent :: "nat option"
  peer_active :: bool

definition udp_of_sock :: "nat option \<Rightarrow> sock \<Rightarrow> udp_sock" where
  "udp_of_sock p s = sock.extend s (udp_sock.fields p True)"

definition udp_new :: "os \<Rightarrow> world \<Rightarrow> udp_sock \<times> world" where
  "udp_new os w =
    (let (s, w) = socket_new os AF_INET SOCK_DGRAM w; s = udp_of_sock None s in
     if \<not> is_valid_socket s then (s, w) else (s, set_socket_reuseaddr os s w))"

definition udp_peer_new :: "os \<Rightarrow> nat option \<Rightarrow> address \<Rightarrow> world \<Rightarrow> udp_sock \<times> world" where
  "udp_peer_new os parent endpoint w =
    (let (s, w) = socket_adopt os invalid_socket w; s = udp_of_sock parent s;
         s = s\<lparr>remote_addr := get_sockaddr_storage endpoint\<rparr>;
         s = s\<lparr>net_family := ss_family (remote_addr s)\<rparr>;
         s = set_parent_server parent s in
     (s\<lparr>connected := True, error_code := err_none, error_state := 0\<rparr>, w))"

definition udp_is_valid :: "'p sock_scheme option \<Rightarrow> 'a udp_sock_scheme \<Rightarrow> bool" where
  "udp_is_valid par s =
    (case par of Some p \<Rightarrow> peer_active s \<and> is_valid_socket p | None \<Rightarrow> is_valid_socket s)"

definition udp_close ::
  "'p sock_scheme option \<Rightarrow> os \<Rightarrow> 'a udp_sock_scheme \<Rightarrow> world \<Rightarrow> bool \<times> 'a udp_sock_scheme \<times> world"
where
  "udp_close par os s w =
    (case par of
       Some p \<Rightarrow>
         let was_active = peer_active s in
         (was_active, s\<lparr>peer_active := False, connected := False\<rparr>, w)
     | None \<Rightarrow> socket_close os s w)"

definition udp_error :: "'p sock_scheme option \<Rightarrow> 'a udp_sock_scheme \<Rightarrow> int" where
  "udp_error par s = (if \<not> udp_is_valid par s then err_no_socket else err_invalid_argument)"

section \<open>Sending\<close>

text \<open>An IPv4 target on an IPv6 descriptor is sent to its IPv4-mapped address.\<close>

definition map_v4 :: "sockaddr_storage \<Rightarrow> sockaddr_storage" where
  "map_v4 v4 =
    \<lparr>ss_family = AF_INET6, sin_port = sin_port v4,
     sa_data = replicate 4 0 @ mapped_prefix @ sin_addr v4 @ replicate 4 0\<rparr>"

definition send_target :: "int \<Rightarrow> sockaddr_storage \<Rightarrow> sockaddr_storage option" where
  "send_target family target =
    (if ss_family target = family then Some target
     else if family = AF_INET6 \<and> ss_family target = AF_INET then Some (map_v4 target)
     else None)"

definition send_datagram ::
  "os \<Rightarrow> 'p sock_scheme option \<Rightarrow> byte list option \<Rightarrow> int \<Rightarrow> 'a udp_sock_scheme \<Rightarrow> world \<Rightarrow>
    int \<times> 'a udp_sock_scheme \<times> world"
where
  "send_datagram os par data sz s w =
    (if \<not> udp_is_valid par s \<or> sz < 0 \<or> sz > 0 \<and> data = None
     then (socket_error, s\<lparr>error_code := udp_error par s\<rparr>, w)
     else
       let native = (case par of Some p \<Rightarrow> sockfd p | None \<Rightarrow> sockfd s);
           family = (case par of Some p \<Rightarrow> net_family p | None \<Rightarrow> net_family s) in
       case send_target family (remote_addr s) of
         None \<Rightarrow> (socket_error, s\<lparr>error_code := err_address_not_available\<rparr>, w)
       | Some target \<Rightarrow>
           let payload = (if sz = 0 then [] else take (nat sz) (the data));
               (r, w) = sys os (Io (Sendto native payload target)) w in
           (ret r, s\<lparr>error_code := sent_error (ret r) w, last_n := ret r\<rparr>, w))"

definition udp_write_cstr ::
  "os \<Rightarrow> 'p sock_scheme option \<Rightarrow> byte list option \<Rightarrow> 'a udp_sock_scheme \<Rightarrow> world \<Rightarrow>
    int \<times> 'a udp_sock_scheme \<times> world"
where
  "udp_write_cstr os par data s w =
    (case data of
       None \<Rightarrow> (socket_error, s, w)
     | Some d \<Rightarrow>
         let len = int (length (c_string d)) in
         if len > int_max then (socket_error, s, w) else send_datagram os par data len s w)"

definition udp_write_string ::
  "os \<Rightarrow> 'p sock_scheme option \<Rightarrow> byte list \<Rightarrow> 'a udp_sock_scheme \<Rightarrow> world \<Rightarrow>
    int \<times> 'a udp_sock_scheme \<times> world"
where
  "udp_write_string os par data s w =
    (if int (length data) > int_max then (socket_error, s, w)
     else send_datagram os par (Some data) (int (length data)) s w)"

section \<open>Receiving\<close>

text \<open>
  A datagram of zero bytes is not an end of stream; a logical peer never reads. The address that
  comes with a datagram replaces the stored one as a whole; the call itself writes only the bytes of
  its family, and no endpoint depends on the others.
\<close>

definition udp_read ::
  "'p sock_scheme option \<Rightarrow> os \<Rightarrow> byte list option \<Rightarrow> int \<Rightarrow> 'a udp_sock_scheme \<Rightarrow> world \<Rightarrow>
    int \<times> byte list option \<times> 'a udp_sock_scheme \<times> world"
where
  "udp_read par os buffer sz s w =
    (if par \<noteq> None \<or> buffer = None \<or> \<not> udp_is_valid par s \<or> sz \<le> 0
     then (socket_error, buffer,
           s\<lparr>error_code := udp_error par s, last_n := socket_error\<rparr>, w)
     else
       let (ready, w) =
             (if read_timeout_ms s > 0
              then wait_for_readable os (sockfd s) (read_timeout_ms s) w else (1, w)) in
       if ready = 0 then (0, buffer, s\<lparr>error_code := err_timeout, last_n := 0\<rparr>, w)
       else if ready < 0
       then (socket_error, buffer,
             s\<lparr>error_code := translate_native_error (errno w), error_state := state_accept,
               last_n := socket_error\<rparr>, w)
       else
         let (r, w) = sys os (Io (Recvfrom (sockfd s) sz)) w;
             received = ret r;
             buffer = Some (overwrite (got r) (the buffer));
             s = s\<lparr>remote_addr := (if received < 0 then remote_addr s else from_addr r),
                  last_n := received\<rparr> in
         if received < 0
         then (received, buffer,
               s\<lparr>error_code := translate_native_error (errno w), error_state := state_accept\<rparr>, w)
         else (received, buffer, s\<lparr>error_code := err_none\<rparr>, w))"

definition udp_read_string ::
  "'p sock_scheme option \<Rightarrow> os \<Rightarrow> int \<Rightarrow> 'a udp_sock_scheme \<Rightarrow> world \<Rightarrow>
    byte list \<times> 'a udp_sock_scheme \<times> world"
where
  "udp_read_string par os sz s w =
    (if \<not> udp_is_valid par s \<or> sz \<le> 0 then ([], s, w)
     else
       let (received, result, s, w) = udp_read par os (Some (replicate (nat sz) 0)) sz s w in
       if received \<le> 0 then ([], s, w)
       else (take (nat received) (case result of Some b \<Rightarrow> b | None \<Rightarrow> []), s, w))"

definition udp_read_internal ::
  "'p sock_scheme option \<Rightarrow> os \<Rightarrow> 'a udp_sock_scheme \<Rightarrow> world \<Rightarrow> int \<times> 'a udp_sock_scheme \<times> world"
where
  "udp_read_internal par os s w =
    (let (received, buffer, s, w) = udp_read par os (Some (inbuffer s)) (max_buffer_size - 1) s w;
         s = s\<lparr>inbuffer := (case buffer of Some b \<Rightarrow> b | None \<Rightarrow> inbuffer s)\<rparr> in
     if 0 \<le> received
     then (received, s\<lparr>inbuffer := (inbuffer s)[nat received := 0]\<rparr>, w)
     else (received, s, w))"

section \<open>Choosing a descriptor\<close>

definition close_candidate :: "os \<Rightarrow> int \<Rightarrow> world \<Rightarrow> world" where
  "close_candidate os fd w = (if fd \<noteq> invalid_socket then snd (sys os (Fd (Close fd)) w) else w)"

definition configure_blocking :: "os \<Rightarrow> int \<Rightarrow> bool \<Rightarrow> world \<Rightarrow> bool \<times> world" where
  "configure_blocking os fd block w =
    (let (f, w) = sys os (Io (Getfl fd)) w in
     if ret f < 0 then (False, w)
     else
       let (g, w) = sys os (Io (Setfl fd (nonblocking_flags (\<not> block) (ret f)))) w in
       (ret g = 0, w))"

definition is_supported_family :: "int \<Rightarrow> bool" where
  "is_supported_family family \<longleftrightarrow> family = AF_INET \<or> family = AF_INET6"

text \<open>The result carries the candidate descriptor, \<open>-1\<close> when there is none.\<close>

definition select_family :: "os \<Rightarrow> int \<Rightarrow> bool \<Rightarrow> world \<Rightarrow> bool \<times> int \<times> world" where
  "select_family os family block w =
    (if \<not> is_supported_family family then (False, invalid_socket, w)
     else
       let (r, w) = sys os (Fd (Socket family SOCK_DGRAM)) w; candidate = ret r in
       if candidate = invalid_socket then (False, candidate, w)
       else
         let (ok, w) = configure_blocking os candidate block w in
         if \<not> ok then (False, invalid_socket, close_candidate os candidate w)
         else (True, candidate, w))"

section \<open>Connecting\<close>

definition udp_connect ::
  "os \<Rightarrow> address \<Rightarrow> 'a udp_sock_scheme \<Rightarrow> world \<Rightarrow> bool \<times> 'a udp_sock_scheme \<times> world"
where
  "udp_connect os remote s w =
    (let target = get_sockaddr_storage remote in
     if \<not> is_supported_family (ss_family target)
     then (False, s\<lparr>error_code := err_no_host, error_state := state_connect\<rparr>, w)
     else
       let (ready, s, w) =
             (if sockfd s = invalid_socket \<or> ss_family target \<noteq> net_family s
              then
                let (ok, candidate, w) = select_family os (ss_family target) (blocking s) w in
                if \<not> ok
                then (False, s\<lparr>error_code := err_no_socket, error_state := state_create\<rparr>, w)
                else
                  let prior = sockfd s;
                      s = s\<lparr>sockfd := candidate, net_family := ss_family target\<rparr> in
                  (True, s, close_candidate os prior w)
              else (True, s, w)) in
       if \<not> ready then (False, s, w)
       else (True, s\<lparr>remote_addr := target, sock_port := uint (get_port remote), connected := True,
                     error_code := err_none, error_state := 0\<rparr>, w))"

fun udp_connect_loop ::
  "os \<Rightarrow> string \<Rightarrow> addrinfo list \<Rightarrow> 'a udp_sock_scheme \<Rightarrow> world \<Rightarrow>
    bool \<times> 'a udp_sock_scheme \<times> world"
where
  "udp_connect_loop os host [] s w = (False, s, w)"
| "udp_connect_loop os host (current # rest) s w =
    (if \<not> is_supported_family (ai_family current) \<or> ai_addr current = None \<or>
        ai_addrlen current > 128
     then udp_connect_loop os host rest s w
     else
       let (ok, s, w) = udp_connect os (address_of_storage (the (ai_addr current))) s w in
       if ok then (True, set_remote_hostname host s, w) else udp_connect_loop os host rest s w)"

definition udp_connect_host ::
  "os \<Rightarrow> string option \<Rightarrow> int \<Rightarrow> 'a udp_sock_scheme \<Rightarrow> world \<Rightarrow> bool \<times> 'a udp_sock_scheme \<times> world"
where
  "udp_connect_host os host p s w =
    (if host = None \<or> host = Some [] \<or> \<not> is_valid_port p
     then (False, s\<lparr>error_code := err_no_host, error_state := state_connect\<rparr>, w)
     else
       let (rv, w) = sys os (Io (Getaddrinfo (the host) (Some p) SOCK_DGRAM False)) w in
       if ret rv \<noteq> 0
       then (False, s\<lparr>error_code := err_no_host, error_state := state_connect\<rparr>, w)
       else
         let (success, s, w) = udp_connect_loop os (the host) (infos rv) s w in
         if \<not> success
         then (False, s\<lparr>error_code := err_no_host, error_state := state_connect\<rparr>, w)
         else (True, s, w))"

definition udp_connect_stored ::
  "os \<Rightarrow> 'a udp_sock_scheme \<Rightarrow> world \<Rightarrow> bool \<times> 'a udp_sock_scheme \<times> world" where
  "udp_connect_stored os s w = udp_connect os (address_of_storage (remote_addr s)) s w"

section \<open>Listening\<close>

definition bind_target :: "int \<Rightarrow> int \<Rightarrow> sockaddr_storage" where
  "bind_target family p =
    zero_sockaddr\<lparr>ss_family := family, sin_port := htons (word_of_int p)\<rparr>"

definition native_bind :: "os \<Rightarrow> int \<Rightarrow> sockaddr_storage \<Rightarrow> world \<Rightarrow> int \<times> world" where
  "native_bind os fd a w = (let (r, w) = sys os (Io (Bind fd a)) w in (ret r, w))"

text \<open>One candidate family: the error to report, or the bound descriptor.\<close>

definition udp_listen_candidate ::
  "os \<Rightarrow> (int \<Rightarrow> sockaddr_storage \<Rightarrow> world \<Rightarrow> int \<times> world) \<Rightarrow> int \<Rightarrow> int \<Rightarrow> bool \<Rightarrow> world \<Rightarrow>
    (int + int) \<times> world"
where
  "udp_listen_candidate os bnd family p block w =
    (let (ok, candidate, w) = select_family os family block w in
     if \<not> ok then (Inl (translate_native_error (errno w)), w)
     else
       let (opt, w) =
             (if family = AF_INET6
              then let (r, w) = sys os (Io (Setsockopt candidate (Ipv6_v6only 0))) w in (ret r, w)
              else (0, w)) in
       if opt \<noteq> 0
       then (Inl (translate_native_error (errno w)), close_candidate os candidate w)
       else
         let (b, w) = bnd candidate (bind_target family p) w in
         if b = 0 then (Inr candidate, w)
         else (Inl (translate_native_error (errno w)), close_candidate os candidate w))"

fun udp_listen_loop ::
  "os \<Rightarrow> (int \<Rightarrow> sockaddr_storage \<Rightarrow> world \<Rightarrow> int \<times> world) \<Rightarrow> int list \<Rightarrow> int \<Rightarrow> int \<Rightarrow>
    'a udp_sock_scheme \<Rightarrow> world \<Rightarrow> bool \<times> 'a udp_sock_scheme \<times> world"
where
  "udp_listen_loop os bnd [] p last_error s w =
    (False, s\<lparr>error_code := last_error, error_state := state_bind\<rparr>, w)"
| "udp_listen_loop os bnd (family # rest) p last_error s w =
    (case udp_listen_candidate os bnd family p (blocking s) w of
       (Inl e, w) \<Rightarrow> udp_listen_loop os bnd rest p e s w
     | (Inr candidate, w) \<Rightarrow>
         let prior = sockfd s;
             s = s\<lparr>sockfd := candidate, net_family := family, sock_port := p, connected := False,
                  remote_addr := zero_sockaddr, error_code := err_none, error_state := 0\<rparr> in
         (True, s, close_candidate os prior w))"

definition udp_listen_with ::
  "os \<Rightarrow> (int \<Rightarrow> sockaddr_storage \<Rightarrow> world \<Rightarrow> int \<times> world) option \<Rightarrow> int \<Rightarrow>
    'a udp_sock_scheme \<Rightarrow> world \<Rightarrow> bool \<times> 'a udp_sock_scheme \<times> world"
where
  "udp_listen_with os bnd p s w =
    (if bnd = None \<or> \<not> is_valid_port p
     then (False, s\<lparr>error_code := err_no_socket, error_state := state_bind\<rparr>, w)
     else udp_listen_loop os (the bnd) [AF_INET6, AF_INET] p err_no_socket s w)"

definition udp_listen ::
  "os \<Rightarrow> int \<Rightarrow> 'a udp_sock_scheme \<Rightarrow> world \<Rightarrow> bool \<times> 'a udp_sock_scheme \<times> world" where
  "udp_listen os p s w = udp_listen_with os (Some (native_bind os)) p s w"

section \<open>Candidates\<close>

definition owns :: "'a sock_scheme \<Rightarrow> world \<Rightarrow> bool" where
  "owns s w \<longleftrightarrow> sockfd s = invalid_socket \<or> 0 \<le> sockfd s \<and> sockfd s \<in> open_fds (trace w)"

lemma owns_absorb: "owns s w \<Longrightarrow> open_fds (trace w) - held (sockfd s) \<union> held (sockfd s) = open_fds (trace w)"
  by (auto simp: owns_def held_def)

lemma close_candidate_fds:
  "open_fds (trace (close_candidate os fd w)) = open_fds (trace w) - (if fd = invalid_socket then {} else {fd})"
  "fd = invalid_socket \<or> fd \<in> open_fds (trace w) \<Longrightarrow> closes_ok (trace w) \<Longrightarrow>
    closes_ok (trace (close_candidate os fd w))"
  "fl_state (trace (close_candidate os fd w)) = fl_state (trace w)"
  by (auto simp: close_candidate_def sys_def Let_def)

lemma configure_blocking_effect:
  assumes "configure_blocking os fd block w = (ok, w')"
  shows "open_fds (trace w') = open_fds (trace w)" "closes_ok (trace w') = closes_ok (trace w)"
    "ok \<Longrightarrow> \<exists>f. fl_state (trace w') fd = Some f \<and> bit f 11 = (\<not> block)"
  using assms
  by (auto simp: configure_blocking_def sys_def Let_def nonblocking_flags_bit split: if_splits)

text \<open>A selected candidate is fresh and in the mode asked for; otherwise nothing is left open.\<close>

lemma select_family_spec:
  assumes "fresh_fds os" "select_family os family block w = (ok, c, w')"
  shows "(closes_ok (trace w) \<longrightarrow> closes_ok (trace w')) \<and>
    (if ok then 0 \<le> c \<and> c \<notin> open_fds (trace w) \<and> open_fds (trace w') = insert c (open_fds (trace w)) \<and>
       (\<exists>f. fl_state (trace w') c = Some f \<and> bit f 11 = (\<not> block))
     else open_fds (trace w') = open_fds (trace w))"
proof (cases "is_supported_family family")
  case False
  then show ?thesis using assms(2) by (simp add: select_family_def)
next
  case True
  obtain r w1 where so: "sys os (Fd (Socket family SOCK_DGRAM)) w = (r, w1)" by fastforce
  obtain ok' w2 where cf: "configure_blocking os (ret r) block w1 = (ok', w2)" by fastforce
  note fresh = fresh_socket [OF assms(1) so]
  note eff = configure_blocking_effect [OF cf]
  show ?thesis
  proof (cases "ret r = - 1")
    case True
    then show ?thesis
      using assms(2) \<open>is_supported_family family\<close> so sys_trace [OF so]
      by (auto simp: select_family_def Let_def)
  next
    case False
    then have f: "0 \<le> ret r" "ret r \<notin> open_fds (trace w)" using fresh by auto
    have w1: "open_fds (trace w1) = insert (ret r) (open_fds (trace w))"
      "closes_ok (trace w1) = closes_ok (trace w)"
      using f by (simp_all add: sys_trace [OF so])
    have res: "(ok, c, w') = (if ok' then (True, ret r, w2)
        else (False, invalid_socket, close_candidate os (ret r) w2))"
      using assms(2) \<open>is_supported_family family\<close> False so cf
      by (auto simp: select_family_def Let_def split: if_splits)
    show ?thesis
    proof (cases ok')
      case True
      then show ?thesis using res eff w1 f by simp
    next
      case no: False
      then have "c = - 1" "\<not> ok" "w' = close_candidate os (ret r) w2" using res by auto
      then show ?thesis
        using eff w1 f False close_candidate_fds(1) [of os "ret r" w2]
          close_candidate_fds(2) [of "ret r" w2 os] by auto
    qed
  qed
qed

lemma udp_connect_eq:
  assumes "t = get_sockaddr_storage a" "is_supported_family (ss_family t)"
    and "select_family os (ss_family t) (blocking s) w = (ok, c, w1)"
  shows "udp_connect os a s w =
    (if sockfd s = invalid_socket \<or> ss_family t \<noteq> net_family s
     then if \<not> ok then (False, s\<lparr>error_code := err_no_socket, error_state := state_create\<rparr>, w1)
       else (True, s\<lparr>sockfd := c, net_family := ss_family t, remote_addr := t,
               sock_port := uint (get_port a), connected := True, error_code := err_none,
               error_state := 0\<rparr>, close_candidate os (sockfd s) w1)
     else (True, s\<lparr>remote_addr := t, sock_port := uint (get_port a), connected := True,
             error_code := err_none, error_state := 0\<rparr>, w))"
  using assms by (simp add: udp_connect_def Let_def)

lemma udp_connect_spec:
  assumes "fresh_fds os" "owns s w" "udp_connect os a s w = (b, s', w')"
  shows "owns s' w' \<and> (closes_ok (trace w) \<longrightarrow> closes_ok (trace w')) \<and>
    open_fds (trace w') = open_fds (trace w) - held (sockfd s) \<union> held (sockfd s') \<and>
    (if b then 0 \<le> sockfd s' \<and> connected s' \<and> error_code s' = err_none \<and>
         remote_addr s' = get_sockaddr_storage a \<and> net_family s' = ss_family (remote_addr s')
     else error_code s' \<noteq> err_none \<and> sockfd s' = sockfd s \<and> net_family s' = net_family s \<and>
       remote_addr s' = remote_addr s \<and> connected s' = connected s)"
proof (cases "is_supported_family (ss_family (get_sockaddr_storage a))")
  case False
  then show ?thesis using assms by (auto simp: udp_connect_def owns_def)
next
  case True
  let ?t = "get_sockaddr_storage a"
  obtain ok c w1 where se: "select_family os (ss_family ?t) (blocking s) w = (ok, c, w1)"
    by (metis prod_cases3)
  note spec = select_family_spec [OF assms(1) se]
  note eq = udp_connect_eq [OF refl True se]
  show ?thesis
  proof (cases "sockfd s = invalid_socket \<or> ss_family ?t \<noteq> net_family s")
    case new: True
    show ?thesis
    proof (cases ok)
      case True
      have own: "sockfd s = invalid_socket \<or> sockfd s \<in> open_fds (trace w1)"
        using assms(2) spec True by (auto simp: owns_def)
      have res: "b" "w' = close_candidate os (sockfd s) w1"
        "s' = s\<lparr>sockfd := c, net_family := ss_family ?t, remote_addr := ?t,
          sock_port := uint (get_port a), connected := True, error_code := err_none, error_state := 0\<rparr>"
        using assms(3) True new unfolding eq by simp_all
      have c: "0 \<le> c" "c \<notin> open_fds (trace w)" "open_fds (trace w1) = insert c (open_fds (trace w))"
        using spec True by auto
      have "open_fds (trace w') = open_fds (trace w) - held (sockfd s) \<union> {c}"
        using res(2) c assms(2) close_candidate_fds(1) [of os "sockfd s" w1]
        by (auto simp: owns_def held_def)
      moreover have "closes_ok (trace w) \<longrightarrow> closes_ok (trace w')"
        using res(2) spec close_candidate_fds(2) [OF own, of os] by blast
      ultimately show ?thesis using res(1,3) c(1) by (simp add: owns_def)
    next
      case False
      have "\<not> b" "w' = w1" "s' = s\<lparr>error_code := err_no_socket, error_state := state_create\<rparr>"
        using assms(3) False new unfolding eq by simp_all
      moreover have "open_fds (trace w1) = open_fds (trace w)" "closes_ok (trace w) \<longrightarrow> closes_ok (trace w1)"
        using spec False by simp_all
      ultimately show ?thesis using assms(2) owns_absorb [OF assms(2)] by (simp add: owns_def)
    qed
  next
    case keep: False
    have "b" "w' = w" "s' = s\<lparr>remote_addr := ?t, sock_port := uint (get_port a), connected := True,
        error_code := err_none, error_state := 0\<rparr>"
      using assms(3) unfolding eq if_not_P [OF keep] by simp_all
    then show ?thesis using assms(2) owns_absorb [OF assms(2)] keep by (simp add: owns_def)
  qed
qed

lemma udp_connect_loop_spec:
  assumes "fresh_fds os"
  shows "owns s w \<Longrightarrow> udp_connect_loop os host es s w = (b, s', w') \<Longrightarrow>
    owns s' w' \<and> (closes_ok (trace w) \<longrightarrow> closes_ok (trace w')) \<and>
    open_fds (trace w') = open_fds (trace w) - held (sockfd s) \<union> held (sockfd s')"
proof (induction es arbitrary: s w)
  case Nil
  then show ?case by (auto simp: owns_def held_def)
next
  case (Cons e es)
  show ?case
  proof (cases "\<not> is_supported_family (ai_family e) \<or> ai_addr e = None \<or> ai_addrlen e > 128")
    case True
    then show ?thesis using Cons by (simp add: disj_commute)
  next
    case False
    obtain ok s1 w1 where c: "udp_connect os (address_of_storage (the (ai_addr e))) s w = (ok, s1, w1)"
      by (metis prod_cases3)
    note spec = udp_connect_spec [OF assms Cons.prems(1) c]
    show ?thesis
    proof (cases ok)
      case True
      then show ?thesis
        using Cons.prems(2) False c spec by (auto simp: set_remote_hostname_def owns_def)
    next
      case no: False
      then have "udp_connect_loop os host es s1 w1 = (b, s', w')"
        using Cons.prems(2) False c by (cases "ai_addr e") simp_all
      then show ?thesis using Cons.IH [of s1 w1] spec no by auto
    qed
  qed
qed

section \<open>Listening keeps the old socket until the new one is bound\<close>

definition bind_neutral :: "(int \<Rightarrow> sockaddr_storage \<Rightarrow> world \<Rightarrow> int \<times> world) \<Rightarrow> bool" where
  "bind_neutral bnd \<longleftrightarrow>
    (\<forall>fd a w r w'. bnd fd a w = (r, w') \<longrightarrow> open_fds (trace w') = open_fds (trace w) \<and>
       closes_ok (trace w') = closes_ok (trace w) \<and> fl_state (trace w') = fl_state (trace w))"

lemma native_bind_neutral: "bind_neutral (native_bind os)"
  by (auto simp: bind_neutral_def native_bind_def sys_def Let_def fun_eq_iff)

lemma udp_listen_candidate_spec:
  assumes "fresh_fds os" "bind_neutral bnd"
    and "udp_listen_candidate os bnd family p block w = (res, w')"
  shows "(closes_ok (trace w) \<longrightarrow> closes_ok (trace w')) \<and>
    (case res of
       Inl e \<Rightarrow> open_fds (trace w') = open_fds (trace w)
     | Inr c \<Rightarrow> 0 \<le> c \<and> c \<notin> open_fds (trace w) \<and> open_fds (trace w') = insert c (open_fds (trace w)) \<and>
         (\<exists>f. fl_state (trace w') c = Some f \<and> bit f 11 = (\<not> block)))"
proof -
  obtain ok c w1 where se: "select_family os family block w = (ok, c, w1)" by (metis prod_cases3)
  note spec = select_family_spec [OF assms(1) se]
  show ?thesis
  proof (cases ok)
    case False
    then show ?thesis using assms(3) se spec by (auto simp: udp_listen_candidate_def)
  next
    case True
    obtain opt w2 where o: "(if family = AF_INET6
        then let (r, w) = sys os (Io (Setsockopt c (Ipv6_v6only 0))) w1 in (ret r, w) else (0, w1)) = (opt, w2)"
      by fastforce
    obtain b w3 where b: "bnd c (bind_target family p) w2 = (b, w3)" by fastforce
    have w2: "open_fds (trace w2) = open_fds (trace w1)" "closes_ok (trace w2) = closes_ok (trace w1)"
      "fl_state (trace w2) c = fl_state (trace w1) c"
      using o by (auto simp: sys_def Let_def split: if_splits)
    have w3: "open_fds (trace w3) = open_fds (trace w2)" "closes_ok (trace w3) = closes_ok (trace w2)"
      "fl_state (trace w3) = fl_state (trace w2)"
      using assms(2) b unfolding bind_neutral_def by blast+
    have res: "(res, w') = (if opt \<noteq> 0 then (Inl (translate_native_error (errno w2)), close_candidate os c w2)
       else if b = 0 then (Inr c, w3)
       else (Inl (translate_native_error (errno w3)), close_candidate os c w3))"
      using assms(3) se True o b by (simp add: udp_listen_candidate_def Let_def cong: if_cong)
    have own: "c = invalid_socket \<or> c \<in> open_fds (trace w2)" "c \<noteq> - 1" "c \<notin> open_fds (trace w)"
      using spec True w2 by auto
    show ?thesis
      using res spec True w2 w3 own close_candidate_fds(1) [of os c w2] close_candidate_fds(1) [of os c w3]
        close_candidate_fds(2) [OF own(1), of os] close_candidate_fds(2) [of c w3 os]
      by (auto split: if_splits)
  qed
qed

lemma udp_listen_loop_spec:
  assumes "fresh_fds os" "bind_neutral bnd"
  shows "owns s w \<Longrightarrow> udp_listen_loop os bnd fs p e s w = (b, s', w') \<Longrightarrow>
    (closes_ok (trace w) \<longrightarrow> closes_ok (trace w')) \<and>
    (if b then 0 \<le> sockfd s' \<and> sockfd s' \<notin> open_fds (trace w) \<and>
       open_fds (trace w') = open_fds (trace w) - held (sockfd s) \<union> {sockfd s'} \<and>
       net_family s' \<in> set fs \<and> sock_port s' = p \<and> \<not> connected s' \<and> error_code s' = err_none \<and>
       (\<exists>f. fl_state (trace w') (sockfd s') = Some f \<and> bit f 11 = (\<not> blocking s'))
     else open_fds (trace w') = open_fds (trace w) \<and>
       (\<exists>code. s' = s\<lparr>error_code := code, error_state := state_bind\<rparr>))"
proof (induction fs arbitrary: e w)
  case Nil
  then show ?case by auto
next
  case (Cons f fs)
  obtain res w1 where c: "udp_listen_candidate os bnd f p (blocking s) w = (res, w1)" by fastforce
  note spec = udp_listen_candidate_spec [OF assms c]
  show ?case
  proof (cases res)
    case (Inl code)
    then have "udp_listen_loop os bnd fs p code s w1 = (b, s', w')" "owns s w1"
      using Cons.prems c spec by (auto simp: owns_def)
    from Cons.IH [OF this(2,1)] show ?thesis using spec Inl by (auto split: if_splits)
  next
    case (Inr fd)
    have own: "sockfd s = invalid_socket \<or> sockfd s \<in> open_fds (trace w1)"
      using Cons.prems(1) spec Inr by (auto simp: owns_def)
    have fd: "0 \<le> fd" "fd \<notin> open_fds (trace w)" "open_fds (trace w1) = insert fd (open_fds (trace w))"
      "\<exists>f. fl_state (trace w1) fd = Some f \<and> bit f 11 = (\<not> blocking s)"
      using spec Inr by auto
    have res: "b" "w' = close_candidate os (sockfd s) w1"
      "s' = s\<lparr>sockfd := fd, net_family := f, sock_port := p, connected := False,
        remote_addr := zero_sockaddr, error_code := err_none, error_state := 0\<rparr>"
      using Cons.prems(2) c Inr by (simp_all add: Let_def)
    have "open_fds (trace w') = open_fds (trace w) - held (sockfd s) \<union> {fd}"
      using res(2) fd Cons.prems(1) close_candidate_fds(1) [of os "sockfd s" w1]
      by (auto simp: owns_def held_def)
    moreover have "closes_ok (trace w) \<longrightarrow> closes_ok (trace w')"
      using res(2) spec close_candidate_fds(2) [OF own, of os] by blast
    moreover have "fl_state (trace w') fd = fl_state (trace w1) fd"
      by (simp add: res(2) close_candidate_fds(3))
    ultimately show ?thesis using res(1,3) fd by simp
  qed
qed

section \<open>Datagrams\<close>

lemma map_v4_endpoint:
  assumes "sockaddr_wf t" "ss_family t = AF_INET"
  shows "endpoint_of (address_of_storage (map_v4 t)) = endpoint_of (address_of_storage t) \<and>
    sockaddr_wf (map_v4 t)"
proof -
  have "length (sin_addr t) = 4" using assms(1) by (simp add: sin_addr_def sockaddr_wf_def)
  then show ?thesis
    using assms(2)
    by (simp add: endpoint_of_def address_of_storage_def map_v4_def get_port_def sin6_addr_def
        sin6_scope_id_def mapped_prefix_def sockaddr_wf_def)
qed

lemma send_target_endpoint:
  assumes "sockaddr_wf t" "send_target family t = Some t'"
  shows "ss_family t' = family \<and>
    endpoint_of (address_of_storage t') = endpoint_of (address_of_storage t)"
  using assms map_v4_endpoint [OF assms(1)]
  by (auto simp: send_target_def map_v4_def split: if_splits)

lemma udp_read_contract:
  assumes "recv_bounded os" "0 < n" "n \<le> int (length buf)"
    and "udp_read par os (Some buf) n s w = (r, b', s', w')"
  shows "read_contract buf n w r b' w'"
proof -
  let ?c = "Io (Recvfrom (sockfd s) n)"
  have bound: "ret (os_call os h ?c) \<le> n" "length (got (os_call os h ?c)) = nat (ret (os_call os h ?c))"
    for h using recv_boundedD [OF assms(1) _ assms(2), of ?c h] by simp_all
  show ?thesis
    using assms(2-4) bound
    by (auto simp: udp_read_def wait_for_readable_def sys_def Let_def
        intro!: read_contract_nothing read_contract_overwrite split: if_splits)
qed

interpretation udp_reads: virtual_read "udp_read par" for par
proof
  show "read_contract buf n w r b' w'"
    if "recv_bounded os" "0 < n" "n \<le> int (length buf)"
      "udp_read par os (Some buf) n s w = (r, b', s', w')" for os n buf s w r b' s' w'
    using that by (rule udp_read_contract)
  show "safe_step s w s' w'"
    if "udp_read par os b n s w = (r, b', s', w')" for os b n s w r b' s' w'
    using that by (auto simp: udp_read_def wait_for_readable_def sys_def Let_def safe_step_def
        split: if_splits)
  show "inbuffer s' = inbuffer s"
    if "udp_read par os b n s w = (r, b', s', w')" for os b n s w r b' s' w'
    using that by (auto simp: udp_read_def wait_for_readable_def sys_def Let_def split: if_splits)
qed

section \<open>Properties\<close>

text \<open>
  C20. Listening on UDP is transactional. A failure leaves the descriptor, the family, the
  destination and everything else but the error as they were, with every candidate closed again;
  a success swaps in a fresh bound descriptor, in the object's blocking mode, and closes the old
  one exactly once.
\<close>

theorem udp_listen_transactional:
  assumes "fresh_fds os" "owns s w" "udp_listen os p s w = (b, s', w')"
  shows "(closes_ok (trace w) \<longrightarrow> closes_ok (trace w')) \<and>
    (if b then sockfd s' \<notin> open_fds (trace w) \<and> is_valid_socket s' \<and>
       open_fds (trace w') = open_fds (trace w) - held (sockfd s) \<union> {sockfd s'} \<and>
       net_family s' \<in> {AF_INET6, AF_INET} \<and> sock_port s' = p \<and> error_code s' = err_none \<and>
       (\<exists>f. fl_state (trace w') (sockfd s') = Some f \<and> bit f 11 = (\<not> blocking s'))
     else open_fds (trace w') = open_fds (trace w) \<and>
       (\<exists>code. s' = s\<lparr>error_code := code, error_state := state_bind\<rparr>))"
proof (cases "is_valid_port p")
  case True
  then have "udp_listen_loop os (native_bind os) [AF_INET6, AF_INET] p err_no_socket s w = (b, s', w')"
    using assms(3) by (simp add: udp_listen_def udp_listen_with_def)
  from udp_listen_loop_spec [OF assms(1) native_bind_neutral assms(2) this] show ?thesis
    by (auto simp: is_valid_socket_def)
next
  case False
  then show ?thesis using assms(3) by (auto simp: udp_listen_def udp_listen_with_def)
qed

definition sample_udp :: udp_sock where
  "sample_udp = udp_of_sock None (sock_init\<lparr>sockfd := - 1, net_family := AF_INET\<rparr>)"

lemma sample_udp_simps [simp]:
  "sockfd sample_udp = - 1" "net_family sample_udp = AF_INET" "peer_active sample_udp"
  "remote_addr sample_udp = zero_sockaddr" "blocking sample_udp"
  by (simp_all add: sample_udp_def udp_of_sock_def sock.defs udp_sock.defs sock_init_def)

lemma sample_udp_owns: "owns sample_udp w"
  by (simp add: owns_def)

theorem udp_listen_transactional_witness:
  "\<exists>b s' w'. udp_listen (scripted_os []) 9000 sample_udp world0 = (b, s', w') \<and>
    (if b then open_fds (trace w') = {sockfd s'} else open_fds (trace w') = {})"
proof -
  obtain b s' w' where e: "udp_listen (scripted_os []) 9000 sample_udp world0 = (b, s', w')"
    by (metis prod_cases3)
  then show ?thesis
    using udp_listen_transactional [OF scripted_fresh sample_udp_owns e]
    by (simp add: world0_def split: if_splits)
qed

text \<open>
  Selecting a UDP destination keeps the socket usable: a failed connect leaves descriptor,
  family, destination and connected flag alone and reports an error; a successful one leaves the
  object with exactly one descriptor, of the destination's family. No descriptor leaks and none
  is closed twice.
\<close>

lemma udp_connect_transactional:
  assumes "fresh_fds os" "owns s w" "udp_connect os a s w = (b, s', w')"
  shows "owns s' w' \<and> (closes_ok (trace w) \<longrightarrow> closes_ok (trace w')) \<and>
    open_fds (trace w') = open_fds (trace w) - held (sockfd s) \<union> held (sockfd s') \<and>
    (if b then 0 \<le> sockfd s' \<and> connected s' \<and> error_code s' = err_none \<and>
         remote_addr s' = get_sockaddr_storage a \<and> net_family s' = ss_family (remote_addr s')
     else error_code s' \<noteq> err_none \<and> sockfd s' = sockfd s \<and> net_family s' = net_family s \<and>
       remote_addr s' = remote_addr s \<and> connected s' = connected s)"
  by (rule udp_connect_spec [OF assms])

text \<open>
  C21. A datagram is sent whole, in one call, on the native descriptor (the parent's for a
  logical peer), to an address of that descriptor's family that denotes the same endpoint as the
  destination. A destination of the descriptor's own family is always sent to, and so is an IPv4
  one on an IPv6 descriptor: an IPv4 peer of a dual-stack server is reached through its mapped
  address. Any other destination cannot be expressed: nothing is sent and an error is reported.
\<close>

theorem send_datagram_reaches_peer:
  assumes "udp_is_valid par s" "0 \<le> n" "n \<le> int (length data)" "sockaddr_wf (remote_addr s)"
    and "send_datagram os par (Some data) n s w = (r, s', w')"
  shows "let native = (case par of Some p \<Rightarrow> sockfd p | None \<Rightarrow> sockfd s);
      family = (case par of Some p \<Rightarrow> net_family p | None \<Rightarrow> net_family s);
      dest = ss_family (remote_addr s) in
    if dest = family \<or> family = AF_INET6 \<and> dest = AF_INET
    then \<exists>t x. trace w' = (Io (Sendto native (take (nat n) data) t), x) # trace w \<and> r = ret x \<and>
       error_code s' = sent_error r w' \<and> ss_family t = family \<and>
       endpoint_of (address_of_storage t) = endpoint_of (address_of_storage (remote_addr s))
    else w' = w \<and> r = socket_error \<and> error_code s' = err_address_not_available"
proof -
  let ?native = "case par of Some p \<Rightarrow> sockfd p | None \<Rightarrow> sockfd s"
  let ?family = "case par of Some p \<Rightarrow> net_family p | None \<Rightarrow> net_family s"
  show ?thesis
  proof (cases "send_target ?family (remote_addr s)")
    case None
    then have "w' = w" "r = socket_error" "error_code s' = err_address_not_available"
      "\<not> (ss_family (remote_addr s) = ?family \<or> ?family = AF_INET6 \<and> ss_family (remote_addr s) = AF_INET)"
      using assms(1,2,5) by (auto simp: send_datagram_def Let_def send_target_def split: if_splits)
    then show ?thesis by (auto simp: Let_def)
  next
    case (Some t)
    then have fam: "ss_family (remote_addr s) = ?family \<or> ?family = AF_INET6 \<and> ss_family (remote_addr s) = AF_INET"
      by (auto simp: send_target_def split: if_splits)
    obtain x w1 where sy: "sys os (Io (Sendto ?native (take (nat n) data) t)) w = (x, w1)" by fastforce
    have "r = ret x" "w' = w1" "error_code s' = sent_error r w'"
      using assms(1,2,5) Some sy by (cases "n = 0"; auto simp: send_datagram_def Let_def)+
    then show ?thesis
      using sys_trace [OF sy] send_target_endpoint [OF assms(4) Some] fam by (auto simp: Let_def)
  qed
qed

text \<open>A dual-stack server socket and an IPv4 peer of it.\<close>

definition sample_server :: udp_sock where
  "sample_server = sample_udp\<lparr>sockfd := 3, net_family := AF_INET6\<rparr>"

definition sample_peer :: udp_sock where
  "sample_peer = sample_udp\<lparr>udp_parent := Some 0, remote_addr := get_sockaddr_storage sample_v4\<rparr>"

lemma sample_peer_wf:
  "sockaddr_wf (remote_addr sample_peer)" "udp_is_valid (Some sample_server) sample_peer"
  by (simp_all add: sample_peer_def sample_v4_def address_of_storage_def get_sockaddr_storage_def
      sockaddr_wf_def udp_is_valid_def sample_server_def is_valid_socket_def)

text \<open>The peer is reached: two bytes leave on the server's descriptor for its mapped address.\<close>

theorem send_datagram_reaches_peer_witness:
  "\<exists>r s' w' t x. send_datagram (scripted_os []) (Some sample_server) (Some [5, 6]) 2 sample_peer world0
      = (r, s', w') \<and> trace w' = [(Io (Sendto 3 [5, 6] t), x)] \<and> ss_family t = AF_INET6 \<and>
    endpoint_of (address_of_storage t) = endpoint_of (address_of_storage (remote_addr sample_peer))"
proof -
  obtain r s' w' where e: "send_datagram (scripted_os []) (Some sample_server) (Some [5, 6]) 2
    sample_peer world0 = (r, s', w')" by (metis prod_cases3)
  have "ss_family (remote_addr sample_peer) = AF_INET"
    by (simp add: sample_peer_def sample_v4_def address_of_storage_def get_sockaddr_storage_def)
  then show ?thesis
    using send_datagram_reaches_peer [OF sample_peer_wf(2) _ _ sample_peer_wf(1) e] e
    by (auto simp: Let_def sample_server_def world0_def)
qed

text \<open>
  Closing a logical peer never touches a descriptor: it only deactivates the peer, once. A
  closed peer refuses every transfer without a system call.
\<close>

lemma udp_peer_close_keeps_server:
  "udp_close (Some p) os s w =
     (peer_active s, s\<lparr>peer_active := False, connected := False\<rparr>, w) \<and>
   (let s' = fst (snd (udp_close (Some p) os s w)) in
    fst (udp_close (Some p) os s' w) = False \<and> \<not> udp_is_valid (Some p) s' \<and>
    send_datagram os (Some p) data n s' w = (socket_error, s'\<lparr>error_code := err_no_socket\<rparr>, w) \<and>
    fst (udp_read (Some p) os buf n s' w) = socket_error \<and>
    snd (snd (snd (udp_read (Some p) os buf n s' w))) = w)"
  by (simp add: udp_close_def udp_is_valid_def send_datagram_def udp_error_def udp_read_def Let_def)

end
