(* ===== verification/Peer_Collection.thy ===== *)
theory Peer_Collection
  imports Scripted_Os "HOL-Library.Sublist"
begin

text \<open>
  \<open>src/socket_set.cpp\<close>: the non-owning registry \<open>socket_set\<close> and the owning
  \<open>peer_collection\<close> every server inherits. Objects are known by their address, a natural
  number; a pointer is an option of it.

  Closing a peer runs the virtual \<open>close()\<close>, and with it a user handler that may remove
  peers or close the listener again. It is therefore an argument \<open>cl\<close> on the whole state, a
  record that extends the collection (type \<open>'a peers_scheme\<close>); its result is
  \<open>None\<close> when the handler throws.
\<close>

section \<open>The non-owning registry\<close>

record socket_set =
  set_sockets :: "nat list"
  set_error_code :: int
  set_error_state :: int

definition set_empty :: socket_set where
  "set_empty = \<lparr>set_sockets = [], set_error_code = err_none, set_error_state = 0\<rparr>"

definition set_add :: "nat option \<Rightarrow> socket_set \<Rightarrow> bool \<times> socket_set" where
  "set_add socket_ref st =
    (case socket_ref of
       None \<Rightarrow> (False, st\<lparr>set_error_code := err_no_socket, set_error_state := state_create\<rparr>)
     | Some p \<Rightarrow>
         (True, st\<lparr>set_sockets := set_sockets st @ [p], set_error_code := err_none,
                   set_error_state := 0\<rparr>))"

definition set_remove :: "nat \<Rightarrow> socket_set \<Rightarrow> bool \<times> socket_set" where
  "set_remove index st =
    (if length (set_sockets st) \<le> index
     then (False, st\<lparr>set_error_code := err_no_socket, set_error_state := state_accept\<rparr>)
     else (True, st\<lparr>set_sockets := erase_at index (set_sockets st), set_error_code := err_none,
                    set_error_state := 0\<rparr>))"

definition set_remove_range :: "nat \<Rightarrow> nat \<Rightarrow> socket_set \<Rightarrow> bool \<times> socket_set" where
  "set_remove_range index count st =
    (if count = 0 \<or> length (set_sockets st) \<le> index
     then (False, st\<lparr>set_error_code := err_no_socket, set_error_state := state_accept\<rparr>)
     else
       let safe_count = (if count > length (set_sockets st) - index
                         then length (set_sockets st) - index else count) in
       (True, st\<lparr>set_sockets := take index (set_sockets st) @
                                drop (index + safe_count) (set_sockets st),
                 set_error_code := err_none, set_error_state := 0\<rparr>))"

definition set_count :: "socket_set \<Rightarrow> int" where
  "set_count st = to_int32 (int (length (set_sockets st)))"

definition set_at :: "nat \<Rightarrow> socket_set \<Rightarrow> nat option" where
  "set_at index st =
    (if index < length (set_sockets st) then Some (set_sockets st ! index) else None)"

text \<open>Broadcast through the peers' virtual \<open>write\<close>, the argument \<open>wr\<close>.\<close>

fun broadcast_loop ::
  "(nat \<Rightarrow> byte list option \<Rightarrow> int \<Rightarrow> 's \<Rightarrow> int \<times> 's) \<Rightarrow> byte list option \<Rightarrow> int \<Rightarrow>
   nat list \<Rightarrow> int \<Rightarrow> 's \<Rightarrow> int \<times> 's"
where
  "broadcast_loop wr bytes count [] delivered s = (delivered, s)"
| "broadcast_loop wr bytes count (p # ps) delivered s =
    (let (n, s) = wr p bytes count s in
     broadcast_loop wr bytes count ps (if n = count then delivered + 1 else delivered) s)"

definition set_broadcast ::
  "(nat \<Rightarrow> byte list option \<Rightarrow> int \<Rightarrow> 's \<Rightarrow> int \<times> 's) \<Rightarrow> byte list option \<Rightarrow> int \<Rightarrow>
   socket_set \<Rightarrow> 's \<Rightarrow> int \<times> 's"
where
  "set_broadcast wr bytes count st s =
    (if count < 0 \<or> count > 0 \<and> bytes = None then (- 1, s)
     else broadcast_loop wr bytes count (set_sockets st) 0 s)"

definition set_broadcast_string ::
  "(nat \<Rightarrow> byte list option \<Rightarrow> int \<Rightarrow> 's \<Rightarrow> int \<times> 's) \<Rightarrow> byte list \<Rightarrow>
   socket_set \<Rightarrow> 's \<Rightarrow> int \<times> 's"
where
  "set_broadcast_string wr bytes st s =
    (if int (length bytes) > int_max then (- 1, s)
     else set_broadcast wr (Some bytes) (int (length bytes)) st s)"

section \<open>The owning collection\<close>

record peers =
  owned :: "nat list"
  members :: socket_set
  closing_peers :: bool

definition peers_empty :: peers where
  "peers_empty = \<lparr>owned = [], members = set_empty, closing_peers = False\<rparr>"

type_synonym 's closer = "nat \<Rightarrow> 's \<Rightarrow> bool option \<times> 's"

definition add_peer :: "nat option \<Rightarrow> 'a peers_scheme \<Rightarrow> nat option \<times> 'a peers_scheme" where
  "add_peer peer st =
    (case peer of
       None \<Rightarrow> (None, st)
     | Some borrowed \<Rightarrow>
         let st = st\<lparr>owned := owned st @ [borrowed]\<rparr>;
             (added, ms) = set_add (Some borrowed) (members st);
             st = st\<lparr>members := ms\<rparr> in
         if \<not> added then (None, st\<lparr>owned := butlast (owned st)\<rparr>) else (Some borrowed, st))"

fun find_index :: "'a \<Rightarrow> 'a list \<Rightarrow> nat option" where
  "find_index x [] = None"
| "find_index x (y # ys) = (if y = x then Some 0 else map_option Suc (find_index x ys))"

text \<open>
  The owner is detached before the handler runs, since the handler may retire other peers; the
  object is destroyed (\<open>del\<close>) when the local owner goes out of scope, also on an exception.
\<close>

definition remove_owned_peer ::
  "('a peers_scheme) closer \<Rightarrow> (nat \<Rightarrow> 'a peers_scheme \<Rightarrow> 'a peers_scheme) \<Rightarrow>
   nat option \<Rightarrow> 'a peers_scheme \<Rightarrow> bool option \<times> 'a peers_scheme"
where
  "remove_owned_peer cl del peer st =
    (case peer of
       None \<Rightarrow> (Some False, st)
     | Some p \<Rightarrow>
       (case find_index p (owned st) of
          None \<Rightarrow> (Some False, st)
        | Some it \<Rightarrow>
            let st = (case find_index p (set_sockets (members st)) of
                        None \<Rightarrow> st
                      | Some i \<Rightarrow> st\<lparr>members := snd (set_remove i (members st))\<rparr>);
                st = st\<lparr>owned := erase_at it (owned st)\<rparr>;
                (r, st) = cl p st;
                st = del p st in
            (case r of None \<Rightarrow> None | Some _ \<Rightarrow> Some True, st)))"

text \<open>
  The loop rechecks its slot after every handler. It may run forever if handlers keep adding
  peers: then the value is \<open>None\<close>.
\<close>

partial_function (option) close_peers_loop ::
  "('a peers_scheme) closer \<Rightarrow> nat \<Rightarrow> bool \<Rightarrow> 'a peers_scheme \<Rightarrow>
   (bool option \<times> 'a peers_scheme) option"
where
  "close_peers_loop cl index changed st =
    (if index < length (owned st)
     then
       let peer = owned st ! index; (r, st) = cl peer st in
       (case r of
          None \<Rightarrow> Some (None, st)
        | Some c \<Rightarrow>
            close_peers_loop cl
              (if index < length (owned st) \<and> owned st ! index = peer then Suc index else index)
              (c \<or> changed) st)
     else Some (Some changed, st))"

definition close_owned_peers ::
  "('a peers_scheme) closer \<Rightarrow> 'a peers_scheme \<Rightarrow> (bool option \<times> 'a peers_scheme) option"
where
  "close_owned_peers cl st =
    (if closing_peers st then Some (Some False, st)
     else map_option (\<lambda>(r, st). (r, st\<lparr>closing_peers := False\<rparr>))
            (close_peers_loop cl 0 False (st\<lparr>closing_peers := True\<rparr>)))"

definition owned_peer_count :: "'a peers_scheme \<Rightarrow> int" where
  "owned_peer_count st = to_int32 (int (length (owned st)))"

definition owned_peer_at :: "nat \<Rightarrow> 'a peers_scheme \<Rightarrow> nat option" where
  "owned_peer_at index st = (if index < length (owned st) then Some (owned st ! index) else None)"

section \<open>Registry lemmas\<close>

lemma set_remove_range_spec:
  assumes "0 < count" "index < length (set_sockets st)"
  shows "set_remove_range index count st =
    (True, st\<lparr>set_sockets := take index (set_sockets st) @ drop (index + count) (set_sockets st),
              set_error_code := err_none, set_error_state := 0\<rparr>)"
  using assms by (simp add: set_remove_range_def Let_def)

lemma set_remove_is_range:
  "set_remove index st = set_remove_range index 1 st"
  by (simp add: set_remove_def set_remove_range_def erase_at_def Let_def)

lemma find_index_Some:
  "find_index x xs = Some i \<Longrightarrow> i < length xs \<and> xs ! i = x \<and> x \<notin> set (take i xs)"
  by (induction xs arbitrary: i) (auto split: if_splits)

lemma find_index_None: "find_index x xs = None \<longleftrightarrow> x \<notin> set xs"
  by (induction xs) auto

lemma erase_find_index: "find_index x xs = Some i \<Longrightarrow> erase_at i xs = remove1 x xs"
  by (induction xs arbitrary: i) (auto simp: erase_at_def split: if_splits)

lemma broadcast_loop_counts:
  assumes "\<And>p s. wr p bytes count s = (f p, s)"
  shows "broadcast_loop wr bytes count ps d s =
    (d + int (length (filter (\<lambda>p. f p = count) ps)), s)"
  by (induction ps arbitrary: d) (simp_all add: assms)

section \<open>Membership follows ownership\<close>

definition peers_inv :: "'a peers_scheme \<Rightarrow> bool" where
  "peers_inv st \<longleftrightarrow> distinct (owned st) \<and> set_sockets (members st) = owned st"

lemma add_peer_inv:
  "peers_inv st \<Longrightarrow> p \<notin> set (owned st) \<Longrightarrow>
   add_peer (Some p) st = (r, st') \<Longrightarrow> peers_inv st' \<and> r = Some p \<and> owned st' = owned st @ [p]"
  by (auto simp: add_peer_def set_add_def peers_inv_def Let_def)

text \<open>Detaching a peer removes it from both lists.\<close>

definition detach :: "nat \<Rightarrow> 'a peers_scheme \<Rightarrow> 'a peers_scheme" where
  "detach p st =
    st\<lparr>members := (if p \<in> set (set_sockets (members st))
                   then (members st)\<lparr>set_sockets := remove1 p (set_sockets (members st)),
                                     set_error_code := err_none, set_error_state := 0\<rparr>
                   else members st),
       owned := remove1 p (owned st)\<rparr>"

lemma remove_owned_peer_eq:
  "remove_owned_peer cl del (Some p) st =
    (if p \<in> set (owned st)
     then let (r, st') = cl p (detach p st) in
          (case r of None \<Rightarrow> None | Some _ \<Rightarrow> Some True, del p st')
     else (Some False, st))"
proof (cases "find_index p (owned st)")
  case None
  then show ?thesis using find_index_None [of p "owned st"] by (simp add: remove_owned_peer_def)
next
  case (Some i)
  then have i: "p \<in> set (owned st)" "erase_at i (owned st) = remove1 p (owned st)"
    using find_index_None [of p "owned st"] by (auto simp: erase_find_index)
  show ?thesis
  proof (cases "find_index p (set_sockets (members st))")
    case None
    then show ?thesis
      using Some i find_index_None [of p "set_sockets (members st)"]
      by (simp add: remove_owned_peer_def detach_def Let_def)
  next
    case (Some j)
    then have "p \<in> set (set_sockets (members st))" "j < length (set_sockets (members st))"
      "erase_at j (set_sockets (members st)) = remove1 p (set_sockets (members st))"
      using find_index_None [of p "set_sockets (members st)"] find_index_Some [OF Some]
      by (auto simp: erase_find_index)
    then show ?thesis
      using \<open>find_index p (owned st) = Some i\<close> Some i
      by (simp add: remove_owned_peer_def detach_def set_remove_def Let_def)
  qed
qed

lemma detach_inv: "peers_inv st \<Longrightarrow> peers_inv (detach p st) \<and> p \<notin> set (owned (detach p st))"
  by (auto simp: peers_inv_def detach_def remove1_idem)

section \<open>Closing every peer\<close>

lemma close_owned_peers_reentrant:
  "closing_peers st \<Longrightarrow> close_owned_peers cl st = Some (Some False, st)"
  by (simp add: close_owned_peers_def)

text \<open>Handlers that only retire peers: what is left is a subsequence of what was there.\<close>

definition only_retires :: "('a peers_scheme) closer \<Rightarrow> bool" where
  "only_retires cl \<longleftrightarrow> (\<forall>p st. subseq (owned (snd (cl p st))) (owned st))"

lemma close_peers_loop_returns:
  assumes "only_retires cl"
  shows "\<exists>res. close_peers_loop cl index changed st = Some res"
proof (induction "length (owned st) - index" arbitrary: index changed st rule: less_induct)
  case less
  show ?case
  proof (cases "index < length (owned st)")
    case True
    obtain r st' where c: "cl (owned st ! index) st = (r, st')" by fastforce
    have sub: "subseq (owned st') (owned st)"
      using assms c unfolding only_retires_def by (metis snd_conv)
    let ?i = "if index < length (owned st') \<and> owned st' ! index = owned st ! index
      then Suc index else index"
    have le: "length (owned st') \<le> length (owned st)" by (rule list_emb_length [OF sub])
    have "length (owned st') - ?i < length (owned st) - index"
    proof (cases "length (owned st') = length (owned st)")
      case same: True
      then have "owned st' = owned st" by (rule subseq_same_length [OF sub])
      with True show ?thesis by simp
    next
      case False
      with le True show ?thesis by auto
    qed
    then have "\<exists>res. close_peers_loop cl ?i c st' = Some res" for c by (rule less)
    then show ?thesis
      using True c by (subst close_peers_loop.simps) (auto simp: Let_def split: option.splits)
  next
    case False
    then show ?thesis by (subst close_peers_loop.simps) simp
  qed
qed

lemma close_owned_peers_returns:
  "only_retires cl \<Longrightarrow> \<exists>r st'. close_owned_peers cl st = Some (r, st')"
  using close_peers_loop_returns [of cl 0 False "st\<lparr>closing_peers := True\<rparr>"]
  by (auto simp: close_owned_peers_def)

text \<open>
  When each close retires at most one peer at or before the slot being closed, no peer is missed.
  The collection owns every peer once.
\<close>

definition retires_few :: "('a peers_scheme) closer \<Rightarrow> bool" where
  "retires_few cl \<longleftrightarrow>
    (\<forall>st i. distinct (owned st) \<and> i < length (owned st) \<longrightarrow>
       (\<exists>keep. owned (snd (cl (owned st ! i) st)) = filter keep (owned st) \<and>
          length (filter (\<lambda>p. \<not> keep p) (take (Suc i) (owned st))) \<le> 1))"

lemma filter_few_prefix:
  assumes "length (filter (\<lambda>p. \<not> keep p) (take (Suc i) xs)) \<le> 1"
  shows "set (take i (filter keep xs)) \<subseteq> set (take (Suc i) xs)"
proof (cases "Suc i \<le> length xs")
  case True
  let ?a = "take (Suc i) xs"
  have split: "filter keep xs = filter keep ?a @ filter keep (drop (Suc i) xs)"
    by (metis append_take_drop_id filter_append)
  have "length ?a = length (filter keep ?a) + length (filter (\<lambda>p. \<not> keep p) ?a)"
    by (simp only: sum_length_filter_compl)
  then have "i \<le> length (filter keep ?a)" using assms True by simp
  then have "take i (filter keep xs) = take i (filter keep ?a)" using split by simp
  then show ?thesis by (auto dest: in_set_takeD)
next
  case False
  then show ?thesis by (auto dest: in_set_takeD)
qed

lemma filter_same_slot:
  assumes "distinct xs" "i < length xs" "i < length (filter keep xs)" "filter keep xs ! i = xs ! i"
  shows "take (Suc i) (filter keep xs) = take (Suc i) xs"
proof -
  let ?a = "take (Suc i) xs" and ?b = "drop (Suc i) xs"
  have split: "filter keep xs = filter keep ?a @ filter keep ?b"
    by (metis append_take_drop_id filter_append)
  have at: "xs ! i \<in> set ?a" using assms(2) by (simp add: take_Suc_conv_app_nth)
  have apart: "set ?a \<inter> set ?b = {}" using assms(1) by (rule set_take_disj_set_drop_if_distinct) simp
  have "\<not> length (filter keep ?a) \<le> i"
  proof
    assume short: "length (filter keep ?a) \<le> i"
    have "i - length (filter keep ?a) < length (filter keep ?b)"
      using split assms(3) short by (metis add_diff_inverse_nat length_append nat_add_left_cancel_less not_le)
    moreover have "filter keep xs ! i = filter keep ?b ! (i - length (filter keep ?a))"
      using split short by (metis nth_append not_le)
    ultimately have "filter keep xs ! i \<in> set (filter keep ?b)" by (metis nth_mem)
    then show False using at apart assms(4) by auto
  qed
  then have "length (filter keep ?a) = length ?a"
    using length_filter_le [of keep ?a] assms(2) by simp
  then have "filter keep ?a = ?a" by (metis length_filter_less less_irrefl filter_True)
  then show ?thesis using split assms(2) by simp
qed

text \<open>
  The closed peers are the ones \<open>dn\<close> holds of. It is set by the close of a peer and kept by
  every later one; a peer that a handler retires is closed on the way out.
\<close>

definition marks_closed :: "('a peers_scheme) closer \<Rightarrow> (nat \<Rightarrow> 'a peers_scheme \<Rightarrow> bool) \<Rightarrow> bool" where
  "marks_closed cl dn \<longleftrightarrow>
    (\<forall>p q st. dn p (snd (cl p st)) \<and> (dn q st \<longrightarrow> dn q (snd (cl p st))) \<and>
       (\<forall>c. dn q (st\<lparr>closing_peers := c\<rparr>) = dn q st))"

definition closes_retired :: "('a peers_scheme) closer \<Rightarrow> (nat \<Rightarrow> 'a peers_scheme \<Rightarrow> bool) \<Rightarrow> bool" where
  "closes_retired cl dn \<longleftrightarrow>
    (\<forall>p st. \<forall>q\<in>set (owned st). q \<in> set (owned (snd (cl p st))) \<or> dn q (snd (cl p st)))"

lemma close_peers_step:
  assumes "retires_few cl" "marks_closed cl dn" "closes_retired cl dn" "distinct (owned st)" "index < length (owned st)"
    and "\<forall>q\<in>set (take index (owned st)). dn q st" "cl (owned st ! index) st = (r, st')"
  defines "i \<equiv> if index < length (owned st') \<and> owned st' ! index = owned st ! index
    then Suc index else index"
  shows "distinct (owned st') \<and> length (owned st') \<le> length (owned st) \<and>
    (\<forall>q. q \<in> set (owned st) \<or> dn q st \<longrightarrow> q \<in> set (owned st') \<or> dn q st') \<and>
    length (owned st') - i < length (owned st) - index \<and> (\<forall>q\<in>set (take i (owned st')). dn q st')"
proof -
  obtain keep where k: "owned st' = filter keep (owned st)"
    "length (filter (\<lambda>p. \<not> keep p) (take (Suc index) (owned st))) \<le> 1"
    using assms(1,4,5,7) unfolding retires_few_def by (metis snd_conv)
  have "\<forall>q\<in>set (take (Suc index) (owned st)). dn q st'"
    using assms(2,5-7) unfolding marks_closed_def
    by (auto simp: take_Suc_conv_app_nth) (metis snd_conv)+
  moreover have "set (take i (owned st')) \<subseteq> set (take (Suc index) (owned st))"
    using filter_few_prefix [OF k(2)] filter_same_slot [OF assms(4,5), of keep] k(1)
    by (auto simp: i_def simp del: take_Suc_conv_app_nth split: if_splits)
  moreover have le: "length (owned st') \<le> length (owned st)" using k(1) by simp
  moreover have "length (owned st') - i < length (owned st) - index"
  proof (cases "length (owned st') = length (owned st)")
    case True
    then have "owned st' = owned st" using k(1) by (metis filter_True length_filter_less less_irrefl)
    then show ?thesis using assms(5) by (simp add: i_def)
  next
    case False
    then show ?thesis using le assms(5) by (auto simp: i_def)
  qed
  moreover have "\<forall>q. q \<in> set (owned st) \<or> dn q st \<longrightarrow> q \<in> set (owned st') \<or> dn q st'"
    using assms(2,3,7) unfolding marks_closed_def closes_retired_def by (metis snd_conv)
  ultimately show ?thesis using assms(4) k(1) by auto
qed

lemma close_peers_loop_closes:
  assumes "retires_few cl" "marks_closed cl dn" "closes_retired cl dn"
  shows "distinct (owned st) \<Longrightarrow> \<forall>q\<in>set (take index (owned st)). dn q st \<Longrightarrow>
    \<exists>r st'. close_peers_loop cl index changed st = Some (r, st') \<and>
      (r \<noteq> None \<longrightarrow> (\<forall>q. q \<in> set (owned st) \<union> set (owned st') \<or> dn q st \<longrightarrow> dn q st'))"
proof (induction "length (owned st) - index" arbitrary: index changed st rule: less_induct)
  case less
  show ?case
  proof (cases "index < length (owned st)")
    case True
    obtain r st1 where c: "cl (owned st ! index) st = (r, st1)" by fastforce
    note step = close_peers_step [OF assms less.prems(1) True less.prems(2) c]
    show ?thesis
    proof (cases r)
      case None
      then show ?thesis using True c by (subst close_peers_loop.simps) (simp add: Let_def)
    next
      case (Some b)
      let ?i = "if index < length (owned st1) \<and> owned st1 ! index = owned st ! index
        then Suc index else index"
      obtain r' st' where l: "close_peers_loop cl ?i (b \<or> changed) st1 = Some (r', st')"
        "r' \<noteq> None \<longrightarrow> (\<forall>q. q \<in> set (owned st1) \<union> set (owned st') \<or> dn q st1 \<longrightarrow> dn q st')"
        using less.hyps [of st1 ?i "b \<or> changed"] step by blast
      have "close_peers_loop cl index changed st = Some (r', st')"
        using True c Some l(1) by (subst close_peers_loop.simps) (simp add: Let_def)
      then show ?thesis using l(2) step by blast
    qed
  next
    case False
    then show ?thesis using less.prems by (subst close_peers_loop.simps) simp
  qed
qed

lemma close_owned_peers_closes_all:
  assumes "retires_few cl" "marks_closed cl dn" "closes_retired cl dn" "distinct (owned st)"
    "\<not> closing_peers st"
  shows "\<exists>r st'. close_owned_peers cl st = Some (r, st') \<and> \<not> closing_peers st' \<and>
    (r \<noteq> None \<longrightarrow> (\<forall>q\<in>set (owned st) \<union> set (owned st'). dn q st'))"
proof -
  obtain r st' where l: "close_peers_loop cl 0 False (st\<lparr>closing_peers := True\<rparr>) = Some (r, st')"
    "r \<noteq> None \<longrightarrow> (\<forall>q. q \<in> set (owned st) \<union> set (owned st') \<or> dn q (st\<lparr>closing_peers := True\<rparr>) \<longrightarrow> dn q st')"
    using close_peers_loop_closes [OF assms(1-3), of "st\<lparr>closing_peers := True\<rparr>" 0 False] assms(4) by auto
  then show ?thesis
    using assms(2,5) by (auto simp: close_owned_peers_def marks_closed_def)
qed

section \<open>A collection whose close handlers retire peers\<close>

text \<open>
  Instances for evaluation: a state that logs the closed peers, and handlers that retire the
  peers \<open>f p\<close> when \<open>p\<close> is closed.
\<close>

record logged_peers = peers +
  closed_log :: "nat list"

definition log_close :: "logged_peers closer" where
  "log_close p st = (Some True, st\<lparr>closed_log := p # closed_log st\<rparr>)"

definition retire_logged :: "nat \<Rightarrow> logged_peers \<Rightarrow> logged_peers" where
  "retire_logged q st = snd (remove_owned_peer log_close (\<lambda>_. id) (Some q) st)"

definition retiring_close :: "(nat \<Rightarrow> nat list) \<Rightarrow> logged_peers closer" where
  "retiring_close f p st =
    (Some True, fold retire_logged (f p) (snd (log_close p st)))"

definition logged :: "nat list \<Rightarrow> logged_peers" where
  "logged ps = \<lparr>owned = ps, members = set_empty\<lparr>set_sockets := ps\<rparr>, closing_peers = False,
     closed_log = []\<rparr>"

lemma log_close_simps [simp]:
  "owned (snd (log_close p st)) = owned st" "closed_log (snd (log_close p st)) = p # closed_log st"
  by (simp_all add: log_close_def)

lemma log_close_retires: "only_retires log_close"
  by (auto simp: only_retires_def)

text \<open>What a retiring handler leaves: the peers it does not name, and a log of what it closed.\<close>

lemma retire_one:
  "owned (retire_logged q st) = remove1 q (owned st)"
  "closed_log (retire_logged q st) = (if q \<in> set (owned st) then [q] else []) @ closed_log st"
  by (simp_all add: retire_logged_def remove_owned_peer_eq log_close_def detach_def remove1_idem)

lemma retire_all:
  "owned (fold retire_logged qs st) = fold remove1 qs (owned st) \<and>
   set (closed_log (fold retire_logged qs st)) = set (closed_log st) \<union> set qs \<inter> set (owned st)"
proof (induction qs arbitrary: st)
  case (Cons q qs)
  have "insert q (set qs \<inter> set (remove1 q (owned st))) = insert q (set qs \<inter> set (owned st))"
    using set_remove1_subset [of q "owned st"] by (auto simp: in_set_remove1)
  then show ?case
    using Cons [of "retire_logged q st"] set_remove1_subset [of q "owned st"]
    by (auto simp: retire_one dest: notin_set_remove1)
qed simp

lemma fold_remove1_filter: "distinct xs \<Longrightarrow> fold remove1 qs xs = filter (\<lambda>x. x \<notin> set qs) xs"
  by (induction qs arbitrary: xs) (auto simp: distinct_remove1_removeAll removeAll_filter_not_eq
      intro!: filter_cong)

lemma retiring_close_result:
  "fst (retiring_close f p st) = Some True"
  "owned (snd (retiring_close f p st)) = fold remove1 (f p) (owned st)"
  "set (closed_log (snd (retiring_close f p st))) =
    insert p (set (closed_log st) \<union> set (f p) \<inter> set (owned st))"
  by (simp_all add: retiring_close_def retire_all)

lemma retiring_close_marks:
  "marks_closed (retiring_close f) (\<lambda>p st. p \<in> set (closed_log st))"
  by (simp add: marks_closed_def retiring_close_result)

lemma fold_remove1_keeps: "x \<in> set xs \<Longrightarrow> x \<notin> set qs \<Longrightarrow> x \<in> set (fold remove1 qs xs)"
  by (induction qs arbitrary: xs) auto

lemma retiring_close_closes:
  "closes_retired (retiring_close f) (\<lambda>p st. p \<in> set (closed_log st))"
  using fold_remove1_keeps by (fastforce simp: closes_retired_def retiring_close_result)

text \<open>Retiring at most one peer through \<open>remove_owned_peer\<close> is within the bound.\<close>

lemma retiring_close_few:
  assumes "\<And>p. length (f p) \<le> 1"
  shows "retires_few (retiring_close f)"
  unfolding retires_few_def
proof (intro allI impI)
  fix st :: logged_peers and i
  assume d: "distinct (owned st) \<and> i < length (owned st)"
  let ?gone = "set (f (owned st ! i))" and ?pre = "take (Suc i) (owned st)"
  have "card (set (filter (\<lambda>p. \<not> p \<notin> ?gone) ?pre)) \<le> card ?gone" by (intro card_mono) auto
  also have "\<dots> \<le> 1" using card_length [of "f (owned st ! i)"] assms le_trans by blast
  finally have "length (filter (\<lambda>p. \<not> p \<notin> ?gone) ?pre) \<le> 1"
    using d distinct_card [of "filter (\<lambda>p. \<not> p \<notin> ?gone) ?pre"] by simp
  then show "\<exists>keep. owned (snd (retiring_close f (owned st ! i) st)) = filter keep (owned st) \<and>
      length (filter (\<lambda>p. \<not> keep p) ?pre) \<le> 1"
    using fold_remove1_filter [of "owned st" "f (owned st ! i)"] d
    by (intro exI [of _ "\<lambda>p. p \<notin> ?gone"]) (simp add: retiring_close_result)
qed

text \<open>While no handler retires a peer, the loop closes one slot after the other.\<close>

lemma close_peers_loop_plain:
  assumes "index \<le> j" "j \<le> length (owned st)"
    and "\<forall>p\<in>set (take (j - index) (drop index (owned st))). f p = []"
  shows "close_peers_loop (retiring_close f) index changed st =
    close_peers_loop (retiring_close f) j (changed \<or> index < j)
      (st\<lparr>closed_log := rev (take (j - index) (drop index (owned st))) @ closed_log st\<rparr>)"
  using assms
proof (induction "j - index" arbitrary: index changed st)
  case (Suc n)
  then have lt: "index < j" "index < length (owned st)" by simp_all
  let ?p = "owned st ! index" and ?st = "st\<lparr>closed_log := owned st ! index # closed_log st\<rparr>"
  have split: "take (j - index) (drop index (owned st)) =
      ?p # take (j - Suc index) (drop (Suc index) (owned st))"
    using lt by (metis Cons_nth_drop_Suc Suc_diff_Suc take_Suc_Cons)
  then have c: "retiring_close f ?p st = (Some True, ?st)"
    using Suc.prems(3) by (simp add: retiring_close_def log_close_def)
  have "close_peers_loop (retiring_close f) index changed st =
      close_peers_loop (retiring_close f) (Suc index) True ?st"
    using lt(2) c by (subst close_peers_loop.simps) (simp add: Let_def)
  also have "\<dots> = close_peers_loop (retiring_close f) j (True \<or> Suc index < j)
      (?st\<lparr>closed_log := rev (take (j - Suc index) (drop (Suc index) (owned ?st))) @ closed_log ?st\<rparr>)"
    using Suc.hyps(2) Suc.prems lt split by (intro Suc.hyps(1)) simp_all
  finally show ?case using split lt(1) by simp
qed simp

lemma close_peers_loop_plain_end:
  assumes "index \<le> length (owned st)" "\<forall>p\<in>set (drop index (owned st)). f p = []"
  shows "close_peers_loop (retiring_close f) index True st =
    Some (Some True, st\<lparr>closed_log := rev (drop index (owned st)) @ closed_log st\<rparr>)"
  using assms close_peers_loop_plain [of index "length (owned st)" st f True]
    close_peers_loop.simps [of "retiring_close f" "length (owned st)" True
      "st\<lparr>closed_log := rev (drop index (owned st)) @ closed_log st\<rparr>"]
  by simp

text \<open>
  A handler at slot \<open>i\<close> that retires \<open>rs\<close>, all at or before the slot: the peers
  behind move up by \<open>length rs\<close>, the recheck of the slot makes up for one of them.
\<close>

lemma retired_prefix:
  assumes "distinct ps" "i < length ps" "distinct rs" "rs \<noteq> []" "set rs \<subseteq> set (take (Suc i) ps)"
  defines "ys \<equiv> filter (\<lambda>x. x \<notin> set rs) ps"
  shows "i < length ys \<Longrightarrow> ys ! i \<noteq> ps ! i" "drop i ys = drop (i + length rs) ps"
    "set (drop (Suc i) ps) \<subseteq> set ys"
proof -
  let ?a = "filter (\<lambda>x. x \<notin> set rs) (take (Suc i) ps)"
  have apart: "set (take (Suc i) ps) \<inter> set (drop (Suc i) ps) = {}"
    using assms(1) by (rule set_take_disj_set_drop_if_distinct) simp
  then have "filter (\<lambda>x. x \<notin> set rs) (drop (Suc i) ps) = drop (Suc i) ps"
    using assms(5) by (intro filter_True) blast
  then have ys: "ys = ?a @ drop (Suc i) ps"
    unfolding ys_def by (metis append_take_drop_id filter_append)
  have "length ?a = card (set ?a)" using assms(1) by (intro distinct_card [symmetric]) simp
  also have "set ?a = set (take (Suc i) ps) - set rs" by auto
  also have "card \<dots> = card (set (take (Suc i) ps)) - card (set rs)"
    using assms(5) by (intro card_Diff_subset) simp_all
  also have "\<dots> = Suc i - length rs" using assms(1-3) by (simp add: distinct_card)
  finally have len: "length ?a = Suc i - length rs" .
  obtain n where m: "length rs = Suc n" using assms(4) by (cases rs) auto
  have le: "length rs \<le> Suc i"
    using assms(2,3,5) card_mono [OF _ assms(5)] by (simp add: distinct_card assms(1))
  show d: "drop i ys = drop (i + length rs) ps" using ys len m le by (simp add: add.commute)
  show "set (drop (Suc i) ps) \<subseteq> set ys" using ys by simp
  show "ys ! i \<noteq> ps ! i" if "i < length ys"
  proof -
    have "ys ! i \<in> set (drop i ys)" using that by (metis Cons_nth_drop_Suc list.set_intros(1))
    then have "ys ! i \<in> set (drop (Suc i) ps)"
      using d m set_drop_subset_set_drop [of "Suc i" "i + length rs" ps] by auto
    moreover have "ps ! i \<in> set (take (Suc i) ps)" using assms(2) by (simp add: take_Suc_conv_app_nth)
    ultimately show ?thesis using apart by auto
  qed
qed

lemma missed_slots:
  assumes "distinct ps" "j \<le> k" "set cl = set (take j ps) \<union> set (drop k ps)"
  shows "set ps - set cl = set (drop j (take k ps))"
proof -
  have ps: "ps = take j ps @ drop j (take k ps) @ drop k ps"
    using assms(2) by (metis append_assoc append_take_drop_id min.absorb1 take_take)
  then have "set ps = set (take j ps) \<union> set (drop j (take k ps)) \<union> set (drop k ps)"
    by (metis Un_assoc set_append)
  moreover have "set (drop j (take k ps)) \<inter> (set (take j ps) \<union> set (drop k ps)) = {}"
    using assms(1) ps by (metis Int_Un_distrib Int_commute Un_empty distinct_append set_append)
  ultimately show ?thesis using assms(3) by blast
qed

lemma close_peers_around_retirement:
  assumes "distinct ps" "i < length ps" "distinct rs" "rs \<noteq> []" "set rs \<subseteq> set (take (Suc i) ps)"
  defines "f \<equiv> \<lambda>p. if p = ps ! i then rs else []"
  shows "\<exists>st'. close_owned_peers (retiring_close f) (logged ps) = Some (Some True, st') \<and>
    owned st' = filter (\<lambda>x. x \<notin> set rs) ps \<and>
    set (closed_log st') = set (take (Suc i) ps) \<union> set (drop (i + length rs) ps)"
proof -
  let ?ys = "filter (\<lambda>x. x \<notin> set rs) ps"
  let ?st1 = "(logged ps)\<lparr>closing_peers := True, closed_log := rev (take i ps)\<rparr>"
  note pre = retired_prefix [OF assms(1-5)]
  have logged [simp]: "owned (logged ps) = ps" "closed_log (logged ps) = []" "\<not> closing_peers (logged ps)"
    by (simp_all add: logged_def)
  have here: "ps ! i \<notin> set (take i ps)" "ps ! i \<notin> set (drop (i + length rs) ps)"
    using assms(1,2,4) by (auto simp: in_set_conv_nth nth_eq_iff_index_eq)
  obtain st2 where c: "retiring_close f (ps ! i) ?st1 = (Some True, st2)" "owned st2 = ?ys"
    "set (closed_log st2) = set (take (Suc i) ps)"
  proof
    show "retiring_close f (ps ! i) ?st1 = (Some True, snd (retiring_close f (ps ! i) ?st1))"
      by (simp add: prod_eq_iff retiring_close_result)
    show "owned (snd (retiring_close f (ps ! i) ?st1)) = ?ys"
      using fold_remove1_filter [OF assms(1)] by (simp add: retiring_close_result f_def)
    have "set rs \<subseteq> set ps" using assms(5) set_take_subset by fastforce
    then show "set (closed_log (snd (retiring_close f (ps ! i) ?st1))) = set (take (Suc i) ps)"
      using assms(2,5) by (auto simp: retiring_close_result f_def take_Suc_conv_app_nth)
  qed
  have le: "i \<le> length ?ys \<or> drop i ?ys = []" by (cases "i \<le> length ?ys") auto
  have "close_peers_loop (retiring_close f) 0 False ((logged ps)\<lparr>closing_peers := True\<rparr>) =
      close_peers_loop (retiring_close f) i (0 < i) ?st1"
    using close_peers_loop_plain [of 0 i "(logged ps)\<lparr>closing_peers := True\<rparr>" f False] assms(2) here(1)
    by (auto simp: f_def)
  also have "\<dots> = close_peers_loop (retiring_close f) i True st2"
  proof -
    have "\<not> (i < length (owned st2) \<and> owned st2 ! i = ps ! i)" using c(2) pre(1) by auto
    then show ?thesis using assms(2) c(1) by (subst close_peers_loop.simps) (auto simp: Let_def)
  qed
  also have "\<dots> = Some (Some True, st2\<lparr>closed_log := rev (drop i ?ys) @ closed_log st2\<rparr>)"
  proof (cases "i \<le> length ?ys")
    case True
    then show ?thesis
      using close_peers_loop_plain_end [of i st2 f] c(2) pre(2) here(2) by (auto simp: f_def)
  next
    case False
    then show ?thesis using c(2) by (subst close_peers_loop.simps) simp
  qed
  finally show ?thesis using c(2,3) pre(2) by (simp add: close_owned_peers_def Un_commute)
qed

section \<open>Properties\<close>

text \<open>
  Removing an owned peer detaches it from the owning list and from the membership list
  before its close handler runs, so the handler, which may remove further peers, works on a
  consistent collection that no longer contains it; the object is destroyed afterwards even if
  the handler throws. A peer that is not owned is refused and nothing happens.
\<close>

lemma remove_owned_peer_detaches_first:
  assumes "peers_inv st"
  shows "peers_inv (detach p st) \<and> p \<notin> set (owned (detach p st)) \<and>
    p \<notin> set (set_sockets (members (detach p st))) \<and>
    remove_owned_peer cl del (Some p) st =
      (if p \<in> set (owned st)
       then (case fst (cl p (detach p st)) of None \<Rightarrow> None | Some _ \<Rightarrow> Some True,
             del p (snd (cl p (detach p st))))
       else (Some False, st))"
  using detach_inv [OF assms, of p] by (simp add: remove_owned_peer_eq peers_inv_def split_beta)

text \<open>
  Closing all peers returns whenever the handlers only retire peers: the loop over a list
  that shrinks under it cannot run forever. While it runs, a nested call by a handler returns at
  once and changes nothing.
\<close>

lemma close_owned_peers_terminates:
  assumes "only_retires cl"
  shows "(\<exists>r st'. close_owned_peers cl st = Some (r, st')) \<and>
    close_owned_peers cl (st\<lparr>closing_peers := True\<rparr>) = Some (Some False, st\<lparr>closing_peers := True\<rparr>)"
  using close_owned_peers_returns [OF assms] by (simp add: close_owned_peers_reentrant)

text \<open>
  C8. Closing all peers reaches every peer, provided each handler retires at most one peer at or
  before the slot being closed and closes what it retires, as \<open>remove_owned_peer\<close> does: the
  call returns, the guard flag is released, and unless a handler threw, every peer owned before the
  call, and every one still owned after it, has been closed.
\<close>

theorem close_owned_peers_reaches_every_peer:
  assumes "retires_few cl" "marks_closed cl dn" "closes_retired cl dn" "distinct (owned st)"
    "\<not> closing_peers st"
  shows "\<exists>r st'. close_owned_peers cl st = Some (r, st') \<and> \<not> closing_peers st' \<and>
    (r = None \<or> (\<forall>q. q \<in> set (owned st) \<union> set (owned st') \<longrightarrow> dn q st'))"
  using close_owned_peers_closes_all [OF assms] by (metis (no_types, lifting))

text \<open>
  The handler of peer 12 retires peer 10, the one of peer 13 retires itself: the slots shift twice
  and all four peers are closed.
\<close>

theorem close_owned_peers_reaches_every_peer_witness:
  "\<exists>r st'. close_owned_peers (retiring_close (\<lambda>p. if p = 12 then [10] else if p = 13 then [13] else []))
      (logged [10, 11, 12, 13]) = Some (r, st') \<and> \<not> closing_peers st' \<and>
    (r = None \<or> {10, 11, 12, 13} \<subseteq> set (closed_log st'))"
proof -
  let ?f = "\<lambda>p :: nat. if p = 12 then [10] else if p = 13 then [13] else [] :: nat list"
  have "length (?f p) \<le> 1" for p by simp
  note few = retiring_close_few [of ?f, OF this]
  show ?thesis
    using close_owned_peers_reaches_every_peer [OF few retiring_close_marks retiring_close_closes,
        of "logged [10, 11, 12, 13]"]
    by (auto simp: logged_def)
qed

text \<open>
  C40. The proviso on the handlers is needed, and the loss is exact: when the handler at slot
  \<open>i\<close> retires peers at or before the slot, say \<open>n\<close> of them, the next
  \<open>n - 1\<close> peers behind the slot, as far as there are any, are the ones that are never
  closed. They stay owned, and the call still reports success.
\<close>

theorem close_owned_peers_can_miss_a_peer:
  assumes "distinct ps" "i < length ps" "distinct rs" "rs \<noteq> []" "set rs \<subseteq> set (take (Suc i) ps)"
  shows "\<exists>st'. close_owned_peers (retiring_close (\<lambda>p. if p = ps ! i then rs else [])) (logged ps) =
      Some (Some True, st') \<and>
    set ps - set (closed_log st') = set (drop (Suc i) (take (i + length rs) ps)) \<and>
    set ps - set (closed_log st') \<subseteq> set (owned st')"
proof -
  obtain st' where st': "close_owned_peers (retiring_close (\<lambda>p. if p = ps ! i then rs else [])) (logged ps) =
      Some (Some True, st')" "owned st' = filter (\<lambda>x. x \<notin> set rs) ps"
    "set (closed_log st') = set (take (Suc i) ps) \<union> set (drop (i + length rs) ps)"
    using close_peers_around_retirement [OF assms] by blast
  have m: "Suc i \<le> i + length rs" using assms(4) by (cases rs) auto
  have "set ps - set (closed_log st') = set (drop (Suc i) (take (i + length rs) ps))"
    using assms(1) m st'(3) by (rule missed_slots)
  moreover have "set ps - set (closed_log st') \<subseteq> set (owned st')" using st'(2,3) assms(5) by auto
  ultimately show ?thesis using st'(1) by blast
qed

text \<open>The handler of the third of five peers retires the first two: the fourth is missed.\<close>

theorem close_owned_peers_can_miss_a_peer_witness:
  "\<exists>st'. close_owned_peers (retiring_close (\<lambda>p. if p = 12 then [10, 11] else []))
      (logged [10, 11, 12, 13, 14]) = Some (Some True, st') \<and>
    {10, 11, 12, 13, 14} - set (closed_log st') = {13} \<and> 13 \<in> set (owned st')"
  using close_owned_peers_can_miss_a_peer [of "[10, 11, 12, 13, 14]" 2 "[10, 11]"]
  by (auto simp: numeral_eq_Suc)

end
