(* ===== verification/Udp_Server.thy ===== *)
theory Udp_Server
  imports Udp Peer_Collection
begin

text \<open>
  \<open>src/udp_server_socket.cpp\<close>: one native descriptor and a collection of logical peers, one
  per remote endpoint. The state extends the peer collection with the server object, the peer
  objects by address, the next free address and the world.
\<close>

section \<open>State\<close>

record udp_server = peers +
  server :: udp_sock
  uheap :: "nat \<Rightarrow> udp_sock"
  unext :: nat
  uworld :: world

definition with_server ::
  "(udp_sock \<Rightarrow> world \<Rightarrow> 'r \<times> udp_sock \<times> world) \<Rightarrow> udp_server \<Rightarrow> 'r \<times> udp_server" where
  "with_server f st =
    (let (r, s, w) = f (server st) (uworld st) in (r, st\<lparr>server := s, uworld := w\<rparr>))"

text \<open>Closing and destroying a peer: the virtual \<open>close()\<close> of a logical peer.\<close>

definition peer_close :: "os \<Rightarrow> udp_server closer" where
  "peer_close os p st =
    (let (b, s, w) = udp_close (Some (server st)) os (uheap st p) (uworld st) in
     (Some b, st\<lparr>uheap := (uheap st)(p := s), uworld := w\<rparr>))"

definition peer_destroy :: "os \<Rightarrow> nat \<Rightarrow> udp_server \<Rightarrow> udp_server" where
  "peer_destroy os p st = snd (peer_close os p st)"

section \<open>Finding and creating peers\<close>

fun find_udp_peer_loop :: "(nat \<Rightarrow> udp_sock) \<Rightarrow> address \<Rightarrow> nat list \<Rightarrow> nat option" where
  "find_udp_peer_loop heap remote [] = None"
| "find_udp_peer_loop heap remote (p # ps) =
    (if same_udp_address (get_remote_address (heap p)) remote then Some p
     else find_udp_peer_loop heap remote ps)"

definition find_udp_peer :: "address \<Rightarrow> udp_server \<Rightarrow> nat option" where
  "find_udp_peer remote st = find_udp_peer_loop (uheap st) remote (set_sockets (members st))"

text \<open>The server's own address is \<open>0\<close>.\<close>

definition new_udp_peer :: "os \<Rightarrow> address \<Rightarrow> udp_server \<Rightarrow> nat \<times> udp_server" where
  "new_udp_peer os remote st =
    (let (s, w) = udp_peer_new os (Some 0) remote (uworld st); p = unext st in
     (p, st\<lparr>uheap := (uheap st)(p := s), unext := p + 1, uworld := w\<rparr>))"

definition get_or_create_udp_peer :: "os \<Rightarrow> address \<Rightarrow> udp_server \<Rightarrow> nat option \<times> udp_server" where
  "get_or_create_udp_peer os remote st =
    (if \<not> is_valid_socket (server st) then (None, st)
     else
       let found = find_udp_peer remote st in
       if found \<noteq> None \<and> udp_is_valid (Some (server st)) (uheap st (the found)) then (found, st)
       else
         let st = (case found of
                     Some existing \<Rightarrow>
                       snd (remove_owned_peer (peer_close os) (peer_destroy os) (Some existing) st)
                   | None \<Rightarrow> st);
             endpoint = get_sockaddr_storage remote in
         if ss_family endpoint \<noteq> AF_INET \<and> ss_family endpoint \<noteq> AF_INET6 then (None, st)
         else let (p, st) = new_udp_peer os remote st in add_peer (Some p) st)"

section \<open>The server\<close>

definition udp_server_listen :: "os \<Rightarrow> int \<Rightarrow> udp_server \<Rightarrow> (bool \<times> udp_server) option" where
  "udp_server_listen os p st =
    (let (ok, st) = with_server (udp_listen os p) st in
     if ok then map_option (\<lambda>(_, st). (ok, st)) (close_owned_peers (peer_close os) st)
     else Some (ok, st))"

definition udp_server_close :: "os \<Rightarrow> udp_server \<Rightarrow> (bool \<times> udp_server) option" where
  "udp_server_close os st =
    (let (changed, st) =
       with_server (udp_close (None :: sock option) os) st in
     map_option (\<lambda>(c, st). (c = Some True \<or> changed, st)) (close_owned_peers (peer_close os) st))"

definition udp_server_remove_peer :: "os \<Rightarrow> nat option \<Rightarrow> udp_server \<Rightarrow> bool \<times> udp_server" where
  "udp_server_remove_peer os peer st =
    (let (r, st) = remove_owned_peer (peer_close os) (peer_destroy os) peer st in
     (r = Some True, st))"

definition udp_server_read ::
  "os \<Rightarrow> byte list option \<Rightarrow> int \<Rightarrow> udp_server \<Rightarrow> (int \<times> byte list option) \<times> udp_server" where
  "udp_server_read os buffer sz st =
    (let (n, b, s, w) = udp_read (None :: sock option) os buffer sz (server st) (uworld st);
         st = st\<lparr>server := s, uworld := w\<rparr> in
     if n \<ge> 0
     then ((n, b), snd (get_or_create_udp_peer os (get_remote_address (server st)) st))
     else ((n, b), st))"

section \<open>One peer per endpoint\<close>

text \<open>
  The peers are distinct, below the next address, in both lists, well formed, and no two of them
  denote one endpoint.
\<close>

definition peer_endpoint :: "udp_server \<Rightarrow> nat \<Rightarrow> endpoint option" where
  "peer_endpoint st p = endpoint_of (get_remote_address (uheap st p))"

definition udp_server_inv :: "udp_server \<Rightarrow> bool" where
  "udp_server_inv st \<longleftrightarrow>
    peers_inv st \<and>
    (\<forall>p\<in>set (owned st). p < unext st \<and> sockaddr_wf (remote_addr (uheap st p)) \<and>
       peer_endpoint st p \<noteq> None) \<and>
    (\<forall>p\<in>set (owned st). \<forall>q\<in>set (owned st). peer_endpoint st p = peer_endpoint st q \<longrightarrow> p = q)"

lemma find_loop_Some:
  "find_udp_peer_loop heap remote ps = Some p \<Longrightarrow>
   p \<in> set ps \<and> same_udp_address (get_remote_address (heap p)) remote"
  by (induction ps) (auto split: if_splits)

lemma find_loop_None:
  "find_udp_peer_loop heap remote ps = None \<longleftrightarrow>
   (\<forall>p\<in>set ps. \<not> same_udp_address (get_remote_address (heap p)) remote)"
  by (induction ps) auto

lemma remote_address_wf: "address_wf (get_remote_address s) = sockaddr_wf (remote_addr s)"
  by (simp add: get_remote_address_def)

lemma find_udp_peer_Some:
  assumes "udp_server_inv st" "address_wf a" "find_udp_peer a st = Some p"
  shows "p \<in> set (owned st) \<and> peer_endpoint st p = endpoint_of a"
proof -
  have p: "p \<in> set (owned st)" "same_udp_address (get_remote_address (uheap st p)) a"
    using find_loop_Some assms(1,3)
    by (auto simp: find_udp_peer_def udp_server_inv_def peers_inv_def)
  then have "address_wf (get_remote_address (uheap st p))"
    using assms(1) by (simp add: remote_address_wf udp_server_inv_def)
  then show ?thesis using p same_udp_address_endpoint assms(2) by (simp add: peer_endpoint_def)
qed

lemma find_udp_peer_None:
  assumes "udp_server_inv st" "address_wf a" "find_udp_peer a st = None" "endpoint_of a \<noteq> None"
  shows "\<forall>p\<in>set (owned st). peer_endpoint st p \<noteq> endpoint_of a"
proof
  fix p assume p: "p \<in> set (owned st)"
  then have "\<not> same_udp_address (get_remote_address (uheap st p)) a"
    using assms(1,3) by (auto simp: find_udp_peer_def find_loop_None udp_server_inv_def peers_inv_def)
  moreover have "address_wf (get_remote_address (uheap st p))"
    using assms(1) p by (simp add: remote_address_wf udp_server_inv_def)
  ultimately show "peer_endpoint st p \<noteq> endpoint_of a"
    using same_udp_address_endpoint assms(2,4) by (auto simp: peer_endpoint_def)
qed

text \<open>Closing a peer keeps its endpoint, the lists, the server and the world.\<close>

lemma peer_close_eq:
  "peer_close os p st =
    (Some (peer_active (uheap st p)),
     st\<lparr>uheap := (uheap st)(p := (uheap st p)\<lparr>peer_active := False, connected := False\<rparr>)\<rparr>)"
  by (simp add: peer_close_def udp_close_def Let_def)

lemma peer_close_endpoint [simp]:
  "peer_endpoint (snd (peer_close os p st)) q = peer_endpoint st q"
  "remote_addr (uheap (snd (peer_close os p st)) q) = remote_addr (uheap st q)"
  by (simp_all add: peer_close_eq peer_endpoint_def get_remote_address_def)

lemma peer_close_inv [simp]: "udp_server_inv (snd (peer_close os p st)) = udp_server_inv st"
proof -
  have "owned (snd (peer_close os p st)) = owned st" "members (snd (peer_close os p st)) = members st"
    "unext (snd (peer_close os p st)) = unext st"
    by (simp_all add: peer_close_eq)
  then show ?thesis by (simp add: udp_server_inv_def peers_inv_def)
qed

lemma detach_udp_inv: "udp_server_inv st \<Longrightarrow> udp_server_inv (detach p st)"
proof -
  assume inv: "udp_server_inv st"
  have "set (owned (detach p st)) \<subseteq> set (owned st)"
    by (auto simp: detach_def dest: set_remove1_subset [THEN subsetD])
  moreover have "peer_endpoint (detach p st) = peer_endpoint st" "unext (detach p st) = unext st"
    "uheap (detach p st) = uheap st"
    by (simp_all add: detach_def peer_endpoint_def fun_eq_iff)
  ultimately show ?thesis
    using inv detach_inv [of st p] unfolding udp_server_inv_def by (metis subsetD)
qed

lemma remove_udp_peer_inv:
  assumes "udp_server_inv st"
  shows "udp_server_inv (snd (remove_owned_peer (peer_close os) (peer_destroy os) (Some p) st)) \<and>
    set (owned (snd (remove_owned_peer (peer_close os) (peer_destroy os) (Some p) st))) =
      set (owned st) - {p} \<and>
    (\<forall>q. peer_endpoint (snd (remove_owned_peer (peer_close os) (peer_destroy os) (Some p) st)) q =
      peer_endpoint st q) \<and>
    server (snd (remove_owned_peer (peer_close os) (peer_destroy os) (Some p) st)) = server st \<and>
    unext (snd (remove_owned_peer (peer_close os) (peer_destroy os) (Some p) st)) = unext st \<and>
    uworld (snd (remove_owned_peer (peer_close os) (peer_destroy os) (Some p) st)) = uworld st"
proof (cases "p \<in> set (owned st)")
  case False
  then show ?thesis using assms by (simp add: remove_owned_peer_eq)
next
  case True
  have d: "distinct (owned st)" using assms by (simp add: udp_server_inv_def peers_inv_def)
  have e: "snd (remove_owned_peer (peer_close os) (peer_destroy os) (Some p) st) =
    snd (peer_close os p (snd (peer_close os p (detach p st))))"
    using True by (simp add: remove_owned_peer_eq peer_destroy_def split_beta Let_def)
  have "udp_server_inv (detach p st)" by (rule detach_udp_inv [OF assms])
  moreover have "peer_endpoint (detach p st) q = peer_endpoint st q" for q
    by (simp add: detach_def peer_endpoint_def)
  moreover have "owned (snd (peer_close os p s)) = owned s" "server (snd (peer_close os p s)) = server s"
    "unext (snd (peer_close os p s)) = unext s" "uworld (snd (peer_close os p s)) = uworld s" for s
    by (simp_all add: peer_close_eq)
  ultimately show ?thesis unfolding e using d by (simp add: detach_def)
qed

lemma udp_peer_new_fields:
  "udp_peer_new os p a w = (s, w') \<Longrightarrow>
   remote_addr s = get_sockaddr_storage a \<and> peer_active s \<and> w' = w \<and> sockfd s = - 1 \<and> connected s"
  by (auto simp: udp_peer_new_def socket_adopt_def is_valid_socket_def udp_of_sock_def sock_init_def
      clear_buffers_def set_parent_server_def udp_sock.defs sock.defs)

text \<open>A new peer: the endpoint must not be taken yet.\<close>

lemma add_new_peer:
  assumes "udp_server_inv st" "address_wf a" "endpoint_of a \<noteq> None"
    and "\<forall>p\<in>set (owned st). peer_endpoint st p \<noteq> endpoint_of a"
    and "new_udp_peer os a st = (p, st1)" "add_peer (Some p) st1 = (r, st')"
  shows "udp_server_inv st' \<and> r = Some p \<and> p \<in> set (owned st') \<and> peer_endpoint st' p = endpoint_of a \<and>
    udp_is_valid (Some (server st')) (uheap st' p) = is_valid_socket (server st) \<and>
    server st' = server st \<and> uworld st' = uworld st"
proof -
  obtain s w' where n: "udp_peer_new os (Some 0) a (uworld st) = (s, w')" by fastforce
  note f = udp_peer_new_fields [OF n]
  have st1: "p = unext st" "st1 = st\<lparr>uheap := (uheap st)(p := s), unext := p + 1, uworld := w'\<rparr>"
    using assms(5) n by (auto simp: new_udp_peer_def Let_def)
  have fresh: "p \<notin> set (owned st1)" using assms(1) st1 by (auto simp: udp_server_inv_def)
  have "peers_inv st1" using assms(1) st1(2) by (simp add: udp_server_inv_def peers_inv_def)
  from add_peer_inv [OF this fresh assms(6)] have ad: "peers_inv st'" "r = Some p"
    "owned st' = owned st1 @ [p]" by auto
  have same: "uheap st' = uheap st1" "unext st' = unext st1" "server st' = server st1"
    "uworld st' = uworld st1"
    using assms(6) by (auto simp: add_peer_def set_add_def Let_def)
  have ep: "peer_endpoint st' q = (if q = p then endpoint_of a else peer_endpoint st q)" for q
  proof -
    have "address_of_storage (adr_storage a) = a"
      using assms(2) by (simp add: address_wf_def address_of_storage_def)
    then show ?thesis
      using same st1 f by (simp add: peer_endpoint_def get_remote_address_def get_sockaddr_storage_def)
  qed
  have old: "q \<in> set (owned st) \<Longrightarrow> q \<noteq> p" for q using fresh st1(2) by auto
  have "udp_server_inv st'"
    unfolding udp_server_inv_def
  proof (intro conjI)
    show "peers_inv st'" by (rule ad(1))
    show "\<forall>q\<in>set (owned st'). q < unext st' \<and> sockaddr_wf (remote_addr (uheap st' q)) \<and>
       peer_endpoint st' q \<noteq> None"
      using ad(3) same st1 f assms(1-3) ep
      by (auto simp: udp_server_inv_def address_wf_def get_sockaddr_storage_def)
    show "\<forall>q\<in>set (owned st'). \<forall>r\<in>set (owned st'). peer_endpoint st' q = peer_endpoint st' r \<longrightarrow> q = r"
    proof (intro ballI impI)
      fix q r assume qr: "q \<in> set (owned st')" "r \<in> set (owned st')" "peer_endpoint st' q = peer_endpoint st' r"
      have in_old: "x = p \<or> x \<in> set (owned st) \<and> x \<noteq> p" if "x \<in> set (owned st')" for x
        using that ad(3) st1(2) old by auto
      show "q = r"
        using in_old [OF qr(1)] in_old [OF qr(2)] qr(3) assms(1,4) ep
        by (auto simp: udp_server_inv_def)
    qed
  qed
  then show ?thesis
    using ad same st1 f ep [of p] by (auto simp: udp_is_valid_def)
qed

lemma endpoint_of_family:
  "(endpoint_of a \<noteq> None) = (ss_family (get_sockaddr_storage a) \<in> {AF_INET, AF_INET6})"
  by (auto simp: endpoint_of_def get_sockaddr_storage_def Let_def)

lemma add_peer_frame:
  "add_peer p st = (r, st') \<Longrightarrow> server st' = (server st :: udp_sock) \<and> uworld st' = uworld st"
  by (auto simp: add_peer_def set_add_def Let_def split: option.splits if_splits prod.splits)

lemma get_or_create_spec:
  assumes "udp_server_inv st" "address_wf a" "get_or_create_udp_peer os a st = (r, st')"
  shows "udp_server_inv st' \<and> server st' = server st \<and> uworld st' = uworld st \<and>
    (if is_valid_socket (server st) \<and> endpoint_of a \<noteq> None
     then \<exists>p. r = Some p \<and> p \<in> set (owned st') \<and> peer_endpoint st' p = endpoint_of a \<and>
       udp_is_valid (Some (server st')) (uheap st' p)
     else r = None \<and> owned st' = owned st)"
proof (cases "is_valid_socket (server st)")
  case False
  then show ?thesis using assms by (simp add: get_or_create_udp_peer_def)
next
  case valid: True
  show ?thesis
  proof (cases "endpoint_of a = None")
    case True
    have "find_udp_peer a st = None"
      using find_udp_peer_Some [OF assms(1,2)] True assms(1)
      by (cases "find_udp_peer a st") (auto simp: udp_server_inv_def)
    then show ?thesis
      using assms True valid endpoint_of_family [of a]
      by (auto simp: get_or_create_udp_peer_def Let_def simp del: AF_INET_def AF_INET6_def)
  next
    case ep: False
    have fam: "\<not> (ss_family (get_sockaddr_storage a) \<noteq> AF_INET \<and> ss_family (get_sockaddr_storage a) \<noteq> AF_INET6)"
      using endpoint_of_family [of a] ep by auto
    show ?thesis
    proof (cases "find_udp_peer a st \<noteq> None \<and>
        udp_is_valid (Some (server st)) (uheap st (the (find_udp_peer a st)))")
      case True
      then obtain p where p: "find_udp_peer a st = Some p" by auto
      then have "r = Some p" "st' = st" using assms(3) valid True by (auto simp: get_or_create_udp_peer_def)
      then show ?thesis using find_udp_peer_Some [OF assms(1,2) p] assms(1) True p valid ep by auto
    next
      case False
      let ?st1 = "case find_udp_peer a st of
                     Some e \<Rightarrow> snd (remove_owned_peer (peer_close os) (peer_destroy os) (Some e) st)
                   | None \<Rightarrow> st"
      have st1: "udp_server_inv ?st1 \<and> server ?st1 = server st \<and> uworld ?st1 = uworld st \<and>
        (\<forall>p\<in>set (owned ?st1). peer_endpoint ?st1 p \<noteq> endpoint_of a)"
      proof (cases "find_udp_peer a st")
        case None
        then show ?thesis using find_udp_peer_None [OF assms(1,2) None ep] assms(1) by simp
      next
        case (Some e)
        note f = find_udp_peer_Some [OF assms(1,2) Some] and rm = remove_udp_peer_inv [OF assms(1), of os e]
        have "peer_endpoint st q \<noteq> endpoint_of a" if "q \<in> set (owned st)" "q \<noteq> e" for q
          using f that assms(1) unfolding udp_server_inv_def by metis
        then show ?thesis using Some rm by auto
      qed
      obtain p st2 where n: "new_udp_peer os a ?st1 = (p, st2)" by fastforce
      have ad: "add_peer (Some p) st2 = (r, st')"
        using assms(3) unfolding get_or_create_udp_peer_def Let_def
        by (simp only: valid not_True_eq_False if_False if_not_P [OF False] if_not_P [OF fam] n prod.case)
      from st1 have st1': "udp_server_inv ?st1" "\<forall>p\<in>set (owned ?st1). peer_endpoint ?st1 p \<noteq> endpoint_of a"
        by blast+
      show ?thesis
        using add_new_peer [OF st1'(1) assms(2) ep st1'(2) n ad] st1 valid ep by auto
    qed
  qed
qed

section \<open>Closing all peers\<close>

lemma peer_close_retires_few: "retires_few (peer_close os)" "only_retires (peer_close os)"
  by (auto simp: retires_few_def only_retires_def peer_close_eq intro!: exI [of _ "\<lambda>_. True"])

lemma peer_close_marks: "marks_closed (peer_close os) (\<lambda>p st. \<not> peer_active (uheap st p))"
  by (simp add: marks_closed_def peer_close_eq)

lemma peer_close_keeps_peers: "closes_retired (peer_close os) dn"
  by (simp add: closes_retired_def peer_close_eq)

text \<open>The loop leaves the server and the world alone.\<close>

lemma peer_close_loop_frame:
  "close_peers_loop (peer_close os) i c st = Some (r, st') \<Longrightarrow>
   server st' = server st \<and> uworld st' = uworld st \<and> owned st' = owned st"
proof (induction "length (owned st) - i" arbitrary: i c st rule: less_induct)
  case less
  show ?case
  proof (cases "i < length (owned st)")
    case True
    obtain b st1 where p: "peer_close os (owned st ! i) st = (Some b, st1)"
      by (simp add: peer_close_eq)
    have f: "owned st1 = owned st" "server st1 = server st" "uworld st1 = uworld st"
      using p by (auto simp: peer_close_eq)
    have "close_peers_loop (peer_close os) (Suc i) (b \<or> c) st1 = Some (r, st')"
      using less.prems True p f by (subst (asm) close_peers_loop.simps) (simp add: Let_def)
    from less.hyps [OF _ this] True f show ?thesis by simp
  next
    case False
    then show ?thesis using less.prems by (subst (asm) close_peers_loop.simps) simp
  qed
qed

lemma close_owned_udp_peers:
  assumes "distinct (owned st)" "\<not> closing_peers st"
  shows "\<exists>r st'. close_owned_peers (peer_close os) st = Some (r, st') \<and> server st' = server st \<and>
    uworld st' = uworld st \<and> owned st' = owned st \<and>
    (r \<noteq> None \<longrightarrow> (\<forall>q\<in>set (owned st'). \<not> peer_active (uheap st' q)))"
proof -
  obtain r st' where c: "close_owned_peers (peer_close os) st = Some (r, st')"
    "r \<noteq> None \<longrightarrow> (\<forall>q\<in>set (owned st'). \<not> peer_active (uheap st' q))"
    using close_owned_peers_closes_all [OF peer_close_retires_few(1) peer_close_marks
        peer_close_keeps_peers assms] by blast
  obtain st1 where l: "close_peers_loop (peer_close os) 0 False (st\<lparr>closing_peers := True\<rparr>) = Some (r, st1)"
    "st' = st1\<lparr>closing_peers := False\<rparr>"
    using c(1) assms(2) by (auto simp: close_owned_peers_def)
  show ?thesis using c peer_close_loop_frame [OF l(1)] l(2) by simp
qed

lemma close_loop_never_throws:
  "close_peers_loop (peer_close os) i c st = Some (r, st') \<Longrightarrow> r \<noteq> None"
proof (induction "length (owned st) - i" arbitrary: i c st rule: less_induct)
  case less
  show ?case
  proof (cases "i < length (owned st)")
    case True
    obtain b st1 where p: "peer_close os (owned st ! i) st = (Some b, st1)" "owned st1 = owned st"
      by (simp add: peer_close_eq)
    have "close_peers_loop (peer_close os) (Suc i) (b \<or> c) st1 = Some (r, st')"
      using less.prems True p by (subst (asm) close_peers_loop.simps) (simp add: Let_def)
    from less.hyps [OF _ this] True p show ?thesis by simp
  next
    case False
    then show ?thesis using less.prems by (subst (asm) close_peers_loop.simps) auto
  qed
qed

lemma udp_server_close_result:
  assumes "distinct (owned st)" "\<not> closing_peers st"
  shows "\<exists>b st'. udp_server_close os st = Some (b, st') \<and>
    (server st', uworld st') = snd (socket_close os (server st) (uworld st)) \<and>
    owned st' = owned st \<and> (\<forall>q\<in>set (owned st'). \<not> peer_active (uheap st' q))"
proof -
  obtain c s w where sc: "socket_close os (server st) (uworld st) = (c, s, w)" by (metis prod_cases3)
  let ?st = "st\<lparr>server := s, uworld := w\<rparr>"
  obtain r st' where cl: "close_owned_peers (peer_close os) ?st = Some (r, st')" "server st' = s"
    "uworld st' = w" "owned st' = owned st" "r \<noteq> None \<longrightarrow> (\<forall>q\<in>set (owned st'). \<not> peer_active (uheap st' q))"
    using close_owned_udp_peers [of ?st os] assms by auto
  have "r \<noteq> None"
    using cl(1) assms(2) close_loop_never_throws by (auto simp: close_owned_peers_def)
  then show ?thesis
    using cl sc by (simp add: udp_server_close_def with_server_def udp_close_def Let_def)
qed

section \<open>Properties\<close>

text \<open>
  A server keeps exactly one live peer per remote endpoint. Looking up a sender on a live
  server returns a valid peer of that endpoint, creating it, or replacing a closed one, when
  needed; the registry stays free of duplicates, and an unusable address or a closed server
  yields no peer and leaves the registry alone. The server's descriptor is never touched.
\<close>

lemma get_or_create_udp_peer_unique:
  assumes "udp_server_inv st" "address_wf a" "get_or_create_udp_peer os a st = (r, st')"
  shows "udp_server_inv st' \<and> server st' = server st \<and> trace (uworld st') = trace (uworld st) \<and>
    (if is_valid_socket (server st) \<and> endpoint_of a \<noteq> None
     then \<exists>p. r = Some p \<and> udp_is_valid (Some (server st')) (uheap st' p) \<and>
       (\<forall>q. (q \<in> set (owned st') \<and> peer_endpoint st' q = endpoint_of a) = (q = p))
     else r = None \<and> owned st' = owned st)"
proof -
  note spec = get_or_create_spec [OF assms]
  have "\<forall>q. (q \<in> set (owned st') \<and> peer_endpoint st' q = endpoint_of a) = (q = p)"
    if "p \<in> set (owned st')" "peer_endpoint st' p = endpoint_of a" for p
    using spec that unfolding udp_server_inv_def by metis
  then show ?thesis using spec by (auto split: if_splits)
qed

definition sample_udp_server :: udp_server where
  "sample_udp_server = peers.extend peers_empty
     (udp_server.fields sample_server (\<lambda>_. sample_udp) 1 world0)"

lemma sample_udp_server_simps [simp]:
  "owned sample_udp_server = []" "set_sockets (members sample_udp_server) = []"
  "server sample_udp_server = sample_server" "uworld sample_udp_server = world0"
  "is_valid_socket sample_server"
  by (simp_all add: sample_udp_server_def peers.defs udp_server.defs peers_empty_def set_empty_def
      sample_server_def is_valid_socket_def)

lemma sample_udp_server_inv: "udp_server_inv sample_udp_server"
  by (simp add: udp_server_inv_def peers_inv_def)

text \<open>
  C22. A read that times out still registers a peer: the address of the previous datagram is
  taken for a sender. In any environment where the wait ends without input, nothing is received,
  the read answers 0 with a timeout, and yet afterwards exactly one registered peer, a valid one,
  denotes the previous sender; so a peer the application has removed comes back without any traffic.
\<close>

theorem udp_server_read_timeout_registers_peer:
  assumes "udp_server_inv st" "is_valid_socket (server st)" "0 < read_timeout_ms (server st)"
    and "0 < n"
    and "ret (os_call os (trace (uworld st))
      (Io (Select_read (sockfd (server st)) (read_timeout_ms (server st))))) = 0"
    and "sockaddr_wf (remote_addr (server st))"
    and "endpoint_of (get_remote_address (server st)) \<noteq> None"
    and "udp_server_read os (Some buf) n st = ((r, b), st')"
  shows "r = 0 \<and> b = Some buf \<and> error_code (server st') = err_timeout \<and>
    (\<exists>x. trace (uworld st') =
      (Io (Select_read (sockfd (server st)) (read_timeout_ms (server st))), x) # trace (uworld st)) \<and>
    (\<exists>p. udp_is_valid (Some (server st')) (uheap st' p) \<and>
      (\<forall>q. (q \<in> set (owned st') \<and>
        peer_endpoint st' q = endpoint_of (get_remote_address (server st))) = (q = p)))"
proof -
  let ?s = "server st" and ?c = "Io (Select_read (sockfd (server st)) (read_timeout_ms (server st)))"
  obtain x w where x: "sys os ?c (uworld st) = (x, w)" by fastforce
  have x0: "ret x = 0" using sys_answer [OF x] assms(5) by simp
  let ?s1 = "?s\<lparr>error_code := err_timeout, last_n := 0\<rparr>"
  let ?st = "st\<lparr>server := ?s1, uworld := w\<rparr>"
  have rd: "udp_read (None :: sock option) os (Some buf) n ?s (uworld st) = (0, Some buf, ?s1, w)"
    using assms(2-4) x x0 by (simp add: udp_read_def udp_is_valid_def wait_for_readable_def)
  obtain p st1 where g: "get_or_create_udp_peer os (get_remote_address ?s1) ?st = (p, st1)" by fastforce
  have res: "r = 0" "b = Some buf" "st' = st1"
    using assms(8) rd g by (auto simp: udp_server_read_def)
  have a: "get_remote_address ?s1 = get_remote_address ?s" by (simp add: get_remote_address_def)
  have inv: "udp_server_inv ?st" using assms(1) by (simp add: udp_server_inv_def peers_inv_def peer_endpoint_def)
  have wf: "address_wf (get_remote_address ?s1)" using assms(6) a by (simp add: remote_address_wf)
  have "is_valid_socket (server ?st)" using assms(2) by (simp add: is_valid_socket_def)
  then show ?thesis
    using get_or_create_udp_peer_unique [OF inv wf g] assms(7) a res sys_trace [OF x] by auto
qed

text \<open>
  A server whose last datagram came from 127.0.0.1 has registered that peer and removed it again;
  a read that times out brings it back.
\<close>

definition silent_os :: os where
  "silent_os = (scripted_os [])\<lparr>os_call := (\<lambda>h c. case c of
     Io (Select_read fd t) \<Rightarrow> result0 | _ \<Rightarrow> scripted_call [] h c)\<rparr>"

definition stale_server :: udp_server where
  "stale_server = sample_udp_server\<lparr>server := sample_server\<lparr>read_timeout_ms := 10,
     remote_addr := get_sockaddr_storage sample_v4\<rparr>\<rparr>"

lemma stale_server_facts:
  "udp_server_inv stale_server" "is_valid_socket (server stale_server)"
  "read_timeout_ms (server stale_server) = 10"
  "sockaddr_wf (remote_addr (server stale_server))" "owned stale_server = []"
  "get_remote_address (server stale_server) = sample_v4" "endpoint_of sample_v4 \<noteq> None"
  "address_wf sample_v4" "uworld stale_server = world0"
  by (simp_all add: stale_server_def udp_server_inv_def peers_inv_def is_valid_socket_def sample_server_def
      sample_v4_def address_of_storage_def get_sockaddr_storage_def sockaddr_wf_def
      get_remote_address_def endpoint_of_def address_wf_def Let_def)

theorem udp_server_read_timeout_registers_peer_witness:
  "\<exists>p st1 st2 n b st3 q. get_or_create_udp_peer silent_os sample_v4 stale_server = (Some p, st1) \<and>
    udp_server_remove_peer silent_os (Some p) st1 = (True, st2) \<and>
    endpoint_of sample_v4 \<notin> peer_endpoint st2 ` set (owned st2) \<and>
    udp_server_read silent_os (Some [0, 0]) 2 st2 = ((n, b), st3) \<and> n = 0 \<and>
    q \<in> set (owned st3) \<and> peer_endpoint st3 q = endpoint_of sample_v4 \<and>
    inbound (trace (uworld st3)) = []"
proof -
  note f = stale_server_facts
  obtain r st1 where g: "get_or_create_udp_peer silent_os sample_v4 stale_server = (r, st1)" by fastforce
  obtain p where p: "r = Some p" "p \<in> set (owned st1)" "udp_server_inv st1"
    "\<And>q. q \<in> set (owned st1) \<Longrightarrow> peer_endpoint st1 q = endpoint_of sample_v4 \<Longrightarrow> q = p"
    "server st1 = server stale_server" "trace (uworld st1) = []"
    using get_or_create_udp_peer_unique [OF f(1,8) g] f(2,7,9) by (fastforce simp: world0_def)
  obtain m st2 where m: "udp_server_remove_peer silent_os (Some p) st1 = (m, st2)" by fastforce
  have "m" using m p(2) by (auto simp: udp_server_remove_peer_def remove_owned_peer_eq peer_close_eq Let_def)
  have r2: "st2 = snd (remove_owned_peer (peer_close silent_os) (peer_destroy silent_os) (Some p) st1)"
    using m by (auto simp: udp_server_remove_peer_def Let_def split: prod.splits)
  note rm = remove_udp_peer_inv [OF p(3), of silent_os p, folded r2]
  have st2: "m" "udp_server_inv st2" "endpoint_of sample_v4 \<notin> peer_endpoint st2 ` set (owned st2)"
    "server st2 = server stale_server" "trace (uworld st2) = []"
    using \<open>m\<close> rm p(4-6) by auto
  have silent: "ret (os_call silent_os (trace (uworld st2)) (Io (Select_read (sockfd (server st2))
      (read_timeout_ms (server st2))))) = 0" by (simp add: silent_os_def)
  obtain n b st3 where rd: "udp_server_read silent_os (Some [0, 0]) 2 st2 = ((n, b), st3)"
    by (metis prod.collapse)
  from udp_server_read_timeout_registers_peer [OF st2(2) _ _ _ silent _ _ rd] f st2(4,5)
  obtain q x where "n = 0" "q \<in> set (owned st3)" "peer_endpoint st3 q = endpoint_of sample_v4"
    "trace (uworld st3) = [(Io (Select_read (sockfd (server st2)) (read_timeout_ms (server st2))), x)]"
    by auto
  then show ?thesis using g p(1) m st2(1,3) rd by auto
qed

text \<open>
  Closing a UDP server returns, releases its one descriptor exactly once and deactivates
  every peer; the peers are then invalid and nothing else was closed. A nested or repeated close
  releases nothing more.
\<close>

lemma udp_server_close_deactivates_all:
  assumes "udp_server_inv st" "\<not> closing_peers st" "held (sockfd (server st)) \<subseteq> open_fds (trace (uworld st))"
  shows "\<exists>b st'. udp_server_close os st = Some (b, st') \<and> \<not> is_valid_socket (server st') \<and>
    open_fds (trace (uworld st')) = open_fds (trace (uworld st)) - held (sockfd (server st)) \<and>
    (closes_ok (trace (uworld st)) \<longrightarrow> closes_ok (trace (uworld st'))) \<and>
    (\<forall>p\<in>set (owned st'). \<not> udp_is_valid (Some (server st')) (uheap st' p))"
proof -
  have "distinct (owned st)" using assms(1) by (simp add: udp_server_inv_def peers_inv_def)
  from udp_server_close_result [OF this assms(2), of os] obtain b st' where
    r: "udp_server_close os st = Some (b, st')"
    "(server st', uworld st') = snd (socket_close os (server st) (uworld st))"
    "\<forall>q\<in>set (owned st'). \<not> peer_active (uheap st' q)" by blast
  obtain c where sc: "socket_close os (server st) (uworld st) = (c, server st', uworld st')"
    using r(2) by (metis prod.collapse)
  have "sockfd (server st') < 0" by (rule socket_close_releases [OF sc])
  moreover note socket_close_safe [OF sc]
  ultimately show ?thesis
    using r(1,3) assms(3) by (auto simp: safe_step_def fd_safe_def is_valid_socket_def udp_is_valid_def)
qed

end
