(* ===== verification/Udp_Event.thy ===== *)
theory Udp_Event
  imports Udp_Server Event_Socket
begin

text \<open>
  \<open>src/udp_event_socket.cpp\<close>, \<open>src/udp_client_event_socket.cpp\<close> and
  \<open>src/udp_server_event_socket.cpp\<close>: UDP sockets with handlers. They are non-blocking from the
  start; the server keeps a logical peer per sender, registered before the datagram handler runs.
\<close>

section \<open>The event socket\<close>

record udp_ev_sock = udp_sock +
  uslots :: "bool list"

definition udp_on_datagram :: nat where [simp]: "udp_on_datagram = 0"
definition udp_on_connect :: nat where [simp]: "udp_on_connect = 1"
definition udp_on_close :: nat where [simp]: "udp_on_close = 2"
definition udp_on_listen :: nat where [simp]: "udp_on_listen = 3"
definition udp_on_error :: nat where [simp]: "udp_on_error = 4"

type_synonym 's udp_user = "event \<Rightarrow> 's \<Rightarrow> world \<Rightarrow> 's \<times> world"

definition udp_ev_of :: "udp_sock \<Rightarrow> udp_ev_sock" where
  "udp_ev_of s = udp_sock.extend s \<lparr>uslots = replicate 5 False\<rparr>"

definition udp_event_new :: "os \<Rightarrow> world \<Rightarrow> udp_ev_sock \<times> world" where
  "udp_event_new os w =
    (let (s, w) = udp_new os w; s = udp_ev_of s in
     if is_valid_socket s
     then let (r, s, w) = set_blocking os False s w in
       if r \<noteq> 0 then snd (socket_close os s w) else (s, w)
     else (s, w))"

definition udp_event_fire ::
  "('a udp_ev_sock_scheme) udp_user \<Rightarrow> nat \<Rightarrow> event \<Rightarrow> 'a udp_ev_sock_scheme \<Rightarrow> world \<Rightarrow>
    'a udp_ev_sock_scheme \<times> world" where
  "udp_event_fire user slot ev s w = (if uslots s ! slot then user ev s w else (s, w))"

definition udp_event_close ::
  "('a udp_ev_sock_scheme) udp_user \<Rightarrow> os \<Rightarrow> 'a udp_ev_sock_scheme \<Rightarrow> world \<Rightarrow>
    bool \<times> 'a udp_ev_sock_scheme \<times> world" where
  "udp_event_close user os s w =
    (let (result, s, w) = socket_close os s w;
         (s, w) = (if result then udp_event_fire user udp_on_close Ev_close s w else (s, w)) in
     (result, s, w))"

section \<open>The client\<close>

definition udp_event_connect_host ::
  "('a udp_ev_sock_scheme) udp_user \<Rightarrow> os \<Rightarrow> string option \<Rightarrow> int \<Rightarrow> 'a udp_ev_sock_scheme \<Rightarrow> world \<Rightarrow>
    bool \<times> 'a udp_ev_sock_scheme \<times> world" where
  "udp_event_connect_host user os host port_number s w =
    (let (ok, s, w) = udp_connect_host os host port_number s w;
         (s, w) = (if ok then udp_event_fire user udp_on_connect Ev_connect s w else (s, w)) in
     (ok, s, w))"

definition udp_event_connect ::
  "('a udp_ev_sock_scheme) udp_user \<Rightarrow> os \<Rightarrow> address \<Rightarrow> 'a udp_ev_sock_scheme \<Rightarrow> world \<Rightarrow>
    bool \<times> 'a udp_ev_sock_scheme \<times> world" where
  "udp_event_connect user os destination s w =
    (let (ok, s, w) = udp_connect os destination s w;
         (s, w) = (if ok then udp_event_fire user udp_on_connect Ev_connect s w else (s, w)) in
     (ok, s, w))"

definition udp_event_connect_stored ::
  "('a udp_ev_sock_scheme) udp_user \<Rightarrow> os \<Rightarrow> 'a udp_ev_sock_scheme \<Rightarrow> world \<Rightarrow>
    bool \<times> 'a udp_ev_sock_scheme \<times> world" where
  "udp_event_connect_stored user os s w =
    (let (ok, s, w) = udp_connect_stored os s w;
         (s, w) = (if ok then udp_event_fire user udp_on_connect Ev_connect s w else (s, w)) in
     (ok, s, w))"

definition udp_client_event_new ::
  "udp_ev_sock udp_user \<Rightarrow> os \<Rightarrow> string option \<Rightarrow> int \<Rightarrow> world \<Rightarrow> udp_ev_sock \<times> world" where
  "udp_client_event_new user os host port_number w =
    (let (s, w) = udp_event_new os w in snd (udp_event_connect_host user os host port_number s w))"

section \<open>The server\<close>

text \<open>
  The server object is that of \<open>Udp_Server\<close> with handler slots. Its handlers act on all of it;
  the world is in \<open>uworld\<close>.
\<close>

record udp_ev_server =
  udp_base :: udp_server
  server_slots :: "bool list"

type_synonym server_user = "event \<Rightarrow> udp_ev_server \<Rightarrow> udp_ev_server"

definition server_fire :: "server_user \<Rightarrow> nat \<Rightarrow> event \<Rightarrow> udp_ev_server \<Rightarrow> udp_ev_server" where
  "server_fire user slot ev st = (if server_slots st ! slot then user ev st else st)"

definition udp_server_event_listen ::
  "server_user \<Rightarrow> os \<Rightarrow> int \<Rightarrow> udp_ev_server \<Rightarrow> (bool \<times> udp_ev_server) option" where
  "udp_server_event_listen user os port_number st =
    (let (ok, b) = with_server (udp_listen os port_number) (udp_base st) in
     if ok
     then map_option (\<lambda>(_, b). (True, server_fire user udp_on_listen Ev_listen (st\<lparr>udp_base := b\<rparr>)))
            (close_owned_peers (peer_close os) b)
     else Some (False, st\<lparr>udp_base := b\<rparr>))"

definition udp_server_event_close ::
  "server_user \<Rightarrow> os \<Rightarrow> udp_ev_server \<Rightarrow> (bool \<times> udp_ev_server) option" where
  "udp_server_event_close user os st =
    (let (changed, b) = with_server (socket_close os) (udp_base st);
         st = st\<lparr>udp_base := b\<rparr>;
         st = (if changed then server_fire user udp_on_close Ev_close st else st) in
     map_option (\<lambda>(c, b). (c = Some True \<or> changed, st\<lparr>udp_base := b\<rparr>))
       (close_owned_peers (peer_close os) (udp_base st)))"

definition udp_server_event_read ::
  "os \<Rightarrow> byte list option \<Rightarrow> int \<Rightarrow> udp_ev_server \<Rightarrow> (int \<times> byte list option) \<times> udp_ev_server" where
  "udp_server_event_read os data sz st =
    (let (n, b, s, w) = udp_read (None :: sock option) os data sz (server (udp_base st)) (uworld (udp_base st));
         base = (udp_base st)\<lparr>server := s, uworld := w\<rparr>;
         base = (if n \<ge> 0 then snd (get_or_create_udp_peer os (get_remote_address (server base)) base)
                 else base) in
     ((n, b), st\<lparr>udp_base := base\<rparr>))"

definition udp_server_event_get_peer :: "os \<Rightarrow> address \<Rightarrow> udp_ev_server \<Rightarrow> nat option \<times> udp_ev_server" where
  "udp_server_event_get_peer os remote st =
    (let (p, b) = get_or_create_udp_peer os remote (udp_base st) in (p, st\<lparr>udp_base := b\<rparr>))"

definition udp_server_register_sender :: "os \<Rightarrow> address \<Rightarrow> udp_ev_server \<Rightarrow> udp_ev_server" where
  "udp_server_register_sender os remote st = snd (udp_server_event_get_peer os remote st)"

text \<open>What \<open>event_socket_set::poll\<close> runs for a datagram: the peer exists before the handler.\<close>

definition udp_server_fire_datagram ::
  "server_user \<Rightarrow> os \<Rightarrow> byte list \<Rightarrow> address \<Rightarrow> udp_ev_server \<Rightarrow> udp_ev_server" where
  "udp_server_fire_datagram user os data from st =
    server_fire user udp_on_datagram (Ev_datagram data (get_sockaddr_storage from))
      (udp_server_register_sender os from st)"

definition udp_server_event_remove_peer :: "os \<Rightarrow> nat option \<Rightarrow> udp_ev_server \<Rightarrow> bool \<times> udp_ev_server" where
  "udp_server_event_remove_peer os peer st =
    (let (b, base) = udp_server_remove_peer os peer (udp_base st) in (b, st\<lparr>udp_base := base\<rparr>))"

section \<open>Properties\<close>

text \<open>
  C14. The datagram handler of a live event server always finds its sender: before it runs, exactly
  one peer with the sender's endpoint is registered and that peer is valid, the registry has no
  duplicates, and neither the listener nor the world has changed. For a closed server or an address that
  names no endpoint the registry is as before.
\<close>

theorem datagram_handler_sees_sender:
  assumes "udp_server_inv (udp_base st)" "address_wf from"
  shows "\<exists>st1. udp_server_fire_datagram user os data from st =
      server_fire user udp_on_datagram (Ev_datagram data (get_sockaddr_storage from)) st1 \<and>
    udp_server_inv (udp_base st1) \<and> server (udp_base st1) = server (udp_base st) \<and>
    uworld (udp_base st1) = uworld (udp_base st) \<and> server_slots st1 = server_slots st \<and>
    (if is_valid_socket (server (udp_base st)) \<and> endpoint_of from \<noteq> None
     then \<exists>p. udp_is_valid (Some (server (udp_base st1))) (uheap (udp_base st1) p) \<and>
       (\<forall>q. (q \<in> set (owned (udp_base st1)) \<and> peer_endpoint (udp_base st1) q = endpoint_of from) = (q = p))
     else owned (udp_base st1) = owned (udp_base st))"
proof -
  obtain r b where g: "get_or_create_udp_peer os from (udp_base st) = (r, b)" by fastforce
  let ?st1 = "st\<lparr>udp_base := b\<rparr>"
  have f: "udp_server_fire_datagram user os data from st =
      server_fire user udp_on_datagram (Ev_datagram data (get_sockaddr_storage from)) ?st1"
    by (simp add: udp_server_fire_datagram_def udp_server_register_sender_def udp_server_event_get_peer_def g)
  note spec = get_or_create_spec [OF assms g]
  have unique: "\<forall>q. (q \<in> set (owned b) \<and> peer_endpoint b q = endpoint_of from) = (q = p)"
    if "p \<in> set (owned b)" "peer_endpoint b p = endpoint_of from" for p
    using spec that unfolding udp_server_inv_def by metis
  show ?thesis
    by (rule exI [of _ ?st1], use f spec unique in \<open>auto split: if_splits\<close>)
qed

definition sample_udp_ev_server :: udp_ev_server where
  "sample_udp_ev_server = \<lparr>udp_base = sample_udp_server, server_slots = replicate 5 True\<rparr>"

theorem datagram_handler_sees_sender_witness:
  "\<exists>st1 p. udp_server_fire_datagram (\<lambda>e st. st) (scripted_os []) [7] sample_v4 sample_udp_ev_server = st1 \<and>
    udp_is_valid (Some sample_server) (uheap (udp_base st1) p) \<and> p \<in> set (owned (udp_base st1))"
proof -
  have e: "endpoint_of sample_v4 \<noteq> None"
    unfolding endpoint_of_family
    by (simp add: sample_v4_def address_of_storage_def get_sockaddr_storage_def)
  have i: "udp_server_inv (udp_base sample_udp_ev_server)"
    by (simp add: sample_udp_ev_server_def sample_udp_server_inv)
  show ?thesis
    using datagram_handler_sees_sender [OF i sample_wf(1), of "\<lambda>e st. st" "scripted_os []" "[7]"] e
    by (auto simp: sample_udp_ev_server_def server_fire_def)
qed

end
