(* ===== verification/Event_Set.thy ===== *)
theory Event_Set
  imports Tls_Session Event_Registry Udp_Event
begin

text \<open>
  \<open>src/event_socket_set.cpp\<close>: the readiness dispatcher. One \<open>poll\<close> takes a snapshot
  of the registrations, waits, and dispatches to each socket that is still registered, valid and
  on the descriptor that was watched. Handlers are user code that may do anything to the set and
  to any registered socket, except destroy one: they are an argument on the whole state.
\<close>

section \<open>State\<close>

text \<open>
  The registered objects: an event socket, a TLS one, or a listener (which \<open>poll\<close> tells
  apart by \<open>dynamic_cast\<close> and never closes). A UDP object carries its own handler slots.
\<close>

datatype stream_obj = Plain ev_sock | Secure tls_sock | Listener ev_sock

record event_set =
  tcp_reg :: registry
  udp_reg :: registry
  set_slots :: "bool list"
  polling :: bool
  streams :: "nat \<Rightarrow> stream_obj"
  datagrams :: "nat \<Rightarrow> udp_ev_sock"

definition set_data :: nat where [simp]: "set_data = 0"
definition set_connect :: nat where [simp]: "set_connect = 1"
definition set_close :: nat where [simp]: "set_close = 2"
definition set_listen :: nat where [simp]: "set_listen = 3"
definition set_on_error :: nat where [simp]: "set_on_error = 4"
definition set_drain :: nat where [simp]: "set_drain = 5"
definition set_datagram :: nat where [simp]: "set_datagram = 6"
definition set_udp_error :: nat where [simp]: "set_udp_error = 7"


text \<open>
  The user code: handlers of a stream, of the set for a stream, of a UDP socket, of the set for
  a UDP socket; and the virtual \<open>register_sender\<close>, which a UDP server overrides.
\<close>

type_synonym 's set_callback = "nat \<Rightarrow> event \<Rightarrow> 's event_set_scheme \<Rightarrow> world \<Rightarrow> 's event_set_scheme \<times> world"

record 's handlers =
  on_stream :: "'s set_callback"
  on_set :: "'s set_callback"
  on_udp :: "'s set_callback"
  on_udp_set :: "'s set_callback"
  register_sender :: "nat \<Rightarrow> address \<Rightarrow> 's event_set_scheme \<Rightarrow> world \<Rightarrow> 's event_set_scheme \<times> world"

section \<open>Registration\<close>

definition event_set_new :: event_set where
  "event_set_new =
    \<lparr>tcp_reg = registry_empty, udp_reg = registry_empty, set_slots = replicate 8 False,
     polling = False, streams = (\<lambda>_. Plain (ev_of_sock sock_init)),
     datagrams = (\<lambda>_. udp_sock.extend (udp_of_sock None sock_init) \<lparr>uslots = replicate 5 False\<rparr>)\<rparr>"

definition add_stream :: "nat option \<Rightarrow> 's event_set_scheme \<Rightarrow> bool \<times> 's event_set_scheme" where
  "add_stream s st = (let (b, r) = registry_add s (tcp_reg st) in (b, st\<lparr>tcp_reg := r\<rparr>))"

definition add_datagram :: "nat option \<Rightarrow> 's event_set_scheme \<Rightarrow> bool \<times> 's event_set_scheme" where
  "add_datagram s st = (let (b, r) = registry_add s (udp_reg st) in (b, st\<lparr>udp_reg := r\<rparr>))"

definition remove_stream :: "nat option \<Rightarrow> 's event_set_scheme \<Rightarrow> bool \<times> 's event_set_scheme" where
  "remove_stream s st = (let (b, r) = registry_remove_socket s (tcp_reg st) in (b, st\<lparr>tcp_reg := r\<rparr>))"

definition remove_datagram :: "nat option \<Rightarrow> 's event_set_scheme \<Rightarrow> bool \<times> 's event_set_scheme" where
  "remove_datagram s st = (let (b, r) = registry_remove_socket s (udp_reg st) in (b, st\<lparr>udp_reg := r\<rparr>))"

text \<open>Positions count the streams first. \<open>index\<close> is below \<open>2^32\<close>.\<close>

definition remove_at :: "nat \<Rightarrow> 's event_set_scheme \<Rightarrow> bool \<times> 's event_set_scheme" where
  "remove_at index st =
    (let tcp_count = nat (registry_size (tcp_reg st)) in
     if index < tcp_count
     then let (b, r) = registry_remove_index index (tcp_reg st) in (b, st\<lparr>tcp_reg := r\<rparr>)
     else let (b, r) = registry_remove_index (index - tcp_count) (udp_reg st) in (b, st\<lparr>udp_reg := r\<rparr>))"

definition event_set_size :: "'s event_set_scheme \<Rightarrow> int" where
  "event_set_size st = registry_size (tcp_reg st) + registry_size (udp_reg st)"

definition on_socket :: "nat \<Rightarrow> bool \<Rightarrow> 's event_set_scheme \<Rightarrow> 's event_set_scheme option" where
  "on_socket slot present st =
    (if slot < length (set_slots st) then Some (st\<lparr>set_slots := (set_slots st)[slot := present]\<rparr>) else None)"

section \<open>The objects, seen by the dispatcher\<close>

fun stream_fd :: "stream_obj \<Rightarrow> int" where
  "stream_fd (Plain s) = sockfd s"
| "stream_fd (Secure s) = sockfd s"
| "stream_fd (Listener s) = sockfd s"

fun stream_error :: "stream_obj \<Rightarrow> int" where
  "stream_error (Plain s) = error_code s"
| "stream_error (Secure s) = error_code s"
| "stream_error (Listener s) = error_code s"

fun stream_slots :: "stream_obj \<Rightarrow> bool list" where
  "stream_slots (Plain s) = slots s"
| "stream_slots (Secure s) = slots s"
| "stream_slots (Listener s) = slots s"

fun stream_set_error :: "int \<Rightarrow> stream_obj \<Rightarrow> stream_obj" where
  "stream_set_error e (Plain s) = Plain (set_error e s)"
| "stream_set_error e (Secure s) = Secure (set_error e s)"
| "stream_set_error e (Listener s) = Listener (set_error e s)"

fun stream_set_n :: "int \<Rightarrow> stream_obj \<Rightarrow> stream_obj" where
  "stream_set_n k (Plain s) = Plain (s\<lparr>last_n := k\<rparr>)"
| "stream_set_n k (Secure s) = Secure (s\<lparr>last_n := k\<rparr>)"
| "stream_set_n k (Listener s) = Listener (s\<lparr>last_n := k\<rparr>)"

fun stream_is_listener :: "stream_obj \<Rightarrow> bool" where
  "stream_is_listener (Listener s) = True"
| "stream_is_listener _ = False"

definition update_stream :: "nat \<Rightarrow> (stream_obj \<Rightarrow> stream_obj) \<Rightarrow> 's event_set_scheme \<Rightarrow> 's event_set_scheme" where
  "update_stream a f st = st\<lparr>streams := (streams st)(a := f (streams st a))\<rparr>"

text \<open>The virtual hooks. A plain socket has the TCP ones, a TLS socket those of \<open>Tls_Event\<close>.\<close>

fun hook_wants_write :: "stream_obj \<Rightarrow> bool" where
  "hook_wants_write (Plain s) = tcp_wants_write s"
| "hook_wants_write (Secure s) = tls_wants_write s"
| "hook_wants_write (Listener s) = tcp_wants_write s"

fun hook_read_ready :: "int \<Rightarrow> stream_obj \<Rightarrow> bool" where
  "hook_read_ready ready (Plain s) = tcp_read_ready ready s"
| "hook_read_ready ready (Secure s) = Tls_Event.tls_read_ready ready s"
| "hook_read_ready ready (Listener s) = tcp_read_ready ready s"

fun hook_queue_ready :: "int \<Rightarrow> stream_obj \<Rightarrow> bool" where
  "hook_queue_ready ready (Plain s) = tcp_queue_ready ready s"
| "hook_queue_ready ready (Secure s) = Tls_Event.tls_queue_ready ready s"
| "hook_queue_ready ready (Listener s) = tcp_queue_ready ready s"

fun hook_terminal :: "stream_obj \<Rightarrow> bool" where
  "hook_terminal (Secure s) = True"
| "hook_terminal _ = False"

fun hook_timeout :: "os \<Rightarrow> stream_obj \<Rightarrow> world \<Rightarrow> int \<times> world" where
  "hook_timeout os (Secure s) w = poll_timeout_ms os s w"
| "hook_timeout os _ w = (- 1, w)"

fun hook_buffered :: "os \<Rightarrow> stream_obj \<Rightarrow> world \<Rightarrow> bool \<times> world" where
  "hook_buffered os (Secure s) w = tls_has_buffered_input os s w"
| "hook_buffered os _ w = (False, w)"

fun hook_receive :: "os \<Rightarrow> int \<Rightarrow> stream_obj \<Rightarrow> world \<Rightarrow> int \<times> byte list \<times> stream_obj \<times> world" where
  "hook_receive os cap (Plain s) w = (let (r, d, s, w) = tcp_poll_receive os cap s w in (r, d, Plain s, w))"
| "hook_receive os cap (Secure s) w = (let (r, d, s, w) = tls_poll_receive os cap s w in (r, d, Secure s, w))"
| "hook_receive os cap (Listener s) w = (let (r, d, s, w) = tcp_poll_receive os cap s w in (r, d, Listener s, w))"

fun hook_flush :: "os \<Rightarrow> stream_obj \<Rightarrow> world \<Rightarrow> flush_result \<times> stream_obj \<times> world" where
  "hook_flush os (Plain s) w =
    (let (f, s, w) = flush_queued (tcp_poll_send_queued os) False send_budget s w in (f, Plain s, w))"
| "hook_flush os (Secure s) w =
    (let (f, s, w) = flush_queued (tls_poll_send_queued os) True send_budget s w in (f, Secure s, w))"
| "hook_flush os (Listener s) w =
    (let (f, s, w) = flush_queued (tcp_poll_send_queued os) False send_budget s w in (f, Listener s, w))"

text \<open>
  A hook that runs the object's own handlers runs on the object together with the set around it:
  the object's record extended by the state of the set. The handler sees the object stored back,
  may change anything, and the hook goes on with what the handler left.
\<close>

definition own_plain :: "'s handlers \<Rightarrow> nat \<Rightarrow> (('s event_set_scheme) ev_sock_scheme) user_handlers" where
  "own_plain h a ev x w =
    (let st = update_stream a (\<lambda>_. Plain (ev_sock.truncate x)) (ev_sock.more x);
         (st, w) = on_stream h a ev st w in
     (case streams st a of Plain s \<Rightarrow> ev_sock.extend s st | _ \<Rightarrow> ev_sock.extend (ev_sock.truncate x) st, w))"

definition own_secure :: "'s handlers \<Rightarrow> nat \<Rightarrow> (('s event_set_scheme) tls_sock_scheme) user_handlers" where
  "own_secure h a ev x w =
    (let st = update_stream a (\<lambda>_. Secure (tls_sock.truncate x)) (tls_sock.more x);
         (st, w) = on_stream h a ev st w in
     (case streams st a of Secure s \<Rightarrow> tls_sock.extend s st | _ \<Rightarrow> tls_sock.extend (tls_sock.truncate x) st, w))"

definition hook_close :: "'s handlers \<Rightarrow> os \<Rightarrow> nat \<Rightarrow> 's event_set_scheme \<Rightarrow> world \<Rightarrow> bool \<times> 's event_set_scheme \<times> world" where
  "hook_close h os a st w =
    (case streams st a of
       Plain s \<Rightarrow>
         let (b, x, w) = event_close (own_plain h a) os (ev_sock.extend s st) w in
         (b, update_stream a (\<lambda>_. Plain (ev_sock.truncate x)) (ev_sock.more x), w)
     | Secure s \<Rightarrow>
         let (b, x, w) = tls_close (own_secure h a) os (tls_sock.extend s st) w in
         (b, update_stream a (\<lambda>_. Secure (tls_sock.truncate x)) (tls_sock.more x), w)
     | Listener s \<Rightarrow> (False, st, w))"

definition hook_step ::
  "'s handlers \<Rightarrow> os \<Rightarrow> int \<Rightarrow> nat \<Rightarrow> 's event_set_scheme \<Rightarrow> world \<Rightarrow> int \<times> 's event_set_scheme \<times> world" where
  "hook_step h os ready a st w =
    (case streams st a of
       Secure s \<Rightarrow>
         let (r, x, w) = tls_poll_step (own_secure h a) os ready (tls_sock.extend s st) w in
         (r, update_stream a (\<lambda>_. Secure (tls_sock.truncate x)) (tls_sock.more x), w)
     | _ \<Rightarrow> (1, st, w))"

definition fire_own :: "'s handlers \<Rightarrow> nat \<Rightarrow> nat \<Rightarrow> event \<Rightarrow> 's event_set_scheme \<Rightarrow> world \<Rightarrow> 's event_set_scheme \<times> world" where
  "fire_own h slot a ev st w =
    (if stream_slots (streams st a) ! slot then on_stream h a ev st w else (st, w))"

definition fire_set :: "'s handlers \<Rightarrow> nat \<Rightarrow> nat \<Rightarrow> event \<Rightarrow> 's event_set_scheme \<Rightarrow> world \<Rightarrow> 's event_set_scheme \<times> world" where
  "fire_set h slot a ev st w = (if set_slots st ! slot then on_set h a ev st w else (st, w))"

definition fire_udp :: "'s handlers \<Rightarrow> nat \<Rightarrow> nat \<Rightarrow> event \<Rightarrow> 's event_set_scheme \<Rightarrow> world \<Rightarrow> 's event_set_scheme \<times> world" where
  "fire_udp h slot a ev st w =
    (if uslots (datagrams st a) ! slot then on_udp h a ev st w else (st, w))"

definition fire_udp_set :: "'s handlers \<Rightarrow> nat \<Rightarrow> nat \<Rightarrow> event \<Rightarrow> 's event_set_scheme \<Rightarrow> world \<Rightarrow> 's event_set_scheme \<times> world" where
  "fire_udp_set h slot a ev st w = (if set_slots st ! slot then on_udp_set h a ev st w else (st, w))"

text \<open>A UDP server registers the sender before its datagram handler runs.\<close>

definition fire_datagram ::
  "'s handlers \<Rightarrow> nat \<Rightarrow> byte list \<Rightarrow> address \<Rightarrow> 's event_set_scheme \<Rightarrow> world \<Rightarrow> 's event_set_scheme \<times> world" where
  "fire_datagram h a d from st w =
    (let (st, w) = register_sender h a from st w in
     fire_udp h udp_on_datagram a (Ev_datagram d (get_sockaddr_storage from)) st w)"

section \<open>Waiting\<close>

record poll_descriptor =
  pd_fd :: int
  pd_revents :: int
  pd_watch_writable :: bool

definition socket_pending_error :: "os \<Rightarrow> int \<Rightarrow> world \<Rightarrow> int \<times> world" where
  "socket_pending_error os fd w =
    (let (r, w) = sys os (Io (So_error fd)) w in
     (if ret r \<noteq> 0 then translate_native_error (errno w)
      else if val r \<noteq> 0 then translate_native_error (val r) else err_system, w))"

definition native_poll :: "os \<Rightarrow> poll_descriptor list \<Rightarrow> int \<Rightarrow> world \<Rightarrow> call_result \<times> world" where
  "native_poll os ds timeout w =
    sys os (Io (Poll (map (\<lambda>d. (pd_fd d, pd_watch_writable d)) ds) timeout)) w"

text \<open>The two loops around an interrupted \<open>poll\<close>; a result \<open>Inl\<close> returns at once.\<close>

partial_function (option) poll_forever ::
  "os \<Rightarrow> poll_descriptor list \<Rightarrow> world \<Rightarrow> (call_result \<times> world) option" where
  "poll_forever os ds w =
    (let (r, w) = native_poll os ds (- 1) w in
     if ret r < 0 \<and> errno w = EINTR then poll_forever os ds w else Some (r, w))"

partial_function (option) poll_until ::
  "os \<Rightarrow> poll_descriptor list \<Rightarrow> int \<Rightarrow> int \<Rightarrow> world \<Rightarrow> (call_result option \<times> world) option" where
  "poll_until os ds deadline remaining w =
    (let (r, w) = native_poll os ds remaining w in
     if ret r \<ge> 0 \<or> errno w \<noteq> EINTR then Some (Some r, w)
     else
       let (t, w) = now os w in
       if t \<ge> deadline then Some (None, w)
       else poll_until os ds deadline (to_int32 ((deadline - t) div 1000000)) w)"

definition clear_revents :: "poll_descriptor list \<Rightarrow> poll_descriptor list" where
  "clear_revents ds = map (\<lambda>d. d\<lparr>pd_revents := 0\<rparr>) ds"

text \<open>\<open>poll\<close> fills one \<open>revents\<close> per descriptor.\<close>

definition store_revents :: "call_result \<Rightarrow> poll_descriptor list \<Rightarrow> poll_descriptor list" where
  "store_revents r ds = map2 (\<lambda>d e. d\<lparr>pd_revents := e\<rparr>) ds (take (length ds) (revents r @ replicate (length ds) 0))"

definition poll_readable ::
  "os \<Rightarrow> poll_descriptor list \<Rightarrow> int \<Rightarrow> world \<Rightarrow> (int \<times> poll_descriptor list \<times> world) option" where
  "poll_readable os ds timeout w =
    (if timeout < - 1 then Some (- 1, ds, w)
     else
       let ds = clear_revents ds in
       if ds = []
       then Some (0, ds, if timeout > 0 then snd (sys os (Io (Sleep_ms timeout)) w) else w)
       else
         let finish = (\<lambda>(r, w). if ret r \<le> 0 then (ret r, ds, w) else (ret r, store_revents r ds, w)) in
         if timeout = - 1 then map_option finish (poll_forever os ds w)
         else
           let (t, w) = now os w in
           map_option (\<lambda>(r, w). case r of None \<Rightarrow> (0, ds, w) | Some r \<Rightarrow> finish (r, w))
             (poll_until os ds (after_ms t timeout) timeout w))"

section \<open>The snapshot and its deadlines\<close>

datatype watch = Watch_stream nat int | Watch_datagram nat int

text \<open>The socket of a token, if it is still registered, valid and on the watched descriptor.\<close>

definition live_stream :: "'s event_set_scheme \<Rightarrow> nat \<Rightarrow> int \<Rightarrow> nat option" where
  "live_stream st t fd =
    (case get_if_active (tcp_reg st) t of
       Some a \<Rightarrow> if 0 \<le> stream_fd (streams st a) \<and> stream_fd (streams st a) = fd then Some a else None
     | None \<Rightarrow> None)"

text \<open>A UDP socket in a set owns its descriptor: it is no logical peer.\<close>

definition live_datagram :: "'s event_set_scheme \<Rightarrow> nat \<Rightarrow> int \<Rightarrow> nat option" where
  "live_datagram st t fd =
    (case get_if_active (udp_reg st) t of
       Some a \<Rightarrow> if udp_is_valid (None :: sock option) (datagrams st a) \<and> sockfd (datagrams st a) = fd
                 then Some a else None
     | None \<Rightarrow> None)"

fun watch_streams :: "'s event_set_scheme \<Rightarrow> nat list \<Rightarrow> (watch \<times> poll_descriptor) list" where
  "watch_streams st [] = []"
| "watch_streams st (t # ts) =
    (case get_if_active (tcp_reg st) t of
       Some a \<Rightarrow>
         if 0 \<le> stream_fd (streams st a)
         then (Watch_stream t (stream_fd (streams st a)),
               \<lparr>pd_fd = stream_fd (streams st a), pd_revents = 0,
                pd_watch_writable = hook_wants_write (streams st a)\<rparr>) # watch_streams st ts
         else watch_streams st ts
     | None \<Rightarrow> watch_streams st ts)"

fun watch_datagrams :: "'s event_set_scheme \<Rightarrow> nat list \<Rightarrow> (watch \<times> poll_descriptor) list" where
  "watch_datagrams st [] = []"
| "watch_datagrams st (t # ts) =
    (case get_if_active (udp_reg st) t of
       Some a \<Rightarrow>
         if udp_is_valid (None :: sock option) (datagrams st a)
         then (Watch_datagram t (sockfd (datagrams st a)),
               \<lparr>pd_fd = sockfd (datagrams st a), pd_revents = 0, pd_watch_writable = False\<rparr>)
              # watch_datagrams st ts
         else watch_datagrams st ts
     | None \<Rightarrow> watch_datagrams st ts)"

definition watched :: "'s event_set_scheme \<Rightarrow> (watch \<times> poll_descriptor) list" where
  "watched st = watch_streams st (registry_snapshot (tcp_reg st)) @
     watch_datagrams st (registry_snapshot (udp_reg st))"

fun any_buffered :: "os \<Rightarrow> 's event_set_scheme \<Rightarrow> watch list \<Rightarrow> bool \<Rightarrow> world \<Rightarrow> bool \<times> world" where
  "any_buffered os st [] found w = (found, w)"
| "any_buffered os st (Watch_stream t fd # ws) found w =
    (case live_stream st t fd of
       Some a \<Rightarrow> let (b, w) = hook_buffered os (streams st a) w in any_buffered os st ws (found \<or> b) w
     | None \<Rightarrow> any_buffered os st ws found w)"
| "any_buffered os st (Watch_datagram t fd # ws) found w = any_buffered os st ws found w"

fun effective_timeout :: "os \<Rightarrow> 's event_set_scheme \<Rightarrow> watch list \<Rightarrow> int \<Rightarrow> world \<Rightarrow> int \<times> world" where
  "effective_timeout os st [] eff w = (eff, w)"
| "effective_timeout os st (Watch_stream t fd # ws) eff w =
    (case live_stream st t fd of
       Some a \<Rightarrow>
         let (due, w) = hook_timeout os (streams st a) w in
         effective_timeout os st ws (if due \<ge> 0 \<and> (eff = - 1 \<or> due < eff) then due else eff) w
     | None \<Rightarrow> effective_timeout os st ws eff w)"
| "effective_timeout os st (Watch_datagram t fd # ws) eff w = effective_timeout os st ws eff w"

fun any_expired :: "os \<Rightarrow> 's event_set_scheme \<Rightarrow> watch list \<Rightarrow> bool \<Rightarrow> world \<Rightarrow> bool \<times> world" where
  "any_expired os st [] found w = (found, w)"
| "any_expired os st (Watch_stream t fd # ws) found w =
    (case live_stream st t fd of
       Some a \<Rightarrow>
         let (due, w) = hook_timeout os (streams st a) w in any_expired os st ws (found \<or> due = 0) w
     | None \<Rightarrow> any_expired os st ws found w)"
| "any_expired os st (Watch_datagram t fd # ws) found w = any_expired os st ws found w"

text \<open>Bytes OpenSSL has decrypted already count as readable.\<close>

fun mark_buffered ::
  "os \<Rightarrow> 's event_set_scheme \<Rightarrow> watch list \<Rightarrow> poll_descriptor list \<Rightarrow> world \<Rightarrow> poll_descriptor list \<times> world" where
  "mark_buffered os st (Watch_stream t fd # ws) (d # ds) w =
    (let (b, w) = (case live_stream st t fd of
            Some a \<Rightarrow> hook_buffered os (streams st a) w | None \<Rightarrow> (False, w));
         (ds, w) = mark_buffered os st ws ds w in
     ((if b then d\<lparr>pd_revents := pd_revents d OR POLLIN\<rparr> else d) # ds, w))"
| "mark_buffered os st (Watch_datagram t fd # ws) (d # ds) w =
    (let (ds, w) = mark_buffered os st ws ds w in (d # ds, w))"
| "mark_buffered os st ws ds w = (ds, w)"

partial_function (option) wait_ready ::
  "os \<Rightarrow> 's event_set_scheme \<Rightarrow> watch list \<Rightarrow> poll_descriptor list \<Rightarrow> int \<Rightarrow> bool \<Rightarrow> world \<Rightarrow>
    (int \<times> bool \<times> poll_descriptor list \<times> world) option" where
  "wait_ready os st ws ds timeout buffered w =
    (let (eff, w) = effective_timeout os st ws timeout w in
     case poll_readable os ds (if buffered then 0 else eff) w of
       None \<Rightarrow> None
     | Some (ready, ds, w) \<Rightarrow>
         if ready < 0 then Some (ready, False, ds, w)
         else
           let (expired, w) = any_expired os st ws False w in
           if ready \<noteq> 0 \<or> buffered \<or> expired \<or> timeout \<noteq> - 1 \<or> eff = - 1
           then Some (ready, expired, ds, w)
           else wait_ready os st ws ds timeout buffered w)"

section \<open>Dispatching to a stream\<close>

definition active :: "'s event_set_scheme \<Rightarrow> nat \<Rightarrow> bool" where
  "active st t \<longleftrightarrow> get_if_active (tcp_reg st) t \<noteq> None"

definition still_live :: "'s event_set_scheme \<Rightarrow> nat \<Rightarrow> int \<Rightarrow> nat \<Rightarrow> bool" where
  "still_live st t fd a \<longleftrightarrow> active st t \<and> 0 \<le> stream_fd (streams st a) \<and> stream_fd (streams st a) = fd"

text \<open>The count of the object, its own error handler, then the set's if it is still registered.\<close>

definition raise_error :: "'s handlers \<Rightarrow> nat \<Rightarrow> int \<Rightarrow> nat \<Rightarrow> 's event_set_scheme \<Rightarrow> world \<Rightarrow> 's event_set_scheme \<times> world" where
  "raise_error h t e a st w =
    (let (st, w) = fire_own h handler_error a (Ev_error e) (update_stream a (stream_set_n socket_error) st) w in
     if active st t then fire_set h set_on_error a (Ev_error e) st w else (st, w))"

definition poll_event_error :: "os \<Rightarrow> int \<Rightarrow> int \<Rightarrow> world \<Rightarrow> int \<times> world" where
  "poll_event_error os flags fd w =
    (if flagged flags POLLNVAL then (err_no_socket, w) else socket_pending_error os fd w)"

definition report_poll_error ::
  "'s handlers \<Rightarrow> os \<Rightarrow> nat \<Rightarrow> int \<Rightarrow> int \<Rightarrow> nat \<Rightarrow> 's event_set_scheme \<Rightarrow> world \<Rightarrow> 's event_set_scheme \<times> world" where
  "report_poll_error h os t fd flags a st w =
    (let (e, w) = poll_event_error os flags fd w in
     raise_error h t e a (update_stream a (stream_set_error e) st) w)"

definition dispatch_listener ::
  "'s handlers \<Rightarrow> os \<Rightarrow> nat \<Rightarrow> int \<Rightarrow> int \<Rightarrow> nat \<Rightarrow> 's event_set_scheme \<Rightarrow> world \<Rightarrow> int \<times> 's event_set_scheme \<times> world" where
  "dispatch_listener h os t fd flags a st w =
    (if flagged flags POLLIN then (1, fire_set h set_listen a Ev_listen st w)
     else if flagged flags (POLLERR OR POLLNVAL OR POLLHUP)
     then (1, report_poll_error h os t fd flags a st w)
     else (0, st, w))"

text \<open>A close, after which the set's close handler runs if the socket is still registered.\<close>

definition close_and_tell ::
  "'s handlers \<Rightarrow> os \<Rightarrow> nat \<Rightarrow> nat \<Rightarrow> 's event_set_scheme \<Rightarrow> world \<Rightarrow> 's event_set_scheme \<times> world" where
  "close_and_tell h os t a st w =
    (let (_, st, w) = hook_close h os a st w in
     if active st t then fire_set h set_close a Ev_close st w else (st, w))"

definition reported_error :: "int \<Rightarrow> stream_obj \<Rightarrow> int" where
  "reported_error native s =
    (if hook_terminal s \<and> stream_error s < 0 \<and> stream_error s \<noteq> socket_error then stream_error s
     else translate_native_error native)"

definition dispatch_read ::
  "'s handlers \<Rightarrow> os \<Rightarrow> nat \<Rightarrow> int \<Rightarrow> int \<Rightarrow> nat \<Rightarrow> 's event_set_scheme \<Rightarrow> world \<Rightarrow> int \<times> 's event_set_scheme \<times> world" where
  "dispatch_read h os t fd flags a st w =
    (if hook_read_ready flags (streams st a)
     then
       let (bytes, d, s, w) = hook_receive os max_buffer_size (streams st a) w;
           st = update_stream a (\<lambda>_. s) st in
       if bytes > 0
       then
         let (st, w) = fire_own h handler_data a (Ev_data d) (update_stream a (stream_set_n bytes) st) w in
         (1, if active st t then fire_set h set_data a (Ev_data d) st w else (st, w))
       else if bytes = 0 then (1, close_and_tell h os t a st w)
       else if would_block_error (errno w) then (0, st, w)
       else
         let e = reported_error (errno w) (streams st a);
             (st, w) = raise_error h t e a (update_stream a (stream_set_error e) st) w in
         (1, if still_live st t fd a \<and> hook_terminal (streams st a)
             then snd (hook_close h os a st w) else (st, w))
     else if flagged flags (POLLERR OR POLLNVAL)
     then (1, report_poll_error h os t fd flags a st w)
     else (0, st, w))"

definition dispatch_flush ::
  "'s handlers \<Rightarrow> os \<Rightarrow> nat \<Rightarrow> int \<Rightarrow> int \<Rightarrow> nat \<Rightarrow> 's event_set_scheme \<Rightarrow> world \<Rightarrow> int \<times> 's event_set_scheme \<times> world" where
  "dispatch_flush h os t fd flags a st w =
    (if still_live st t fd a \<and> hook_queue_ready flags (streams st a)
     then
       let (f, s, w) = hook_flush os (streams st a) w;
           st = update_stream a (\<lambda>_. s) st;
           handled = (if fl_bytes f \<noteq> 0 \<or> fl_drained f \<or> fl_error f \<noteq> 0 then 1 else 0) in
       if fl_error f \<noteq> 0
       then
         let e = fl_error f;
             (st, w) = raise_error h t e a (update_stream a (stream_set_error e) st) w in
         (handled, if still_live st t fd a \<and> hook_terminal (streams st a)
                   then snd (hook_close h os a st w) else (st, w))
       else if fl_drained f
       then
         let (st, w) = fire_own h handler_drain a Ev_drain st w in
         (handled, if active st t then fire_set h set_drain a Ev_drain st w else (st, w))
       else (handled, st, w)
     else (0, st, w))"

definition dispatch_stream ::
  "'s handlers \<Rightarrow> os \<Rightarrow> nat \<Rightarrow> int \<Rightarrow> int \<Rightarrow> nat \<Rightarrow> 's event_set_scheme \<Rightarrow> world \<Rightarrow> int \<times> 's event_set_scheme \<times> world" where
  "dispatch_stream h os t fd flags a st w =
    (if stream_is_listener (streams st a) then dispatch_listener h os t fd flags a st w
     else
       let (progress, st, w) = hook_step h os flags a st w in
       if progress < 0
       then
         let (st, w) = raise_error h t (stream_error (streams st a)) a st w in
         (1, if active st t \<and> 0 \<le> stream_fd (streams st a)
             then snd (hook_close h os a st w) else (st, w))
       else if progress = 0 then (1, st, w)
       else if progress = 3 then (1, close_and_tell h os t a st w)
       else if progress = 2
       then (1, if still_live st t fd a then fire_set h set_connect a Ev_connect st w else (st, w))
       else
         let (n, st, w) = dispatch_read h os t fd flags a st w;
             (m, st, w) = dispatch_flush h os t fd flags a st w in
         (n + m, st, w))"

section \<open>Dispatching to a UDP socket\<close>

definition update_datagram :: "nat \<Rightarrow> (udp_ev_sock \<Rightarrow> udp_ev_sock) \<Rightarrow> 's event_set_scheme \<Rightarrow> 's event_set_scheme" where
  "update_datagram a f st = st\<lparr>datagrams := (datagrams st)(a := f (datagrams st a))\<rparr>"

definition udp_active :: "'s event_set_scheme \<Rightarrow> nat \<Rightarrow> bool" where
  "udp_active st t \<longleftrightarrow> get_if_active (udp_reg st) t \<noteq> None"

definition raise_udp_error :: "'s handlers \<Rightarrow> nat \<Rightarrow> int \<Rightarrow> nat \<Rightarrow> 's event_set_scheme \<Rightarrow> world \<Rightarrow> 's event_set_scheme \<times> world" where
  "raise_udp_error h t e a st w =
    (let st = update_datagram a (\<lambda>s. s\<lparr>last_n := socket_error, error_code := e\<rparr>) st;
         (st, w) = fire_udp h udp_on_error a (Ev_error e) st w in
     if udp_active st t then fire_udp_set h set_udp_error a (Ev_error e) st w else (st, w))"

definition dispatch_datagram ::
  "'s handlers \<Rightarrow> os \<Rightarrow> nat \<Rightarrow> int \<Rightarrow> int \<Rightarrow> nat \<Rightarrow> 's event_set_scheme \<Rightarrow> world \<Rightarrow> int \<times> 's event_set_scheme \<times> world" where
  "dispatch_datagram h os t fd flags a st w =
    (if flagged flags POLLIN
     then
       let (r, w) = sys os (Io (Recvfrom fd max_buffer_size)) w; bytes = ret r in
       if bytes \<ge> 0
       then
         let st = update_datagram a (\<lambda>s. s\<lparr>last_n := bytes, remote_addr := from_addr r\<rparr>) st;
             sender = address_of_storage (from_addr r);
             (st, w) = fire_datagram h a (got r) sender st w in
         (1, if udp_active st t
             then fire_udp_set h set_datagram a (Ev_datagram (got r) (get_sockaddr_storage sender)) st w
             else (st, w))
       else if would_block_error (errno w) then (0, st, w)
       else (1, raise_udp_error h t (translate_native_error (errno w)) a st w)
     else if flagged flags (POLLERR OR POLLNVAL)
     then
       let (e, w) = poll_event_error os flags fd w in
       (1, raise_udp_error h t e a st w)
     else (0, st, w))"

section \<open>One poll\<close>

text \<open>A socket without events is skipped, unless its handshake or shutdown has timed out.\<close>

definition timed_out :: "os \<Rightarrow> 's event_set_scheme \<Rightarrow> watch \<Rightarrow> world \<Rightarrow> bool \<times> world" where
  "timed_out os st watch w =
    (case watch of
       Watch_stream t fd \<Rightarrow>
         (case get_if_active (tcp_reg st) t of
            Some a \<Rightarrow> let (due, w) = hook_timeout os (streams st a) w in (due = 0, w)
          | None \<Rightarrow> (False, w))
     | Watch_datagram t fd \<Rightarrow> (False, w))"

definition dispatch_one ::
  "'s handlers \<Rightarrow> os \<Rightarrow> watch \<Rightarrow> int \<Rightarrow> 's event_set_scheme \<Rightarrow> world \<Rightarrow> int \<times> 's event_set_scheme \<times> world" where
  "dispatch_one h os watch flags st w =
    (let (due, w) = (if flags \<noteq> 0 then (True, w) else timed_out os st watch w) in
     if \<not> due then (0, st, w)
     else
       (case watch of
          Watch_stream t fd \<Rightarrow>
            (case live_stream st t fd of
               Some a \<Rightarrow> dispatch_stream h os t fd flags a st w
             | None \<Rightarrow> (0, st, w))
        | Watch_datagram t fd \<Rightarrow>
            (case live_datagram st t fd of
               Some a \<Rightarrow> dispatch_datagram h os t fd flags a st w
             | None \<Rightarrow> (0, st, w))))"

fun dispatch_all ::
  "'s handlers \<Rightarrow> os \<Rightarrow> (watch \<times> int) list \<Rightarrow> 's event_set_scheme \<Rightarrow> world \<Rightarrow> int \<times> 's event_set_scheme \<times> world" where
  "dispatch_all h os [] st w = (0, st, w)"
| "dispatch_all h os ((watch, flags) # ws) st w =
    (let (n, st, w) = dispatch_one h os watch flags st w;
         (m, st, w) = dispatch_all h os ws st w in
     (n + m, st, w))"

text \<open>
  \<open>poll\<close> holds \<open>poll_mutex\<close> throughout; a poll that finds it held, from a handler or
  another thread, returns \<open>-1\<close>.
\<close>

definition event_set_poll ::
  "'s handlers \<Rightarrow> os \<Rightarrow> int \<Rightarrow> 's event_set_scheme \<Rightarrow> world \<Rightarrow> (int \<times> 's event_set_scheme \<times> world) option" where
  "event_set_poll h os timeout st w =
    (if timeout < - 1 \<or> polling st then Some (- 1, st, w)
     else
       let st = st\<lparr>polling := True\<rparr>;
           ws = watched st;
           (buffered, w) = any_buffered os st (map fst ws) False w in
       case wait_ready os st (map fst ws) (map snd ws) timeout buffered w of
         None \<Rightarrow> None
       | Some (ready, expired, ds, w) \<Rightarrow>
           if ready < 0 then Some (ready, st\<lparr>polling := False\<rparr>, w)
           else
             let (ds, w) = (if buffered then mark_buffered os st (map fst ws) ds w else (ds, w)) in
             if ready = 0 \<and> \<not> buffered \<and> \<not> expired then Some (0, st\<lparr>polling := False\<rparr>, w)
             else
               let (n, st, w) = dispatch_all h os (zip (map fst ws) (map pd_revents ds)) st w in
               Some (n, st\<lparr>polling := False\<rparr>, w))"

end
