(* ===== verification/Event_Poll.thy ===== *)
theory Event_Poll
  imports Event_Set
begin

text \<open>
  What one \<open>event_socket_set::poll\<close> promises: the set's handlers run only for sockets
  that are still registered, a stale registration is left alone, a poll with a finite timeout
  returns, and the set stays well formed whatever well-behaved handlers do.
\<close>

section \<open>Counting\<close>

lemma dispatch_listener_count: "fst (dispatch_listener h os t fd flags a st w) \<in> {0, 1}"
  by (simp add: dispatch_listener_def)

lemma dispatch_read_count: "fst (dispatch_read h os t fd flags a st w) \<in> {0, 1}"
  by (simp add: dispatch_read_def Let_def split: prod.split)

lemma dispatch_flush_count: "fst (dispatch_flush h os t fd flags a st w) \<in> {0, 1}"
  by (simp add: dispatch_flush_def Let_def split: prod.split)

lemma dispatch_stream_count: "fst (dispatch_stream h os t fd flags a st w) \<in> {0, 1, 2}"
proof -
  obtain p st1 w1 where step: "hook_step h os flags a st w = (p, st1, w1)" by (rule prod_cases3)
  obtain n st2 w2 where rd: "dispatch_read h os t fd flags a st1 w1 = (n, st2, w2)" by (rule prod_cases3)
  obtain m st3 w3 where fl: "dispatch_flush h os t fd flags a st2 w2 = (m, st3, w3)" by (rule prod_cases3)
  have n: "n = 0 \<or> n = 1" using dispatch_read_count [of h os t fd flags a st1 w1] by (simp add: rd)
  have m: "m = 0 \<or> m = 1" using dispatch_flush_count [of h os t fd flags a st2 w2] by (simp add: fl)
  show ?thesis
  proof (cases "stream_is_listener (streams st a)")
    case True
    then show ?thesis
      using dispatch_listener_count [of h os t fd flags a st w] by (auto simp: dispatch_stream_def)
  next
    case False
    obtain st4 w4 where e: "raise_error h t (stream_error (streams st1 a)) a st1 w1 = (st4, w4)" by fastforce
    show ?thesis using False n m by (auto simp: dispatch_stream_def step rd fl e Let_def)
  qed
qed

lemma dispatch_datagram_count: "fst (dispatch_datagram h os t fd flags a st w) \<in> {0, 1}"
  by (simp add: dispatch_datagram_def Let_def split: prod.split)

lemma dispatch_one_count: "0 \<le> fst (dispatch_one h os watch flags st w) \<and> fst (dispatch_one h os watch flags st w) \<le> 2"
proof -
  obtain due w1 where d: "(if flags \<noteq> 0 then (True, w) else timed_out os st watch w) = (due, w1)" by fastforce
  show ?thesis
  proof (cases watch)
    case (Watch_stream t fd)
    then show ?thesis
      using d dispatch_stream_count [of h os t fd flags "the (live_stream st t fd)" st w1]
      by (auto simp: dispatch_one_def Let_def split: option.split)
  next
    case (Watch_datagram t fd)
    then show ?thesis
      using d dispatch_datagram_count [of h os t fd flags "the (live_datagram st t fd)" st w1]
      by (auto simp: dispatch_one_def Let_def split: option.split)
  qed
qed

lemma dispatch_all_count:
  "0 \<le> fst (dispatch_all h os ws st w) \<and> fst (dispatch_all h os ws st w) \<le> 2 * int (length ws)"
proof (induction ws arbitrary: st w)
  case (Cons x ws)
  obtain watch flags where x: "x = (watch, flags)" by fastforce
  obtain n st1 w1 where o: "dispatch_one h os watch flags st w = (n, st1, w1)" by (rule prod_cases3)
  show ?case
    using Cons [of st1 w1] dispatch_one_count [of h os watch flags st w]
    by (auto simp: x o Let_def split: prod.split)
qed simp

section \<open>A finite poll returns\<close>

text \<open>
  The steady clock never goes back and advances while a \<open>poll\<close> runs.
\<close>

definition clock_advances :: "os \<Rightarrow> bool" where
  "clock_advances os \<longleftrightarrow>
    (\<forall>h c r. val (os_call os h (Io Now)) \<le> val (os_call os ((c, r) # h) (Io Now))) \<and>
    (\<forall>h ds t r. val (os_call os h (Io Now)) < val (os_call os ((Io (Poll ds t), r) # h) (Io Now)))"

lemma poll_until_returns:
  assumes "clock_advances os"
  shows "\<exists>x. poll_until os ds deadline remaining w = Some x"
proof (induction "nat (deadline - val (os_call os (trace w) (Io Now)))" arbitrary: remaining w rule: less_induct)
  case less
  let ?now = "\<lambda>w. val (os_call os (trace w) (Io Now))"
  obtain r w1 where p: "native_poll os ds remaining w = (r, w1)" by fastforce
  obtain t w2 where n: "now os w1 = (t, w2)" by fastforce
  have t: "t = ?now w1" using n by (auto simp: now_def sys_def Let_def)
  have w1: "trace w1 = (Io (Poll (map (\<lambda>d. (pd_fd d, pd_watch_writable d)) ds) remaining), r) # trace w"
    using p sys_trace unfolding native_poll_def by blast
  obtain x where w2: "trace w2 = (Io Now, x) # trace w1"
    using n by (auto simp: now_def sys_def Let_def)
  have later: "?now w < t" "t \<le> ?now w2"
    using assms unfolding clock_advances_def t w1 w2 by blast+
  show ?case
  proof (cases "(ret r \<ge> 0 \<or> errno w1 \<noteq> EINTR) \<or> t \<ge> deadline")
    case True
    then show ?thesis by (subst poll_until.simps) (auto simp: p n Let_def)
  next
    case False
    then have "nat (deadline - ?now w2) < nat (deadline - ?now w)" using later by simp
    from less [OF this] False show ?thesis by (subst poll_until.simps) (simp add: p n Let_def)
  qed
qed

text \<open>A poll with a deadline is answered if the clock advances, or if it is never interrupted.\<close>

definition poll_answers :: "os \<Rightarrow> bool" where
  "poll_answers os \<longleftrightarrow> (\<forall>ds deadline remaining w. \<exists>x. poll_until os ds deadline remaining w = Some x)"

lemma clock_poll_answers [intro]: "clock_advances os \<Longrightarrow> poll_answers os"
  using poll_until_returns by (simp add: poll_answers_def)

lemma scripted_poll_answers [simp]: "poll_answers (scripted_os script)"
proof -
  have "ret (fst (native_poll (scripted_os script) ds remaining w)) = 0" for ds remaining w
    by (simp add: native_poll_def sys_def scripted_os_def Let_def)
  then show ?thesis
    unfolding poll_answers_def by (subst poll_until.simps) (simp add: case_prod_beta)
qed

lemma poll_readable_returns:
  assumes "poll_answers os" "timeout \<noteq> - 1"
  shows "\<exists>ready ds' w'. poll_readable os ds timeout w = Some (ready, ds', w')"
proof -
  obtain t w1 where n: "now os w = (t, w1)" by fastforce
  obtain x where "poll_until os (clear_revents ds) (after_ms t timeout) timeout w1 = Some x"
    using assms(1) unfolding poll_answers_def by blast
  then show ?thesis
    using assms(2) n by (cases x) (simp add: poll_readable_def Let_def split: option.split)
qed

lemma effective_timeout_finite:
  "eff \<noteq> - 1 \<Longrightarrow> fst (effective_timeout os st ws eff w) \<noteq> - 1"
proof (induction os st ws eff w rule: effective_timeout.induct)
  case (2 os st t fd ws eff w)
  show ?case
  proof (cases "live_stream st t fd")
    case (Some a)
    obtain due w1 where d: "hook_timeout os (streams st a) w = (due, w1)" by fastforce
    have "(if due \<ge> 0 \<and> (eff = - 1 \<or> due < eff) then due else eff) \<noteq> - 1" using 2(3) by simp
    from 2(2) [OF Some d [symmetric] refl this] show ?thesis using Some d by (simp add: Let_def)
  qed (use 2 in simp)
qed simp_all

lemma wait_ready_returns:
  assumes "poll_answers os" "timeout \<noteq> - 1"
  shows "\<exists>ready expired ds' w'. wait_ready os st ws ds timeout buffered w = Some (ready, expired, ds', w')"
proof -
  obtain eff w1 where e: "effective_timeout os st ws timeout w = (eff, w1)" by fastforce
  have "(if buffered then 0 else eff) \<noteq> - 1"
    using effective_timeout_finite [OF assms(2), of os st ws w] by (simp add: e)
  from poll_readable_returns [OF assms(1) this] obtain ready ds' w2 where
    p: "poll_readable os ds (if buffered then 0 else eff) w1 = Some (ready, ds', w2)" by blast
  obtain b w3 where b: "any_expired os st ws False w2 = (b, w3)" by fastforce
  show ?thesis
    using assms(2) by (subst wait_ready.simps) (cases "ready < 0"; simp add: e p b Let_def; blast)
qed

lemma watched_polling [simp]: "watched (st\<lparr>polling := b\<rparr>) = watched st"
proof -
  have "watch_streams (st\<lparr>polling := b\<rparr>) ts = watch_streams st ts" for ts
    by (induction ts) (simp_all split: option.split)
  moreover have "watch_datagrams (st\<lparr>polling := b\<rparr>) ts = watch_datagrams st ts" for ts
    by (induction ts) (simp_all split: option.split)
  ultimately show ?thesis by (simp add: watched_def)
qed

text \<open>The ways a poll can end.\<close>

lemma event_set_poll_cases:
  assumes "event_set_poll h os timeout st w = Some (n, st', w')"
  obtains
    (refused) "timeout < - 1 \<or> polling st" "n = - 1" "st' = st" "w' = w"
  | (idle) "\<not> timeout < - 1" "\<not> polling st" "n \<le> 0" "st' = st\<lparr>polling := False\<rparr>"
  | (dispatched) evs w1 st1 where "\<not> timeout < - 1" "\<not> polling st"
      "dispatch_all h os evs (st\<lparr>polling := True\<rparr>) w1 = (n, st1, w')" "st' = st1\<lparr>polling := False\<rparr>"
      "length evs \<le> length (watched st)"
proof (cases "timeout < - 1 \<or> polling st")
  case True
  then show thesis using assms by (intro refused) (auto simp: event_set_poll_def)
next
  case False
  let ?st = "st\<lparr>polling := True\<rparr>"
  let ?ws = "map fst (watched st)"
  obtain buf w1 where b: "any_buffered os ?st ?ws False w = (buf, w1)" by fastforce
  note d = assms [unfolded event_set_poll_def if_not_P [OF False] Let_def watched_polling b prod.case]
  obtain ready expired ds w2 where r:
    "wait_ready os ?st ?ws (map snd (watched st)) timeout buf w1 = Some (ready, expired, ds, w2)"
    using d by (cases "wait_ready os ?st ?ws (map snd (watched st)) timeout buf w1") auto
  obtain ds' w3 where m: "(if buf then mark_buffered os ?st ?ws ds w2 else (ds, w2)) = (ds', w3)" by fastforce
  note d = d [unfolded r option.case prod.case m]
  obtain n1 st1 w4 where a: "dispatch_all h os (zip ?ws (map pd_revents ds')) ?st w3 = (n1, st1, w4)"
    by (rule prod_cases3)
  show thesis
  proof (cases "ready < 0 \<or> ready = 0 \<and> \<not> buf \<and> \<not> expired")
    case True
    then have "n \<le> 0" "st' = st\<lparr>polling := False\<rparr>" using d by (auto split: if_splits)
    then show thesis using idle False by blast
  next
    case go: False
    have "n = n1" "st' = st1\<lparr>polling := False\<rparr>" "w' = w4" using d go by (auto simp: a split: if_splits)
    then show thesis using False a by (intro dispatched [OF _ _ a [folded \<open>n = n1\<close> \<open>w' = w4\<close>]]) simp_all
  qed
qed

lemma poll_total:
  assumes "poll_answers os" "timeout \<noteq> - 1"
  shows "\<exists>n st' w'. event_set_poll h os timeout st w = Some (n, st', w')"
proof (cases "timeout < - 1 \<or> polling st")
  case False
  let ?st = "st\<lparr>polling := True\<rparr>"
  let ?ws = "map fst (watched st)"
  obtain buf w1 where b: "any_buffered os ?st ?ws False w = (buf, w1)" by fastforce
  obtain ready expired ds w2 where
    r: "wait_ready os ?st ?ws (map snd (watched st)) timeout buf w1 = Some (ready, expired, ds, w2)"
    using wait_ready_returns [OF assms] by blast
  obtain ds' w3 where m: "(if buf then mark_buffered os ?st ?ws ds w2 else (ds, w2)) = (ds', w3)" by fastforce
  show ?thesis
    using False by (simp add: event_set_poll_def b r m Let_def split: prod.split)
qed (simp add: event_set_poll_def)

section \<open>Handlers of the set\<close>

text \<open>
  Handlers that look up the token themselves before they run. \<open>poll\<close> is equal to its
  version with these, so it never calls a set handler for a registration that is gone.
\<close>

definition guarded :: "nat \<Rightarrow> 's handlers \<Rightarrow> 's handlers" where
  "guarded t h = h\<lparr>on_set := (\<lambda>a ev st w. if active st t then on_set h a ev st w else (st, w)),
     on_udp_set := (\<lambda>a ev st w. if udp_active st t then on_udp_set h a ev st w else (st, w))\<rparr>"

lemma guarded_own [simp]:
  "on_stream (guarded t h) = on_stream h" "on_udp (guarded t h) = on_udp h"
  "register_sender (guarded t h) = register_sender h"
  "own_plain (guarded t h) = own_plain h" "own_secure (guarded t h) = own_secure h"
  by (simp_all add: guarded_def own_plain_def own_secure_def fun_eq_iff)

lemma guarded_hooks [simp]:
  "hook_close (guarded t h) = hook_close h" "hook_step (guarded t h) = hook_step h"
  "fire_own (guarded t h) = fire_own h" "fire_udp (guarded t h) = fire_udp h"
  "fire_datagram (guarded t h) = fire_datagram h"
  unfolding fun_eq_iff hook_close_def hook_step_def fire_own_def fire_udp_def fire_datagram_def guarded_own
  by (rule allI refl)+

lemma guarded_set [simp]:
  "active st t \<Longrightarrow> fire_set (guarded t h) slot a ev st w = fire_set h slot a ev st w"
  "udp_active st t \<Longrightarrow> fire_udp_set (guarded t h) slot a ev st w = fire_udp_set h slot a ev st w"
  by (simp_all add: fire_set_def fire_udp_set_def guarded_def)

lemma guarded_tell [simp]:
  "raise_error (guarded t h) t = raise_error h t" "raise_udp_error (guarded t h) t = raise_udp_error h t"
  "close_and_tell (guarded t h) os t = close_and_tell h os t"
  by (simp_all add: raise_error_def raise_udp_error_def close_and_tell_def fun_eq_iff Let_def
      cong: if_cong split: prod.split)

lemma guarded_dispatch [simp]:
  "report_poll_error (guarded t h) os t = report_poll_error h os t"
  "dispatch_read (guarded t h) os t = dispatch_read h os t"
  "dispatch_flush (guarded t h) os t = dispatch_flush h os t"
  "dispatch_datagram (guarded t h) os t = dispatch_datagram h os t"
  by (simp_all add: report_poll_error_def dispatch_read_def dispatch_flush_def dispatch_datagram_def
      fun_eq_iff Let_def cong: if_cong split: prod.split)

lemma live_stream_active: "live_stream st t fd = Some a \<Longrightarrow> active st t"
  by (auto simp: live_stream_def active_def split: option.splits)

lemma guarded_stream:
  "active st t \<Longrightarrow> dispatch_stream (guarded t h) os t fd flags a st w = dispatch_stream h os t fd flags a st w"
  by (simp add: dispatch_stream_def dispatch_listener_def still_live_def Let_def
      cong: if_cong split: prod.split)

section \<open>Well-formed sets\<close>

text \<open>
  The registries hold each socket once, and every handler table has the slots the code indexes:
  \<open>event_handlers(8)\<close> in the set, \<open>7\<close> in an event socket, \<open>5\<close> in a UDP one.
\<close>

definition set_wf :: "'s event_set_scheme \<Rightarrow> bool" where
  "set_wf st \<longleftrightarrow> registry_inv (tcp_reg st) \<and> registry_inv (udp_reg st) \<and> length (set_slots st) = 8 \<and>
    (\<forall>a. length (stream_slots (streams st a)) = 7) \<and> (\<forall>a. length (uslots (datagrams st a)) = 5)"

text \<open>User code that keeps a property of the state.\<close>

definition handlers_keep :: "('s event_set_scheme \<Rightarrow> bool) \<Rightarrow> 's handlers \<Rightarrow> bool" where
  "handlers_keep P h \<longleftrightarrow>
    (\<forall>a ev st w. P st \<longrightarrow> P (fst (on_stream h a ev st w)) \<and> P (fst (on_set h a ev st w)) \<and>
       P (fst (on_udp h a ev st w)) \<and> P (fst (on_udp_set h a ev st w))) \<and>
    (\<forall>a from st w. P st \<longrightarrow> P (fst (register_sender h a from st w)))"

lemma set_wf_update_stream:
  "set_wf st \<Longrightarrow> length (stream_slots (f (streams st a))) = 7 \<Longrightarrow> set_wf (update_stream a f st)"
  by (simp add: set_wf_def update_stream_def)

lemma set_wf_update_datagram:
  "set_wf st \<Longrightarrow> length (uslots (f (datagrams st a))) = 5 \<Longrightarrow> set_wf (update_datagram a f st)"
  by (simp add: set_wf_def update_datagram_def)

lemma set_wf_polling [simp]: "set_wf (st\<lparr>polling := b\<rparr>) = set_wf st"
  by (simp add: set_wf_def)

lemma set_wf_slots: "set_wf st \<Longrightarrow> length (stream_slots (streams st a)) = 7"
  by (simp add: set_wf_def)

lemma stream_slots_set [simp]:
  "stream_slots (stream_set_error e x) = stream_slots x" "stream_slots (stream_set_n k x) = stream_slots x"
  by (cases x; simp add: set_error_def)+

lemma hook_receive_slots:
  assumes "hook_receive os cap x w = (r, d, x', w')"
  shows "stream_slots x' = stream_slots x"
proof -
  have tcp: "slots s' = slots s" if "tcp_poll_receive os cap s w = (r, d, s', w')" for s s' :: ev_sock
    using that by (auto simp: tcp_poll_receive_def Let_def set_error_def split: prod.splits if_splits)
  have tls: "slots s' = slots s" if "tls_poll_receive os cap s w = (r, d, s', w')" for s s' :: tls_sock
    using that by (auto simp: tls_poll_receive_def Let_def set_error_def split: prod.splits if_splits)
  show ?thesis using assms tcp tls by (cases x) (auto split: prod.splits)
qed

lemma tls_send_queued_slots:
  "tls_poll_send_queued os data n s w = (r, s', w') \<Longrightarrow> slots s' = slots s"
  unfolding tls_poll_send_queued_def
  by (erule send_tls_cases)
    (auto simp: set_error_def forget_write_def elim!: write_tls_cases)

lemma hook_flush_slots:
  assumes "hook_flush os x w = (f, x', w')"
  shows "stream_slots x' = stream_slots x"
proof -
  have tcp: "slots s' = slots s"
    if "flush_queued (tcp_poll_send_queued os) False send_budget s w = (f, s', w')" for s s' :: ev_sock
    by (rule flush_queued_preserves [where P = "\<lambda>y _. slots y = slots s", OF _ _ _ that])
      (auto simp: tcp_poll_send_queued_def tcp_poll_send_def Let_def split: prod.splits if_splits)
  have tls: "slots s' = slots s"
    if "flush_queued (tls_poll_send_queued os) True send_budget s w = (f, s', w')" for s s' :: tls_sock
    by (rule flush_queued_preserves [where P = "\<lambda>y _. slots y = slots s", OF _ _ _ that])
      (auto dest: tls_send_queued_slots)
  show ?thesis using assms tcp tls by (cases x) (auto split: prod.splits)
qed

text \<open>
  An invariant of the state around the set, which does not look into the objects beyond their
  handler tables. User code keeps it, so every hook, every dispatch and every poll keeps it.
\<close>

locale set_users =
  fixes I :: "'s event_set_scheme \<Rightarrow> bool" and h :: "'s handlers"
  assumes keep: "handlers_keep I h"
    and well_formed: "I st \<Longrightarrow> set_wf st"
    and stream_keeps: "I st \<Longrightarrow> length (stream_slots y) = 7 \<Longrightarrow> I (st\<lparr>streams := (streams st)(a := y)\<rparr>)"
    and datagram_keeps: "I st \<Longrightarrow> length (uslots z) = 5 \<Longrightarrow> I (st\<lparr>datagrams := (datagrams st)(a := z)\<rparr>)"
    and polling_keeps: "I st \<Longrightarrow> I (st\<lparr>polling := b\<rparr>)"
begin

lemma slots7: "I st \<Longrightarrow> length (stream_slots (streams st a)) = 7"
  using well_formed by (simp add: set_wf_def)

lemma uslots5: "I st \<Longrightarrow> length (uslots (datagrams st a)) = 5"
  using well_formed by (simp add: set_wf_def)

lemma update_stream_keeps:
  "I st \<Longrightarrow> length (stream_slots (f (streams st a))) = 7 \<Longrightarrow> I (update_stream a f st)"
  using stream_keeps by (simp add: update_stream_def)

lemma update_datagram_keeps:
  "I st \<Longrightarrow> length (uslots (f (datagrams st a))) = 5 \<Longrightarrow> I (update_datagram a f st)"
  using datagram_keeps by (simp add: update_datagram_def)

lemma count_keeps [simp]: "I st \<Longrightarrow> I (update_stream a (stream_set_n k) st)"
  by (rule update_stream_keeps) (simp_all add: slots7)

lemma error_keeps [simp]: "I st \<Longrightarrow> I (update_stream a (stream_set_error e) st)"
  by (rule update_stream_keeps) (simp_all add: slots7)

lemma own_plain_keeps:
  assumes "I (ev_sock.more x)" "length (slots x) = 7"
  shows "I (ev_sock.more (fst (own_plain h a ev x w))) \<and> length (slots (fst (own_plain h a ev x w))) = 7"
proof -
  let ?st = "update_stream a (\<lambda>_. Plain (ev_sock.truncate x)) (ev_sock.more x)"
  obtain st w1 where c: "on_stream h a ev ?st w = (st, w1)" by fastforce
  have "I ?st" using assms by (intro update_stream_keeps) (simp_all add: ev_sock.defs)
  then have wf: "I st" using keep c unfolding handlers_keep_def by (metis fst_conv)
  show ?thesis
    unfolding own_plain_def Let_def c prod.case fst_conv
    using wf assms(2) slots7 [OF wf, of a] by (cases "streams st a") (simp_all add: ev_sock.defs)
qed

lemma own_secure_keeps:
  assumes "I (tls_sock.more x)" "length (slots x) = 7"
  shows "I (tls_sock.more (fst (own_secure h a ev x w))) \<and> length (slots (fst (own_secure h a ev x w))) = 7"
proof -
  let ?st = "update_stream a (\<lambda>_. Secure (tls_sock.truncate x)) (tls_sock.more x)"
  obtain st w1 where c: "on_stream h a ev ?st w = (st, w1)" by fastforce
  have "I ?st" using assms by (intro update_stream_keeps) (simp_all add: tls_sock.defs)
  then have wf: "I st" using keep c unfolding handlers_keep_def by (metis fst_conv)
  show ?thesis
    unfolding own_secure_def Let_def c prod.case fst_conv
    using wf assms(2) slots7 [OF wf, of a] by (cases "streams st a") (simp_all add: tls_sock.defs)
qed

lemma fire_own_keeps: "I st \<Longrightarrow> fire_own h slot a ev st w = (st', w') \<Longrightarrow> I st'"
  using keep by (auto simp: fire_own_def handlers_keep_def split: if_splits) (metis fst_conv)

lemma fire_set_keeps: "I st \<Longrightarrow> fire_set h slot a ev st w = (st', w') \<Longrightarrow> I st'"
  using keep by (auto simp: fire_set_def handlers_keep_def split: if_splits) (metis fst_conv)

lemma fire_udp_keeps: "I st \<Longrightarrow> fire_udp h slot a ev st w = (st', w') \<Longrightarrow> I st'"
  using keep by (auto simp: fire_udp_def handlers_keep_def split: if_splits) (metis fst_conv)

lemma fire_udp_set_keeps: "I st \<Longrightarrow> fire_udp_set h slot a ev st w = (st', w') \<Longrightarrow> I st'"
  using keep by (auto simp: fire_udp_set_def handlers_keep_def split: if_splits) (metis fst_conv)

lemma fire_datagram_keeps:
  assumes "I st" "fire_datagram h a d from st w = (st', w')"
  shows "I st'"
proof -
  obtain st1 w1 where r: "register_sender h a from st w = (st1, w1)" by fastforce
  have "I st1" using keep assms(1) r unfolding handlers_keep_def by (metis fst_conv)
  then show ?thesis using assms(2) fire_udp_keeps by (simp add: fire_datagram_def r)
qed

lemma event_close_keeps:
  assumes user: "\<And>ev x w. Q x \<Longrightarrow> Q (fst (user ev x w))"
    and queue: "\<And>x w. Q x \<Longrightarrow> Q (fst (snd (socket_close os (clear_queue x) w)))"
    and "Q x" "event_close user os x w = (b, x', w')"
  shows "Q x'"
proof -
  obtain c x1 w1 where c: "socket_close os (clear_queue x) w = (c, x1, w1)" by (rule prod_cases3)
  have "Q x1" using queue [OF assms(3), of w] by (simp add: c)
  then show ?thesis
    using assms(4) user [of x1 Ev_close w1] by (auto simp: event_close_eq c fire_def split: if_splits)
qed

lemma hook_close_keeps:
  assumes "I st" "hook_close h os a st w = (b, st', w')"
  shows "I st'"
proof (cases "streams st a")
  case (Plain s)
  let ?Q = "\<lambda>x. I (ev_sock.more x) \<and> length (slots x) = 7"
  obtain c x w1 where e: "event_close (own_plain h a) os (ev_sock.extend s st) w = (c, x, w1)"
    by (rule prod_cases3)
  have "?Q x"
  proof (rule event_close_keeps [where Q = ?Q, OF _ _ _ e])
    show "?Q (ev_sock.extend s st)" using assms(1) Plain slots7 [OF assms(1), of a]
      by (simp add: ev_sock.defs)
    show "?Q (fst (snd (socket_close os (clear_queue x) w)))" if "?Q x" for x w
      using that by (simp add: socket_close_def clear_queue_def Let_def split: prod.split)
  qed (use own_plain_keeps in blast)
  then have "I (update_stream a (\<lambda>_. Plain (ev_sock.truncate x)) (ev_sock.more x))"
    by (intro update_stream_keeps) (simp_all add: ev_sock.defs)
  then show ?thesis using assms(2) Plain by (simp add: hook_close_def e Let_def)
next
  case (Secure s)
  let ?Q = "\<lambda>x. I (tls_sock.more x) \<and> length (slots x) = 7"
  obtain c x w1 where e: "tls_close (own_secure h a) os (tls_sock.extend s st) w = (c, x, w1)"
    by (rule prod_cases3)
  obtain w2 where e2: "event_close (own_secure h a) os (clear_tls (tls_sock.extend s st)) w2 = (c, x, w1)"
    using e unfolding tls_close_def Let_def by blast
  have "?Q x"
  proof (rule event_close_keeps [where Q = ?Q, OF _ _ _ e2])
    show "?Q (clear_tls (tls_sock.extend s st))" using assms(1) Secure slots7 [OF assms(1), of a]
      by (simp add: tls_sock.defs clear_tls_def)
    show "?Q (fst (snd (socket_close os (clear_queue x) w)))" if "?Q x" for x w
      using that by (simp add: socket_close_def clear_queue_def Let_def split: prod.split)
  qed (use own_secure_keeps in blast)
  then have "I (update_stream a (\<lambda>_. Secure (tls_sock.truncate x)) (tls_sock.more x))"
    by (intro update_stream_keeps) (simp_all add: tls_sock.defs)
  then show ?thesis using assms(2) Secure by (simp add: hook_close_def e Let_def)
next
  case (Listener s)
  then show ?thesis using assms by (simp add: hook_close_def)
qed

lemma hook_step_keeps:
  assumes "I st" "hook_step h os ready a st w = (r, st', w')"
  shows "I st'"
proof (cases "streams st a")
  case (Secure s)
  let ?Q = "\<lambda>x. I (tls_sock.more x) \<and> length (slots x) = 7"
  let ?x = "tls_sock.extend s st"
  obtain c x w1 where e: "tls_poll_step (own_secure h a) os ready ?x w = (c, x, w1)"
    by (rule prod_cases3)
  have q: "?Q ?x" using assms(1) Secure slots7 [OF assms(1), of a] by (simp add: tls_sock.defs)
  have "?Q x"
    using e
  proof (cases rule: tls_poll_step_cases)
    case (handshake t w2)
    from handshake(5) show ?thesis
    proof (cases rule: handshake_cases)
      case (completed c h' vs w3)
      let ?y = "set_error err_none (?x\<lparr>tls_ready := True, need_write := False\<rparr>)"
      have "?Q ?y" using q by (simp add: set_error_def)
      from this [folded] own_secure_keeps [of ?y a Ev_connect w3]
      have "?Q (fst (own_secure h a Ev_connect ?y w3))" by blast
      then show ?thesis using completed(6) \<open>?Q ?y\<close> by (auto simp: fire_def split: if_splits)
    qed (use q in \<open>auto simp: set_error_def\<close>)
  next
    case shutdown
    from shutdown(4) show ?thesis
      by (cases rule: shutdown_cases) (use q in \<open>auto simp: set_error_def split: if_splits\<close>)
  qed (use q in \<open>auto simp: set_error_def\<close>)
  then have "I (update_stream a (\<lambda>_. Secure (tls_sock.truncate x)) (tls_sock.more x))"
    by (intro update_stream_keeps) (simp_all add: tls_sock.defs)
  then show ?thesis using assms(2) Secure by (simp add: hook_step_def e Let_def)
qed (use assms in \<open>simp_all add: hook_step_def\<close>)

lemma raise_error_keeps:
  assumes "I st" "raise_error h t e a st w = (st', w')"
  shows "I st'"
proof -
  obtain st1 w1 where f: "fire_own h handler_error a (Ev_error e)
      (update_stream a (stream_set_n socket_error) st) w = (st1, w1)" by fastforce
  have "I st1" using fire_own_keeps [OF _ f] assms(1) by simp
  then show ?thesis
    using assms(2) [unfolded raise_error_def f Let_def prod.case] fire_set_keeps by (simp split: if_splits)
qed

lemma report_poll_error_keeps:
  "I st \<Longrightarrow> report_poll_error h os t fd flags a st w = (st', w') \<Longrightarrow> I st'"
  using raise_error_keeps by (auto simp: report_poll_error_def split: prod.splits) (metis error_keeps)

lemma close_and_tell_keeps:
  assumes "I st" "close_and_tell h os t a st w = (st', w')"
  shows "I st'"
proof -
  obtain b st1 w1 where c: "hook_close h os a st w = (b, st1, w1)" by (rule prod_cases3)
  have "I st1" by (rule hook_close_keeps [OF assms(1) c])
  then show ?thesis using assms(2) fire_set_keeps by (auto simp: close_and_tell_def c split: if_splits)
qed

text \<open>What happens after an error: the object may close.\<close>

lemma close_if_keeps:
  assumes "I st" "(if c then snd (hook_close h os a st w) else (st, w)) = (st', w')"
  shows "I st'"
proof (cases c)
  case True
  obtain b st1 w1 where c: "hook_close h os a st w = (b, st1, w1)" by (rule prod_cases3)
  show ?thesis using hook_close_keeps [OF assms(1) c] assms(2) True by (simp add: c)
qed (use assms in simp)

lemma dispatch_listener_keeps:
  assumes "I st" "dispatch_listener h os t fd flags a st w = (n, st', w')"
  shows "I st'"
proof -
  have "(st', w') = fire_set h set_listen a Ev_listen st w \<or>
      (st', w') = report_poll_error h os t fd flags a st w \<or> st' = st"
    using assms(2) unfolding dispatch_listener_def by (metis prod.inject)
  then show ?thesis using assms(1) fire_set_keeps report_poll_error_keeps by metis
qed

lemma dispatch_read_keeps:
  assumes "I st" "dispatch_read h os t fd flags a st w = (n, st', w')"
  shows "I st'"
proof (cases "hook_read_ready flags (streams st a)")
  case False
  then show ?thesis
    using assms report_poll_error_keeps [OF assms(1)] by (auto simp: dispatch_read_def split: if_splits)
next
  case True
  obtain bytes d x w1 where r: "hook_receive os max_buffer_size (streams st a) w = (bytes, d, x, w1)"
    by (rule prod_cases4)
  let ?st = "update_stream a (\<lambda>_. x) st"
  have wf: "I ?st"
    using hook_receive_slots [OF r] slots7 [OF assms(1), of a] assms(1)
    by (intro update_stream_keeps) simp_all
  note d = assms(2) [unfolded dispatch_read_def if_P [OF True] Let_def r prod.case]
  consider "bytes > 0" | "bytes = 0" | "bytes < 0" "would_block_error (errno w1)"
    | "bytes < 0" "\<not> would_block_error (errno w1)" by linarith
  then show ?thesis
  proof cases
    case 1
    obtain st2 w2 where f: "fire_own h handler_data a (Ev_data d) (update_stream a (stream_set_n bytes) ?st) w1 = (st2, w2)"
      by fastforce
    have "I st2" using fire_own_keeps [OF _ f] wf by simp
    then show ?thesis using d 1 by (auto simp: f simp del: handler_data_def split: if_splits intro: fire_set_keeps)
  next
    case 2
    then show ?thesis using d by (auto intro: close_and_tell_keeps [OF wf])
  next
    case 3
    then show ?thesis using d wf by simp
  next
    case 4
    let ?e = "reported_error (errno w1) (streams ?st a)"
    obtain st2 w2 where f: "raise_error h t ?e a (update_stream a (stream_set_error ?e) ?st) w1 = (st2, w2)"
      by fastforce
    have wf2: "I st2" using raise_error_keeps [OF _ f] wf by simp
    have "(if still_live st2 t fd a \<and> hook_terminal (streams st2 a) then snd (hook_close h os a st2 w2)
        else (st2, w2)) = (st', w')" using d 4 by (simp add: f)
    then show ?thesis by (rule close_if_keeps [OF wf2])
  qed
qed

lemma dispatch_flush_keeps:
  assumes "I st" "dispatch_flush h os t fd flags a st w = (n, st', w')"
  shows "I st'"
proof (cases "still_live st t fd a \<and> hook_queue_ready flags (streams st a)")
  case False
  then show ?thesis using assms by (simp only: dispatch_flush_def if_False) simp
next
  case True
  obtain f x w1 where fl: "hook_flush os (streams st a) w = (f, x, w1)" by (rule prod_cases3)
  let ?st = "update_stream a (\<lambda>_. x) st"
  have wf: "I ?st"
    using hook_flush_slots [OF fl] slots7 [OF assms(1), of a] assms(1)
    by (intro update_stream_keeps) simp_all
  note d = assms(2) [unfolded dispatch_flush_def if_P [OF True] Let_def fl prod.case]
  consider "fl_error f \<noteq> 0" | "fl_error f = 0" "fl_drained f" | "fl_error f = 0" "\<not> fl_drained f" by blast
  then show ?thesis
  proof cases
    case 1
    obtain st2 w2 where r: "raise_error h t (fl_error f) a (update_stream a (stream_set_error (fl_error f)) ?st) w1 = (st2, w2)"
      by fastforce
    have wf2: "I st2" using raise_error_keeps [OF _ r] wf by simp
    have "(if still_live st2 t fd a \<and> hook_terminal (streams st2 a) then snd (hook_close h os a st2 w2)
        else (st2, w2)) = (st', w')" using d 1 by (simp add: r)
    then show ?thesis by (rule close_if_keeps [OF wf2])
  next
    case 2
    obtain st2 w2 where r: "fire_own h handler_drain a Ev_drain ?st w1 = (st2, w2)" by fastforce
    have "I st2" by (rule fire_own_keeps [OF wf r])
    then show ?thesis using d 2 by (auto simp: r simp del: handler_drain_def split: if_splits intro: fire_set_keeps)
  next
    case 3
    then show ?thesis using d wf by simp
  qed
qed

lemma dispatch_stream_keeps:
  assumes "I st" "dispatch_stream h os t fd flags a st w = (n, st', w')"
  shows "I st'"
proof (cases "stream_is_listener (streams st a)")
  case True
  then show ?thesis using assms(2) dispatch_listener_keeps [OF assms(1)] by (simp add: dispatch_stream_def)
next
  case False
  obtain p st1 w1 where step: "hook_step h os flags a st w = (p, st1, w1)" by (rule prod_cases3)
  have wf: "I st1" by (rule hook_step_keeps [OF assms(1) step])
  note d = assms(2) [unfolded dispatch_stream_def if_not_P [OF False] Let_def step prod.case]
  consider "p < 0" | "p = 0" | "p = 3" | "p = 2" | "\<not> p < 0" "p \<noteq> 0" "p \<noteq> 3" "p \<noteq> 2" by linarith
  then show ?thesis
  proof cases
    case 1
    obtain st2 w2 where r: "raise_error h t (stream_error (streams st1 a)) a st1 w1 = (st2, w2)" by fastforce
    have wf2: "I st2" by (rule raise_error_keeps [OF wf r])
    have "(if active st2 t \<and> 0 \<le> stream_fd (streams st2 a) then snd (hook_close h os a st2 w2)
        else (st2, w2)) = (st', w')" using d 1 by (simp add: r)
    then show ?thesis by (rule close_if_keeps [OF wf2])
  next
    case 2
    then show ?thesis using d wf by simp
  next
    case 3
    then show ?thesis using d by (auto intro: close_and_tell_keeps [OF wf])
  next
    case 4
    then show ?thesis using d wf by (auto intro: fire_set_keeps [OF wf] split: if_splits)
  next
    case 5
    obtain n1 st2 w2 where r: "dispatch_read h os t fd flags a st1 w1 = (n1, st2, w2)" by (rule prod_cases3)
    obtain n2 st3 w3 where f: "dispatch_flush h os t fd flags a st2 w2 = (n2, st3, w3)" by (rule prod_cases3)
    have "I st3" by (rule dispatch_flush_keeps [OF dispatch_read_keeps [OF wf r] f])
    then show ?thesis using d 5 by (simp add: r f)
  qed
qed

lemma raise_udp_error_keeps:
  assumes "I st" "raise_udp_error h t e a st w = (st', w')"
  shows "I st'"
proof -
  let ?st = "update_datagram a (\<lambda>s. s\<lparr>last_n := socket_error, error_code := e\<rparr>) st"
  obtain st1 w1 where f: "fire_udp h udp_on_error a (Ev_error e) ?st w = (st1, w1)" by fastforce
  have "I ?st" using assms(1) by (intro update_datagram_keeps) (simp_all add: uslots5)
  then have "I st1" using f by (rule fire_udp_keeps)
  then show ?thesis
    using assms(2) [unfolded raise_udp_error_def Let_def f prod.case]
    by (auto intro: fire_udp_set_keeps split: if_splits)
qed

lemma dispatch_datagram_keeps:
  assumes "I st" "dispatch_datagram h os t fd flags a st w = (n, st', w')"
  shows "I st'"
proof (cases "flagged flags POLLIN")
  case True
  obtain r w1 where r: "sys os (Io (Recvfrom fd max_buffer_size)) w = (r, w1)" by fastforce
  note d = assms(2) [unfolded dispatch_datagram_def if_P [OF True] Let_def r prod.case]
  consider "ret r \<ge> 0" | "ret r < 0" "would_block_error (errno w1)"
    | "ret r < 0" "\<not> would_block_error (errno w1)" by linarith
  then show ?thesis
  proof cases
    case 1
    let ?st = "update_datagram a (\<lambda>s. s\<lparr>last_n := ret r, remote_addr := from_addr r\<rparr>) st"
    obtain st2 w2 where f: "fire_datagram h a (got r) (address_of_storage (from_addr r)) ?st w1 = (st2, w2)"
      by fastforce
    have "I ?st" using assms(1) by (intro update_datagram_keeps) (simp_all add: uslots5)
    then have "I st2" using f by (rule fire_datagram_keeps)
    then show ?thesis using d 1 by (auto simp: f intro: fire_udp_set_keeps split: if_splits)
  next
    case 2
    then show ?thesis using d assms(1) by simp
  next
    case 3
    then show ?thesis using d by (auto intro: raise_udp_error_keeps [OF assms(1)])
  qed
next
  case False
  obtain e w1 where e: "poll_event_error os flags fd w = (e, w1)" by fastforce
  show ?thesis
    using assms(2) [unfolded dispatch_datagram_def if_not_P [OF False] e Let_def prod.case] assms(1)
    by (auto intro: raise_udp_error_keeps split: if_splits)
qed

lemma dispatch_one_keeps:
  assumes "I st" "dispatch_one h os watch flags st w = (n, st', w')"
  shows "I st'"
proof -
  obtain due w1 where d: "(if flags \<noteq> 0 then (True, w) else timed_out os st watch w) = (due, w1)" by fastforce
  note o = assms(2) [unfolded dispatch_one_def d Let_def prod.case]
  show ?thesis
  proof (cases watch)
    case (Watch_stream t fd)
    then show ?thesis using o assms(1)
      by (auto intro: dispatch_stream_keeps split: if_splits option.splits)
  next
    case (Watch_datagram t fd)
    then show ?thesis using o assms(1)
      by (auto intro: dispatch_datagram_keeps split: if_splits option.splits)
  qed
qed

lemma dispatch_all_keeps: "I st \<Longrightarrow> dispatch_all h os ws st w = (n, st', w') \<Longrightarrow> I st'"
proof (induction ws arbitrary: st w n st' w')
  case (Cons x ws)
  obtain watch flags where x: "x = (watch, flags)" by fastforce
  obtain n1 st1 w1 where o: "dispatch_one h os watch flags st w = (n1, st1, w1)" by (rule prod_cases3)
  obtain n2 st2 w2 where r: "dispatch_all h os ws st1 w1 = (n2, st2, w2)" by (rule prod_cases3)
  have "I st2" by (rule Cons.IH [OF dispatch_one_keeps [OF Cons.prems(1) o] r])
  then show ?case using Cons.prems(2) by (simp add: x o r)
qed simp

lemma poll_keeps:
  assumes "I st" "event_set_poll h os timeout st w = Some (n, st', w')"
  shows "I st'"
  using assms(2)
proof (cases rule: event_set_poll_cases)
  case (dispatched evs w1 st1)
  have "I (st\<lparr>polling := True\<rparr>)" by (rule polling_keeps [OF assms(1)])
  from dispatch_all_keeps [OF this dispatched(3)] show ?thesis using dispatched(4) polling_keeps by simp
qed (use assms(1) polling_keeps in simp_all)

end

text \<open>User code that only logs that it ran.\<close>

definition log_handlers :: "os \<Rightarrow> 's handlers" where
  "log_handlers os =
    \<lparr>on_stream = (\<lambda>a ev st w. (st, snd (sys os (Cb a ev) w))),
     on_set = (\<lambda>a ev st w. (st, snd (sys os (Cb_set a ev) w))),
     on_udp = (\<lambda>a ev st w. (st, snd (sys os (Cb a ev) w))),
     on_udp_set = (\<lambda>a ev st w. (st, snd (sys os (Cb_set a ev) w))),
     register_sender = (\<lambda>a from st w. (st, w))\<rparr>"

lemma set_wf_users:
  assumes "handlers_keep set_wf h"
  shows "set_users set_wf h"
  by (rule set_users.intro [OF assms]) (simp_all add: set_wf_def)

interpretation logged: set_users set_wf "log_handlers os" for os
  by (rule set_wf_users) (simp add: handlers_keep_def log_handlers_def)

section \<open>Properties\<close>

text \<open>
  C11. Callbacks of the set run only for live registrations. Whatever the handlers do to the set
  in between, dispatching to a watched socket is the same as dispatching with set handlers that
  first look the registration up again; and a socket that was removed, closed or moved to another
  descriptor since the snapshot gets no callback and no input or output: the set is unchanged,
  and at most its deadline was read from the clock.
\<close>

theorem set_handlers_only_while_registered:
  "dispatch_one (guarded t h) os (Watch_stream t fd) flags st w =
     dispatch_one h os (Watch_stream t fd) flags st w \<and>
   dispatch_one (guarded t h) os (Watch_datagram t fd) flags st w =
     dispatch_one h os (Watch_datagram t fd) flags st w \<and>
   (live_stream st t fd = None \<longrightarrow>
     (\<exists>w'. dispatch_one h os (Watch_stream t fd) flags st w = (0, st, w') \<and>
       (trace w' = trace w \<or> (\<exists>r. trace w' = (Io Now, r) # trace w)))) \<and>
   (live_datagram st t fd = None \<longrightarrow>
     dispatch_one h os (Watch_datagram t fd) flags st w = (0, st, w))"
proof -
  obtain due w1 where d: "timed_out os st (Watch_stream t fd) w = (due, w1)" by fastforce
  have clock: "trace w1 = trace w \<or> (\<exists>r. trace w1 = (Io Now, r) # trace w)"
    using d by (auto simp: timed_out_def poll_timeout_ms_def now_def Let_def elim!: hook_timeout.elims
        dest!: sys_trace split: option.splits prod.splits if_splits)
  show ?thesis
    using clock guarded_stream [OF live_stream_active, of st t fd]
    by (auto simp: dispatch_one_def d Let_def split: option.split)
      (auto simp: timed_out_def)
qed

text \<open>
  A concrete environment and set: nothing becomes ready and the clock counts the calls; one
  plain socket on descriptor \<open>3\<close> is registered.
\<close>

definition ticking_os :: os where
  "ticking_os = \<lparr>os_call = (\<lambda>h c. if c = Io Now then result0\<lparr>val := int (length h)\<rparr> else result0),
     pton = (\<lambda>_ _. None), ntop = (\<lambda>_ _. None)\<rparr>"

definition sample_set :: event_set where
  "sample_set = snd (add_stream (Some 0)
     (event_set_new\<lparr>streams := (\<lambda>_. Plain (ev_of_sock (sock_init\<lparr>sockfd := 3\<rparr>)))\<rparr>))"

lemma ticking_advances [simp]: "clock_advances ticking_os"
  by (simp add: clock_advances_def ticking_os_def)

lemma sample_set_facts [simp]: "set_wf sample_set" "\<not> polling sample_set" "length (watched sample_set) = 1"
  "live_stream sample_set 0 4 = None" "live_datagram sample_set 0 4 = None"
  by (simp_all add: sample_set_def add_stream_def event_set_new_def registry_add_def registry_empty_def
      registry_find_def Let_def set_wf_def registry_inv_def watched_def registry_snapshot_def
      get_if_active_def ev_of_sock_def sock.defs ev_sock.defs udp_sock.defs live_stream_def live_datagram_def)

theorem set_handlers_only_while_registered_witness:
  "\<exists>w'. dispatch_one (log_handlers ticking_os) ticking_os (Watch_stream 0 4) 1 sample_set world0 = (0, sample_set, w')"
  using set_handlers_only_while_registered
    [of 0 "log_handlers ticking_os" ticking_os 4 1 sample_set world0] by auto

text \<open>
  C10. A poll with a finite timeout returns, however often signals interrupt the wait. A timeout
  below \<open>-1\<close> and a poll from inside a handler return \<open>-1\<close> at once without
  touching the set or the system; any other poll gives the poll lock back, and its count is at
  most two for each socket watched when it began.
\<close>

theorem event_set_poll_returns:
  assumes "clock_advances os" "timeout \<noteq> - 1"
  shows "\<exists>n st' w'. event_set_poll h os timeout st w = Some (n, st', w') \<and>
    (if timeout < - 1 \<or> polling st then n = - 1 \<and> st' = st \<and> w' = w
     else \<not> polling st' \<and> n \<le> 2 * int (length (watched st)))"
proof -
  obtain n st' w' where p: "event_set_poll h os timeout st w = Some (n, st', w')"
    using poll_total [OF clock_poll_answers [OF assms(1)] assms(2)] by blast
  from p have "if timeout < - 1 \<or> polling st then n = - 1 \<and> st' = st \<and> w' = w
     else \<not> polling st' \<and> n \<le> 2 * int (length (watched st))"
  proof (cases rule: event_set_poll_cases)
    case (dispatched evs w1 st1)
    then show ?thesis
      using dispatch_all_count [of h os evs "st\<lparr>polling := True\<rparr>" w1] by auto
  qed auto
  then show ?thesis using p by blast
qed

theorem event_set_poll_returns_witness:
  "\<exists>n st' w'. event_set_poll (log_handlers ticking_os) ticking_os 5 sample_set world0 = Some (n, st', w') \<and>
    \<not> polling st' \<and> n \<le> 2"
  using event_set_poll_returns [of ticking_os 5 "log_handlers ticking_os" sample_set world0] by auto

text \<open>
  C15. The set stays well formed: if the user's handlers keep the registries consistent and the
  handler tables complete, so does every poll over any mix of plain, TLS, listening and UDP
  sockets, on all its error paths. The registration operations keep it by themselves.
\<close>

theorem event_set_stays_wf:
  assumes "set_wf st"
  shows "(handlers_keep set_wf h \<longrightarrow> event_set_poll h os timeout st w = Some (n, st', w') \<longrightarrow> set_wf st') \<and>
    set_wf (snd (add_stream a st)) \<and> set_wf (snd (remove_stream a st)) \<and>
    set_wf (snd (add_datagram a st)) \<and> set_wf (snd (remove_datagram a st)) \<and>
    set_wf (snd (remove_at i st)) \<and>
    (case on_socket slot b st of Some st' \<Rightarrow> set_wf st' | None \<Rightarrow> 8 \<le> slot) \<and> set_wf event_set_new"
proof -
  note inv = assms [unfolded set_wf_def]
  note added = registry_add_inv and removed = registry_remove_socket_inv and gone = registry_remove_index_inv
  have wf_if: "set_wf st'"
    if "handlers_keep set_wf h" "event_set_poll h os timeout st w = Some (n, st', w')"
    by (rule set_users.poll_keeps [OF set_wf_users [OF that(1)] assms that(2)])
  have "set_wf (snd (add_stream a st))" "set_wf (snd (remove_stream a st))"
    using inv added [of "tcp_reg st"] removed [of "tcp_reg st"]
    by (simp_all add: set_wf_def add_stream_def remove_stream_def Let_def case_prod_beta)
  moreover have "set_wf (snd (add_datagram a st))" "set_wf (snd (remove_datagram a st))"
    using inv added [of "udp_reg st"] removed [of "udp_reg st"]
    by (simp_all add: set_wf_def add_datagram_def remove_datagram_def Let_def case_prod_beta)
  moreover have "set_wf (snd (remove_at i st))"
    using inv gone [of "tcp_reg st"] gone [of "udp_reg st"]
    by (simp add: set_wf_def remove_at_def Let_def case_prod_beta)
  moreover have "case on_socket slot b st of Some st' \<Rightarrow> set_wf st' | None \<Rightarrow> 8 \<le> slot"
    using inv by (simp add: set_wf_def on_socket_def)
  moreover have "set_wf event_set_new"
    by (simp add: set_wf_def event_set_new_def ev_of_sock_def sock.defs ev_sock.defs udp_sock.defs)
  ultimately show ?thesis using wf_if by blast
qed

theorem event_set_stays_wf_witness:
  "\<exists>n st' w'. event_set_poll (log_handlers ticking_os) ticking_os 5 sample_set world0 = Some (n, st', w') \<and>
    set_wf st'"
proof -
  obtain n st' w' where
    p: "event_set_poll (log_handlers ticking_os) ticking_os 5 sample_set world0 = Some (n, st', w')"
    using poll_total [OF clock_poll_answers, of ticking_os 5 "log_handlers ticking_os" sample_set world0] by auto
  show ?thesis
    using event_set_stays_wf [of sample_set "log_handlers ticking_os" ticking_os 5 world0 n st' w']
      logged.keep [of ticking_os] p by auto
qed

end
