(* ===== verification/Server.thy ===== *)
theory Server
  imports Event_Socket Peer_Collection
begin

text \<open>
  \<open>src/server_socket.cpp\<close> and \<open>src/server_event_socket.cpp\<close>: a TCP listener that owns
  the peers it accepts. Both classes have the same text apart from their own \<open>close\<close> and
  \<open>listen\<close>, so what they share is written once, over the place where the object keeps its
  collection (\<open>acc\<close>, \<open>set_acc\<close>) and the class of its peers (their virtual
  \<open>close\<close>, their factory and their destructor).
\<close>

section \<open>Accepted peers\<close>

text \<open>
  The peer objects by address; \<open>aworld\<close> is the world while peers are being closed.
\<close>

record 'p accepted = peers +
  peer_heap :: "nat \<Rightarrow> 'p"
  next_peer :: nat
  aworld :: world

definition accepted_empty :: "'p \<Rightarrow> 'p accepted" where
  "accepted_empty x = peers.extend peers_empty
     \<lparr>peer_heap = (\<lambda>_. x), next_peer = 1, aworld = \<lparr>trace = [], errno = 0\<rparr>\<rparr>"

type_synonym 'p virtual_closer = "os \<Rightarrow> 'p \<Rightarrow> world \<Rightarrow> bool \<times> 'p \<times> world"

definition close_accepted :: "'p virtual_closer \<Rightarrow> os \<Rightarrow> ('p accepted) closer" where
  "close_accepted pcl os p a =
    (let (b, x, w) = pcl os (peer_heap a p) (aworld a) in
     (Some b, a\<lparr>peer_heap := (peer_heap a)(p := x), aworld := w\<rparr>))"

definition destroy_accepted :: "(os \<Rightarrow> 'p \<Rightarrow> world \<Rightarrow> world) \<Rightarrow> os \<Rightarrow> nat \<Rightarrow> 'p accepted \<Rightarrow> 'p accepted" where
  "destroy_accepted destroy os p a = a\<lparr>aworld := destroy os (peer_heap a p) (aworld a)\<rparr>"

text \<open>A close handler of a peer acts on that peer, so the loop returns (\<open>Some\<close>).\<close>

definition close_accepted_peers ::
  "'p virtual_closer \<Rightarrow> os \<Rightarrow> 'p accepted \<Rightarrow> world \<Rightarrow> bool \<times> 'p accepted \<times> world" where
  "close_accepted_peers pcl os a w =
    (case close_owned_peers (close_accepted pcl os) (a\<lparr>aworld := w\<rparr>) of
       Some (r, a) \<Rightarrow> (r = Some True, a, aworld a)
     | None \<Rightarrow> (False, a, w))"

definition remove_accepted_peer ::
  "'p virtual_closer \<Rightarrow> (os \<Rightarrow> 'p \<Rightarrow> world \<Rightarrow> world) \<Rightarrow> os \<Rightarrow> nat option \<Rightarrow> 'p accepted \<Rightarrow> world \<Rightarrow>
    bool \<times> 'p accepted \<times> world" where
  "remove_accepted_peer pcl destroy os peer a w =
    (let (r, a) = remove_owned_peer (close_accepted pcl os) (destroy_accepted destroy os) peer
           (a\<lparr>aworld := w\<rparr>) in
     (r = Some True, a, aworld a))"

text \<open>
  The tail of \<open>accept\<close>: the new peer learns its endpoint and its server (address \<open>0\<close>),
  gets the mode asked for and joins the collection; if the mode cannot be set it is destroyed.
\<close>

definition take_peer ::
  "(os \<Rightarrow> 'b sock_scheme \<Rightarrow> world \<Rightarrow> world) \<Rightarrow> os \<Rightarrow> bool \<Rightarrow> sockaddr_storage \<Rightarrow> 'b sock_scheme \<Rightarrow>
   'b sock_scheme accepted \<Rightarrow> world \<Rightarrow> nat option \<times> 'b sock_scheme accepted \<times> world" where
  "take_peer destroy os block from x a w =
    (let x = set_parent_server (Some 0) (x\<lparr>remote_addr := from\<rparr>);
         (r, x, w) = set_blocking os block x w in
     if r \<noteq> 0 then (None, a, destroy os x w)
     else
       let p = next_peer a;
           (res, a) = add_peer (Some p) (a\<lparr>peer_heap := (peer_heap a)(p := x), next_peer := p + 1\<rparr>) in
       (res, a, w))"

section \<open>Operations shared by the listeners\<close>

text \<open>A factory owns the descriptor at once: when it returns nothing it has closed it.\<close>

type_synonym ('s, 'p) factory = "os \<Rightarrow> int \<Rightarrow> 's \<Rightarrow> world \<Rightarrow> 'p option \<times> 's \<times> world"

definition accept_peer ::
  "('a sock_scheme \<Rightarrow> 'b sock_scheme accepted) \<Rightarrow>
   ('b sock_scheme accepted \<Rightarrow> 'a sock_scheme \<Rightarrow> 'a sock_scheme) \<Rightarrow>
   ('a sock_scheme, 'b sock_scheme) factory \<Rightarrow> (os \<Rightarrow> 'b sock_scheme \<Rightarrow> world \<Rightarrow> world) \<Rightarrow> os \<Rightarrow> int \<Rightarrow>
   bool \<Rightarrow> 'a sock_scheme \<Rightarrow> world \<Rightarrow> nat option \<times> 'a sock_scheme \<times> world"
where
  "accept_peer acc set_acc factory destroy os timeout block s w =
    (let (fd, from, s, w) = tcp_accept os timeout block s w in
     if fd = invalid_socket then (None, s, w)
     else
       let (result, s, w) = factory os fd s w in
       case result of
         None \<Rightarrow> (None, s, w)
       | Some x \<Rightarrow>
           let (peer, a, w) = take_peer destroy os block from x (acc s) w in
           (peer, set_acc a s, w))"

definition close_server ::
  "'a sock_scheme virtual_closer \<Rightarrow> ('a sock_scheme \<Rightarrow> 'b sock_scheme accepted) \<Rightarrow>
   ('b sock_scheme accepted \<Rightarrow> 'a sock_scheme \<Rightarrow> 'a sock_scheme) \<Rightarrow> 'b sock_scheme virtual_closer \<Rightarrow>
   os \<Rightarrow> 'a sock_scheme \<Rightarrow> world \<Rightarrow> bool \<times> 'a sock_scheme \<times> world"
where
  "close_server own acc set_acc pcl os s w =
    (let (changed, s, w) = own os s w;
         (closed, a, w) = close_accepted_peers pcl os (acc s) w in
     (closed \<or> changed, set_acc a s, w))"

section \<open>The synchronous server\<close>

record 'p server_sock = sock +
  accepted_peers :: "'p accepted"
  accept_timeout_ms :: int

definition set_accepted :: "'p accepted \<Rightarrow> ('p, 'a) server_sock_scheme \<Rightarrow> ('p, 'a) server_sock_scheme" where
  "set_accepted a s = s\<lparr>accepted_peers := a\<rparr>"

definition server_of_sock :: "sock \<Rightarrow> sock server_sock" where
  "server_of_sock s = sock.extend s \<lparr>accepted_peers = accepted_empty sock_init, accept_timeout_ms = 0\<rparr>"

definition server_new :: "os \<Rightarrow> world \<Rightarrow> sock server_sock \<times> world" where
  "server_new os w = (let (s, w) = socket_default os w in (server_of_sock s, w))"

definition set_accept_timeout :: "int \<Rightarrow> ('p, 'a) server_sock_scheme \<Rightarrow> int \<times> ('p, 'a) server_sock_scheme" where
  "set_accept_timeout timeout_ms s =
    (if timeout_ms < 0 \<or> timeout_ms > 60000 then (- 1, set_error err_no_socket s)
     else (0, set_error err_none (s\<lparr>accept_timeout_ms := timeout_ms\<rparr>)))"

definition server_close ::
  "'b sock_scheme virtual_closer \<Rightarrow> (('b sock_scheme, 'a) server_sock_scheme) virtual_closer" where
  "server_close pcl = close_server socket_close accepted_peers set_accepted pcl"

text \<open>\<open>close\<close> is virtual: \<open>tcp_listen\<close> closes the peers of the old listener too.\<close>

definition server_listen_on ::
  "'b sock_scheme virtual_closer \<Rightarrow> os \<Rightarrow> string option \<Rightarrow> int \<Rightarrow> ('b sock_scheme, 'a) server_sock_scheme \<Rightarrow>
   world \<Rightarrow> bool \<times> ('b sock_scheme, 'a) server_sock_scheme \<times> world"
where
  "server_listen_on pcl os ip port_number s w =
    (let (ok, s, w) = tcp_listen os (server_close pcl) ip port_number s w in
     if ok
     then let (_, a, w) = close_accepted_peers pcl os (accepted_peers s) w in (ok, set_accepted a s, w)
     else (ok, s, w))"

definition server_listen ::
  "'b sock_scheme virtual_closer \<Rightarrow> os \<Rightarrow> ('b sock_scheme, 'a) server_sock_scheme \<Rightarrow> world \<Rightarrow>
   bool \<times> ('b sock_scheme, 'a) server_sock_scheme \<times> world"
where
  "server_listen pcl os s w = server_listen_on pcl os (Some ''0.0.0.0'') (sock_port s) s w"

definition create_accepted_socket :: "('s, sock) factory" where
  "create_accepted_socket os fd s w = (let (x, w) = socket_adopt os fd w in (Some x, s, w))"

definition server_accept ::
  "os \<Rightarrow> bool \<Rightarrow> (sock, 'a) server_sock_scheme \<Rightarrow> world \<Rightarrow>
   nat option \<times> (sock, 'a) server_sock_scheme \<times> world"
where
  "server_accept os block s w =
    accept_peer accepted_peers set_accepted create_accepted_socket socket_destroy os
      (accept_timeout_ms s) block s w"

definition server_remove_peer ::
  "os \<Rightarrow> nat option \<Rightarrow> (sock, 'a) server_sock_scheme \<Rightarrow> world \<Rightarrow> bool \<times> (sock, 'a) server_sock_scheme \<times> world"
where
  "server_remove_peer os peer s w =
    (let (b, a, w) = remove_accepted_peer socket_close socket_destroy os peer (accepted_peers s) w in
     (b, set_accepted a s, w))"

definition server_peer_count :: "('p, 'a) server_sock_scheme \<Rightarrow> int" where
  "server_peer_count s = owned_peer_count (accepted_peers s)"

definition server_peer_at :: "nat \<Rightarrow> ('p, 'a) server_sock_scheme \<Rightarrow> nat option" where
  "server_peer_at index s = owned_peer_at index (accepted_peers s)"

text \<open>The destructor: \<open>close\<close>, then the owning collection, then the base class.\<close>

definition destroy_server ::
  "(('b sock_scheme, 'a) server_sock_scheme) virtual_closer \<Rightarrow> (os \<Rightarrow> 'b sock_scheme \<Rightarrow> world \<Rightarrow> world) \<Rightarrow>
   os \<Rightarrow> ('b sock_scheme, 'a) server_sock_scheme \<Rightarrow> world \<Rightarrow> world"
where
  "destroy_server cl destroy os s w =
    (let (_, s, w) = cl os s w; a = accepted_peers s;
         w = fold (\<lambda>p w. destroy os (peer_heap a p) w) (owned a) w in
     socket_destroy os s w)"

section \<open>The event server\<close>

record 'p server_ev_sock = ev_sock +
  ev_accepted :: "'p accepted"
  ev_accept_timeout_ms :: int

definition set_ev_accepted :: "'p accepted \<Rightarrow> ('p, 'a) server_ev_sock_scheme \<Rightarrow> ('p, 'a) server_ev_sock_scheme" where
  "set_ev_accepted a s = s\<lparr>ev_accepted := a\<rparr>"

definition server_event_of :: "ev_sock \<Rightarrow> ev_sock server_ev_sock" where
  "server_event_of s = ev_sock.extend s
     \<lparr>ev_accepted = accepted_empty (ev_of_sock sock_init), ev_accept_timeout_ms = 0\<rparr>"

definition server_event_new :: "os \<Rightarrow> world \<Rightarrow> ev_sock server_ev_sock \<times> world" where
  "server_event_new os w = (let (s, w) = event_socket_new os w in (server_event_of s, w))"

definition set_event_accept_timeout ::
  "int \<Rightarrow> ('p, 'a) server_ev_sock_scheme \<Rightarrow> int \<times> ('p, 'a) server_ev_sock_scheme" where
  "set_event_accept_timeout ms s =
    (if ms < 0 \<or> ms > 60000 then (- 1, set_error err_no_socket s)
     else (0, set_error err_none (s\<lparr>ev_accept_timeout_ms := ms\<rparr>)))"

definition server_event_close ::
  "(os \<Rightarrow> (('b sock_scheme, 'a) server_ev_sock_scheme) user_handlers) \<Rightarrow> 'b sock_scheme virtual_closer \<Rightarrow>
   (('b sock_scheme, 'a) server_ev_sock_scheme) virtual_closer" where
  "server_event_close user pcl =
    close_server (\<lambda>os. event_close (user os) os) ev_accepted set_ev_accepted pcl"

definition server_event_listen_on ::
  "(os \<Rightarrow> (('b sock_scheme, 'a) server_ev_sock_scheme) user_handlers) \<Rightarrow> 'b sock_scheme virtual_closer \<Rightarrow> os \<Rightarrow>
   string option \<Rightarrow> int \<Rightarrow> ('b sock_scheme, 'a) server_ev_sock_scheme \<Rightarrow> world \<Rightarrow>
   bool \<times> ('b sock_scheme, 'a) server_ev_sock_scheme \<times> world"
where
  "server_event_listen_on user pcl os ip port_number s w =
    (let (ok, s, w) = tcp_listen os (server_event_close user pcl) ip port_number s w in
     if \<not> ok then (False, s, w)
     else
       let (_, a, w) = close_accepted_peers pcl os (ev_accepted s) w; s = set_ev_accepted a s;
           (r, s, w) = set_blocking os False s w in
       if r \<noteq> 0 then let (_, s, w) = socket_close os s w in (False, s, w)
       else let (s, w) = fire (user os) handler_listen Ev_listen s w in (True, s, w))"

definition server_event_listen ::
  "(os \<Rightarrow> (('b sock_scheme, 'a) server_ev_sock_scheme) user_handlers) \<Rightarrow> 'b sock_scheme virtual_closer \<Rightarrow> os \<Rightarrow>
   ('b sock_scheme, 'a) server_ev_sock_scheme \<Rightarrow> world \<Rightarrow>
   bool \<times> ('b sock_scheme, 'a) server_ev_sock_scheme \<times> world"
where
  "server_event_listen user pcl os s w =
    server_event_listen_on user pcl os (Some ''0.0.0.0'') (sock_port s) s w"

definition create_accepted_event_socket :: "('s, ev_sock) factory" where
  "create_accepted_event_socket os fd s w = (let (x, w) = event_socket_adopt os fd w in (Some x, s, w))"

definition server_event_accept ::
  "os \<Rightarrow> bool \<Rightarrow> (ev_sock, 'a) server_ev_sock_scheme \<Rightarrow> world \<Rightarrow>
   nat option \<times> (ev_sock, 'a) server_ev_sock_scheme \<times> world"
where
  "server_event_accept os block s w =
    accept_peer ev_accepted set_ev_accepted create_accepted_event_socket socket_destroy os
      (ev_accept_timeout_ms s) block s w"

definition server_event_remove_peer ::
  "'b sock_scheme virtual_closer \<Rightarrow> (os \<Rightarrow> 'b sock_scheme \<Rightarrow> world \<Rightarrow> world) \<Rightarrow> os \<Rightarrow> nat option \<Rightarrow> ('b sock_scheme, 'a) server_ev_sock_scheme \<Rightarrow> world \<Rightarrow>
   bool \<times> ('b sock_scheme, 'a) server_ev_sock_scheme \<times> world"
where
  "server_event_remove_peer pcl destroy os peer s w =
    (let (b, a, w) = remove_accepted_peer pcl destroy os peer (ev_accepted s) w in
     (b, set_ev_accepted a s, w))"

definition server_event_peer_count :: "('p, 'a) server_ev_sock_scheme \<Rightarrow> int" where
  "server_event_peer_count s = owned_peer_count (ev_accepted s)"

definition server_event_peer_at :: "nat \<Rightarrow> ('p, 'a) server_ev_sock_scheme \<Rightarrow> nat option" where
  "server_event_peer_at index s = owned_peer_at index (ev_accepted s)"

end
