(* ===== verification/Tls_Socket.thy ===== *)
theory Tls_Socket
  imports Server Tls_Event
begin

text \<open>
  \<open>src/ssl_socket.cpp\<close>: the synchronous TLS socket. A handle of OpenSSL is an integer, \<open>0\<close> the null pointer; OpenSSL answers every call through the environment.
\<close>

section \<open>State\<close>

record ssl_sock = sock +
  ssl_ctx :: int
  ssl :: int
  owns_ctx :: bool
  accept_self_signed :: bool
  peer_verification :: ssl_verify_mode
  cert_file :: string
  key_file :: string

definition SSL_ERROR_NONE :: int where [simp]: "SSL_ERROR_NONE = 0"
definition SSL_ERROR_SYSCALL :: int where [simp]: "SSL_ERROR_SYSCALL = 5"

text \<open>
  The error queue of OpenSSL holds at most 16 errors (\<open>ERR_NUM_ERRORS\<close>), so the loop that pops
  it makes at most 17 calls: the fuel.
\<close>

fun pop_errors :: "nat \<Rightarrow> os \<Rightarrow> world \<Rightarrow> world" where
  "pop_errors 0 os w = w"
| "pop_errors (Suc k) os w =
    (let (e, w) = sys os (Tls Err_get_error) w in if ret e = 0 then w else pop_errors k os w)"

definition clear_ssl_errors :: "os \<Rightarrow> world \<Rightarrow> world" where
  "clear_ssl_errors = pop_errors 17"

definition get_ssl_error :: "os \<Rightarrow> world \<Rightarrow> int \<times> world" where
  "get_ssl_error os w = (let (e, w) = sys os (Tls Err_get_error) w in (ret e, w))"

text \<open>
  The texts of the errors come from OpenSSL (\<open>ERR_reason_error_string\<close>): a parameter.
\<close>

definition get_ssl_error_string :: "os \<Rightarrow> (int \<Rightarrow> string option) \<Rightarrow> world \<Rightarrow> string \<times> world" where
  "get_ssl_error_string os reason w =
    (let (e, w) = sys os (Tls Err_get_error) w in
     if ret e = 0 then (''No SSL error'', w)
     else case reason (ret e) of Some t \<Rightarrow> (t, w) | None \<Rightarrow> (''Unknown SSL error'', w))"

fun ssl_errors_loop :: "nat \<Rightarrow> os \<Rightarrow> (int \<Rightarrow> string option) \<Rightarrow> string \<Rightarrow> world \<Rightarrow> string \<times> world" where
  "ssl_errors_loop 0 os reason errors w = (errors, w)"
| "ssl_errors_loop (Suc k) os reason errors w =
    (let (e, w) = sys os (Tls Err_get_error) w in
     if ret e = 0 then (errors, w)
     else ssl_errors_loop k os reason
       (case reason (ret e) of Some t \<Rightarrow> errors @ t @ [CHR 0x0A] | None \<Rightarrow> errors) w)"

definition get_ssl_errors_all :: "os \<Rightarrow> (int \<Rightarrow> string option) \<Rightarrow> world \<Rightarrow> string \<times> world" where
  "get_ssl_errors_all os reason w =
    (let (errors, w) = ssl_errors_loop 17 os reason [] w in
     (if errors = [] then ''No SSL errors'' else errors, w))"

text \<open>The certificate callback (verdict and error it leaves) and the test for a literal address.\<close>

definition verify_self_signed_leaf :: "int \<Rightarrow> int \<Rightarrow> int \<Rightarrow> int \<times> int" where
  "verify_self_signed_leaf preverified depth e =
    (if preverified = 1 then (1, e)
     else if depth = 0 \<and> e = X509_V_ERR_DEPTH_ZERO_SELF_SIGNED_CERT then (1, X509_V_OK)
     else (0, e))"

definition numeric_ip :: "os \<Rightarrow> string \<Rightarrow> bool" where
  "numeric_ip os name \<longleftrightarrow> pton os AF_INET name \<noteq> None \<or> pton os AF_INET6 name \<noteq> None"

definition ssl_of_sock :: "int \<Rightarrow> ssl_verify_mode \<Rightarrow> sock \<Rightarrow> ssl_sock" where
  "ssl_of_sock c mode s =
    sock.extend s \<lparr>ssl_ctx = c, ssl = 0, owns_ctx = False, accept_self_signed = False,
      peer_verification = mode, cert_file = [], key_file = []\<rparr>"

text \<open>
  The constructor hands \<open>stream_type\<close> to the base constructor that takes a family.
\<close>

definition ssl_socket_new :: "os \<Rightarrow> int \<Rightarrow> world \<Rightarrow> ssl_sock \<times> world" where
  "ssl_socket_new os shared_ctx w =
    (let (s, w) = socket_of_family os SOCK_STREAM w;
         s = ssl_of_sock 0 Strict s in
     if shared_ctx \<noteq> 0 then (s\<lparr>ssl_ctx := shared_ctx\<rparr>, w)
     else
       let (c, w) = sys os (Tls (Ctx_new False)) w; s = s\<lparr>ssl_ctx := ret c\<rparr> in
       if ssl_ctx s = 0 then (set_error err_no_socket s, w)
       else
         let s = s\<lparr>owns_ctx := True\<rparr>;
             w = snd (sys os (Tls (Ctx_set_verify (ssl_ctx s) (peer_verification s = Strict))) w);
             w = snd (sys os (Tls (Ctx_default_paths (ssl_ctx s))) w) in
         (s, w))"

definition ssl_socket_adopt :: "os \<Rightarrow> int \<Rightarrow> int \<Rightarrow> world \<Rightarrow> ssl_sock \<times> world" where
  "ssl_socket_adopt os accepted_fd server_ctx w =
    (let (s, w) = socket_adopt os accepted_fd w in (ssl_of_sock server_ctx Off s, w))"

definition perform_server_handshake ::
  "os \<Rightarrow> 'a ssl_sock_scheme \<Rightarrow> world \<Rightarrow> int \<times> 'a ssl_sock_scheme \<times> world" where
  "perform_server_handshake os s w =
    (if ssl_ctx s = 0 \<or> \<not> is_valid_socket s then (ssl_error_init, set_error ssl_error_init s, w)
     else
       let w = clear_ssl_errors os w;
           (n, w) = sys os (Tls (Ssl_new (ssl_ctx s))) w;
           s = s\<lparr>ssl := ret n\<rparr>;
           (attached, w) =
             (if ssl s = 0 then (False, w)
              else let (f, w) = sys os (Tls (Ssl_set_fd (ssl s) (sockfd s))) w in (ret f = 1, w)) in
       if \<not> attached then (ssl_error_init, set_error ssl_error_init s, w)
       else
         let w = snd (sys os (Tls (Ssl_set_accept_state (ssl s))) w);
             (r, w) = sys os (Tls (Ssl_accept (ssl s))) w in
         if ret r \<noteq> 1
         then (ssl_error_handshake, set_error ssl_error_handshake s,
               snd (sys os (Tls (Ssl_get_error (ssl s) (ret r))) w))
         else (err_none, set_error err_none s, w))"

section \<open>Closing\<close>

definition ssl_close :: "('a ssl_sock_scheme) virtual_closer" where
  "ssl_close os s w =
    (let (s, w) =
       (if ssl s \<noteq> 0
        then
          let (finished, w) =
                (if is_valid_socket s
                 then let (f, w) = sys os (Tls (Ssl_is_init_finished (ssl s))) w in (ret f \<noteq> 0, w)
                 else (False, w));
              w = (if finished then snd (sys os (Tls (Ssl_shutdown (ssl s))) (clear_ssl_errors os w)) else w);
              w = snd (sys os (Tls (Ssl_free (ssl s))) w) in
          (s\<lparr>ssl := 0\<rparr>, w)
        else (s, w)) in
     socket_close os s w)"

definition ssl_destroy :: "os \<Rightarrow> 'a ssl_sock_scheme \<Rightarrow> world \<Rightarrow> world" where
  "ssl_destroy os s w =
    (let (_, s, w) = ssl_close os s w;
         w = (if owns_ctx s \<and> ssl_ctx s \<noteq> 0 then snd (sys os (Tls (Ctx_free (ssl_ctx s))) w) else w) in
     socket_destroy os s w)"

section \<open>Client session\<close>

text \<open>The expected identity of the peer, and the name announced to it.\<close>

definition verify_identity ::
  "os \<Rightarrow> string \<Rightarrow> 'a ssl_sock_scheme \<Rightarrow> world \<Rightarrow> int \<times> 'a ssl_sock_scheme \<times> world" where
  "verify_identity os expected s w =
    (if peer_verification s = Strict
     then
       if expected = [] then (ssl_error_cert, set_error ssl_error_cert s, w)
       else
         let w = snd (sys os (Tls (Ssl_set_verify (ssl s) True (accept_self_signed s))) w);
             w = snd (sys os (Tls (Ssl_set_hostflags (ssl s))) w);
             (ok, w) =
               (if numeric_ip os expected
                then let (r, w) = sys os (Tls (Ssl_set_ip (ssl s) expected)) w in (ret r = 1, w)
                else
                  let (r, w) = sys os (Tls (Ssl_set_host (ssl s) expected)) w in
                  if ret r = 1
                  then let (r, w) = sys os (Tls (Ssl_set_sni (ssl s) expected)) w in (ret r = 1, w)
                  else (False, w)) in
         if \<not> ok then (ssl_error_cert, set_error ssl_error_cert s, w) else (err_none, s, w)
     else
       let w = snd (sys os (Tls (Ssl_set_verify (ssl s) False False)) w);
           (failed, w) =
             (if expected \<noteq> [] \<and> \<not> numeric_ip os expected
              then let (r, w) = sys os (Tls (Ssl_set_sni (ssl s) expected)) w in (ret r \<noteq> 1, w)
              else (False, w)) in
       if failed then (ssl_error_init, set_error ssl_error_init s, w) else (err_none, s, w))"

text \<open>The certificate and key of the client, if it has them; the first failure decides.\<close>

definition load_credentials :: "os \<Rightarrow> 'a ssl_sock_scheme \<Rightarrow> world \<Rightarrow> int \<times> world" where
  "load_credentials os s w =
    (let (cert_ok, w) =
       (if cert_file s = [] then (True, w)
        else let (r, w) = sys os (Tls (Ctx_use_cert (ssl_ctx s) (cert_file s))) w in (ret r = 1, w)) in
     if \<not> cert_ok then (ssl_error_cert, w)
     else
       let (key_ok, w) =
         (if key_file s = [] then (True, w)
          else let (r, w) = sys os (Tls (Ctx_use_key (ssl_ctx s) (key_file s))) w in (ret r = 1, w)) in
       if \<not> key_ok then (ssl_error_key, w) else (err_none, w))"

definition setup_ssl ::
  "os \<Rightarrow> string \<Rightarrow> 'a ssl_sock_scheme \<Rightarrow> world \<Rightarrow> int \<times> 'a ssl_sock_scheme \<times> world" where
  "setup_ssl os expected s w =
    (if ssl_ctx s = 0 then (ssl_error_init, set_error ssl_error_init s, w)
     else
       let (s, w) = (if ssl s \<noteq> 0 then (s\<lparr>ssl := 0\<rparr>, snd (sys os (Tls (Ssl_free (ssl s))) w)) else (s, w));
           w = clear_ssl_errors os w;
           (n, w) = sys os (Tls (Ssl_new (ssl_ctx s))) w;
           s = s\<lparr>ssl := ret n\<rparr> in
       if ssl s = 0 then (ssl_error_init, set_error ssl_error_init s, w)
       else
         let (f, w) = sys os (Tls (Ssl_set_fd (ssl s) (sockfd s))) w in
         if ret f \<noteq> 1
         then (ssl_error_init, (set_error ssl_error_init s)\<lparr>ssl := 0\<rparr>,
               snd (sys os (Tls (Ssl_free (ssl s))) w))
         else
           let (c, w) = load_credentials os s w in
           if c \<noteq> err_none then (c, set_error c s, w) else verify_identity os expected s w)"

text \<open>A strict socket also checks the result of the verification.\<close>

definition verify_failed :: "os \<Rightarrow> 'a ssl_sock_scheme \<Rightarrow> world \<Rightarrow> bool \<times> world" where
  "verify_failed os s w =
    (if peer_verification s = Strict
     then let (v, w) = sys os (Tls (Ssl_get_verify_result (ssl s))) w in (ret v \<noteq> X509_V_OK, w)
     else (False, w))"

definition perform_handshake ::
  "os \<Rightarrow> 'a ssl_sock_scheme \<Rightarrow> world \<Rightarrow> int \<times> 'a ssl_sock_scheme \<times> world" where
  "perform_handshake os s w =
    (if ssl s = 0 then (ssl_error_init, set_error ssl_error_init s, w)
     else
       let w = clear_ssl_errors os w;
           (r, w) = sys os (Tls (Ssl_connect (ssl s))) w in
       if ret r \<noteq> 1
       then
         let (e, w) = sys os (Tls (Ssl_get_error (ssl s) (ret r))) w;
             (failed, w) = verify_failed os s w;
             code = (if failed then ssl_error_cert
                     else if ret e = SSL_ERROR_SYSCALL then err_no_socket else ssl_error_handshake) in
         (code, set_error code s, w)
       else
         let (failed, w) = verify_failed os s w in
         if failed then (ssl_error_cert, set_error ssl_error_cert s, w) else (err_none, s, w))"

section \<open>Configuration\<close>

definition set_certificate_file :: "string option \<Rightarrow> 'a ssl_sock_scheme \<Rightarrow> int \<times> 'a ssl_sock_scheme" where
  "set_certificate_file path s =
    (case path of None \<Rightarrow> (ssl_error, set_error ssl_error s) | Some p \<Rightarrow> (err_none, s\<lparr>cert_file := p\<rparr>))"

definition set_private_key_file :: "string option \<Rightarrow> 'a ssl_sock_scheme \<Rightarrow> int \<times> 'a ssl_sock_scheme" where
  "set_private_key_file path s =
    (case path of None \<Rightarrow> (ssl_error, set_error ssl_error s) | Some p \<Rightarrow> (err_none, s\<lparr>key_file := p\<rparr>))"

definition ssl_set_ca_file ::
  "os \<Rightarrow> string option \<Rightarrow> 'a ssl_sock_scheme \<Rightarrow> world \<Rightarrow> int \<times> 'a ssl_sock_scheme \<times> world" where
  "ssl_set_ca_file os path s w =
    (case path of
       None \<Rightarrow> (ssl_error, set_error ssl_error s, w)
     | Some p \<Rightarrow>
         if ssl_ctx s = 0 then (ssl_error_init, set_error ssl_error_init s, w)
         else
           let (r, w) = sys os (Tls (Ctx_load_ca (ssl_ctx s) p)) w in
           if ret r \<noteq> 1 then (ssl_error_cert, set_error ssl_error_cert s, w) else (err_none, s, w))"

definition ssl_set_peer_verification :: "ssl_verify_mode \<Rightarrow> 'a ssl_sock_scheme \<Rightarrow> int \<times> 'a ssl_sock_scheme" where
  "ssl_set_peer_verification mode s = (err_none, s\<lparr>peer_verification := mode\<rparr>)"

definition ssl_set_allow_self_signed :: "bool \<Rightarrow> 'a ssl_sock_scheme \<Rightarrow> int \<times> 'a ssl_sock_scheme" where
  "ssl_set_allow_self_signed allow s = (err_none, s\<lparr>accept_self_signed := allow\<rparr>)"

section \<open>Transfer\<close>

definition io_failed :: "os \<Rightarrow> int \<Rightarrow> 'a ssl_sock_scheme \<Rightarrow> world \<Rightarrow> 'a ssl_sock_scheme \<times> world" where
  "io_failed os r s w =
    (let (e, w) = sys os (Tls (Ssl_get_error (ssl s) r)) w in
     (if ret e \<noteq> SSL_ERROR_NONE then set_error ssl_error_io s else s, w))"

definition ssl_write ::
  "os \<Rightarrow> byte list \<Rightarrow> int \<Rightarrow> 'a ssl_sock_scheme \<Rightarrow> world \<Rightarrow> int \<times> 'a ssl_sock_scheme \<times> world" where
  "ssl_write os data sz s w =
    (if ssl s = 0 \<or> \<not> connected s then (err_no_socket, set_error err_no_socket s, w)
     else
       let w = clear_ssl_errors os w;
           (r, w) = sys os (Tls (ssl_write_call (ssl s) data sz)) w in
       if ret r \<le> 0 then let (s, w) = io_failed os (ret r) s w in (ssl_error_io, s, w)
       else (ret r, s, w))"

definition ssl_write_cstr ::
  "os \<Rightarrow> byte list option \<Rightarrow> 'a ssl_sock_scheme \<Rightarrow> world \<Rightarrow> int \<times> 'a ssl_sock_scheme \<times> world" where
  "ssl_write_cstr os data s w =
    (case data of
       None \<Rightarrow> (ssl_error, set_error ssl_error s, w)
     | Some d \<Rightarrow> ssl_write os (c_string d) (to_int32 (int (length (c_string d)))) s w)"

definition ssl_write_string ::
  "os \<Rightarrow> byte list \<Rightarrow> 'a ssl_sock_scheme \<Rightarrow> world \<Rightarrow> int \<times> 'a ssl_sock_scheme \<times> world" where
  "ssl_write_string os data s w = ssl_write os data (to_int32 (int (length data))) s w"

definition ssl_read_inbuffer ::
  "os \<Rightarrow> 'a ssl_sock_scheme \<Rightarrow> world \<Rightarrow> int \<times> 'a ssl_sock_scheme \<times> world" where
  "ssl_read_inbuffer os s w =
    (if ssl s = 0 \<or> \<not> connected s then (err_no_socket, set_error err_no_socket s, w)
     else
       let w = clear_ssl_errors os w;
           (r, w) = sys os (Tls (Ssl_read (ssl s) max_buffer_size)) w;
           s = s\<lparr>inbuffer := overwrite (got r) (inbuffer s)\<rparr> in
       if ret r \<le> 0 then let (s, w) = io_failed os (ret r) s w in (ssl_error_io, s, w)
       else (ret r, s\<lparr>token_size := ret r\<rparr>, w))"

definition ssl_read ::
  "os \<Rightarrow> byte list option \<Rightarrow> int \<Rightarrow> 'a ssl_sock_scheme \<Rightarrow> world \<Rightarrow>
    int \<times> byte list option \<times> 'a ssl_sock_scheme \<times> world" where
  "ssl_read os buffer sz s w =
    (if buffer = None \<or> sz \<le> 0 then (ssl_error, buffer, set_error ssl_error s, w)
     else if ssl s = 0 \<or> \<not> connected s then (err_no_socket, buffer, set_error err_no_socket s, w)
     else
       let w = clear_ssl_errors os w;
           (r, w) = sys os (Tls (Ssl_read (ssl s) sz)) w;
           buffer = Some (overwrite (got r) (the buffer)) in
       if ret r \<le> 0 then let (s, w) = io_failed os (ret r) s w in (ssl_error_io, buffer, s, w)
       else (ret r, buffer, s\<lparr>token_size := ret r\<rparr>, w))"

text \<open>The line is read byte by byte up to a line feed; an error loses what was read so far.\<close>

function ssl_read_line_loop ::
  "os \<Rightarrow> byte list \<Rightarrow> int \<Rightarrow> int \<Rightarrow> 'a ssl_sock_scheme \<Rightarrow> world \<Rightarrow>
    int \<times> byte list \<times> 'a ssl_sock_scheme \<times> world"
where
  "ssl_read_line_loop os buffer sz count s w =
    (if count < sz - 1
     then
       let w = clear_ssl_errors os w;
           (r, w) = sys os (Tls (Ssl_read (ssl s) 1)) w in
       if ret r \<le> 0 then (ssl_error_io, buffer, set_error ssl_error_io s, w)
       else
         let c = hd (got r); buffer = buffer[nat count := c] in
         if c = 10 then (count + 1, buffer[nat (count + 1) := 0], s, w)
         else ssl_read_line_loop os buffer sz (count + 1) s w
     else (count, buffer[nat count := 0], s, w))"
  by pat_completeness auto
termination
  by (relation "measure (\<lambda>(os, buffer, sz, count, s, w). nat (sz - 1 - count))") auto

declare ssl_read_line_loop.simps [simp del]

definition ssl_read_line ::
  "os \<Rightarrow> byte list option \<Rightarrow> int \<Rightarrow> 'a ssl_sock_scheme \<Rightarrow> world \<Rightarrow>
    int \<times> byte list option \<times> 'a ssl_sock_scheme \<times> world" where
  "ssl_read_line os buffer sz s w =
    (if buffer = None \<or> sz \<le> 0 then (ssl_error, buffer, set_error ssl_error s, w)
     else if ssl s = 0 \<or> \<not> connected s then (err_no_socket, buffer, set_error err_no_socket s, w)
     else let (n, b, s, w) = ssl_read_line_loop os (the buffer) sz 0 s w in (n, Some b, s, w))"

definition ssl_read_until ::
  "os \<Rightarrow> byte list option \<Rightarrow> int \<Rightarrow> 'a ssl_sock_scheme \<Rightarrow> world \<Rightarrow>
    int \<times> byte list option \<times> 'a ssl_sock_scheme \<times> world" where
  "ssl_read_until os buffer sz s w = ssl_read_line os buffer sz s w"

definition ssl_read_string ::
  "os \<Rightarrow> int \<Rightarrow> 'a ssl_sock_scheme \<Rightarrow> world \<Rightarrow> byte list \<times> 'a ssl_sock_scheme \<times> world" where
  "ssl_read_string os sz s w =
    (if sz \<le> 0 then ([], s, w)
     else
       let (n, b, s, w) = ssl_read os (Some (replicate (nat sz) 0)) sz s w in
       (if n > 0 then take (nat n) (the b) else [], s, w))"

end
