(* ===== verification/Tls_Client.thy ===== *)
theory Tls_Client
  imports Tls_Socket
begin

text \<open>
  \<open>src/ssl_client_socket.cpp\<close>, and what a synchronous TLS connection promises: one descriptor and
  one session, both given up on failure, and for a strict client a peer verified as the one asked for.
\<close>

section \<open>State and operations\<close>

record ssl_client = ssl_sock +
  client_hostname :: string
  port_num :: int

definition ssl_client_of :: "string option \<Rightarrow> int \<Rightarrow> ssl_sock \<Rightarrow> ssl_client" where
  "ssl_client_of host p s =
    ssl_sock.extend s \<lparr>client_hostname = (case host of None \<Rightarrow> [] | Some h \<Rightarrow> h), port_num = p\<rparr>"

text \<open>The descriptor the connection is made on; what the object held before is given up first.\<close>

definition ssl_ready_socket :: "os \<Rightarrow> int \<Rightarrow> 'a ssl_sock_scheme \<Rightarrow> world \<Rightarrow> 'a ssl_sock_scheme \<times> world" where
  "ssl_ready_socket os family s w =
    (let (s, w) = (if ssl s \<noteq> 0 \<or> connected s then snd (ssl_close os s w) else (s, w));
         (s, w) = (if is_valid_socket s \<and> family \<noteq> net_family s then snd (socket_close os s w) else (s, w)) in
     if is_valid_socket s then (s, w)
     else
       let (r, w) = sys os (Fd (Socket family SOCK_STREAM)) w; s = s\<lparr>sockfd := ret r\<rparr> in
       (if is_valid_socket s then s\<lparr>net_family := family\<rparr> else s, w))"

definition ssl_connect_to ::
  "os \<Rightarrow> address \<Rightarrow> string \<Rightarrow> 'a ssl_sock_scheme \<Rightarrow> world \<Rightarrow> bool \<times> 'a ssl_sock_scheme \<times> world"
where
  "ssl_connect_to os addr expected s w =
    (let target = get_sockaddr_storage addr;
         (s, w) = ssl_ready_socket os (if is_ipv6 addr then AF_INET6 else AF_INET) s w in
     if \<not> is_valid_socket s then (False, set_error err_no_socket s, w)
     else
       let (c, w) = sys os (Io (Connect (sockfd s) target)) w in
       if ret c \<noteq> 0
       then (False, snd (ssl_close os (set_error (translate_native_error (errno w)) s) w))
       else
         let s = clear_buffers (s\<lparr>connected := True\<rparr>);
             s = set_remote_hostname expected (s\<lparr>sock_port := uint (get_port addr)\<rparr>);
             (e, s, w) = setup_ssl os expected s w;
             (e, s, w) = (if e \<noteq> err_none then (e, s, w) else perform_handshake os s w) in
         if e \<noteq> err_none
         then
           let failure = error_code s; (_, s, w) = ssl_close os s w in (False, set_error failure s, w)
         else (True, set_error err_none s, w))"

definition ssl_client_connect_host ::
  "os \<Rightarrow> string option \<Rightarrow> int \<Rightarrow> 'a ssl_client_scheme \<Rightarrow> world \<Rightarrow> bool \<times> 'a ssl_client_scheme \<times> world"
where
  "ssl_client_connect_host os host remote_port s w =
    (if host = None \<or> host = Some [] \<or> remote_port \<le> 0 \<or> remote_port > 65535
     then (False, set_error ssl_error s, w)
     else
       let requested = the host;
           s = s\<lparr>client_hostname := requested, port_num := remote_port\<rparr> in
       (case resolve_to_address os requested w of
          (Inl e, w) \<Rightarrow> (False, set_error err_no_host s, w)
        | (Inr addr, w) \<Rightarrow> ssl_connect_to os (set_port (word_of_int remote_port) addr) requested s w))"

definition ssl_client_connect_stored ::
  "os \<Rightarrow> 'a ssl_client_scheme \<Rightarrow> world \<Rightarrow> bool \<times> 'a ssl_client_scheme \<times> world"
where
  "ssl_client_connect_stored os s w =
    (if client_hostname s = [] \<or> port_num s \<le> 0 then (False, set_error ssl_error s, w)
     else ssl_client_connect_host os (Some (client_hostname s)) (port_num s) s w)"

text \<open>A failing \<open>inet_ntop\<close> leaves no name (\<open>get_string\<close> is \<open>None\<close>).\<close>

definition ssl_client_connect ::
  "os \<Rightarrow> address \<Rightarrow> 'a ssl_client_scheme \<Rightarrow> world \<Rightarrow> bool \<times> 'a ssl_client_scheme \<times> world"
where
  "ssl_client_connect os addr s w =
    (if \<not> is_ipv4 addr \<and> \<not> is_ipv6 addr \<or> get_port addr = 0 then (False, set_error ssl_error s, w)
     else
       let requested = (case get_string os addr of None \<Rightarrow> [] | Some t \<Rightarrow> t);
           s = s\<lparr>client_hostname := requested, port_num := uint (get_port addr)\<rparr> in
       ssl_connect_to os addr requested s w)"

definition ssl_client_new :: "os \<Rightarrow> int \<Rightarrow> world \<Rightarrow> ssl_client \<times> world" where
  "ssl_client_new os shared_ctx w =
    (let (s, w) = ssl_socket_new os shared_ctx w in (ssl_client_of None 0 s, w))"

definition ssl_client_new_to :: "os \<Rightarrow> string option \<Rightarrow> int \<Rightarrow> int \<Rightarrow> world \<Rightarrow> ssl_client \<times> world" where
  "ssl_client_new_to os host p shared_ctx w =
    (let (s, w) = ssl_socket_new os shared_ctx w in
     snd (ssl_client_connect_host os host p (ssl_client_of host p s) w))"

section \<open>Descriptors and sessions\<close>

text \<open>The sessions created and not yet freed.\<close>

fun sessions :: "history \<Rightarrow> int" where
  "sessions [] = 0"
| "sessions ((Tls (Ssl_new c), r) # h) = sessions h + (if ret r \<noteq> 0 then 1 else 0)"
| "sessions ((Tls (Ssl_free x), r) # h) = sessions h - 1"
| "sessions (_ # h) = sessions h"

definition held_session :: "int \<Rightarrow> int" where
  "held_session x = (if x \<noteq> 0 then 1 else 0)"

text \<open>A step trades at most the object's descriptor and the object's session.\<close>

definition tls_safe :: "'a ssl_sock_scheme \<Rightarrow> world \<Rightarrow> 'b ssl_sock_scheme \<Rightarrow> world \<Rightarrow> bool" where
  "tls_safe s w s' w' \<longleftrightarrow> safe_step s w s' w' \<and>
    sessions (trace w') - held_session (ssl s') = sessions (trace w) - held_session (ssl s)"

lemma tls_safe_refl [simp, intro]: "tls_safe s w s w"
  by (simp add: tls_safe_def)

lemma tls_safe_trans [trans]: "tls_safe s w s1 w1 \<Longrightarrow> tls_safe s1 w1 s' w' \<Longrightarrow> tls_safe s w s' w'"
  using safe_step_trans by (auto simp: tls_safe_def)

text \<open>Calls that touch neither.\<close>

definition quiet_history :: "history \<Rightarrow> bool" where
  "quiet_history h \<longleftrightarrow> (\<forall>x\<in>set h. case fst x of
     Fd _ \<Rightarrow> False | Tls (Ssl_new _) \<Rightarrow> False | Tls (Ssl_free _) \<Rightarrow> False | _ \<Rightarrow> True)"

lemma quiet_history_simps [simp]:
  "quiet_history []" "quiet_history (x # h) \<longleftrightarrow>
     (case fst x of Fd _ \<Rightarrow> False | Tls (Ssl_new _) \<Rightarrow> False | Tls (Ssl_free _) \<Rightarrow> False | _ \<Rightarrow> True) \<and> quiet_history h"
  "quiet_history (h @ k) \<longleftrightarrow> quiet_history h \<and> quiet_history k"
  by (auto simp: quiet_history_def)

lemma quiet_effect:
  "quiet_history added \<Longrightarrow> open_fds (added @ h) = open_fds h \<and> closes_ok (added @ h) = closes_ok h \<and>
    sessions (added @ h) = sessions h"
proof (induction added)
  case (Cons x added)
  obtain c r where x: "x = (c, r)" by fastforce
  show ?case
  proof (cases c)
    case (Tls t)
    then show ?thesis using Cons x by (cases t) simp_all
  qed (use Cons x in simp_all)
qed simp

lemma tls_safe_quiet:
  assumes "trace w' = added @ trace w" "quiet_history added" "sockfd s' = sockfd s" "ssl s' = ssl s"
  shows "tls_safe s w s' w'"
  using quiet_effect [OF assms(2), of "trace w"] assms(1,3,4)
  by (simp add: tls_safe_def safe_step_def fd_safe_def)

lemma pop_errors_trace:
  "\<exists>added. trace (pop_errors k os w) = added @ trace w \<and> quiet_history added \<and>
    (\<forall>x\<in>set added. fst x = Tls Err_get_error)"
proof (induction k os w rule: pop_errors.induct)
  case (2 k os w)
  obtain e w1 where e: "sys os (Tls Err_get_error) w = (e, w1)" by fastforce
  note t = sys_trace [OF e]
  show ?case
  proof (cases "ret e = 0")
    case True
    then show ?thesis by (intro exI [of _ "[(Tls Err_get_error, e)]"]) (simp add: e t)
  next
    case False
    then obtain added where "trace (pop_errors k os w1) = added @ trace w1" "quiet_history added"
      "\<forall>x\<in>set added. fst x = Tls Err_get_error"
      using 2 [OF e [symmetric] refl False] by blast
    then show ?thesis
      using False by (intro exI [of _ "added @ [(Tls Err_get_error, e)]"]) (simp add: e t)
  qed
qed simp

lemma clear_errors_trace:
  obtains added where "trace (clear_ssl_errors os w) = added @ trace w" "quiet_history added"
    "\<forall>x\<in>set added. fst x = Tls Err_get_error"
  using pop_errors_trace [of 17 os w] unfolding clear_ssl_errors_def by blast

lemma socket_close_ssl: "socket_close os s w = (b, s', w') \<Longrightarrow> ssl s' = ssl s \<and> ssl_ctx s' = ssl_ctx s \<and> owns_ctx s' = owns_ctx s"
  by (auto simp: socket_close_def Let_def split: if_splits prod.splits)

lemma socket_close_sessions: "socket_close os s w = (b, s', w') \<Longrightarrow> sessions (trace w') = sessions (trace w)"
  by (auto simp: socket_close_def Let_def sys_def split: if_splits prod.splits)

lemma socket_close_tls:
  "socket_close os s w = (b, s', w') \<Longrightarrow> tls_safe s w s' w' \<and> ssl s' = ssl s"
  using socket_close_safe [of os s w b s' w'] socket_close_sessions [of os s w b s' w']
    socket_close_ssl [of os s w b s' w'] by (simp add: tls_safe_def)

lemma socket_close_extends: "socket_close os s w = (b, s', w') \<Longrightarrow> \<exists>a. trace w' = a @ trace w"
  by (auto simp: socket_close_def Let_def sys_def split: if_splits prod.splits)

lemma ssl_close_result:
  assumes "ssl_close os s w = (b, s', w')"
  shows "tls_safe s w s' w' \<and> ssl s' = 0 \<and> sockfd s' < 0 \<and> (\<exists>a. trace w' = a @ trace w) \<and>
    (ssl s = 0 \<longrightarrow> socket_close os s w = (b, s', w'))"
proof (cases "ssl s = 0")
  case True
  then have c: "socket_close os s w = (b, s', w')" using assms by (simp add: ssl_close_def)
  then show ?thesis using socket_close_tls [OF c] base_close.cl_releases [OF c] socket_close_extends [OF c] True by simp
next
  case False
  obtain f w1 where f: "(if is_valid_socket s
      then let (f, w) = sys os (Tls (Ssl_is_init_finished (ssl s))) w in (ret f \<noteq> 0, w) else (False, w)) = (f, w1)"
    by fastforce
  let ?w2 = "if f then snd (sys os (Tls (Ssl_shutdown (ssl s))) (clear_ssl_errors os w1)) else w1"
  let ?w3 = "snd (sys os (Tls (Ssl_free (ssl s))) ?w2)"
  have c: "socket_close os (s\<lparr>ssl := 0\<rparr>) ?w3 = (b, s', w')"
    using assms [unfolded ssl_close_def Let_def f [unfolded Let_def] prod.case] False by simp
  obtain a1 where a1: "trace w1 = a1 @ trace w" "quiet_history a1"
    using f sys_trace by (cases "is_valid_socket s") (fastforce simp: Let_def split: prod.splits)+
  obtain a2 where a2: "trace (clear_ssl_errors os w1) = a2 @ trace w1" "quiet_history a2"
    using clear_errors_trace by blast
  have "\<exists>a3. trace ?w2 = a3 @ trace w \<and> quiet_history a3"
  proof (cases f)
    case True
    then show ?thesis using a1 a2 by (auto simp: trace_sys intro!: exI [of _ "_ # a2 @ a1"])
  qed (use a1 in auto)
  then obtain a3 where a3: "trace ?w2 = a3 @ trace w" "quiet_history a3" by blast
  then have "tls_safe s w (s\<lparr>ssl := 0\<rparr>) ?w3"
    using quiet_effect [of a3 "trace w"] False
    by (simp add: tls_safe_def safe_step_def trace_sys held_session_def fd_safe_def)
  moreover note socket_close_tls [OF c]
  ultimately have "tls_safe s w s' w'" using tls_safe_trans by blast
  moreover have "\<exists>a. trace w' = a @ trace w" using socket_close_extends [OF c] a3(1) by (auto simp: trace_sys)
  ultimately show ?thesis using socket_close_tls [OF c] base_close.cl_releases [OF c] False by simp
qed

lemma ssl_destroy_owns: "fd_safe (sockfd s) (trace w) (- 1) (trace (ssl_destroy os s w))"
proof -
  obtain b s1 w1 where c: "ssl_close os s w = (b, s1, w1)" by (rule prod_cases3)
  note r = ssl_close_result [OF c]
  let ?w2 = "if owns_ctx s1 \<and> ssl_ctx s1 \<noteq> 0 then snd (sys os (Tls (Ctx_free (ssl_ctx s1))) w1) else w1"
  have d: "ssl_destroy os s w = ?w2"
    using r by (simp add: ssl_destroy_def c socket_destroy_def is_valid_socket_def)
  have "fd_safe (sockfd s) (trace w) (sockfd s1) (trace w1)" using r by (simp add: tls_safe_def safe_step_def)
  then have "fd_safe (sockfd s) (trace w) (- 1) (trace w1)" using r by (simp add: fd_safe_def)
  then show ?thesis by (simp add: d trace_sys)
qed

section \<open>Setting up a session\<close>

lemma load_credentials_quiet:
  assumes "load_credentials os s w = (c, w')"
  shows "\<exists>added. trace w' = added @ trace w \<and> quiet_history added"
proof -
  obtain k1 w1 where 1: "(if cert_file s = [] then (True, w)
      else let (r, w) = sys os (Tls (Ctx_use_cert (ssl_ctx s) (cert_file s))) w in (ret r = 1, w)) = (k1, w1)"
    by fastforce
  obtain k2 w2 where 2: "(if key_file s = [] then (True, w1)
      else let (r, w) = sys os (Tls (Ctx_use_key (ssl_ctx s) (key_file s))) w1 in (ret r = 1, w)) = (k2, w2)"
    by fastforce
  have a1: "\<exists>a. trace w1 = a @ trace w \<and> quiet_history a"
    using 1 sys_trace by (cases "cert_file s = []") (fastforce simp: Let_def split: prod.splits)+
  have a2: "\<exists>a. trace w2 = a @ trace w1 \<and> quiet_history a"
    using 2 sys_trace by (cases "key_file s = []") (fastforce simp: Let_def split: prod.splits)+
  have "w' = w1 \<or> w' = w2"
    using assms [unfolded load_credentials_def Let_def 1 [unfolded Let_def] prod.case 2 [unfolded Let_def]]
    by (auto split: if_splits)
  moreover have "\<exists>a. trace w2 = a @ trace w \<and> quiet_history a"
    using a1 a2 by (metis append.assoc quiet_history_simps(3))
  ultimately show ?thesis using a1 by blast
qed

lemma load_credentials_code: "load_credentials os s w = (c, w') \<Longrightarrow> c = err_none \<or> c < 0"
  by (auto simp: load_credentials_def Let_def split: if_splits prod.splits)

text \<open>The calls that set the expected identity of a session.\<close>

definition identity_set :: "int \<Rightarrow> string \<Rightarrow> history \<Rightarrow> bool" where
  "identity_set x expected h \<longleftrightarrow>
    (\<exists>r. ret r = 1 \<and> ((Tls (Ssl_set_ip x expected), r) \<in> set h \<or> (Tls (Ssl_set_host x expected), r) \<in> set h))"

lemma verify_identity_result:
  assumes "verify_identity os expected s w = (e, s', w')"
  shows "(\<exists>added. trace w' = added @ trace w \<and> quiet_history added \<and>
      (e = err_none \<and> peer_verification s = Strict \<longrightarrow>
        expected \<noteq> [] \<and> identity_set (ssl s) expected added \<and>
        (\<exists>r. (Tls (Ssl_set_verify (ssl s) True (accept_self_signed s)), r) \<in> set added))) \<and>
    (e = err_none \<and> s' = s \<or> e < 0 \<and> s' = set_error e s)"
proof (cases "peer_verification s = Strict")
  case True
  obtain r1 w1 where 1: "sys os (Tls (Ssl_set_verify (ssl s) True (accept_self_signed s))) w = (r1, w1)" by fastforce
  obtain r2 w2 where 2: "sys os (Tls (Ssl_set_hostflags (ssl s))) w1 = (r2, w2)" by fastforce
  obtain r3 w3 where 3: "sys os (Tls (Ssl_set_ip (ssl s) expected)) w2 = (r3, w3)" by fastforce
  obtain r4 w4 where 4: "sys os (Tls (Ssl_set_host (ssl s) expected)) w2 = (r4, w4)" by fastforce
  obtain r5 w5 where 5: "sys os (Tls (Ssl_set_sni (ssl s) expected)) w4 = (r5, w5)" by fastforce
  note t = sys_trace [OF 1] sys_trace [OF 2] sys_trace [OF 3] sys_trace [OF 4] sys_trace [OF 5]
  note d = assms [unfolded verify_identity_def if_P [OF True] 1 snd_conv 2 3 4 Let_def prod.case 5]
  show ?thesis
  proof (cases "expected = []")
    case True
    then show ?thesis using d by (auto intro!: exI [of _ "[]"])
  next
    case False
    note d = d [unfolded if_not_P [OF False]]
    let ?start = "[(Tls (Ssl_set_hostflags (ssl s)), r2), (Tls (Ssl_set_verify (ssl s) True (accept_self_signed s)), r1)]"
    let ?host = "(Tls (Ssl_set_host (ssl s) expected), r4)"
    consider (ip) "numeric_ip os expected" | (host) "\<not> numeric_ip os expected" "ret r4 = 1"
      | (refused) "\<not> numeric_ip os expected" "ret r4 \<noteq> 1" by blast
    then show ?thesis
    proof cases
      case ip
      then have "trace w' = (Tls (Ssl_set_ip (ssl s) expected), r3) # ?start @ trace w"
        "e = err_none \<and> s' = s \<and> ret r3 = 1 \<or> e < 0 \<and> s' = set_error e s"
        using d t by (auto split: if_splits)
      then show ?thesis using False
        by (intro conjI exI [of _ "(Tls (Ssl_set_ip (ssl s) expected), r3) # ?start"]) (auto simp: identity_set_def)
    next
      case host
      then have "trace w' = (Tls (Ssl_set_sni (ssl s) expected), r5) # ?host # ?start @ trace w"
        "e = err_none \<and> s' = s \<or> e < 0 \<and> s' = set_error e s"
        using d t by (auto split: if_splits)
      then show ?thesis using False host
        by (intro conjI exI [of _ "(Tls (Ssl_set_sni (ssl s) expected), r5) # ?host # ?start"]) (auto simp: identity_set_def)
    next
      case refused
      then have "trace w' = ?host # ?start @ trace w" "e = ssl_error_cert \<and> s' = set_error e s"
        using d t by auto
      then show ?thesis by (intro conjI exI [of _ "?host # ?start"]) auto
    qed
  qed
next
  case False
  obtain r1 w1 where 1: "sys os (Tls (Ssl_set_verify (ssl s) False False)) w = (r1, w1)" by fastforce
  obtain r2 w2 where 2: "sys os (Tls (Ssl_set_sni (ssl s) expected)) w1 = (r2, w2)" by fastforce
  note d = assms [unfolded verify_identity_def if_not_P [OF False] 1 snd_conv 2 Let_def prod.case]
  have "w' = w1 \<or> w' = w2" "e = err_none \<and> s' = s \<or> e < 0 \<and> s' = set_error e s"
    using d by (auto split: if_splits)
  moreover have "\<exists>a. trace w1 = a @ trace w \<and> quiet_history a" "\<exists>a. trace w2 = a @ trace w \<and> quiet_history a"
    using sys_trace [OF 1] sys_trace [OF 2]
    by (auto intro!: exI [of _ "[_]"] exI [of _ "[_, _]"])
  ultimately show ?thesis using False by auto
qed

lemma setup_ssl_result:
  assumes "setup_ssl os expected s w = (e, s', w')"
  shows "tls_safe s w s' w' \<and> sockfd s' = sockfd s \<and> peer_verification s' = peer_verification s \<and>
    connected s' = connected s \<and>
    (e = err_none \<longrightarrow> ssl s' \<noteq> 0 \<and> (\<exists>added. trace w' = added @ trace w \<and>
      (peer_verification s = Strict \<longrightarrow> expected \<noteq> [] \<and> identity_set (ssl s') expected added))) \<and>
    (e = err_none \<or> e < 0 \<and> error_code s' = e)"
proof (cases "ssl_ctx s = 0")
  case True
  have "tls_safe s w (set_error ssl_error_init s) w"
    by (rule tls_safe_quiet [of _ "[]"]) (simp_all add: set_error_def)
  then show ?thesis using assms True by (auto simp: setup_ssl_def set_error_def)
next
  case False
  obtain s1 w1 where 1: "(if ssl s \<noteq> 0 then (s\<lparr>ssl := 0\<rparr>, snd (sys os (Tls (Ssl_free (ssl s))) w)) else (s, w)) = (s1, w1)"
    by fastforce
  obtain n w2 where 2: "sys os (Tls (Ssl_new (ssl_ctx s1))) (clear_ssl_errors os w1) = (n, w2)" by fastforce
  let ?s2 = "s1\<lparr>ssl := ret n\<rparr>"
  obtain f w3 where 3: "sys os (Tls (Ssl_set_fd (ret n) (sockfd s1))) w2 = (f, w3)" by fastforce
  obtain r w4 where 4: "sys os (Tls (Ssl_free (ret n))) w3 = (r, w4)" by fastforce
  obtain c w5 where 5: "load_credentials os ?s2 w3 = (c, w5)" by fastforce
  obtain e6 s6 w6 where 6: "verify_identity os expected ?s2 w5 = (e6, s6, w6)" by (rule prod_cases3)
  have sel: "ssl ?s2 = ret n" "sockfd ?s2 = sockfd s1" by simp_all
  note d = assms [unfolded setup_ssl_def if_not_P [OF False] Let_def 1 prod.case 2 sel 3 snd_conv 4 5 6]
  have s1: "ssl s1 = 0" "sockfd s1 = sockfd s" "peer_verification s1 = peer_verification s"
    "connected s1 = connected s" using 1 by (auto split: if_splits)
  obtain a where a: "trace (clear_ssl_errors os w1) = a @ trace w1" "quiet_history a" using clear_errors_trace by blast
  have safe1: "tls_safe s w s1 w1"
    using 1 by (auto simp: tls_safe_def safe_step_def held_session_def fd_safe_def trace_sys split: if_splits)
  have "tls_safe s1 w1 ?s2 w2"
    using quiet_effect [OF a(2), of "trace w1"] s1
    by (simp add: tls_safe_def safe_step_def held_session_def fd_safe_def a(1) sys_trace [OF 2])
  then have safe2: "tls_safe s w ?s2 w2" using safe1 tls_safe_trans by blast
  have "tls_safe ?s2 w2 ?s2 w3"
    by (rule tls_safe_quiet [of _ "[(Tls (Ssl_set_fd (ret n) (sockfd s1)), f)]"]) (simp_all add: sys_trace [OF 3])
  then have safe3: "tls_safe s w ?s2 w3" using safe2 tls_safe_trans by blast
  obtain a5 where a5: "trace w5 = a5 @ trace w3" "quiet_history a5" using load_credentials_quiet [OF 5] by blast
  note v = verify_identity_result [OF 6]
  obtain a6 where a6: "trace w6 = a6 @ trace w5" "quiet_history a6"
    "e6 = err_none \<and> peer_verification s = Strict \<longrightarrow> expected \<noteq> [] \<and> identity_set (ret n) expected a6"
    using v s1 by auto
  have safe5: "tls_safe s w ?s2 w5" using tls_safe_trans [OF safe3] tls_safe_quiet [OF a5] by blast
  have err: "tls_safe x u (set_error k x) u" for x :: "'a ssl_sock_scheme" and u k
    by (rule tls_safe_quiet [of _ "[]"]) (simp_all add: set_error_def)
  consider (none) "ret n = 0" | (fd) "ret n \<noteq> 0" "ret f \<noteq> 1" | (cred) "ret n \<noteq> 0" "ret f = 1" "c \<noteq> err_none"
    | (identity) "ret n \<noteq> 0" "ret f = 1" "c = err_none" by blast
  then show ?thesis
  proof cases
    case none
    then have "e = ssl_error_init" "s' = set_error ssl_error_init ?s2" "w' = w2" using d by auto
    then show ?thesis using tls_safe_trans [OF safe2 err] s1 by (auto simp: set_error_def)
  next
    case fd
    then have q: "e = ssl_error_init" "s' = (set_error ssl_error_init ?s2)\<lparr>ssl := 0\<rparr>" "w' = w4" using d by auto
    have "tls_safe ?s2 w3 s' w'"
      using fd by (simp add: q tls_safe_def safe_step_def held_session_def fd_safe_def set_error_def sys_trace [OF 4])
    then show ?thesis using tls_safe_trans [OF safe3] s1 q by (auto simp: set_error_def)
  next
    case cred
    then have "e = c" "s' = set_error c ?s2" "w' = w5" using d by auto
    then show ?thesis using tls_safe_trans [OF safe5 err] s1 cred load_credentials_code [OF 5] by (auto simp: set_error_def)
  next
    case identity
    then have q: "e = e6" "s' = s6" "w' = w6" using d by auto
    have s6: "sockfd s6 = sockfd s" "ssl s6 = ret n" "peer_verification s6 = peer_verification s" "connected s6 = connected s"
      "e6 = err_none \<or> e6 < 0 \<and> error_code s6 = e6"
      using v s1 by (auto simp: set_error_def)
    have "tls_safe ?s2 w5 s6 w6" using s6 s1 by (intro tls_safe_quiet [OF a6(1,2)]) simp_all
    moreover have "\<exists>b. trace w5 = b @ trace w"
      using a5 a sys_trace [OF 2] sys_trace [OF 3] 1 by (auto simp: trace_sys split: if_splits)
    ultimately show ?thesis
      using tls_safe_trans [OF safe5] q s6 identity a6(1,3)
      by (auto simp: identity_set_def)
  qed
qed

lemma verify_failed_result:
  assumes "verify_failed os s w = (b, w')"
  shows "\<exists>added. trace w' = added @ trace w \<and> quiet_history added \<and>
    (peer_verification s = Strict \<longrightarrow> (\<exists>v. added = [(Tls (Ssl_get_verify_result (ssl s)), v)] \<and> b = (ret v \<noteq> X509_V_OK))) \<and>
    (peer_verification s \<noteq> Strict \<longrightarrow> \<not> b)"
proof -
  obtain v w1 where v: "sys os (Tls (Ssl_get_verify_result (ssl s))) w = (v, w1)" by fastforce
  show ?thesis using assms sys_trace [OF v] by (auto simp: verify_failed_def v split: if_splits)
qed

text \<open>The handshake completed, and a strict socket found the peer verified last.\<close>

definition handshake_done :: "ssl_verify_mode \<Rightarrow> int \<Rightarrow> history \<Rightarrow> bool" where
  "handshake_done mode x h \<longleftrightarrow> (\<exists>r. (Tls (Ssl_connect x), r) \<in> set h \<and> ret r = 1) \<and>
    (mode = Strict \<longrightarrow> (\<exists>v. h \<noteq> [] \<and> hd h = (Tls (Ssl_get_verify_result x), v) \<and> ret v = X509_V_OK))"

lemma perform_handshake_result:
  assumes "perform_handshake os s w = (e, s', w')"
  shows "tls_safe s w s' w' \<and> (\<exists>added. trace w' = added @ trace w \<and>
      (e = err_none \<longrightarrow> handshake_done (peer_verification s) (ssl s) added)) \<and>
    (e = err_none \<and> s' = s \<or> e < 0 \<and> s' = set_error e s)"
proof (cases "ssl s = 0")
  case True
  then have "e = ssl_error_init \<and> s' = set_error e s \<and> w' = w" using assms by (auto simp: perform_handshake_def)
  then show ?thesis by (auto intro: tls_safe_quiet [of _ "[]"] simp: set_error_def)
next
  case False
  obtain r w1 where 1: "sys os (Tls (Ssl_connect (ssl s))) (clear_ssl_errors os w) = (r, w1)" by fastforce
  obtain f w2 where 2: "verify_failed os s w1 = (f, w2)" by fastforce
  obtain g w3 where 3: "sys os (Tls (Ssl_get_error (ssl s) (ret r))) w1 = (g, w3)" by fastforce
  obtain f' w4 where 4: "verify_failed os s w3 = (f', w4)" by fastforce
  note d = assms [unfolded perform_handshake_def if_not_P [OF False] Let_def 1 prod.case 2 3 4]
  obtain a where a: "trace (clear_ssl_errors os w) = a @ trace w" "quiet_history a" using clear_errors_trace by blast
  obtain b where b: "trace w2 = b @ trace w1" "quiet_history b"
    "peer_verification s = Strict \<longrightarrow> (\<exists>v. b = [(Tls (Ssl_get_verify_result (ssl s)), v)] \<and> f = (ret v \<noteq> X509_V_OK))"
    using verify_failed_result [OF 2] by blast
  obtain b' where b': "trace w4 = b' @ trace w3" "quiet_history b'" using verify_failed_result [OF 4] by blast
  let ?c = "(Tls (Ssl_connect (ssl s)), r)"
  have t2: "trace w2 = (b @ ?c # a) @ trace w" "quiet_history (b @ ?c # a)"
    using a b sys_trace [OF 1] by simp_all
  have t4: "trace w4 = (b' @ (Tls (Ssl_get_error (ssl s) (ret r)), g) # ?c # a) @ trace w"
    "quiet_history (b' @ (Tls (Ssl_get_error (ssl s) (ret r)), g) # ?c # a)"
    using a b' sys_trace [OF 1] sys_trace [OF 3] by simp_all
  consider (failed) "ret r \<noteq> 1" | (refused) "ret r = 1" "f" | (verified) "ret r = 1" "\<not> f" by blast
  then show ?thesis
  proof cases
    case failed
    then have q: "w' = w4" "s' = set_error e s" "e < 0" using d by (auto split: if_splits)
    have "tls_safe s w s' w'" unfolding q(1) by (rule tls_safe_quiet [OF t4]) (simp_all add: q set_error_def)
    then show ?thesis using q t4 by auto
  next
    case refused
    then have q: "w' = w2" "s' = set_error e s" "e < 0" using d by auto
    have "tls_safe s w s' w'" unfolding q(1) by (rule tls_safe_quiet [OF t2]) (simp_all add: q set_error_def)
    then show ?thesis using q t2 by auto
  next
    case verified
    then have q: "w' = w2" "s' = s" "e = err_none" using d by auto
    have "tls_safe s w s' w'" unfolding q(1) by (rule tls_safe_quiet [OF t2]) (simp_all add: q)
    moreover have "handshake_done (peer_verification s) (ssl s) (b @ ?c # a)"
      using verified b(3) by (auto simp: handshake_done_def)
    ultimately show ?thesis using q t2 by auto
  qed
qed

section \<open>Connecting\<close>

lemma peer_verification_close [simp]:
  "ssl_close os s w = (b, s', w') \<Longrightarrow> peer_verification s' = peer_verification s"
  by (auto simp: ssl_close_def socket_close_def Let_def split: if_splits prod.splits)

lemma peer_verification_socket_close:
  "socket_close os s w = (b, s', w') \<Longrightarrow> peer_verification s' = peer_verification s"
  by (auto simp: socket_close_def Let_def split: if_splits prod.splits)

lemma ssl_ready_socket_result:
  assumes "fresh_fds os" "ssl_ready_socket os family s w = (s', w')"
  shows "tls_safe s w s' w' \<and> ssl s' = 0 \<and> peer_verification s' = peer_verification s \<and>
    (\<exists>a. trace w' = a @ trace w)"
proof -
  obtain s1 w1 where 1: "(if ssl s \<noteq> 0 \<or> connected s then snd (ssl_close os s w) else (s, w)) = (s1, w1)" by fastforce
  obtain s2 w2 where 2: "(if is_valid_socket s1 \<and> family \<noteq> net_family s1 then snd (socket_close os s1 w1)
    else (s1, w1)) = (s2, w2)" by fastforce
  obtain r w3 where 3: "sys os (Fd (Socket family SOCK_STREAM)) w2 = (r, w3)" by fastforce
  have s1: "tls_safe s w s1 w1 \<and> ssl s1 = 0 \<and> peer_verification s1 = peer_verification s \<and>
    (\<exists>a. trace w1 = a @ trace w)"
  proof (cases "ssl s \<noteq> 0 \<or> connected s")
    case True
    then obtain b where "ssl_close os s w = (b, s1, w1)" using 1 by (metis prod.collapse)
    then show ?thesis using ssl_close_result peer_verification_close by blast
  qed (use 1 in auto)
  have "tls_safe s1 w1 s2 w2 \<and> ssl s2 = 0 \<and> peer_verification s2 = peer_verification s1 \<and>
    (\<exists>a. trace w2 = a @ trace w1)"
  proof (cases "is_valid_socket s1 \<and> family \<noteq> net_family s1")
    case True
    then obtain b where b: "socket_close os s1 w1 = (b, s2, w2)" using 2 by (metis prod.collapse)
    show ?thesis
      using socket_close_tls [OF b] peer_verification_socket_close [OF b] socket_close_extends [OF b] s1 by simp
  qed (use 2 s1 in auto)
  then have s2: "tls_safe s w s2 w2" "ssl s2 = 0" "peer_verification s2 = peer_verification s"
    "\<exists>a. trace w2 = a @ trace w"
    using s1 tls_safe_trans by (blast, simp_all, fastforce)
  show ?thesis
  proof (cases "is_valid_socket s2")
    case True
    then show ?thesis using assms(2) [unfolded ssl_ready_socket_def Let_def 1 prod.case 2] s2 by simp
  next
    case False
    have "ret r = - 1 \<or> 0 \<le> ret r \<and> ret r \<notin> open_fds (trace w2)" by (rule fresh_socket [OF assms(1) 3])
    then have "tls_safe s2 w2 (s2\<lparr>sockfd := ret r\<rparr>) w3"
      using False s2(2) by (auto simp: tls_safe_def safe_step_def fd_safe_def is_valid_socket_def sys_trace [OF 3])
    then have "tls_safe s w (s2\<lparr>sockfd := ret r\<rparr>) w3" using s2(1) tls_safe_trans by blast
    moreover have "w' = w3" "sockfd s' = ret r" "ssl s' = ssl s2" "peer_verification s' = peer_verification s2"
      using assms(2) [unfolded ssl_ready_socket_def Let_def 1 prod.case 2 3] False by (auto split: if_splits)
    ultimately show ?thesis using s2 by (auto simp: tls_safe_def safe_step_def sys_trace [OF 3])
  qed
qed

lemma clear_buffers_tls [simp]:
  "sockfd (clear_buffers s) = sockfd s" "connected (clear_buffers s) = connected s" "ssl (clear_buffers s) = ssl s"
  "peer_verification (clear_buffers s) = peer_verification s"
  by (simp_all add: clear_buffers_def)

lemma set_remote_hostname_tls [simp]:
  "sockfd (set_remote_hostname h s) = sockfd s" "connected (set_remote_hostname h s) = connected s"
  "ssl (set_remote_hostname h s) = ssl s" "peer_verification (set_remote_hostname h s) = peer_verification s"
  by (simp_all add: set_remote_hostname_def)

lemma set_error_tls [simp]:
  "sockfd (set_error k s) = sockfd s" "connected (set_error k s) = connected s" "ssl (set_error k s) = ssl s"
  "peer_verification (set_error k s) = peer_verification s" "error_code (set_error k s) = k"
  by (simp_all add: set_error_def)

lemma tls_safe_same:
  "sockfd s1 = sockfd s \<Longrightarrow> ssl s1 = ssl s \<Longrightarrow> sockfd s2 = sockfd s' \<Longrightarrow> ssl s2 = ssl s' \<Longrightarrow>
    tls_safe s w s' w' \<Longrightarrow> tls_safe s1 w s2 w'"
  by (simp add: tls_safe_def safe_step_def)

lemma ssl_connect_to_result:
  assumes "fresh_fds os" "ssl_connect_to os addr expected s w = (b, s', w')"
  shows "tls_safe s w s' w' \<and>
    (if b then 0 \<le> sockfd s' \<and> connected s' \<and> ssl s' \<noteq> 0 \<and> error_code s' = err_none \<and>
       (\<exists>added before rest. trace w' = added @ before @ rest @ trace w \<and>
          handshake_done (peer_verification s) (ssl s') added \<and>
          (peer_verification s = Strict \<longrightarrow> expected \<noteq> [] \<and> identity_set (ssl s') expected before))
     else sockfd s' < 0 \<and> ssl s' = 0)"
proof -
  let ?fam = "if is_ipv6 addr then AF_INET6 else AF_INET"
  obtain s1 w1 where 1: "ssl_ready_socket os ?fam s w = (s1, w1)" by fastforce
  obtain c w2 where 2: "sys os (Io (Connect (sockfd s1) (get_sockaddr_storage addr))) w1 = (c, w2)" by fastforce
  let ?f = "set_error (translate_native_error (errno w2)) s1"
  obtain bf sf wf where f: "ssl_close os ?f w2 = (bf, sf, wf)" by (rule prod_cases3)
  let ?s2 = "set_remote_hostname expected
    ((clear_buffers (s1\<lparr>connected := True\<rparr>))\<lparr>sock_port := uint (get_port addr)\<rparr>)"
  obtain e3 s3 w3 where 3: "setup_ssl os expected ?s2 w2 = (e3, s3, w3)" by (rule prod_cases3)
  obtain e4 s4 w4 where 4: "(if e3 \<noteq> err_none then (e3, s3, w3) else perform_handshake os s3 w3) = (e4, s4, w4)"
    by (rule prod_cases3)
  obtain b5 s5 w5 where 5: "ssl_close os s4 w4 = (b5, s5, w5)" by (rule prod_cases3)
  note d = assms(2) [unfolded ssl_connect_to_def Let_def 1 prod.case 2 f 3 4 5 snd_conv]
  note r1 = ssl_ready_socket_result [OF assms(1) 1]
  have w2: "tls_safe s w s1 w2"
    using r1 tls_safe_trans [OF _ tls_safe_quiet [of w2 "[(Io (Connect (sockfd s1) (get_sockaddr_storage addr)), c)]" w1 s1 s1]]
    by (simp add: sys_trace [OF 2]) blast
  have same: "sockfd ?s2 = sockfd s1" "ssl ?s2 = 0" "peer_verification ?s2 = peer_verification s" "connected ?s2"
    using r1 by simp_all
  note r3 = setup_ssl_result [OF 3]
  have w3: "tls_safe s w s3 w3"
    using r3 r1 same tls_safe_trans [OF w2 tls_safe_same [of s1 ?s2 s3 s3 w2 w3]] by simp
  consider (nosocket) "sockfd s1 < 0" | (refused) "0 \<le> sockfd s1" "ret c \<noteq> 0"
    | (failed) "0 \<le> sockfd s1" "ret c = 0" "e4 \<noteq> err_none"
    | (up) "0 \<le> sockfd s1" "ret c = 0" "e4 = err_none" by fastforce
  then show ?thesis
  proof cases
    case nosocket
    then have "\<not> b" "s' = set_error err_no_socket s1" "w' = w1" using d by (auto simp: is_valid_socket_def)
    then show ?thesis using nosocket r1 tls_safe_same [of s s s' s1 w w1] by simp
  next
    case refused
    then have q: "\<not> b" "s' = sf" "w' = wf" using d by (auto simp: is_valid_socket_def)
    have "tls_safe s1 w2 sf wf" using ssl_close_result [OF f] tls_safe_same [of s1 ?f sf sf w2 wf] by simp
    then show ?thesis using q ssl_close_result [OF f] tls_safe_trans [OF w2] by simp
  next
    case failed
    then have q: "\<not> b" "s' = set_error (error_code s4) s5" "w' = w5" using d by (auto simp: is_valid_socket_def)
    have "tls_safe s w s4 w4"
    proof (cases "e3 = err_none")
      case True
      then have p: "perform_handshake os s3 w3 = (e4, s4, w4)" using 4 by simp
      show ?thesis using perform_handshake_result [OF p] tls_safe_trans [OF w3] by blast
    qed (use 4 w3 in simp)
    then have "tls_safe s w s5 w5" using ssl_close_result [OF 5] tls_safe_trans by blast
    then show ?thesis using q ssl_close_result [OF 5] tls_safe_same [of s s s' s5 w w5] by simp
  next
    case up
    then have q: "b" "s' = set_error err_none s4" "w' = w4" using d by (auto simp: is_valid_socket_def)
    have e3: "e3 = err_none" using 4 up by (auto split: if_splits)
    then have p: "perform_handshake os s3 w3 = (err_none, s4, w4)" using 4 up by simp
    note r4 = perform_handshake_result [OF p]
    have s4: "s4 = s3" using r4 by simp
    obtain added where a: "trace w4 = added @ trace w3" "handshake_done (peer_verification s) (ssl s3) added"
      using r4 r3 same by auto
    obtain before where bf: "trace w3 = before @ trace w2"
      "peer_verification s = Strict \<longrightarrow> expected \<noteq> [] \<and> identity_set (ssl s3) expected before"
      using r3 e3 same by auto
    obtain rest where "trace w1 = rest @ trace w" using r1 by blast
    then have "trace w4 = added @ before @ ((Io (Connect (sockfd s1) (get_sockaddr_storage addr)), c) # rest) @ trace w"
      using a(1) bf(1) sys_trace [OF 2] by simp
    then have t: "\<exists>added before rest. trace w4 = added @ before @ rest @ trace w \<and>
        handshake_done (peer_verification s) (ssl s4) added \<and>
        (peer_verification s = Strict \<longrightarrow> expected \<noteq> [] \<and> identity_set (ssl s4) expected before)"
      using a(2) bf(2) s4 by blast
    have "tls_safe s w s4 w4" using r4 tls_safe_trans [OF w3] by blast
    moreover have "0 \<le> sockfd s4" "connected s4" "ssl s4 \<noteq> 0" using up r3 same e3 s4 by simp_all
    ultimately show ?thesis using q t tls_safe_same [of s s s' s4 w w4] by simp
  qed
qed

text \<open>A connection by name: the name is resolved first, and is the identity expected of the peer.\<close>

lemma resolve_quiet:
  assumes "resolve_to_address os host w = (r, w')"
  shows "\<exists>a. trace w' = a @ trace w \<and> quiet_history a"
proof -
  have "w' = snd (sys os (Io (Getaddrinfo host None SOCK_STREAM True)) w)"
    using assms by (auto simp: resolve_to_address_def resolve_internal_def Let_def case_prod_beta
        split: if_splits option.splits)
  then show ?thesis
    by (intro exI [of _ "[(Io (Getaddrinfo host None SOCK_STREAM True),
      os_call os (trace w) (Io (Getaddrinfo host None SOCK_STREAM True)))]"]) (simp add: trace_sys)
qed

section \<open>Properties\<close>

text \<open>
  C3. A synchronous TLS connection is verified or it is not made. Connecting trades the descriptor
  and the session the object held for at most one new of each, leaking and double-closing none.
  On success the object is connected with no error, the handshake on its session returned success, and for a strict
  client the identity of the session was set to the host asked for before the handshake, and the
  last call found the verification of the peer to have succeeded. On failure after the name was
  resolved neither a descriptor nor a session is left; on a bad argument or an unknown host the
  object keeps what it had.
\<close>

theorem ssl_client_connect_verified:
  assumes "fresh_fds os" "ssl_client_connect_host os (Some host) remote_port s w = (b, s', w')"
  shows "tls_safe s w s' w' \<and>
    (if b then 0 \<le> sockfd s' \<and> connected s' \<and> ssl s' \<noteq> 0 \<and> error_code s' = err_none \<and>
       (\<exists>added before rest. trace w' = added @ before @ rest @ trace w \<and>
          handshake_done (peer_verification s) (ssl s') added \<and>
          (peer_verification s = Strict \<longrightarrow> host \<noteq> [] \<and> identity_set (ssl s') host before))
     else sockfd s' < 0 \<and> ssl s' = 0 \<or>
       sockfd s' = sockfd s \<and> ssl s' = ssl s \<and> connected s' = connected s \<and>
         error_code s' = (if host = [] \<or> remote_port \<le> 0 \<or> remote_port > 65535 then ssl_error else err_no_host))"
proof (cases "host = [] \<or> remote_port \<le> 0 \<or> remote_port > 65535")
  case True
  then have "\<not> b" "s' = set_error ssl_error s" "w' = w" using assms(2) by (auto simp: ssl_client_connect_host_def)
  then show ?thesis using True tls_safe_same [of s s s' s w w] by simp
next
  case False
  let ?s1 = "s\<lparr>client_hostname := host, port_num := remote_port\<rparr>"
  have same: "sockfd ?s1 = sockfd s" "ssl ?s1 = ssl s" "connected ?s1 = connected s"
    "peer_verification ?s1 = peer_verification s" by simp_all
  obtain r w1 where 1: "resolve_to_address os host w = (r, w1)" by fastforce
  obtain a where a: "trace w1 = a @ trace w" "quiet_history a" using resolve_quiet [OF 1] by blast
  have safe: "tls_safe s w ?s1 w1" by (rule tls_safe_quiet [OF a]) simp_all
  note d = assms(2) [unfolded ssl_client_connect_host_def Let_def option.sel 1 prod.case]
  show ?thesis
  proof (cases r)
    case (Inl e)
    then have "\<not> b" "s' = set_error err_no_host ?s1" "w' = w1" using d False by auto
    then show ?thesis using False safe tls_safe_same [of s s s' ?s1 w w1] by auto
  next
    case (Inr addr)
    let ?addr = "set_port (word_of_int remote_port) addr"
    have "ssl_connect_to os ?addr host ?s1 w1 = (b, s', w')" using d False Inr by auto
    note c = ssl_connect_to_result [OF assms(1) this, unfolded same]
    have "tls_safe s w s' w'" using tls_safe_trans [OF safe conjunct1 [OF c]] .
    moreover have "\<exists>added before rest. trace w' = added @ before @ rest @ trace w \<and> P added before"
      if "\<exists>added before rest. trace w' = added @ before @ rest @ trace w1 \<and> P added before" for P
      using that a(1) append.assoc by metis
    note conjunct2 [OF c] this
    ultimately show ?thesis by (cases b) simp_all
  qed
qed

text \<open>An environment in which every handshake succeeds, and a strict client.\<close>

definition handshake_os :: os where
  "handshake_os = scripted_os [] \<lparr>os_call := \<lambda>h c. case c of
     Tls (Ssl_get_verify_result x) \<Rightarrow> result0
   | Tls Err_get_error \<Rightarrow> result0
   | _ \<Rightarrow> scripted_call [] h c\<rparr>"

definition sample_client :: ssl_client where
  "sample_client = ssl_client_of None 0 (ssl_of_sock 7 Strict sock_init)"

lemma handshake_fresh: "fresh_fds handshake_os"
  using scripted_fresh [of "[]"] by (auto simp: fresh_fds_def handshake_os_def scripted_os_def)

theorem ssl_client_connect_verified_witness:
  "case ssl_client_connect_host handshake_os (Some ''localhost'') 443 sample_client world0 of
     (b, s', w') \<Rightarrow> b \<and> ssl s' \<noteq> 0 \<and> tls_safe sample_client world0 s' w'"
proof -
  obtain b s' w' where c: "ssl_client_connect_host handshake_os (Some ''localhost'') 443 sample_client world0 = (b, s', w')"
    by (rule prod_cases3)
  have "fst (ssl_client_connect_host handshake_os (Some ''localhost'') 443 sample_client world0)"
    by code_simp
  then show ?thesis using ssl_client_connect_verified [OF handshake_fresh c] c by simp
qed

end
