(* ===== verification/Server_Ownership.thy ===== *)
theory Server_Ownership
  imports Server
begin

text \<open>
  Who owns which descriptor of a TCP server. A listener owns its own descriptor and those of its
  accepted peers; every operation of every server class trades exactly these, closes nothing twice
  and leaks nothing. The laws of the classes are the locale \<open>tcp_server\<close>, its facts are proved
  once and interpreted on the synchronous and on the event server.
\<close>

section \<open>Owning a set of descriptors\<close>

definition owns_step :: "int set \<Rightarrow> history \<Rightarrow> int set \<Rightarrow> history \<Rightarrow> bool" where
  "owns_step F h F' h' \<longleftrightarrow>
    (F \<subseteq> open_fds h \<longrightarrow>
      F' \<subseteq> open_fds h' \<and> open_fds h' - F' = open_fds h - F \<and> (closes_ok h \<longrightarrow> closes_ok h'))"

lemma owns_one: "fd_safe fd h fd' h' = owns_step (held fd) h (held fd') h'"
  by (simp add: fd_safe_def owns_step_def)

lemma owns_refl [simp, intro]: "owns_step F h F h"
  by (simp add: owns_step_def)

lemma owns_trans [trans]: "owns_step F h G k \<Longrightarrow> owns_step G k H l \<Longrightarrow> owns_step F h H l"
  by (simp add: owns_step_def)

text \<open>What is owned besides is left alone.\<close>

lemma owns_frame:
  assumes "owns_step F h F' h'" "F \<subseteq> open_fds h" "R \<subseteq> open_fds h" "F \<inter> R = {}"
  shows "owns_step (F \<union> R) h (F' \<union> R) h' \<and> F' \<inter> R = {} \<and> F' \<subseteq> open_fds h' \<and> R \<subseteq> open_fds h'"
proof -
  have "R \<subseteq> open_fds h - F" using assms(3,4) by blast
  then have "R \<subseteq> open_fds h' - F'" using assms(1,2) by (simp add: owns_step_def)
  then show ?thesis using assms by (auto simp: owns_step_def)
qed

definition slot_fds :: "(nat \<Rightarrow> 'b sock_scheme) \<Rightarrow> nat list \<Rightarrow> int set" where
  "slot_fds H ps = (\<Union>p\<in>set ps. held (sockfd (H p)))"

lemma slot_fds_Cons [simp]: "slot_fds H (p # ps) = held (sockfd (H p)) \<union> slot_fds H ps"
  by (simp add: slot_fds_def)

lemma slot_fds_Nil [simp]: "slot_fds H [] = {}"
  by (simp add: slot_fds_def)

lemma slot_fds_append [simp]: "slot_fds H (ps @ qs) = slot_fds H ps \<union> slot_fds H qs"
  by (simp add: slot_fds_def)

lemma slot_fds_cong: "(\<And>p. p \<in> set ps \<Longrightarrow> H p = G p) \<Longrightarrow> slot_fds H ps = slot_fds G ps"
  by (simp add: slot_fds_def)

text \<open>The slots are different objects with different descriptors.\<close>

fun slots_disjoint :: "(nat \<Rightarrow> 'b sock_scheme) \<Rightarrow> nat list \<Rightarrow> bool" where
  "slots_disjoint H [] \<longleftrightarrow> True"
| "slots_disjoint H (p # ps) \<longleftrightarrow> p \<notin> set ps \<and> held (sockfd (H p)) \<inter> slot_fds H ps = {} \<and> slots_disjoint H ps"

lemma slots_disjoint_append:
  "slots_disjoint H (ps @ qs) \<longleftrightarrow> slots_disjoint H ps \<and> slots_disjoint H qs \<and> set ps \<inter> set qs = {} \<and>
    slot_fds H ps \<inter> slot_fds H qs = {}"
  by (induction ps) auto

lemma slots_disjoint_cong:
  "(\<And>p. p \<in> set ps \<Longrightarrow> H p = G p) \<Longrightarrow> slots_disjoint H ps = slots_disjoint G ps"
proof (induction ps)
  case (Cons p ps)
  then show ?case using slot_fds_cong [of ps H G] by simp
qed simp

lemma slots_disjoint_closed:
  "distinct ps \<Longrightarrow> \<forall>p\<in>set ps. sockfd (H p) < 0 \<Longrightarrow> slots_disjoint H ps"
  by (induction ps) auto

lemma slots_disjoint_at:
  assumes "slots_disjoint H ps" "i < length ps"
  shows "held (sockfd (H (ps ! i))) \<inter> slot_fds H (drop (Suc i) ps) = {} \<and> ps ! i \<notin> set (drop (Suc i) ps)"
proof -
  have "slots_disjoint H (take i ps @ ps ! i # drop (Suc i) ps)"
    using assms split_at by metis
  then show ?thesis by (simp add: slots_disjoint_append)
qed

lemma slots_disjoint_remove1:
  "slots_disjoint H ps \<Longrightarrow> p \<in> set ps \<Longrightarrow> slots_disjoint H (remove1 p ps) \<and>
    slot_fds H ps = held (sockfd (H p)) \<union> slot_fds H (remove1 p ps) \<and>
    held (sockfd (H p)) \<inter> slot_fds H (remove1 p ps) = {}"
  by (induction ps) auto

text \<open>One slot gives up its descriptor.\<close>

lemma slots_release:
  "sockfd x < 0 \<Longrightarrow> slot_fds (H(p := x)) ps \<subseteq> slot_fds H ps \<and> (slots_disjoint H ps \<longrightarrow> slots_disjoint (H(p := x)) ps)"
  by (induction ps) auto

lemma slot_fds_released:
  assumes "slots_disjoint H ps" "sockfd x < 0"
  shows "slot_fds (H(p := x)) ps = slot_fds H (remove1 p ps)"
  using assms by (induction ps) (auto simp: slot_fds_cong [of _ "H(p := x)" H] remove1_idem)

section \<open>Closing loop\<close>

text \<open>If the handlers leave the list alone, the loop runs over it once.\<close>

lemma close_peers_loop_run:
  assumes step: "\<And>i st b st'. i < length ps \<Longrightarrow> owned st = ps \<Longrightarrow> Inv i st \<Longrightarrow> cl (ps ! i) st = (b, st') \<Longrightarrow>
      b \<noteq> None \<and> owned st' = ps \<and> Inv (Suc i) st'"
    and "owned st = ps" "Inv index st" "index \<le> length ps"
  shows "\<exists>c st'. close_peers_loop cl index changed st = Some (Some c, st') \<and> owned st' = ps \<and> Inv (length ps) st'"
  using assms(2-4)
proof (induction "length ps - index" arbitrary: index changed st)
  case 0
  then show ?case by (subst close_peers_loop.simps) auto
next
  case (Suc k)
  obtain b st' where c: "cl (ps ! index) st = (b, st')" by fastforce
  have i: "index < length ps" using Suc(2) by simp
  obtain d where d: "b = Some d" "owned st' = ps" "Inv (Suc index) st'"
    using step [OF i Suc.prems(1,2) c] by blast
  have "\<exists>c st''. close_peers_loop cl (Suc index) (d \<or> changed) st' = Some (Some c, st'') \<and> owned st'' = ps \<and>
      Inv (length ps) st''"
    using Suc.hyps(2) i by (intro Suc.hyps(1) [OF _ d(2,3)]) simp_all
  then show ?case using i c d Suc.prems(1) by (subst close_peers_loop.simps) (simp add: Let_def)
qed

section \<open>The class of the peers\<close>

text \<open>
  The peers of a collection are distinct, below the next address, own different descriptors,
  and no close is under way.
\<close>

definition acc_fds :: "'b sock_scheme accepted \<Rightarrow> int set" where
  "acc_fds a = slot_fds (peer_heap a) (owned a)"

definition acc_inv :: "'b sock_scheme accepted \<Rightarrow> bool" where
  "acc_inv a \<longleftrightarrow> peers_inv a \<and> slots_disjoint (peer_heap a) (owned a) \<and> (\<forall>p\<in>set (owned a). p < next_peer a) \<and>
    \<not> closing_peers a"

locale peer_class =
  fixes pcl :: "'b sock_scheme virtual_closer"
    and destroy :: "os \<Rightarrow> 'b sock_scheme \<Rightarrow> world \<Rightarrow> world"
  assumes pcl_releases: "pcl os x w = (b, x', w') \<Longrightarrow> sockfd x' < 0"
    and pcl_safe: "pcl os x w = (b, x', w') \<Longrightarrow> safe_step x w x' w'"
    and destroy_safe: "fd_safe (sockfd x) (trace w) (- 1) (trace (destroy os x w))"
begin

lemma close_accepted_run:
  assumes "acc_inv a" "acc_fds a \<subseteq> open_fds (trace w)" "close_accepted_peers pcl os a w = (b, a', w')"
  shows "acc_inv a' \<and> acc_fds a' = {} \<and> owned a' = owned a \<and> owns_step (acc_fds a) (trace w) {} (trace w')"
proof -
  let ?H = "peer_heap a" and ?ps = "owned a"
  define Inv where "Inv = (\<lambda>i (st :: 'b sock_scheme accepted). members st = members a \<and> next_peer st = next_peer a \<and>
    (\<forall>j<i. sockfd (peer_heap st (?ps ! j)) < 0) \<and>
    (\<forall>p\<in>set (drop i ?ps). peer_heap st p = ?H p) \<and>
    slot_fds ?H (drop i ?ps) \<subseteq> open_fds (trace (aworld st)) \<and>
    owns_step (acc_fds a) (trace w) (slot_fds ?H (drop i ?ps)) (trace (aworld st)))"
  let ?a = "a\<lparr>aworld := w, closing_peers := True\<rparr>"
  have dist: "distinct ?ps" and dis: "slots_disjoint ?H ?ps"
    using assms(1) by (simp_all add: acc_inv_def peers_inv_def)
  have "\<exists>c st'. close_peers_loop (close_accepted pcl os) 0 False ?a = Some (Some c, st') \<and> owned st' = ?ps \<and>
      Inv (length ?ps) st'"
  proof (rule close_peers_loop_run)
    show "Inv 0 ?a" using assms(1,2) by (simp add: Inv_def acc_fds_def)
  next
    fix i st b st'
    assume i: "i < length ?ps" and own: "owned st = ?ps" and inv: "Inv i st"
      and c: "close_accepted pcl os (?ps ! i) st = (b, st')"
    let ?p = "?ps ! i"
    obtain d x v where x: "pcl os (peer_heap st ?p) (aworld st) = (d, x, v)" by (rule prod_cases3)
    have st': "b = Some d" "st' = st\<lparr>peer_heap := (peer_heap st)(?p := x), aworld := v\<rparr>"
      using c by (simp_all add: close_accepted_def x)
    have drop: "drop i ?ps = ?p # drop (Suc i) ?ps" by (rule Cons_nth_drop_Suc [OF i, symmetric])
    have H: "peer_heap st ?p = ?H ?p" using inv by (simp add: Inv_def drop)
    have fd: "sockfd x < 0" by (rule pcl_releases [OF x])
    note at = slots_disjoint_at [OF dis i]
    have "owns_step (held (sockfd (?H ?p))) (trace (aworld st)) {} (trace v)"
      using pcl_safe [OF x] fd by (simp add: safe_step_def owns_one H)
    from owns_frame [OF this _ _ conjunct1 [OF at]] inv
    have fr: "owns_step (slot_fds ?H (drop i ?ps)) (trace (aworld st)) (slot_fds ?H (drop (Suc i) ?ps)) (trace v)"
      "slot_fds ?H (drop (Suc i) ?ps) \<subseteq> open_fds (trace v)"
      by (simp_all add: Inv_def drop)
    have low: "sockfd (peer_heap st' (?ps ! j)) < 0" if "j < Suc i" for j
      using that inv fd dist i by (auto simp: Inv_def st'(2) less_Suc_eq nth_eq_iff_index_eq)
    show "b \<noteq> None \<and> owned st' = ?ps \<and> Inv (Suc i) st'"
      using st' own inv fr low at owns_trans by (auto simp: Inv_def drop)
  qed simp_all
  then obtain c st' where run: "close_peers_loop (close_accepted pcl os) 0 False ?a = Some (Some c, st')"
      "owned st' = ?ps" "Inv (length ?ps) st'" by blast
  have a': "a' = st'\<lparr>closing_peers := False\<rparr>" "w' = aworld st'"
    using assms(1,3) run(1) by (auto simp: close_accepted_peers_def close_owned_peers_def acc_inv_def)
  have closed: "sockfd (peer_heap st' p) < 0" if "p \<in> set ?ps" for p
    using run(3) that by (auto simp: Inv_def in_set_conv_nth)
  then have "slot_fds (peer_heap st') ?ps = {}" by (simp add: slot_fds_def)
  moreover have "slots_disjoint (peer_heap st') ?ps"
    using dist closed by (intro slots_disjoint_closed) auto
  ultimately show ?thesis
    using run assms(1) a' by (simp add: acc_inv_def acc_fds_def peers_inv_def Inv_def)
qed

lemma remove_accepted_run:
  assumes "acc_inv a" "acc_fds a \<subseteq> open_fds (trace w)" "remove_accepted_peer pcl destroy os (Some p) a w = (b, a', w')"
  shows "acc_inv a' \<and> owned a' = remove1 p (owned a) \<and> owns_step (acc_fds a) (trace w) (acc_fds a') (trace w') \<and>
    acc_fds a' \<subseteq> acc_fds a"
proof (cases "p \<in> set (owned a)")
  case False
  then show ?thesis
    using assms by (auto simp: remove_accepted_peer_def remove_owned_peer_eq remove1_idem acc_inv_def acc_fds_def peers_inv_def)
next
  case True
  let ?d = "detach p (a\<lparr>aworld := w\<rparr>)"
  obtain d x v where x: "pcl os (peer_heap a p) w = (d, x, v)" by (rule prod_cases3)
  have d: "peer_heap ?d = peer_heap a" "aworld ?d = w" "owned ?d = remove1 p (owned a)"
    "next_peer ?d = next_peer a" "closing_peers ?d = closing_peers a"
    by (simp_all add: detach_def)
  have run: "close_accepted pcl os p ?d = (Some d, ?d\<lparr>peer_heap := (peer_heap a)(p := x), aworld := v\<rparr>)"
    by (simp add: close_accepted_def d x)
  have eq: "a' = ?d\<lparr>peer_heap := (peer_heap a)(p := x), aworld := destroy os x v\<rparr>" "w' = destroy os x v"
    using assms(3) True by (auto simp: remove_accepted_peer_def remove_owned_peer_eq run destroy_accepted_def)
  note rem = slots_disjoint_remove1 [of "peer_heap a" "owned a" p]
  have dis: "slots_disjoint (peer_heap a) (owned a)" and dist: "distinct (owned a)"
    using assms(1) by (simp_all add: acc_inv_def peers_inv_def)
  have same: "slot_fds ((peer_heap a)(p := x)) (remove1 p (owned a)) = slot_fds (peer_heap a) (remove1 p (owned a))"
    "slots_disjoint ((peer_heap a)(p := x)) (remove1 p (owned a)) = slots_disjoint (peer_heap a) (remove1 p (owned a))"
    using dist by (auto intro!: slot_fds_cong slots_disjoint_cong)
  have "fd_safe (sockfd (peer_heap a p)) (trace w) (- 1) (trace w')"
    using fd_safe_trans [OF pcl_safe [OF x, unfolded safe_step_def] destroy_safe [of x v os]] by (simp add: eq)
  then have one: "owns_step (held (sockfd (peer_heap a p))) (trace w) {} (trace w')" by (simp add: owns_one)
  have "owns_step (acc_fds a) (trace w) (slot_fds (peer_heap a) (remove1 p (owned a))) (trace w')"
    using owns_frame [OF one, of "slot_fds (peer_heap a) (remove1 p (owned a))"] rem [OF dis True] assms(2)
    by (simp add: acc_fds_def)
  moreover have "acc_fds a' = slot_fds (peer_heap a) (remove1 p (owned a))"
    using same by (simp add: acc_fds_def eq d)
  moreover have "acc_inv a'"
  proof -
    have "peers_inv ?d" using detach_inv [of "a\<lparr>aworld := w\<rparr>" p] assms(1) by (simp add: acc_inv_def peers_inv_def)
    then have "peers_inv a'" by (simp add: eq peers_inv_def)
    moreover have "\<forall>q\<in>set (owned a'). q < next_peer a'"
      using assms(1) by (auto simp: eq d acc_inv_def dest: notin_set_remove1 [THEN contrapos_pp])
    ultimately show ?thesis
      using same rem [OF dis True] assms(1) by (simp add: acc_inv_def eq d)
  qed
  ultimately show ?thesis using rem [OF dis True] by (simp add: eq d acc_fds_def)
qed

lemma take_peer_run:
  assumes "acc_inv a" "take_peer destroy os block from x a w = (r, a', w')"
    and "held (sockfd x) \<inter> acc_fds a = {}"
  shows "case r of
      None \<Rightarrow> a' = a \<and> fd_safe (sockfd x) (trace w) (- 1) (trace w')
    | Some p \<Rightarrow> acc_inv a' \<and> owned a' = owned a @ [p] \<and> acc_fds a' = acc_fds a \<union> held (sockfd x) \<and>
        fd_safe (sockfd x) (trace w) (sockfd x) (trace w')"
proof -
  let ?x = "set_parent_server (Some 0) (x\<lparr>remote_addr := from\<rparr>)"
  obtain e y v where m: "set_blocking os block ?x w = (e, y, v)" by (rule prod_cases3)
  have y: "safe_step ?x w y v \<and> sockfd y = sockfd ?x" using set_blocking_safe [OF m] by simp
  then have fd: "fd_safe (sockfd x) (trace w) (sockfd x) (trace v)" "sockfd y = sockfd x"
    by (auto simp: safe_step_def set_parent_server_def)
  note d = assms(2) [unfolded take_peer_def Let_def m prod.case]
  show ?thesis
  proof (cases "e = 0")
    case False
    then show ?thesis
      using d fd fd_safe_trans [OF fd(1), of "- 1" "trace (destroy os y v)"] destroy_safe [of y v os] by auto
  next
    case True
    let ?p = "next_peer a"
    let ?a = "a\<lparr>peer_heap := (peer_heap a)(?p := y), next_peer := ?p + 1\<rparr>"
    obtain res b where add: "add_peer (Some ?p) ?a = (res, b)" by fastforce
    have new: "?p \<notin> set (owned a)" using assms(1) by (auto simp: acc_inv_def)
    have b: "b = ?a\<lparr>owned := owned a @ [?p], members := snd (set_add (Some ?p) (members a))\<rparr>" "res = Some ?p"
      using add by (auto simp: add_peer_def set_add_def)
    have same: "slot_fds ((peer_heap a)(?p := y)) (owned a) = acc_fds a"
      "slots_disjoint ((peer_heap a)(?p := y)) (owned a) = slots_disjoint (peer_heap a) (owned a)"
      unfolding acc_fds_def using new by (auto intro!: slot_fds_cong slots_disjoint_cong)
    have "acc_inv b"
      using assms(1,3) new fd(2) same
      by (auto simp: acc_inv_def b peers_inv_def set_add_def slots_disjoint_append less_Suc_eq acc_fds_def)
    then show ?thesis using d True add b fd same by (auto simp: acc_fds_def)
  qed
qed

end

section \<open>The class of the server\<close>

text \<open>
  The fields of \<open>sock\<close> that \<open>listen\<close> and \<open>accept\<close> change leave the collection alone.
\<close>

lemma set_option_more:
  "set_option os c s w = (r, s', w') \<Longrightarrow> sock.more s' = sock.more s"
  by (auto simp: set_option_def Let_def split: if_splits prod.splits)

lemma listen_attempt_more:
  assumes "listen_attempt os t p s w = (ok, s', w')"
  shows "sock.more s' = sock.more s"
proof -
  let ?s = "s\<lparr>net_family := ss_family t, sock_port := p\<rparr>"
  obtain e1 s1 w1 where 1: "set_so_reuseaddr os True ?s w = (e1, s1, w1)" by (rule prod_cases3)
  obtain e2 s2 w2 where 2: "(if ss_family t = AF_INET6 then set_ipv6_v6only os True s1 w1
    else (0, s1, w1)) = (e2, s2, w2)" by (rule prod_cases3)
  obtain e3 s3 w3 where 3: "tcp_bind os (Some t) s2 w2 = (e3, s3, w3)" by (rule prod_cases3)
  have "sock.more s1 = sock.more s" using set_option_more [OF 1 [unfolded set_so_reuseaddr_def]] by simp
  moreover have "sock.more s2 = sock.more s1"
    using 2 set_option_more [of os _ s1 w1 e2 s2 w2]
    by (auto simp: set_ipv6_v6only_def split: if_splits)
  moreover have "sock.more s3 = sock.more s2"
    using 3 by (auto simp: tcp_bind_def Let_def split: if_splits prod.splits)
  moreover have "sock.more s' = sock.more s3"
    using assms 1 2 3 by (auto simp: listen_attempt_def Let_def simp del: AF_INET6_def split: if_splits prod.splits)
  ultimately show ?thesis by simp
qed

lemma tcp_accept_more:
  "tcp_accept os t block s w = (fd, from, s', w') \<Longrightarrow> sock.more s' = sock.more s"
  by (auto simp: tcp_accept_def Let_def split: if_splits prod.splits)

lemma set_blocking_more: "set_blocking os b s w = (r, s', w') \<Longrightarrow> sock.more s' = sock.more s"
  by (auto simp: set_blocking_def set_socket_nonblocking_def Let_def split: if_splits prod.splits)

lemma socket_close_more: "socket_close os s w = (b, s', w') \<Longrightarrow> sock.more s' = sock.more s"
  by (auto simp: socket_close_def Let_def split: if_splits prod.splits)

text \<open>
  The descriptors of a server; a state in which it owns them; a step that trades exactly them.
\<close>

definition owned_fds :: "('a sock_scheme \<Rightarrow> 'b sock_scheme accepted) \<Rightarrow> 'a sock_scheme \<Rightarrow> int set" where
  "owned_fds acc s = held (sockfd s) \<union> acc_fds (acc s)"

definition owner_ok :: "('a sock_scheme \<Rightarrow> 'b sock_scheme accepted) \<Rightarrow> 'a sock_scheme \<Rightarrow> world \<Rightarrow> bool" where
  "owner_ok acc s w \<longleftrightarrow> acc_inv (acc s) \<and> held (sockfd s) \<inter> acc_fds (acc s) = {} \<and>
    owned_fds acc s \<subseteq> open_fds (trace w)"

definition owner_step ::
  "('a sock_scheme \<Rightarrow> 'b sock_scheme accepted) \<Rightarrow> 'a sock_scheme \<Rightarrow> world \<Rightarrow> 'a sock_scheme \<Rightarrow> world \<Rightarrow> bool"
where
  "owner_step acc s w s' w' \<longleftrightarrow>
    owner_ok acc s' w' \<and> owns_step (owned_fds acc s) (trace w) (owned_fds acc s') (trace w')"

text \<open>
  What the operations of a listener rely on: its own close gives up its descriptor and keeps the
  collection, and the factory owns the descriptor it is given.
\<close>

locale tcp_server = peer_class pcl destroy
  for pcl :: "'b sock_scheme virtual_closer" and destroy :: "os \<Rightarrow> 'b sock_scheme \<Rightarrow> world \<Rightarrow> world" +
  fixes own :: "'a sock_scheme virtual_closer"
    and acc :: "'a sock_scheme \<Rightarrow> 'b sock_scheme accepted"
    and set_acc :: "'b sock_scheme accepted \<Rightarrow> 'a sock_scheme \<Rightarrow> 'a sock_scheme"
    and factory :: "('a sock_scheme, 'b sock_scheme) factory"
  assumes own_releases: "own os s w = (b, s', w') \<Longrightarrow> sockfd s' < 0"
    and own_safe: "own os s w = (b, s', w') \<Longrightarrow> safe_step s w s' w'"
    and own_acc: "own os s w = (b, s', w') \<Longrightarrow> acc s' = acc s"
    and acc_set [simp]: "acc (set_acc a s) = a"
    and set_fd [simp]: "sockfd (set_acc a s) = sockfd s"
    and acc_more: "sock.more s' = sock.more s \<Longrightarrow> acc s' = acc s"
    and factory_owns: "factory os fd s w = (r, s', w') \<Longrightarrow> 0 \<le> fd \<Longrightarrow>
      sockfd s' = sockfd s \<and> acc s' = acc s \<and>
      (case r of None \<Rightarrow> fd_safe fd (trace w) (- 1) (trace w')
       | Some x \<Rightarrow> fd_safe fd (trace w) (sockfd x) (trace w'))"
begin

abbreviation "server_fds \<equiv> owned_fds acc"
abbreviation "server_ok \<equiv> owner_ok acc"
abbreviation "server_step \<equiv> owner_step acc"

lemma close_owns:
  assumes "server_ok s w" "close_server own acc set_acc pcl os s w = (b, s', w')"
  shows "server_step s w s' w' \<and> server_fds s' = {} \<and> sockfd s' < 0"
proof -
  obtain b1 s1 w1 where 1: "own os s w = (b1, s1, w1)" by (rule prod_cases3)
  obtain b2 a w2 where 2: "close_accepted_peers pcl os (acc s1) w1 = (b2, a, w2)" by (rule prod_cases3)
  have eq: "s' = set_acc a s1" "w' = w2" using assms(2) by (auto simp: close_server_def 1 2)
  have fd: "sockfd s1 < 0" by (rule own_releases [OF 1])
  have "owns_step (held (sockfd s)) (trace w) {} (trace w1)"
    using own_safe [OF 1] fd by (simp add: safe_step_def owns_one)
  from owns_frame [OF this] have f: "owns_step (server_fds s) (trace w) (acc_fds (acc s)) (trace w1)"
    "acc_fds (acc s) \<subseteq> open_fds (trace w1)"
    using assms(1) by (auto simp: owner_ok_def owned_fds_def)
  have g: "acc_inv a \<and> acc_fds a = {} \<and> owns_step (acc_fds (acc s)) (trace w1) {} (trace w2)"
    using close_accepted_run [OF _ _ 2] assms(1) f(2) by (simp add: own_acc [OF 1] owner_ok_def)
  then show ?thesis
    using owns_trans [OF f(1), of "{}" "trace w2"] fd
    by (simp add: owner_step_def owner_ok_def owned_fds_def eq)
qed

lemma close_peers_owns:
  assumes "server_ok s w" "close_accepted_peers pcl os (acc s) w = (b, a, w')"
  shows "server_step s w (set_acc a s) w' \<and> acc_fds a = {}"
proof -
  have inv: "acc_inv (acc s)" "acc_fds (acc s) \<subseteq> open_fds (trace w)" "held (sockfd s) \<subseteq> open_fds (trace w)"
    "acc_fds (acc s) \<inter> held (sockfd s) = {}"
    using assms(1) by (auto simp: owner_ok_def owned_fds_def)
  note run = close_accepted_run [OF inv(1,2) assms(2)]
  have "owns_step (acc_fds (acc s)) (trace w) {} (trace w')" using run by blast
  from owns_frame [OF this inv(2,3,4)] run show ?thesis
    by (auto simp: owner_step_def owner_ok_def owned_fds_def Un_commute)
qed

lemma closed_socket_owns:
  assumes "fresh_fds os" "server_ok s w" "server_fds s = {}" "sys os (Fd (Socket f t)) w = (r, w1)"
  shows "server_ok (s\<lparr>sockfd := ret r\<rparr>) w1 \<and> server_step s w (s\<lparr>sockfd := ret r\<rparr>) w1"
proof -
  have acc: "acc (s\<lparr>sockfd := ret r\<rparr>) = acc s" by (rule acc_more) simp
  have empty: "held (sockfd s) = {}" "acc_fds (acc s) = {}" using assms(3) by (simp_all add: owned_fds_def)
  have "ret r = - 1 \<or> 0 \<le> ret r \<and> ret r \<notin> open_fds (trace w)" by (rule fresh_socket [OF assms(1,4)])
  then have "owns_step {} (trace w) (held (ret r)) (trace w1)"
    by (auto simp: owns_step_def sys_trace [OF assms(4)])
  then show ?thesis
    using assms(2) empty by (simp add: owner_step_def owner_ok_def owned_fds_def acc owns_step_def)
qed

text \<open>Steps on the listener's own descriptor slot.\<close>

lemma own_slot_owns:
  assumes "server_ok s w" "safe_step s w s' w'" "acc s' = acc s"
  shows "server_step s w s' w'"
  using owns_frame [OF assms(2) [unfolded safe_step_def owns_one], of "acc_fds (acc s)"] assms(1,3)
  by (auto simp: owner_step_def owner_ok_def owned_fds_def)

lemma server_step_trans: "server_step s w s1 w1 \<Longrightarrow> server_step s1 w1 s' w' \<Longrightarrow> server_step s w s' w'"
  using owns_trans by (auto simp: owner_step_def)

lemma server_step_ok: "server_step s w s' w' \<Longrightarrow> server_ok s' w'"
  by (simp add: owner_step_def)

lemma same_fields_owns:
  "server_ok s w \<Longrightarrow> sockfd s' = sockfd s \<Longrightarrow> sock.more s' = sock.more s \<Longrightarrow> server_step s w s' w"
  by (rule own_slot_owns) (auto simp: safe_step_def intro: acc_more)

lemma listen_owns:
  assumes "fresh_fds os" "server_ok s w"
    and "tcp_listen os (close_server own acc set_acc pcl) ip p s w = (b, s', w')"
  shows "server_step s w s' w' \<and>
    (b \<longrightarrow> is_valid_socket s' \<and> server_fds s' = {sockfd s'}) \<and> (b \<longrightarrow> error_code s' = err_none)"
proof (cases "ip = None \<or> \<not> is_valid_port p \<or> listen_target os (the ip) p = None")
  case True
  then have "w' = w \<and> sockfd s' = sockfd s \<and> sock.more s' = sock.more s \<and> \<not> b"
    using assms(3) by (auto simp: tcp_listen_def split: if_splits)
  then show ?thesis using same_fields_owns [OF assms(2)] by blast
next
  case False
  then obtain i t where i: "ip = Some i" "is_valid_port p" "listen_target os i p = Some t" by auto
  obtain b1 s1 w1 where c: "close_server own acc set_acc pcl os s w = (b1, s1, w1)" by (rule prod_cases3)
  obtain r w2 where so: "sys os (Fd (Socket (ss_family t) SOCK_STREAM)) w1 = (r, w2)" by fastforce
  obtain ok s3 w3 where att: "listen_attempt os t p (s1\<lparr>sockfd := ret r\<rparr>) w2 = (ok, s3, w3)"
    by (rule prod_cases3)
  obtain b4 s4 w4 where c4: "close_server own acc set_acc pcl os s3 w3 = (b4, s4, w4)" by (rule prod_cases3)
  note d = assms(3) [unfolded tcp_listen_def i(1) option.sel Let_def i(3) option.case c so att c4 prod.case]
  note closed = close_owns [OF assms(2) c]
  have 1: "server_step s w (s1\<lparr>sockfd := ret r\<rparr>) w2"
    using server_step_trans closed closed_socket_owns [OF assms(1) server_step_ok _ so] by blast
  have 2: "server_step (s1\<lparr>sockfd := ret r\<rparr>) w2 s3 w3"
    using listen_attempt_safe [OF att] acc_more [OF listen_attempt_more [OF att]]
    by (intro own_slot_owns [OF server_step_ok [OF 1]]) simp_all
  note 3 = server_step_trans [OF 1 2]
  note 4 = close_owns [OF server_step_ok [OF 3] c4]
  have none: "acc_fds (acc s3) = {}"
    using acc_more [OF listen_attempt_more [OF att]] acc_more [of "s1\<lparr>sockfd := ret r\<rparr>" s1] closed
    by (simp add: owned_fds_def)
  consider "\<not> is_valid_socket (s1\<lparr>sockfd := ret r\<rparr>)" | "is_valid_socket (s1\<lparr>sockfd := ret r\<rparr>)" "ok"
    | "is_valid_socket (s1\<lparr>sockfd := ret r\<rparr>)" "\<not> ok" by blast
  then show ?thesis
  proof cases
    case 1
    then have "w' = w2 \<and> sockfd s' = ret r \<and> sock.more s' = sock.more s1 \<and> \<not> b"
      using d i(2) by auto
    then show ?thesis
      using server_step_trans [OF \<open>server_step s w (s1\<lparr>sockfd := ret r\<rparr>) w2\<close>
          same_fields_owns [OF server_step_ok [OF \<open>server_step s w (s1\<lparr>sockfd := ret r\<rparr>) w2\<close>], of s']] by simp
  next
    case 2
    then have e: "w' = w3 \<and> sockfd s' = sockfd s3 \<and> sock.more s' = sock.more s3 \<and> error_code s' = err_none \<and> b"
      using d i(2) by auto
    have "server_step s w s' w'"
      using server_step_trans [OF 3 same_fields_owns [OF server_step_ok [OF 3], of s']] e by simp
    moreover have "0 \<le> sockfd s'" using e 2(1) listen_attempt_safe [OF att] by (simp add: is_valid_socket_def)
    moreover have "acc_fds (acc s') = {}" using none acc_more [of s' s3] e by simp
    ultimately show ?thesis using e by (simp add: is_valid_socket_def owned_fds_def)
  next
    case 3
    then have e: "w' = w4 \<and> s' = s4 \<and> \<not> b" using d i(2) by auto
    then show ?thesis using server_step_trans [OF \<open>server_step s w s3 w3\<close>] 4 by blast
  qed
qed

lemma accept_owns:
  assumes "fresh_fds os" "server_ok s w"
    and "accept_peer acc set_acc factory destroy os timeout block s w = (r, s', w')"
  shows "server_step s w s' w' \<and> sockfd s' = sockfd s \<and>
    owned (acc s') = owned (acc s) @ (case r of None \<Rightarrow> [] | Some p \<Rightarrow> [p])"
proof -
  obtain fd "from" s1 w1 where a: "tcp_accept os timeout block s w = (fd, from, s1, w1)" by (rule prod_cases4)
  note safe = tcp_accept_safe [OF assms(1) a] and same = acc_more [OF tcp_accept_more [OF a]]
  have step: "owns_step (server_fds s) (trace w) (held fd \<union> server_fds s) (trace w1)"
    "held fd \<inter> server_fds s = {}" "held fd \<subseteq> open_fds (trace w1)" "server_fds s \<subseteq> open_fds (trace w1)"
    using owns_frame [of "{}" "trace w" "held fd" "trace w1" "server_fds s"] safe assms(2)
    by (auto simp: owns_one owner_ok_def)
  show ?thesis
  proof (cases "fd = invalid_socket")
    case True
    then have "r = None" "s' = s1" "w' = w1" using assms(3) by (auto simp: accept_peer_def a)
    then show ?thesis using step safe same True assms(2)
      by (simp add: owner_step_def owner_ok_def owned_fds_def)
  next
    case False
    then have fd: "0 \<le> fd" using safe by blast
    obtain x s2 w2 where f: "factory os fd s1 w1 = (x, s2, w2)" by (rule prod_cases3)
    note fac = factory_owns [OF f fd]
    have same2: "sockfd s2 = sockfd s" "acc s2 = acc s" using fac safe same by simp_all
    show ?thesis
    proof (cases x)
      case None
      then have e: "r = None" "s' = s2" "w' = w2" using assms(3) False by (simp_all add: accept_peer_def a f)
      have "owns_step (held fd) (trace w1) {} (trace w2)" using fac None by (simp add: owns_one)
      from owns_frame [OF this step(3,4,2)]
      have "owns_step (server_fds s) (trace w) (server_fds s) (trace w2)" "server_fds s \<subseteq> open_fds (trace w2)"
        using owns_trans [OF step(1)] by auto
      then show ?thesis using e same2 assms(2) by (simp add: owner_step_def owner_ok_def owned_fds_def)
    next
      case (Some y)
      obtain p c w3 where t: "take_peer destroy os block from y (acc s2) w2 = (p, c, w3)" by (rule prod_cases3)
      have e: "r = p" "s' = set_acc c s2" "w' = w3"
        using assms(3) False Some by (simp_all add: accept_peer_def a f t)
      have "owns_step (held fd) (trace w1) (held (sockfd y)) (trace w2)" using fac Some by (simp add: owns_one)
      note fr = owns_frame [OF this step(3,4,2)]
      have g: "owns_step (server_fds s) (trace w) (held (sockfd y) \<union> server_fds s) (trace w2)"
        using owns_trans [OF step(1)] fr by blast
      have apart: "held (sockfd y) \<inter> acc_fds (acc s2) = {}" using fr same2 by (auto simp: owned_fds_def)
      have inv: "acc_inv (acc s2)" using assms(2) same2 by (simp add: owner_ok_def)
      note run = take_peer_run [OF inv t apart]
      show ?thesis
      proof (cases p)
        case None
        then have "owns_step (held (sockfd y)) (trace w2) {} (trace w3)" "c = acc s2"
          using run by (auto simp: owns_one)
        note last = owns_frame [OF this(1), of "server_fds s"]
        have "owns_step (server_fds s) (trace w) (server_fds s) (trace w3)" "server_fds s \<subseteq> open_fds (trace w3)"
          using owns_trans [OF g] last fr by auto
        then show ?thesis using e same2 assms(2) None \<open>c = acc s2\<close>
          by (simp add: owner_step_def owner_ok_def owned_fds_def)
      next
        case Some_p: (Some q)
        then have k: "owns_step (held (sockfd y)) (trace w2) (held (sockfd y)) (trace w3)" "acc_inv c"
          "owned c = owned (acc s) @ [q]" "acc_fds c = acc_fds (acc s) \<union> held (sockfd y)"
          using run same2 by (auto simp: owns_one)
        note last = owns_frame [OF k(1), of "server_fds s"]
        have "owns_step (server_fds s) (trace w) (held (sockfd y) \<union> server_fds s) (trace w3)"
          "held (sockfd y) \<union> server_fds s \<subseteq> open_fds (trace w3)"
          using owns_trans [OF g] last fr by auto
        moreover have "server_fds s' = held (sockfd y) \<union> server_fds s"
          using e same2 k(4) by (auto simp: owned_fds_def)
        moreover have "held (sockfd s) \<inter> acc_fds c = {}"
          using assms(2) fr k(4) by (auto simp: owner_ok_def owned_fds_def)
        ultimately show ?thesis using e same2 k(2,3) Some_p by (simp add: owner_step_def owner_ok_def)
      qed
    qed
  qed
qed

text \<open>A peer that was closed behind the back of the collection.\<close>

lemma closed_peer_owns:
  assumes "server_ok s w" "p \<in> set (owned (acc s))" "sockfd x < 0"
    and "fd_safe (sockfd (peer_heap (acc s) p)) (trace w) (- 1) (trace w')"
  shows "server_step s w (set_acc ((acc s)\<lparr>peer_heap := (peer_heap (acc s))(p := x)\<rparr>) s) w'"
proof -
  let ?H = "peer_heap (acc s)" and ?ps = "owned (acc s)"
  let ?R = "slot_fds ?H (remove1 p ?ps)"
  have dis: "slots_disjoint ?H ?ps" and "acc_inv (acc s)" using assms(1) by (simp_all add: owner_ok_def acc_inv_def)
  note rem = slots_disjoint_remove1 [OF dis assms(2)]
  have fds: "acc_fds (acc s) = held (sockfd (?H p)) \<union> ?R" using rem by (simp add: acc_fds_def)
  have new: "acc_fds ((acc s)\<lparr>peer_heap := ?H(p := x)\<rparr>) = ?R"
    using slot_fds_released [OF dis assms(3)] by (simp add: acc_fds_def)
  have inv: "acc_inv ((acc s)\<lparr>peer_heap := ?H(p := x)\<rparr>)"
    using \<open>acc_inv (acc s)\<close> slots_release [OF assms(3)] by (simp add: acc_inv_def peers_inv_def)
  have "owns_step (held (sockfd (?H p))) (trace w) {} (trace w')" using assms(4) by (simp add: owns_one)
  have held: "held (sockfd (?H p)) \<subseteq> open_fds (trace w)" "?R \<union> held (sockfd s) \<subseteq> open_fds (trace w)"
    "held (sockfd (?H p)) \<inter> (?R \<union> held (sockfd s)) = {}" "?R \<inter> held (sockfd s) = {}"
    using rem assms(1) fds by (auto simp: owner_ok_def owned_fds_def)
  note out = owns_frame [OF \<open>owns_step (held (sockfd (?H p))) (trace w) {} (trace w')\<close> held(1-3)]
  have "owned_fds acc s = held (sockfd (?H p)) \<union> (?R \<union> held (sockfd s))" using fds by (auto simp: owned_fds_def)
  then show ?thesis
    using new inv out held(4) by (auto simp: owner_step_def owner_ok_def owned_fds_def Un_commute)
qed

lemma remove_owns:
  assumes "server_ok s w" "remove_accepted_peer pcl destroy os (Some p) (acc s) w = (b, a, w')"
  shows "server_step s w (set_acc a s) w'"
proof -
  have inv: "acc_inv (acc s)" "acc_fds (acc s) \<subseteq> open_fds (trace w)" "held (sockfd s) \<subseteq> open_fds (trace w)"
    "acc_fds (acc s) \<inter> held (sockfd s) = {}"
    using assms(1) by (auto simp: owner_ok_def owned_fds_def)
  note run = remove_accepted_run [OF inv(1,2) assms(2)]
  have "owns_step (acc_fds (acc s)) (trace w) (acc_fds a) (trace w')" using run by blast
  from owns_frame [OF this inv(2,3,4)] run show ?thesis
    by (auto simp: owner_step_def owner_ok_def owned_fds_def Un_commute)
qed

end

section \<open>The two servers\<close>

lemma socket_destroy_owns: "fd_safe (sockfd x) (trace w) (- 1) (trace (socket_destroy os x w))"
  using socket_destroy_safe [of x w os] by (auto simp: fd_safe_def)

lemma socket_adopt_owns:
  assumes "socket_adopt os fd w = (x, w')"
  shows "sockfd x = fd \<and> fd_safe fd (trace w) fd (trace w')"
  using assms
  by (auto simp: socket_adopt_def Let_def is_valid_socket_def clear_buffers_def sys_def
      split: if_splits)

lemma event_socket_adopt_owns:
  assumes "event_socket_adopt os fd w = (x, w')"
  shows "fd_safe fd (trace w) (sockfd x) (trace w')"
proof -
  obtain y w1 where a: "socket_adopt os fd w = (y, w1)" by fastforce
  note own = socket_adopt_owns [OF a]
  have fd: "sockfd (ev_of_sock y) = fd" using own by (simp add: ev_of_sock_def sock.defs)
  obtain r z w2 where m: "set_blocking os False (ev_of_sock y) w1 = (r, z, w2)" by (rule prod_cases3)
  obtain b u w3 where c: "socket_close os z w2 = (b, u, w3)" by (rule prod_cases3)
  have 1: "fd_safe fd (trace w) (sockfd z) (trace w2)"
    using fd_safe_trans [OF conjunct2 [OF own]] set_blocking_safe [OF m] fd by (auto simp: safe_step_def)
  have "fd_safe fd (trace w) (sockfd u) (trace w3)"
    using fd_safe_trans [OF 1] socket_close_safe [OF c] by (auto simp: safe_step_def)
  then show ?thesis
    using assms 1 own fd by (auto simp: event_socket_adopt_def a event_socket_setup_def m c split: if_splits)
qed

interpretation plain_server: tcp_server socket_close socket_destroy socket_close accepted_peers set_accepted
  create_accepted_socket
proof
  fix os :: os and s s' :: "(sock, 'a) server_sock_scheme" and x x' :: sock and w w' b a fd r
  show "sockfd x' < 0" if "socket_close os x w = (b, x', w')" using that by (rule base_close.cl_releases)
  show "safe_step x w x' w'" if "socket_close os x w = (b, x', w')" using that by (rule base_close.cl_safe)
  show "fd_safe (sockfd x) (trace w) (- 1) (trace (socket_destroy os x w))" by (rule socket_destroy_owns)
  show "sockfd s' < 0" if "socket_close os s w = (b, s', w')" using that by (rule base_close.cl_releases)
  show "safe_step s w s' w'" if "socket_close os s w = (b, s', w')" using that by (rule base_close.cl_safe)
  show "accepted_peers s' = accepted_peers s" if "socket_close os s w = (b, s', w')"
    using that by (auto simp: socket_close_def Let_def split: if_splits prod.splits)
  show "accepted_peers (set_accepted a s) = a" "sockfd (set_accepted a s) = sockfd s"
    by (simp_all add: set_accepted_def)
  show "accepted_peers s' = accepted_peers s" if "sock.more s' = sock.more s"
    using that by (cases s; cases s') simp
  show "sockfd s' = sockfd s \<and> accepted_peers s' = accepted_peers s \<and>
      (case r of None \<Rightarrow> fd_safe fd (trace w) (- 1) (trace w')
       | Some x \<Rightarrow> fd_safe fd (trace w) (sockfd x) (trace w'))"
    if "create_accepted_socket os fd s w = (r, s', w')" "0 \<le> fd"
    using that socket_adopt_owns by (auto simp: create_accepted_socket_def split: prod.splits)
qed

lemma ev_acc_more: "sock.more s' = sock.more s \<Longrightarrow> ev_accepted s' = ev_accepted s"
  by (cases s; cases s') simp

lemma event_close_accepted:
  assumes "event_close (log_user os addr) os s w = (b, s', w')"
  shows "ev_accepted s' = ev_accepted s"
proof -
  obtain c s1 w1 where c: "socket_close os (clear_queue s) w = (c, s1, w1)" by (rule prod_cases3)
  have "ev_accepted s1 = ev_accepted (clear_queue s)" by (rule ev_acc_more [OF socket_close_more [OF c]])
  then show ?thesis using event_close_logged [OF assms c] by (simp add: clear_queue_def)
qed

interpretation event_server: tcp_server "\<lambda>os. event_close (log_user os peer) os" socket_destroy
  "\<lambda>os. event_close (log_user os 0) os" ev_accepted set_ev_accepted create_accepted_event_socket for peer
proof
  fix os :: os and s s' :: "(ev_sock, 'a) server_ev_sock_scheme" and x x' :: ev_sock and w w' b a fd r
  show "sockfd x' < 0" if "event_close (log_user os peer) os x w = (b, x', w')"
    using that by (rule event_close.cl_releases)
  show "safe_step x w x' w'" if "event_close (log_user os peer) os x w = (b, x', w')"
    using that by (rule event_close.cl_safe)
  show "fd_safe (sockfd x) (trace w) (- 1) (trace (socket_destroy os x w))" by (rule socket_destroy_owns)
  show "sockfd s' < 0" if "event_close (log_user os 0) os s w = (b, s', w')"
    using that by (rule event_close.cl_releases)
  show "safe_step s w s' w'" if "event_close (log_user os 0) os s w = (b, s', w')"
    using that by (rule event_close.cl_safe)
  show "ev_accepted s' = ev_accepted s" if "event_close (log_user os 0) os s w = (b, s', w')"
    using that by (rule event_close_accepted)
  show "ev_accepted (set_ev_accepted a s) = a" "sockfd (set_ev_accepted a s) = sockfd s"
    by (simp_all add: set_ev_accepted_def)
  show "ev_accepted s' = ev_accepted s" if "sock.more s' = sock.more s" by (rule ev_acc_more [OF that])
  show "sockfd s' = sockfd s \<and> ev_accepted s' = ev_accepted s \<and>
      (case r of None \<Rightarrow> fd_safe fd (trace w) (- 1) (trace w')
       | Some x \<Rightarrow> fd_safe fd (trace w) (sockfd x) (trace w'))"
    if "create_accepted_event_socket os fd s w = (r, s', w')" "0 \<le> fd"
    using that event_socket_adopt_owns by (auto simp: create_accepted_event_socket_def split: prod.splits)
qed

lemma event_listen_owns:
  fixes s :: "ev_sock server_ev_sock" and peer :: nat
  assumes "fresh_fds os" "owner_ok ev_accepted s w"
  defines "user \<equiv> \<lambda>os. log_user os 0" and "pcl \<equiv> \<lambda>os. event_close (log_user os peer) os"
  shows "case server_event_listen_on user pcl os ip port_number s w of (b, s', w') \<Rightarrow>
      owner_step ev_accepted s w s' w' \<and>
      (b \<longrightarrow> is_valid_socket s' \<and> \<not> blocking s' \<and> owned_fds ev_accepted s' = {sockfd s'})"
proof -
  obtain b1 s1 w1 where l: "tcp_listen os (server_event_close user pcl) ip port_number s w = (b1, s1, w1)"
    by (rule prod_cases3)
  obtain b2 a2 w2 where c: "close_accepted_peers pcl os (ev_accepted s1) w1 = (b2, a2, w2)" by (rule prod_cases3)
  let ?s2 = "set_ev_accepted a2 s1"
  obtain r3 s3 w3 where m: "set_blocking os False ?s2 w2 = (r3, s3, w3)" by (rule prod_cases3)
  obtain b4 s4 w4 where d: "socket_close os s3 w3 = (b4, s4, w4)" by (rule prod_cases3)
  note l' = event_server.listen_owns [OF assms(1,2) l [unfolded server_event_close_def user_def pcl_def]]
  note c' = event_server.close_peers_owns [OF event_server.server_step_ok [OF conjunct1 [OF l']] c [unfolded pcl_def]]
  note 2 = event_server.server_step_trans [OF conjunct1 [OF l'] conjunct1 [OF c']]
  note m' = set_blocking_safe [OF m] and a3 = ev_acc_more [OF set_blocking_more [OF m]]
  have 3: "owner_step ev_accepted s w s3 w3"
    using event_server.server_step_trans [OF 2] event_server.own_slot_owns [OF event_server.server_step_ok [OF 2] _ a3] m'
    by blast
  have 4: "owner_step ev_accepted s w s4 w4"
    using event_server.server_step_trans [OF 3] base_close.cl_safe [OF d]
      event_server.own_slot_owns [OF event_server.server_step_ok [OF 3] _ ev_acc_more [OF socket_close_more [OF d]]]
    by blast
  have cb: "owner_step ev_accepted s w s3 (snd (sys os (Cb 0 e) w3))" for e
    using 3 by (simp add: owner_step_def owner_ok_def owns_step_def trace_sys)
  have fr: "fire (user os) slot ev x v = (x, if slots x ! slot then snd (sys os (Cb 0 ev) v) else v)" for slot ev x v
    by (simp add: user_def fire_log_user)
  note def = server_event_listen_on_def l c m d fr Let_def
  show ?thesis
  proof (cases "b1 \<and> r3 = 0")
    case True
    have "\<not> blocking s3" using m True by (auto simp: set_blocking_def Let_def split: if_splits prod.splits)
    moreover have "owned_fds ev_accepted s3 = {sockfd s3}" "is_valid_socket s3"
      using l' c' m' a3 True by (auto simp: owned_fds_def set_ev_accepted_def is_valid_socket_def)
    ultimately show ?thesis using True 3 cb by (simp add: def)
  next
    case False
    then show ?thesis using conjunct1 [OF l'] 4 by (auto simp: def)
  qed
qed

text \<open>Listening, with the peers of the old listener closed.\<close>

lemma server_listen_owns:
  fixes s :: "sock server_sock"
  assumes "fresh_fds os" "owner_ok accepted_peers s w" "server_listen_on socket_close os ip p s w = (b, s', w')"
  shows "owner_step accepted_peers s w s' w'"
proof -
  obtain b1 s1 w1 where l: "tcp_listen os (server_close socket_close) ip p s w = (b1, s1, w1)"
    by (rule prod_cases3)
  obtain b2 a2 w2 where c: "close_accepted_peers socket_close os (accepted_peers s1) w1 = (b2, a2, w2)"
    by (rule prod_cases3)
  note l' = plain_server.listen_owns [OF assms(1,2) l [unfolded server_close_def]]
  note c' = plain_server.close_peers_owns [OF plain_server.server_step_ok [OF conjunct1 [OF l']] c]
  show ?thesis
    using assms(3) l' plain_server.server_step_trans [OF conjunct1 [OF l'] conjunct1 [OF c']]
    by (auto simp: server_listen_on_def l c split: if_splits)
qed

section \<open>Properties\<close>

text \<open>
  C12. A server owns its descriptor and those of the peers it accepted, and nothing else: listening,
  accepting, removing a peer and closing, on every error path, open and close only descriptors
  the server owns, never one twice, and the books stay right. After a close it owns none; after a
  successful listen only the listener, all peers of the old one are closed; accepting adds at most one peer.
\<close>

theorem server_owns_descriptors:
  fixes s :: "sock server_sock"
  assumes "fresh_fds os" "owner_ok accepted_peers s w"
  shows "(case server_listen_on socket_close os ip port_number s w of (b, s', w') \<Rightarrow>
      owner_step accepted_peers s w s' w' \<and>
      (b \<longrightarrow> is_valid_socket s' \<and> owned_fds accepted_peers s' = {sockfd s'})) \<and>
    (case server_accept os block s w of (r, s', w') \<Rightarrow> owner_step accepted_peers s w s' w' \<and>
      owned (accepted_peers s') = owned (accepted_peers s) @ (case r of None \<Rightarrow> [] | Some p \<Rightarrow> [p])) \<and>
    (case server_remove_peer os (Some q) s w of (b, s', w') \<Rightarrow> owner_step accepted_peers s w s' w') \<and>
    (case server_close socket_close os s w of (b, s', w') \<Rightarrow>
      owner_step accepted_peers s w s' w' \<and> owned_fds accepted_peers s' = {})"
proof -
  obtain b1 s1 w1 where l: "tcp_listen os (server_close socket_close) ip port_number s w = (b1, s1, w1)"
    by (rule prod_cases3)
  obtain b2 a2 w2 where c: "close_accepted_peers socket_close os (accepted_peers s1) w1 = (b2, a2, w2)"
    by (rule prod_cases3)
  obtain r3 s3 w3 where a: "server_accept os block s w = (r3, s3, w3)" by (rule prod_cases3)
  obtain b4 a4 w4 where m: "remove_accepted_peer socket_close socket_destroy os (Some q) (accepted_peers s) w =
    (b4, a4, w4)" by (rule prod_cases3)
  obtain b5 s5 w5 where d: "server_close socket_close os s w = (b5, s5, w5)" by (rule prod_cases3)
  note l' = plain_server.listen_owns [OF assms l [unfolded server_close_def]]
  note c' = plain_server.close_peers_owns [OF plain_server.server_step_ok [OF conjunct1 [OF l']] c]
  have "case server_listen_on socket_close os ip port_number s w of (b, s', w') \<Rightarrow>
      owner_step accepted_peers s w s' w' \<and>
      (b \<longrightarrow> is_valid_socket s' \<and> owned_fds accepted_peers s' = {sockfd s'})"
    using l' c' plain_server.server_step_trans [OF conjunct1 [OF l'] conjunct1 [OF c']]
    by (auto simp: server_listen_on_def l c set_accepted_def owned_fds_def is_valid_socket_def)
  moreover have "owner_step accepted_peers s w s3 w3 \<and>
      owned (accepted_peers s3) = owned (accepted_peers s) @ (case r3 of None \<Rightarrow> [] | Some p \<Rightarrow> [p])"
    using plain_server.accept_owns [OF assms a [unfolded server_accept_def]] by blast
  moreover have "owner_step accepted_peers s w (set_accepted a4 s) w4"
    by (rule plain_server.remove_owns [OF assms(2) m])
  moreover have "owner_step accepted_peers s w s5 w5 \<and> owned_fds accepted_peers s5 = {}"
    using plain_server.close_owns [OF assms(2) d [unfolded server_close_def]] by blast
  ultimately show ?thesis by (simp add: a d server_remove_peer_def m)
qed

definition sample_tcp_server :: "sock server_sock" where
  "sample_tcp_server = server_of_sock sock_init"

lemma sample_tcp_server_ok [simp]: "owner_ok accepted_peers sample_tcp_server world0"
  by (simp add: sample_tcp_server_def server_of_sock_def sock.defs owner_ok_def acc_inv_def acc_fds_def
      owned_fds_def accepted_empty_def peers.defs peers_empty_def set_empty_def peers_inv_def sock_init_def)

theorem server_owns_descriptors_witness:
  "case server_listen_on socket_close (scripted_os []) (Some ''127.0.0.1'') 80 sample_tcp_server world0 of
     (b, s', w') \<Rightarrow> owner_step accepted_peers sample_tcp_server world0 s' w'"
proof -
  obtain b s' w' where l: "server_listen_on socket_close (scripted_os []) (Some ''127.0.0.1'') 80 sample_tcp_server world0
    = (b, s', w')" by (rule prod_cases3)
  show ?thesis
    using server_owns_descriptors [OF scripted_fresh sample_tcp_server_ok, of "[]" "Some ''127.0.0.1''" 80] l by simp
qed

text \<open>
  The event server owns its descriptors in the same way: its \<open>listen\<close>, which also makes the
  listener non-blocking and runs the listen handler, ends with a live listener that owns just its
  own descriptor or, when the mode cannot be set, with none; accepting adds at most one
  non-blocking peer, and closing leaves it no descriptor.
\<close>

lemma event_server_owns_descriptors:
  fixes s :: "ev_sock server_ev_sock" and peer :: nat
  assumes "fresh_fds os" "owner_ok ev_accepted s w"
  defines "user \<equiv> \<lambda>os. log_user os 0" and "pcl \<equiv> \<lambda>os. event_close (log_user os peer) os"
  shows "(case server_event_listen_on user pcl os ip port_number s w of (b, s', w') \<Rightarrow>
      owner_step ev_accepted s w s' w' \<and>
      (b \<longrightarrow> is_valid_socket s' \<and> \<not> blocking s' \<and> owned_fds ev_accepted s' = {sockfd s'})) \<and>
    (case server_event_accept os block s w of (r, s', w') \<Rightarrow> owner_step ev_accepted s w s' w' \<and>
      owned (ev_accepted s') = owned (ev_accepted s) @ (case r of None \<Rightarrow> [] | Some p \<Rightarrow> [p])) \<and>
    (case server_event_remove_peer pcl socket_destroy os (Some q) s w of (b, s', w') \<Rightarrow>
      owner_step ev_accepted s w s' w') \<and>
    (case server_event_close user pcl os s w of (b, s', w') \<Rightarrow>
      owner_step ev_accepted s w s' w' \<and> owned_fds ev_accepted s' = {})"
proof -
  obtain b5 s5 w5 where d: "server_event_close user pcl os s w = (b5, s5, w5)" by (rule prod_cases3)
  obtain r3 s3 w3 where a: "server_event_accept os block s w = (r3, s3, w3)" by (rule prod_cases3)
  obtain b4 a4 w4 where m: "remove_accepted_peer pcl socket_destroy os (Some q) (ev_accepted s) w = (b4, a4, w4)"
    by (rule prod_cases3)
  have "owner_step ev_accepted s w s5 w5 \<and> owned_fds ev_accepted s5 = {}"
    using event_server.close_owns [OF assms(2) d [unfolded server_event_close_def user_def pcl_def]] by blast
  moreover have "owner_step ev_accepted s w s3 w3 \<and>
      owned (ev_accepted s3) = owned (ev_accepted s) @ (case r3 of None \<Rightarrow> [] | Some p \<Rightarrow> [p])"
    using event_server.accept_owns [OF assms(1,2) a [unfolded server_event_accept_def]] by blast
  moreover have "owner_step ev_accepted s w (set_ev_accepted a4 s) w4"
    by (rule event_server.remove_owns [OF assms(2) m [unfolded pcl_def]])
  moreover have "case server_event_listen_on user pcl os ip port_number s w of (b, s', w') \<Rightarrow>
      owner_step ev_accepted s w s' w' \<and>
      (b \<longrightarrow> is_valid_socket s' \<and> \<not> blocking s' \<and> owned_fds ev_accepted s' = {sockfd s'})"
    unfolding user_def pcl_def by (rule event_listen_owns [OF assms(1,2)])
  ultimately show ?thesis by (simp add: a d server_event_remove_peer_def m)
qed

definition sample_event_server :: "ev_sock server_ev_sock" where
  "sample_event_server = server_event_of (ev_of_sock sock_init)"

lemma sample_event_server_ok [simp]: "owner_ok ev_accepted sample_event_server world0"
  by (simp add: sample_event_server_def server_event_of_def ev_of_sock_def sock.defs ev_sock.defs owner_ok_def
      acc_inv_def acc_fds_def owned_fds_def accepted_empty_def peers.defs peers_empty_def set_empty_def
      peers_inv_def sock_init_def)

end
