(* ===== verification/Tls_Server.thy ===== *)
theory Tls_Server
  imports Tls_Client Tls_Session Server_Ownership
begin

text \<open>
  \<open>src/ssl_server_socket.cpp\<close> and \<open>src/ssl_server_event_socket.cpp\<close>: the TLS listeners.
  They are the listeners of \<open>Server\<close> with a context of their own and another class of peers; the
  laws of \<open>tcp_server\<close> hold of them too, and a peer joins only once its TLS session exists.
\<close>

section \<open>The synchronous TLS server\<close>

record tls_server = "ssl_sock server_sock" +
  server_ctx :: int
  peer_handshake_ms :: int

definition tls_server_of :: "sock \<Rightarrow> tls_server" where
  "tls_server_of s = sock.extend s
     \<lparr>accepted_peers = accepted_empty (ssl_of_sock 0 Off sock_init), accept_timeout_ms = 0, server_ctx = 0,
      peer_handshake_ms = 5000\<rparr>"

definition tls_server_new :: "os \<Rightarrow> world \<Rightarrow> tls_server \<times> world" where
  "tls_server_new os w =
    (let (s, w) = socket_default os w; (c, w) = sys os (Tls (Ctx_new True)) w;
         s = (tls_server_of s)\<lparr>server_ctx := ret c\<rparr> in
     (if server_ctx s = 0 then set_error ssl_error_init s else s, w))"

text \<open>A path that is null or empty is refused before OpenSSL is asked.\<close>

definition credential_ok :: "os \<Rightarrow> int \<Rightarrow> string option \<Rightarrow> (string \<Rightarrow> tls_call) \<Rightarrow> world \<Rightarrow> bool \<times> world" where
  "credential_ok os ctx path load w =
    (if ctx = 0 \<or> path = None \<or> path = Some [] then (False, w)
     else let (r, w) = sys os (Tls (load (the path))) w in (ret r = 1, w))"

definition tls_server_set_certificate ::
  "os \<Rightarrow> string option \<Rightarrow> tls_server \<Rightarrow> world \<Rightarrow> int \<times> tls_server \<times> world" where
  "tls_server_set_certificate os path s w =
    (let (ok, w) = credential_ok os (server_ctx s) path (Ctx_use_chain (server_ctx s)) w in
     if \<not> ok then (ssl_error_cert, set_error ssl_error_cert s, w) else (err_none, set_error err_none s, w))"

definition tls_server_set_private_key ::
  "os \<Rightarrow> string option \<Rightarrow> tls_server \<Rightarrow> world \<Rightarrow> int \<times> tls_server \<times> world" where
  "tls_server_set_private_key os path s w =
    (let (ok, w) = credential_ok os (server_ctx s) path (Ctx_use_key (server_ctx s)) w in
     if \<not> ok then (ssl_error_key, set_error ssl_error_key s, w) else (err_none, set_error err_none s, w))"

definition tls_server_set_timeout :: "int \<Rightarrow> tls_server \<Rightarrow> int \<times> tls_server" where
  "tls_server_set_timeout ms s =
    (if ms < 100 \<or> ms > 60000 then (ssl_error, set_error ssl_error s)
     else (err_none, set_error err_none (s\<lparr>peer_handshake_ms := ms\<rparr>)))"

definition tls_server_close :: "tls_server virtual_closer" where
  "tls_server_close = server_close ssl_close"

definition tls_server_listen :: "os \<Rightarrow> string option \<Rightarrow> int \<Rightarrow> tls_server \<Rightarrow> world \<Rightarrow> bool \<times> tls_server \<times> world" where
  "tls_server_listen os address p s w =
    (let (ok, w) =
       (if server_ctx s = 0 then (False, w)
        else let (r, w) = sys os (Tls (Ctx_check_key (server_ctx s))) w in (ret r = 1, w)) in
     if \<not> ok then (False, set_error ssl_error_cert s, w)
     else server_listen_on ssl_close os address p s w)"

text \<open>
  The factory: a blocking handshake under the timeout; a peer that fails is destroyed, which closes
  its descriptor.
\<close>

definition create_tls_peer :: "(tls_server, ssl_sock) factory" where
  "create_tls_peer os fd s w =
    (let (x, w) = ssl_socket_adopt os fd (server_ctx s) w;
         (r, x, w) = set_blocking os True x w;
         (r, x) = (if r \<noteq> err_none then (r, x) else set_read_timeout (peer_handshake_ms s) x);
         (r, x) = (if r \<noteq> err_none then (r, x) else set_write_timeout (peer_handshake_ms s) x) in
     if r \<noteq> err_none then (None, set_error ssl_error_io s, ssl_destroy os x w)
     else
       let (r, x, w) = perform_server_handshake os x w in
       if r \<noteq> err_none then (None, set_error (error_code x) s, ssl_destroy os x w)
       else
         let (r, x) = set_read_timeout 0 x;
             (r, x) = (if r \<noteq> err_none then (r, x) else set_write_timeout 0 x) in
         if r \<noteq> err_none then (None, set_error ssl_error_io s, ssl_destroy os x w)
         else (Some x, set_error err_none s, w))"

definition tls_server_accept :: "os \<Rightarrow> bool \<Rightarrow> tls_server \<Rightarrow> world \<Rightarrow> nat option \<times> tls_server \<times> world" where
  "tls_server_accept os block s w =
    accept_peer accepted_peers set_accepted create_tls_peer ssl_destroy os (accept_timeout_ms s) block s w"

definition tls_server_remove_peer :: "os \<Rightarrow> nat option \<Rightarrow> tls_server \<Rightarrow> world \<Rightarrow> bool \<times> tls_server \<times> world" where
  "tls_server_remove_peer os peer s w =
    (let (b, a, w) = remove_accepted_peer ssl_close ssl_destroy os peer (accepted_peers s) w in
     (b, set_accepted a s, w))"

text \<open>All sessions are closed while the context they share is alive.\<close>

definition tls_server_destroy :: "os \<Rightarrow> tls_server \<Rightarrow> world \<Rightarrow> world" where
  "tls_server_destroy os s w =
    (let (_, s, w) = tls_server_close os s w;
         w = (if server_ctx s \<noteq> 0 then snd (sys os (Tls (Ctx_free (server_ctx s))) w) else w) in
     destroy_server tls_server_close ssl_destroy os (s\<lparr>server_ctx := 0\<rparr>) w)"

section \<open>The TLS event server\<close>

record tls_ev_server = "tls_sock server_ev_sock" +
  ev_server_ctx :: int
  ev_peer_handshake_ms :: int

definition tls_ev_server_of :: "ev_sock \<Rightarrow> tls_ev_server" where
  "tls_ev_server_of s = ev_sock.extend s
     \<lparr>ev_accepted = accepted_empty (tls_of_ev 0 True Off (ev_of_sock sock_init)), ev_accept_timeout_ms = 0,
      ev_server_ctx = 0, ev_peer_handshake_ms = 5000\<rparr>"

definition tls_ev_server_new :: "os \<Rightarrow> world \<Rightarrow> tls_ev_server \<times> world" where
  "tls_ev_server_new os w =
    (let (s, w) = event_socket_new os w; (c, w) = sys os (Tls (Ctx_new True)) w;
         s = (tls_ev_server_of s)\<lparr>ev_server_ctx := ret c\<rparr> in
     (if ev_server_ctx s = 0 then set_error ssl_error_init s else s, w))"

definition tls_ev_server_set_certificate ::
  "os \<Rightarrow> string option \<Rightarrow> tls_ev_server \<Rightarrow> world \<Rightarrow> int \<times> tls_ev_server \<times> world" where
  "tls_ev_server_set_certificate os path s w =
    (let (ok, w) = credential_ok os (ev_server_ctx s) path (Ctx_use_chain (ev_server_ctx s)) w in
     if \<not> ok then (ssl_error_cert, set_error ssl_error_cert s, w) else (err_none, set_error err_none s, w))"

definition tls_ev_server_set_private_key ::
  "os \<Rightarrow> string option \<Rightarrow> tls_ev_server \<Rightarrow> world \<Rightarrow> int \<times> tls_ev_server \<times> world" where
  "tls_ev_server_set_private_key os path s w =
    (let (ok, w) = credential_ok os (ev_server_ctx s) path (Ctx_use_key (ev_server_ctx s)) w in
     if \<not> ok then (ssl_error_key, set_error ssl_error_key s, w) else (err_none, set_error err_none s, w))"

definition tls_ev_server_set_timeout :: "int \<Rightarrow> tls_ev_server \<Rightarrow> int \<times> tls_ev_server" where
  "tls_ev_server_set_timeout ms s =
    (if ms < 100 \<or> ms > 60000 then (ssl_error, set_error ssl_error s)
     else (err_none, set_error err_none (s\<lparr>ev_peer_handshake_ms := ms\<rparr>)))"

definition tls_ev_server_close ::
  "(os \<Rightarrow> tls_ev_server user_handlers) \<Rightarrow> (os \<Rightarrow> tls_sock user_handlers) \<Rightarrow> tls_ev_server virtual_closer" where
  "tls_ev_server_close user peer_user = server_event_close user (\<lambda>os. tls_close (peer_user os) os)"

definition tls_ev_server_listen ::
  "(os \<Rightarrow> tls_ev_server user_handlers) \<Rightarrow> (os \<Rightarrow> tls_sock user_handlers) \<Rightarrow> os \<Rightarrow> string option \<Rightarrow> int \<Rightarrow>
   tls_ev_server \<Rightarrow> world \<Rightarrow> bool \<times> tls_ev_server \<times> world" where
  "tls_ev_server_listen user peer_user os ip p s w =
    (let (ok, w) =
       (if ev_server_ctx s = 0 then (False, w)
        else let (r, w) = sys os (Tls (Ctx_check_key (ev_server_ctx s))) w in (ret r = 1, w)) in
     if \<not> ok then (False, set_error ssl_error_cert s, w)
     else server_event_listen_on user (\<lambda>os. tls_close (peer_user os) os) os ip p s w)"

text \<open>The handshake of an accepted peer is left to its poller; here its session must exist.\<close>

definition create_tls_event_peer ::
  "(os \<Rightarrow> tls_sock user_handlers) \<Rightarrow> (tls_ev_server, tls_sock) factory" where
  "create_tls_event_peer peer_user os fd s w =
    (let (x, w) = tls_event_accept os fd (ev_server_ctx s) w;
         (r, x, w) = (if \<not> is_valid_socket x \<or> session x = 0 then (ssl_error, x, w)
                      else set_handshake_timeout os (ev_peer_handshake_ms s) x w) in
     if r \<noteq> err_none then (None, set_error ssl_error_init s, tls_event_destroy (peer_user os) os x w)
     else (Some x, s, w))"

definition tls_ev_server_accept ::
  "(os \<Rightarrow> tls_sock user_handlers) \<Rightarrow> os \<Rightarrow> bool \<Rightarrow> tls_ev_server \<Rightarrow> world \<Rightarrow>
   nat option \<times> tls_ev_server \<times> world" where
  "tls_ev_server_accept peer_user os block s w =
    (if block then (None, set_error ssl_error s, w)
     else accept_peer ev_accepted set_ev_accepted (create_tls_event_peer peer_user)
       (\<lambda>os. tls_event_destroy (peer_user os) os) os (ev_accept_timeout_ms s) False s w)"

definition tls_ev_server_destroy ::
  "(os \<Rightarrow> tls_ev_server user_handlers) \<Rightarrow> (os \<Rightarrow> tls_sock user_handlers) \<Rightarrow> os \<Rightarrow> tls_ev_server \<Rightarrow> world \<Rightarrow> world" where
  "tls_ev_server_destroy user peer_user os s w =
    (let (_, s, w) = tls_ev_server_close user peer_user os s w;
         w = (if ev_server_ctx s \<noteq> 0 then snd (sys os (Tls (Ctx_free (ev_server_ctx s))) w) else w);
         (_, s, w) = tls_ev_server_close user peer_user os s w;
         w = fold (\<lambda>p w. tls_event_destroy (peer_user os) os (peer_heap (ev_accepted s) p) w)
               (owned (ev_accepted s)) w in
     socket_destroy os s w)"

section \<open>The session of a peer\<close>

lemma then_timeout_frame:
  "(if e \<noteq> err_none then (e, x) else set_read_timeout t x) = (e', y) \<Longrightarrow> sockfd y = sockfd x \<and> sock.more y = sock.more x"
  "(if e \<noteq> err_none then (e, x) else set_write_timeout t x) = (e', y) \<Longrightarrow> sockfd y = sockfd x \<and> sock.more y = sock.more x"
  by (auto simp: set_read_timeout_def set_write_timeout_def split: if_splits)

text \<open>
  Read off the calls made so far: the context session \<open>x\<close> was last created on, and whether its
  handshake as a server has succeeded since. A freed session counts for nothing.
\<close>

fun made_on :: "int \<Rightarrow> int \<Rightarrow> history \<Rightarrow> bool" where
  "made_on x ctx [] \<longleftrightarrow> False"
| "made_on x ctx ((Tls (Ssl_new c), r) # h) \<longleftrightarrow> (if ret r = x then c = ctx else made_on x ctx h)"
| "made_on x ctx ((Tls (Ssl_free y), r) # h) \<longleftrightarrow> y \<noteq> x \<and> made_on x ctx h"
| "made_on x ctx (_ # h) \<longleftrightarrow> made_on x ctx h"

fun served :: "int \<Rightarrow> int \<Rightarrow> history \<Rightarrow> bool" where
  "served x ctx [] \<longleftrightarrow> False"
| "served x ctx ((Tls (Ssl_new c), r) # h) \<longleftrightarrow> ret r \<noteq> x \<and> served x ctx h"
| "served x ctx ((Tls (Ssl_free y), r) # h) \<longleftrightarrow> y \<noteq> x \<and> served x ctx h"
| "served x ctx ((Tls (Ssl_accept y), r) # h) \<longleftrightarrow> y = x \<and> ret r = 1 \<and> made_on x ctx h \<or> served x ctx h"
| "served x ctx (_ # h) \<longleftrightarrow> served x ctx h"

lemma made_on_quiet: "quiet_history added \<Longrightarrow> made_on x ctx (added @ h) = made_on x ctx h"
proof (induction added)
  case (Cons y added)
  obtain c r where y: "y = (c, r)" by fastforce
  show ?case
  proof (cases c)
    case (Tls t)
    then show ?thesis using Cons y by (cases t) simp_all
  qed (use Cons y in simp_all)
qed simp

lemma ssl_more: "sock.more x = sock.more y \<Longrightarrow> ssl x = ssl y \<and> ssl_ctx x = ssl_ctx y"
  by (cases x; cases y) simp

lemma perform_server_handshake_result:
  assumes "perform_server_handshake os s w = (r, s', w')"
  shows "sockfd s' = sockfd s \<and> safe_step s w s' w' \<and>
    (r = err_none \<longrightarrow> ssl s' \<noteq> 0 \<and> served (ssl s') (ssl_ctx s) (trace w') \<and> ssl_ctx s' = ssl_ctx s)"
proof (cases "ssl_ctx s = 0 \<or> \<not> is_valid_socket s")
  case True
  then show ?thesis
    using assms by (auto simp: perform_server_handshake_def set_error_def safe_step_def fd_safe_def)
next
  case False
  let ?w0 = "clear_ssl_errors os w"
  obtain a where a: "trace ?w0 = a @ trace w" "quiet_history a" using clear_errors_trace by blast
  obtain n w1 where 1: "sys os (Tls (Ssl_new (ssl_ctx s))) ?w0 = (n, w1)" by fastforce
  let ?s1 = "s\<lparr>ssl := ret n\<rparr>"
  obtain ok w2 where 2: "(if ssl ?s1 = 0 then (False, w1)
      else let (f, w) = sys os (Tls (Ssl_set_fd (ssl ?s1) (sockfd ?s1))) w1 in (ret f = 1, w)) = (ok, w2)"
    by fastforce
  let ?w3 = "snd (sys os (Tls (Ssl_set_accept_state (ssl ?s1))) w2)"
  obtain c w4 where 4: "sys os (Tls (Ssl_accept (ssl ?s1))) ?w3 = (c, w4)" by fastforce
  obtain g w5 where 5: "sys os (Tls (Ssl_get_error (ssl ?s1) (ret c))) w4 = (g, w5)" by fastforce
  note d = assms [unfolded perform_server_handshake_def if_not_P [OF False] Let_def 1 prod.case
      2 [unfolded Let_def] 4 5 snd_conv]
  have made: "made_on (ret n) (ssl_ctx s) (trace w1)" by (simp add: sys_trace [OF 1])
  obtain b where b: "trace w2 = b @ trace w1" "quiet_history b"
    using 2 sys_trace by (cases "ret n = 0") (fastforce simp: Let_def split: prod.splits)+
  have fd: "open_fds (trace u) = open_fds (trace w) \<and> closes_ok (trace u) = closes_ok (trace w)"
    if "u = w2 \<or> u = w4 \<or> u = w5" for u
    using that quiet_effect [OF a(2), of "trace w"] quiet_effect [OF b(2), of "trace w1"] a(1) b(1)
    by (auto simp: sys_trace [OF 1] sys_trace [OF 4] sys_trace [OF 5] trace_sys)
  have same: "sockfd s' = sockfd s" "ssl_ctx s' = ssl_ctx s" "w' = w2 \<or> w' = w4 \<or> w' = w5"
    using d by (auto simp: set_error_def split: if_splits)
  then have safe: "safe_step s w s' w'" using fd [of w'] by (auto simp: safe_step_def fd_safe_def)
  have "ssl s' \<noteq> 0 \<and> served (ssl s') (ssl_ctx s) (trace w')" if "r = err_none"
  proof -
    have k: "ok" "ret c = 1" "w' = w4" "ssl s' = ret n"
      using d that by (auto simp: set_error_def split: if_splits)
    then have "ret n \<noteq> 0" using 2 by auto
    moreover have "made_on (ret n) (ssl_ctx s) (trace w2)" using made made_on_quiet [OF b(2)] b(1) by simp
    ultimately show ?thesis using k by (simp add: sys_trace [OF 4] trace_sys)
  qed
  then show ?thesis using same safe by blast
qed

section \<open>The factories\<close>

lemma ssl_adopt_owns:
  assumes "ssl_socket_adopt os fd c w = (x, w')"
  shows "sockfd x = fd \<and> ssl_ctx x = c \<and> fd_safe fd (trace w) fd (trace w')"
proof -
  obtain y w1 where a: "socket_adopt os fd w = (y, w1)" by fastforce
  show ?thesis using assms socket_adopt_owns [OF a]
    by (auto simp: ssl_socket_adopt_def a ssl_of_sock_def sock.defs)
qed

lemma create_tls_peer_result:
  assumes "create_tls_peer os fd s w = (r, s', w')" "0 \<le> fd"
  shows "sockfd s' = sockfd s \<and> accepted_peers s' = accepted_peers s \<and>
    (case r of None \<Rightarrow> fd_safe fd (trace w) (- 1) (trace w')
     | Some x \<Rightarrow> sockfd x = fd \<and> ssl x \<noteq> 0 \<and> served (ssl x) (server_ctx s) (trace w') \<and>
         fd_safe fd (trace w) (sockfd x) (trace w'))"
proof -
  obtain x0 w0 where 0: "ssl_socket_adopt os fd (server_ctx s) w = (x0, w0)" by fastforce
  obtain e1 x1 w1 where 1: "set_blocking os True x0 w0 = (e1, x1, w1)" by (rule prod_cases3)
  obtain e2 x2 where 2: "(if e1 \<noteq> err_none then (e1, x1) else set_read_timeout (peer_handshake_ms s) x1) = (e2, x2)"
    by fastforce
  obtain e3 x3 where 3: "(if e2 \<noteq> err_none then (e2, x2) else set_write_timeout (peer_handshake_ms s) x2) = (e3, x3)"
    by fastforce
  obtain e4 x4 w4 where 4: "perform_server_handshake os x3 w1 = (e4, x4, w4)" by (rule prod_cases3)
  obtain e5 x5 where 5: "set_read_timeout 0 x4 = (e5, x5)" by fastforce
  obtain e6 x6 where 6: "(if e5 \<noteq> err_none then (e5, x5) else set_write_timeout 0 x5) = (e6, x6)" by fastforce
  note d = assms(1) [unfolded create_tls_peer_def Let_def 0 1 2 3 4 5 6 prod.case]
  note own = ssl_adopt_owns [OF 0]
  have m1: "sock.more x1 = sock.more x0" by (rule set_blocking_more [OF 1])
  have s1: "fd_safe fd (trace w) fd (trace w1)" "sockfd x1 = fd"
    using own set_blocking_safe [OF 1] fd_safe_trans by (auto simp: safe_step_def)
  have s3: "sockfd x3 = fd" "sock.more x3 = sock.more x0"
    using s1 m1 then_timeout_frame(1) [OF 2] then_timeout_frame(2) [OF 3] by simp_all
  note h = perform_server_handshake_result [OF 4]
  have "fd_safe fd (trace w1) fd (trace w4)" using h s3(1) by (auto simp: safe_step_def)
  note s4 = fd_safe_trans [OF s1(1) this]
  have x4: "sockfd x4 = fd" "ssl_ctx x3 = server_ctx s" using h s3(1) own ssl_more [OF s3(2)] by simp_all
  have s6: "sockfd x6 = fd" "sock.more x6 = sock.more x4"
    using x4 then_timeout_frame(1) [of err_none x4 0 e5 x5] then_timeout_frame(2) [OF 6] 5 by simp_all
  have dest: "fd_safe fd (trace w) (- 1) (trace (ssl_destroy os y v))"
    if "fd_safe fd (trace w) fd (trace v)" "sockfd y = fd" for y :: ssl_sock and v :: world
    using that(1) ssl_destroy_owns [of y v os] that(2) fd_safe_trans by auto
  have keep: "sockfd (set_error k s) = sockfd s" "accepted_peers (set_error k s) = accepted_peers s" for k
    by (simp_all add: set_error_def)
  consider (early) "e3 \<noteq> err_none" | (handshake) "e3 = err_none" "e4 \<noteq> err_none"
    | (late) "e3 = err_none" "e4 = err_none" "e6 \<noteq> err_none" | (up) "e3 = err_none" "e4 = err_none" "e6 = err_none"
    by blast
  then show ?thesis
  proof cases
    case early
    then show ?thesis using d dest [OF s1(1) s3(1)] keep by auto
  next
    case handshake
    then show ?thesis using d dest [OF s4 x4(1)] keep by auto
  next
    case late
    then show ?thesis using d dest [OF s4 s6(1)] keep by auto
  next
    case up
    then have "r = Some x6" "s' = set_error err_none s" "w' = w4" using d by auto
    then show ?thesis using up h s4 x4 s6(1) ssl_more [OF s6(2)] keep by simp
  qed
qed

interpretation tls_listener: tcp_server ssl_close ssl_destroy socket_close accepted_peers set_accepted create_tls_peer
proof
  fix os :: os and s s' :: tls_server and x x' :: ssl_sock and w w' b a fd r
  show "sockfd x' < 0" if "ssl_close os x w = (b, x', w')" using ssl_close_result [OF that] by blast
  show "safe_step x w x' w'" if "ssl_close os x w = (b, x', w')"
    using ssl_close_result [OF that] by (simp add: tls_safe_def)
  show "fd_safe (sockfd x) (trace w) (- 1) (trace (ssl_destroy os x w))" by (rule ssl_destroy_owns)
  show "sockfd s' < 0" if "socket_close os s w = (b, s', w')" using that by (rule base_close.cl_releases)
  show "safe_step s w s' w'" if "socket_close os s w = (b, s', w')" using that by (rule base_close.cl_safe)
  show "accepted_peers s' = accepted_peers s" if "socket_close os s w = (b, s', w')"
    using that by (auto simp: socket_close_def Let_def split: if_splits prod.splits)
  show "accepted_peers (set_accepted a s) = a" "sockfd (set_accepted a s) = sockfd s"
    by (simp_all add: set_accepted_def)
  show "accepted_peers s' = accepted_peers s" if "sock.more s' = sock.more s"
    using that by (cases s; cases s') simp
  show "sockfd s' = sockfd s \<and> accepted_peers s' = accepted_peers s \<and>
      (case r of None \<Rightarrow> fd_safe fd (trace w) (- 1) (trace w')
       | Some x \<Rightarrow> fd_safe fd (trace w) (sockfd x) (trace w'))"
    if "create_tls_peer os fd s w = (r, s', w')" "0 \<le> fd"
    using create_tls_peer_result [OF that] by (auto split: option.splits)
qed

text \<open>An accepted event peer has not shaken hands yet.\<close>

lemma init_session_server:
  "init_session os True s w = (ok, s', w') \<Longrightarrow> server_side s' = server_side s \<and> (\<not> tls_ready s \<longrightarrow> \<not> tls_ready s')"
  by (auto simp: init_session_def Let_def split: if_splits prod.splits)

lemma tls_adopt_owns:
  assumes "tls_event_accept os fd c w = (x, w')"
  shows "fd_safe fd (trace w) (sockfd x) (trace w') \<and> server_side x \<and> \<not> tls_ready x"
proof -
  obtain y w1 where a: "event_socket_adopt os fd w = (y, w1)" by fastforce
  let ?x0 = "tls_of_ev c True Off y"
  have x0: "sockfd ?x0 = sockfd y" "server_side ?x0" "\<not> tls_ready ?x0" "tls_ctx ?x0 = c"
    by (simp_all add: tls_of_ev_def ev_sock.defs)
  obtain ok w2 where 2: "(if c = 0 then (False, w1)
      else let (r, w) = sys os (Tls (Ctx_up_ref c)) w1 in (ret r = 1, w)) = (ok, w2)" by fastforce
  obtain b z w3 where 3: "init_session os True ?x0 w2 = (b, z, w3)" by (rule prod_cases3)
  have q: "quiet (trace w1) (trace w2)"
    using 2 by (auto simp: quiet_sys split: if_splits prod.splits)
  note i = init_session_result [OF 3] init_session_server [OF 3]
  have safe: "fd_safe fd (trace w) (sockfd y) (trace v)" if "quiet (trace w1) (trace v)" for v :: world
    using fd_safe_trans [OF event_socket_adopt_owns [OF a] quiet_safe [OF that refl, of y, unfolded safe_step_def]] .
  note d = assms [unfolded tls_event_accept_def Let_def a prod.case x0(4) 2 [unfolded Let_def] 3]
  show ?thesis
  proof (cases ok)
    case True
    then have "w' = w3" "x = z \<or> x = set_error ssl_error_init z" using d by auto
    then show ?thesis using i x0 safe [OF quiet_trans [OF q]] by (auto simp: set_error_def)
  next
    case False
    then have "w' = w2" "x = set_error ssl_error_init (?x0\<lparr>tls_ctx := 0\<rparr>)" using d by auto
    then show ?thesis using x0 safe [OF q] by (simp add: set_error_def)
  qed
qed

lemma tls_event_destroy_owns:
  "fd_safe (sockfd x) (trace w) (- 1) (trace (tls_event_destroy (log_user os addr) os x w))"
proof -
  obtain b y w1 where c: "tls_close (log_user os addr) os x w = (b, y, w1)" by (rule prod_cases3)
  have r: "safe_step x w y w1" "sockfd y < 0" by (rule tls_close.cl_safe [OF c], rule tls_close.cl_releases [OF c])
  let ?w2 = "if tls_ctx y \<noteq> 0 then snd (sys os (Tls (Ctx_free (tls_ctx y))) w1) else w1"
  have "tls_event_destroy (log_user os addr) os x w = ?w2"
    using r by (simp add: tls_event_destroy_def c socket_destroy_def is_valid_socket_def)
  moreover have "fd_safe (sockfd x) (trace w) (- 1) (trace w1)" using r by (simp add: safe_step_def fd_safe_def)
  ultimately show ?thesis by (simp add: trace_sys)
qed

lemma set_handshake_timeout_quiet:
  assumes "set_handshake_timeout os ms x w = (r, x', w')"
  shows "quiet (trace w) (trace w') \<and> sockfd x' = sockfd x \<and> session x' = session x \<and>
    server_side x' = server_side x \<and> tls_ready x' = tls_ready x"
proof -
  obtain t w1 where t: "now os w = (t, w1)" by fastforce
  show ?thesis using assms quiet_now [OF t]
    by (auto simp: set_handshake_timeout_def set_error_def t Let_def split: if_splits)
qed

lemma create_tls_event_peer_result:
  assumes "create_tls_event_peer (\<lambda>os. log_user os peer) os fd s w = (r, s', w')"
  shows "sockfd s' = sockfd s \<and> ev_accepted s' = ev_accepted s \<and>
    (case r of None \<Rightarrow> fd_safe fd (trace w) (- 1) (trace w')
     | Some x \<Rightarrow> fd_safe fd (trace w) (sockfd x) (trace w') \<and> server_side x \<and> session x \<noteq> 0 \<and> \<not> tls_ready x)"
proof -
  obtain x0 w0 where 0: "tls_event_accept os fd (ev_server_ctx s) w = (x0, w0)" by fastforce
  obtain e x1 w1 where 1: "(if \<not> is_valid_socket x0 \<or> session x0 = 0 then (ssl_error, x0, w0)
      else set_handshake_timeout os (ev_peer_handshake_ms s) x0 w0) = (e, x1, w1)" by (rule prod_cases3)
  note d = assms [unfolded create_tls_event_peer_def Let_def 0 prod.case 1]
  note own = tls_adopt_owns [OF 0]
  have x1: "quiet (trace w0) (trace w1)" "sockfd x1 = sockfd x0" "server_side x1 = server_side x0"
    "tls_ready x1 = tls_ready x0" "e = err_none \<longrightarrow> session x1 \<noteq> 0"
    using 1 set_handshake_timeout_quiet [of os _ x0 w0 e x1 w1] by (auto split: if_splits)
  have safe: "fd_safe fd (trace w) (sockfd x1) (trace w1)"
    using own fd_safe_trans [OF _ quiet_safe [OF x1(1,2), unfolded safe_step_def]] by blast
  have keep: "sockfd (set_error k s) = sockfd s" "ev_accepted (set_error k s) = ev_accepted s" for k
    by (simp_all add: set_error_def)
  show ?thesis
  proof (cases "e = err_none")
    case True
    then show ?thesis using d own x1 safe by auto
  next
    case False
    then show ?thesis using d keep fd_safe_trans [OF safe tls_event_destroy_owns] by auto
  qed
qed

interpretation tls_ev_listener: tcp_server "\<lambda>os. tls_close (log_user os peer) os"
  "\<lambda>os. tls_event_destroy (log_user os peer) os" "\<lambda>os. event_close (log_user os 0) os"
  ev_accepted set_ev_accepted "create_tls_event_peer (\<lambda>os. log_user os peer)" for peer
proof
  fix os :: os and s s' :: tls_ev_server and x x' :: tls_sock and w w' b a fd r
  show "sockfd x' < 0" if "tls_close (log_user os peer) os x w = (b, x', w')" using that by (rule tls_close.cl_releases)
  show "safe_step x w x' w'" if "tls_close (log_user os peer) os x w = (b, x', w')" using that by (rule tls_close.cl_safe)
  show "fd_safe (sockfd x) (trace w) (- 1) (trace (tls_event_destroy (log_user os peer) os x w))"
    by (rule tls_event_destroy_owns)
  show "sockfd s' < 0" if "event_close (log_user os 0) os s w = (b, s', w')" using that by (rule event_close.cl_releases)
  show "safe_step s w s' w'" if "event_close (log_user os 0) os s w = (b, s', w')" using that by (rule event_close.cl_safe)
  show "ev_accepted s' = ev_accepted s" if "event_close (log_user os 0) os s w = (b, s', w')"
    using that by (rule event_close_accepted)
  show "ev_accepted (set_ev_accepted a s) = a" "sockfd (set_ev_accepted a s) = sockfd s"
    by (simp_all add: set_ev_accepted_def)
  show "ev_accepted s' = ev_accepted s" if "sock.more s' = sock.more s" using that by (cases s; cases s') simp
  show "sockfd s' = sockfd s \<and> ev_accepted s' = ev_accepted s \<and>
      (case r of None \<Rightarrow> fd_safe fd (trace w) (- 1) (trace w')
       | Some x \<Rightarrow> fd_safe fd (trace w) (sockfd x) (trace w'))"
    if "create_tls_event_peer (\<lambda>os. log_user os peer) os fd s w = (r, s', w')" "0 \<le> fd"
    using create_tls_event_peer_result [OF that(1)] by (auto split: option.splits)
qed

section \<open>Admission\<close>

text \<open>A peer is admitted as the factory made it, up to the fields of the base class.\<close>

definition io_history :: "history \<Rightarrow> bool" where
  "io_history h \<longleftrightarrow> (\<forall>x\<in>set h. \<exists>i. fst x = Io i)"

lemma set_blocking_io:
  "set_blocking os b s w = (r, s', w') \<Longrightarrow> \<exists>cs. trace w' = cs @ trace w \<and> io_history cs"
  by (auto simp: set_blocking_def set_socket_nonblocking_def sys_def Let_def io_history_def split: if_splits)

lemma take_peer_admits:
  assumes "take_peer destroy os block from x a w = (Some p, a', w')"
  shows "sock.more (peer_heap a' p) = sock.more x \<and> sockfd (peer_heap a' p) = sockfd x \<and>
    (\<exists>cs. trace w' = cs @ trace w \<and> io_history cs)"
proof -
  let ?x = "set_parent_server (Some 0) (x\<lparr>remote_addr := from\<rparr>)"
  obtain e y v where m: "set_blocking os block ?x w = (e, y, v)" by (rule prod_cases3)
  have "sock.more y = sock.more x" "sockfd y = sockfd x"
    using set_blocking_more [OF m] set_blocking_safe [OF m] by (simp_all add: set_parent_server_def)
  moreover have "p = next_peer a" "peer_heap a' = (peer_heap a)(next_peer a := y)" "w' = v"
    using assms by (auto simp: take_peer_def m Let_def add_peer_def split: if_splits prod.splits)
  ultimately show ?thesis using set_blocking_io [OF m] by simp
qed

context tcp_server
begin

lemma accept_admits:
  assumes "accept_peer acc set_acc factory destroy os timeout block s w = (Some p, s', w')"
  shows "\<exists>fd from s1 w1 x s2 w2. tcp_accept os timeout block s w = (fd, from, s1, w1) \<and> fd \<noteq> invalid_socket \<and>
    factory os fd s1 w1 = (Some x, s2, w2) \<and> sock.more (peer_heap (acc s') p) = sock.more x \<and>
    (\<exists>cs. trace w' = cs @ trace w2 \<and> io_history cs)"
proof -
  obtain fd "from" s1 w1 where a: "tcp_accept os timeout block s w = (fd, from, s1, w1)" by (rule prod_cases4)
  have fd: "fd \<noteq> invalid_socket" using assms by (auto simp: accept_peer_def a)
  obtain r s2 w2 where f: "factory os fd s1 w1 = (r, s2, w2)" by (rule prod_cases3)
  obtain x where x: "r = Some x" using assms fd by (cases r) (simp_all add: accept_peer_def a f)
  obtain q c w3 where t: "take_peer destroy os block from x (acc s2) w2 = (q, c, w3)" by (rule prod_cases3)
  have "q = Some p" "s' = set_acc c s2" "w' = w3" using assms fd by (simp_all add: accept_peer_def a f x t)
  then show ?thesis using take_peer_admits [of destroy os block "from" x "acc s2" w2 p c w3] t a f fd x by auto
qed

end

lemma tls_more:
  "sock.more x = sock.more y \<Longrightarrow> session x = session y \<and> server_side x = server_side y \<and> tls_ready x = tls_ready y"
  by (cases x; cases y) simp

lemma served_io: "io_history cs \<Longrightarrow> served x ctx (cs @ h) = served x ctx h"
  by (induction cs) (auto simp: io_history_def)

section \<open>Properties\<close>

text \<open>The check of the key pair before a TLS listener listens.\<close>

definition key_checked :: "os \<Rightarrow> int \<Rightarrow> world \<Rightarrow> bool" where
  "key_checked os ctx w \<longleftrightarrow> ctx \<noteq> 0 \<and> ret (fst (sys os (Tls (Ctx_check_key ctx)) w)) = 1"

lemma tls_call_owner:
  assumes "owner_ok acc s w" "acc s' = acc s" "sockfd s' = sockfd s"
  shows "owner_step acc s w s' w \<and> owner_step acc s w s' (snd (sys os (Tls c) w))"
  using assms by (simp add: owner_step_def owner_ok_def owns_step_def owned_fds_def trace_sys)

lemma tls_listen_owns:
  assumes "fresh_fds os" "owner_ok accepted_peers s w" "tls_server_listen os ip p s w = (b, s', w')"
  shows "owner_step accepted_peers s w s' w' \<and>
    (if key_checked os (server_ctx s) w then b \<longrightarrow> is_valid_socket s' \<and> owned_fds accepted_peers s' = {sockfd s'}
     else \<not> b \<and> s' = set_error ssl_error_cert s)"
proof -
  obtain k w1 where k: "sys os (Tls (Ctx_check_key (server_ctx s))) w = (k, w1)" by fastforce
  obtain b2 s2 w2 where l: "tcp_listen os (server_close ssl_close) ip p s w1 = (b2, s2, w2)" by (rule prod_cases3)
  obtain b3 a3 w3 where c: "close_accepted_peers ssl_close os (accepted_peers s2) w2 = (b3, a3, w3)" by (rule prod_cases3)
  have w1: "owner_step accepted_peers s w s w1" using tls_call_owner [OF assms(2) refl refl] k by (metis snd_conv)
  note l' = tls_listener.listen_owns [OF assms(1) tls_listener.server_step_ok [OF w1] l [unfolded server_close_def]]
  note 2 = tls_listener.server_step_trans [OF w1 conjunct1 [OF l']]
  note c' = tls_listener.close_peers_owns [OF tls_listener.server_step_ok [OF 2] c]
  note 3 = tls_listener.server_step_trans [OF 2 conjunct1 [OF c']]
  have err: "sockfd (set_error e s) = sockfd s" "accepted_peers (set_error e s) = accepted_peers s" for e
    by (simp_all add: set_error_def)
  show ?thesis
  proof (cases "key_checked os (server_ctx s) w")
    case True
    then have "server_listen_on ssl_close os ip p s w1 = (b, s', w')"
      using assms(3) by (simp add: tls_server_listen_def key_checked_def k)
    then have "b = b2 \<and> s' = (if b2 then set_accepted a3 s2 else s2) \<and> w' = (if b2 then w3 else w2)"
      by (auto simp: server_listen_on_def l c split: if_splits)
    then show ?thesis using True l' c' 2 3 by (auto simp: set_accepted_def owned_fds_def is_valid_socket_def)
  next
    case False
    then have "\<not> b" "s' = set_error ssl_error_cert s" "w' = w \<or> w' = w1"
      using assms(3) by (auto simp: tls_server_listen_def key_checked_def k split: if_splits)
    then show ?thesis
      using False tls_call_owner [OF assms(2) err(2) err(1), where os = os and c = "Ctx_check_key (server_ctx s)"] k by auto
  qed
qed

lemma tls_accept_admits:
  assumes "fresh_fds os" "owner_ok accepted_peers s w" "tls_server_accept os block s w = (Some p, s', w')"
  shows "let x = peer_heap (accepted_peers s') p in ssl x \<noteq> 0 \<and> served (ssl x) (server_ctx s) (trace w')"
proof -
  obtain fd "from" s1 w1 x s2 w2 where ac: "tcp_accept os (accept_timeout_ms s) block s w = (fd, from, s1, w1)"
    "fd \<noteq> invalid_socket" and f: "create_tls_peer os fd s1 w1 = (Some x, s2, w2)"
    and m: "sock.more (peer_heap (accepted_peers s') p) = sock.more x"
    and t: "\<exists>cs. trace w' = cs @ trace w2 \<and> io_history cs"
    using tls_listener.accept_admits [OF assms(3) [unfolded tls_server_accept_def]] by blast
  have fd: "0 \<le> fd" using tcp_accept_safe [OF assms(1) ac(1)] ac(2) by blast
  have "sock.more s1 = sock.more s" by (rule tcp_accept_more [OF ac(1)])
  then have "server_ctx s1 = server_ctx s" by (cases s1; cases s) simp
  then show ?thesis using create_tls_peer_result [OF f fd] ssl_more [OF m] t served_io by (auto simp: Let_def)
qed

text \<open>Accepting stage by stage, to evaluate it.\<close>

lemma accept_peer_stages:
  assumes "case tcp_accept os timeout block s w of (fd, from, s, w) \<Rightarrow> fd \<noteq> invalid_socket \<and>
    (case factory os fd s w of (r, s, w) \<Rightarrow> (case r of None \<Rightarrow> False | Some x \<Rightarrow>
      (case take_peer destroy os block from x (acc s) w of (r, _) \<Rightarrow> r = Some p)))"
  shows "fst (accept_peer acc set_acc factory destroy os timeout block s w) = Some p"
  using assms by (auto simp: accept_peer_def split: prod.splits option.splits)

text \<open>
  C4. The TLS server admits a peer only after its handshake. Accepting, on every path, trades only
  descriptors the server owns: a peer whose setup or handshake fails is closed at once, exactly
  once; a peer that is admitted has a session, created on the server's own context, whose handshake has succeeded and that
  has not been freed since. Listening needs a context with a checked key pair, else the listener
  stays as it was but for its error; after it, as after closing, no old peer is left.
\<close>

theorem tls_server_admits_after_handshake:
  assumes "fresh_fds os" "owner_ok accepted_peers s w"
  shows "(case tls_server_accept os block s w of (r, s', w') \<Rightarrow> owner_step accepted_peers s w s' w' \<and>
      owned (accepted_peers s') = owned (accepted_peers s) @ (case r of None \<Rightarrow> [] | Some p \<Rightarrow> [p]) \<and>
      (case r of None \<Rightarrow> True | Some p \<Rightarrow>
        let x = peer_heap (accepted_peers s') p in ssl x \<noteq> 0 \<and> served (ssl x) (server_ctx s) (trace w'))) \<and>
    (case tls_server_listen os ip port_number s w of (b, s', w') \<Rightarrow> owner_step accepted_peers s w s' w' \<and>
      (if key_checked os (server_ctx s) w
       then b \<longrightarrow> is_valid_socket s' \<and> owned_fds accepted_peers s' = {sockfd s'}
       else \<not> b \<and> s' = set_error ssl_error_cert s)) \<and>
    (case tls_server_close os s w of (b, s', w') \<Rightarrow>
      owner_step accepted_peers s w s' w' \<and> owned_fds accepted_peers s' = {})"
proof -
  obtain r s1 w1 where a: "tls_server_accept os block s w = (r, s1, w1)" by (rule prod_cases3)
  obtain b s2 w2 where l: "tls_server_listen os ip port_number s w = (b, s2, w2)" by (rule prod_cases3)
  obtain c s3 w3 where d: "tls_server_close os s w = (c, s3, w3)" by (rule prod_cases3)
  have "case r of None \<Rightarrow> True | Some p \<Rightarrow>
      let x = peer_heap (accepted_peers s1) p in ssl x \<noteq> 0 \<and> served (ssl x) (server_ctx s) (trace w1)"
    using tls_accept_admits [OF assms] a by (cases r) auto
  then show ?thesis
    using tls_listener.accept_owns [OF assms a [unfolded tls_server_accept_def]] tls_listen_owns [OF assms l]
      tls_listener.close_owns [OF assms(2) d [unfolded tls_server_close_def server_close_def]]
    by (simp add: a l d)
qed

definition listening_tls :: tls_server where
  "listening_tls = (tls_server_of sock_init)\<lparr>server_ctx := 1, sockfd := 3\<rparr>"

definition listening_world :: world where
  "listening_world = \<lparr>trace = [(Fd (Socket AF_INET SOCK_STREAM), result0\<lparr>ret := 3\<rparr>)], errno = 0\<rparr>"

lemma listening_tls_ok [simp]: "owner_ok accepted_peers listening_tls listening_world"
  by (simp add: listening_tls_def listening_world_def tls_server_of_def sock.defs owner_ok_def acc_inv_def acc_fds_def
      owned_fds_def accepted_empty_def peers.defs peers_empty_def set_empty_def peers_inv_def sock_init_def)

theorem tls_server_admits_after_handshake_witness:
  "case tls_server_accept handshake_os True listening_tls listening_world of
     (r, s', w') \<Rightarrow> \<exists>p. r = Some p \<and> ssl (peer_heap (accepted_peers s') p) \<noteq> 0 \<and>
       served (ssl (peer_heap (accepted_peers s') p)) 1 (trace w')"
proof -
  obtain r s' w' where a: "tls_server_accept handshake_os True listening_tls listening_world = (r, s', w')"
    by (rule prod_cases3)
  have "fst (tls_server_accept handshake_os True listening_tls listening_world) = Some 1"
    unfolding tls_server_accept_def by (rule accept_peer_stages) code_simp
  then have r: "r = Some 1" using a by simp
  have "server_ctx listening_tls = 1" by (simp add: listening_tls_def)
  then show ?thesis
    using tls_server_admits_after_handshake [where os = handshake_os and s = listening_tls and w = listening_world
        and block = True, OF handshake_fresh listening_tls_ok] a r by (simp add: Let_def)
qed

text \<open>
  C13. The TLS event server owns its descriptors in the same way. It refuses a blocking accept; an
  admitted peer is a server-side TLS socket with a session whose handshake is still to come, so no data
  passes before the poller has completed it.
\<close>

theorem tls_event_server_admits_before_handshake:
  fixes peer :: nat
  assumes "fresh_fds os" "owner_ok ev_accepted s w"
  shows "(case tls_ev_server_accept (\<lambda>os. log_user os peer) os block s w of (r, s', w') \<Rightarrow>
      owner_step ev_accepted s w s' w' \<and> (block \<longrightarrow> r = None \<and> error_code s' = ssl_error \<and> w' = w) \<and>
      owned (ev_accepted s') = owned (ev_accepted s) @ (case r of None \<Rightarrow> [] | Some p \<Rightarrow> [p]) \<and>
      (case r of None \<Rightarrow> True | Some p \<Rightarrow>
        let x = peer_heap (ev_accepted s') p in server_side x \<and> session x \<noteq> 0 \<and> \<not> tls_ready x)) \<and>
    (case tls_ev_server_close (\<lambda>os. log_user os 0) (\<lambda>os. log_user os peer) os s w of (b, s', w') \<Rightarrow>
      owner_step ev_accepted s w s' w' \<and> owned_fds ev_accepted s' = {})"
proof -
  let ?user = "\<lambda>os. log_user os peer"
  obtain r s1 w1 where a: "tls_ev_server_accept ?user os block s w = (r, s1, w1)" by (rule prod_cases3)
  obtain b s2 w2 where d: "tls_ev_server_close (\<lambda>os. log_user os 0) ?user os s w = (b, s2, w2)" by (rule prod_cases3)
  have close: "owner_step ev_accepted s w s2 w2 \<and> owned_fds ev_accepted s2 = {}"
    using tls_ev_listener.close_owns [OF assms(2) d [unfolded tls_ev_server_close_def server_event_close_def]] by blast
  show ?thesis
  proof (cases block)
    case True
    then have "r = None" "s1 = set_error ssl_error s" "w1 = w" using a by (auto simp: tls_ev_server_accept_def)
    then have "owner_step ev_accepted s w s1 w1"
      using assms(2) by (simp add: set_error_def owner_step_def owner_ok_def owned_fds_def)
    then show ?thesis using close \<open>r = None\<close> \<open>s1 = set_error ssl_error s\<close> \<open>w1 = w\<close>
      by (simp add: a d) (simp add: set_error_def)
  next
    case False
    then have ac: "accept_peer ev_accepted set_ev_accepted (create_tls_event_peer ?user)
        (\<lambda>os. tls_event_destroy (?user os) os) os (ev_accept_timeout_ms s) False s w = (r, s1, w1)"
      using a by (simp add: tls_ev_server_accept_def)
    have admit: "let x = peer_heap (ev_accepted s1) p in server_side x \<and> session x \<noteq> 0 \<and> \<not> tls_ready x"
      if peer: "r = Some p" for p
    proof -
      obtain fd "from" s3 w3 y s4 w4 where f: "create_tls_event_peer ?user os fd s3 w3 = (Some y, s4, w4)"
        and m: "sock.more (peer_heap (ev_accepted s1) p) = sock.more y"
        using tls_ev_listener.accept_admits [OF ac [unfolded peer]] by blast
      show ?thesis using create_tls_event_peer_result [OF f] tls_more [OF m] by (simp add: Let_def)
    qed
    have "case r of None \<Rightarrow> True | Some p \<Rightarrow>
        let x = peer_heap (ev_accepted s1) p in server_side x \<and> session x \<noteq> 0 \<and> \<not> tls_ready x"
      using admit by (cases r) simp_all
    then show ?thesis
      unfolding a d prod.case using tls_ev_listener.accept_owns [OF assms ac] close False by blast
  qed
qed

definition listening_tls_event :: tls_ev_server where
  "listening_tls_event = (tls_ev_server_of (ev_of_sock sock_init))\<lparr>ev_server_ctx := 1, sockfd := 3\<rparr>"

lemma listening_tls_event_ok [simp]: "owner_ok ev_accepted listening_tls_event listening_world"
  by (simp add: listening_tls_event_def listening_world_def tls_ev_server_of_def ev_of_sock_def sock.defs ev_sock.defs
      owner_ok_def acc_inv_def acc_fds_def owned_fds_def accepted_empty_def peers.defs peers_empty_def set_empty_def
      peers_inv_def sock_init_def)

theorem tls_event_server_admits_before_handshake_witness:
  "case tls_ev_server_accept (\<lambda>os. log_user os 7) handshake_os False listening_tls_event listening_world of
     (r, s', w') \<Rightarrow> owner_step ev_accepted listening_tls_event listening_world s' w' \<and> length (owned (ev_accepted s')) \<le> 1"
proof -
  obtain r s' w' where a: "tls_ev_server_accept (\<lambda>os. log_user os 7) handshake_os False listening_tls_event
    listening_world = (r, s', w')" by (rule prod_cases3)
  have "owned (ev_accepted listening_tls_event) = []"
    by (simp add: listening_tls_event_def tls_ev_server_of_def ev_sock.defs accepted_empty_def peers.defs peers_empty_def)
  then show ?thesis
    using tls_event_server_admits_before_handshake [where os = handshake_os and s = listening_tls_event
        and w = listening_world and block = False and peer = 7, OF handshake_fresh listening_tls_event_ok] a
    by (cases r) (simp_all add: Let_def)
qed

section \<open>The handshake timeout\<close>

text \<open>The operations of a peer during its handshake do not read its timeouts.\<close>

definition with_timeouts :: "int \<Rightarrow> int \<Rightarrow> 'a sock_scheme \<Rightarrow> 'a sock_scheme" where
  "with_timeouts r t x = x\<lparr>read_timeout_ms := r, write_timeout_ms := t\<rparr>"

lemma handshake_with_timeouts:
  "perform_server_handshake os (with_timeouts a b x) w =
    (case perform_server_handshake os x w of (r, y, w) \<Rightarrow> (r, with_timeouts a b y, w))"
  by (simp add: perform_server_handshake_def with_timeouts_def is_valid_socket_def set_error_def Let_def
      case_prod_beta)

lemma socket_close_with_timeouts:
  "socket_close os (with_timeouts a b x) w =
    (case socket_close os x w of (r, y, w) \<Rightarrow> (r, with_timeouts a b y, w))"
  by (simp add: socket_close_def with_timeouts_def is_valid_socket_def Let_def case_prod_beta)

lemma ssl_close_with_timeouts:
  "ssl_close os (with_timeouts a b x) w =
    (case ssl_close os x w of (r, y, w) \<Rightarrow> (r, with_timeouts a b y, w))"
proof -
  have f: "ssl (with_timeouts a b x) = ssl x" "sockfd (with_timeouts a b x) = sockfd x"
    "(with_timeouts a b x)\<lparr>ssl := 0\<rparr> = with_timeouts a b (x\<lparr>ssl := 0\<rparr>)"
    by (simp_all add: with_timeouts_def)
  have v: "is_valid_socket (with_timeouts a b x) = is_valid_socket x" by (simp add: is_valid_socket_def f)
  obtain c w1 where c: "(if is_valid_socket x
      then let (f, w) = sys os (Tls (Ssl_is_init_finished (ssl x))) w in (ret f \<noteq> 0, w) else (False, w)) = (c, w1)"
    by fastforce
  show ?thesis
    unfolding ssl_close_def Let_def f v c [unfolded Let_def] prod.case
    by (cases "ssl x = 0") (simp_all add: socket_close_with_timeouts)
qed

lemma ssl_destroy_with_timeouts: "ssl_destroy os (with_timeouts a b x) w = ssl_destroy os x w"
proof -
  obtain r y w1 where c: "ssl_close os x w = (r, y, w1)" by (rule prod_cases3)
  have f: "owns_ctx (with_timeouts a b y) = owns_ctx y" "ssl_ctx (with_timeouts a b y) = ssl_ctx y"
    "sockfd (with_timeouts a b y) = sockfd y" by (simp_all add: with_timeouts_def)
  have "socket_destroy os (with_timeouts a b y) v = socket_destroy os y v" for v :: world
    using socket_close_with_timeouts [of os a b y v] by (simp add: socket_destroy_def is_valid_socket_def f case_prod_beta)
  then show ?thesis
    unfolding ssl_destroy_def ssl_close_with_timeouts c Let_def prod.case f by simp
qed

text \<open>
  C38. The handshake timeout of the TLS server has no effect: with any two valid settings the
  factory makes the same calls, with the same outcome, and hands over the same peer. The peer's
  timeouts are set before the handshake, but only the plain reads and writes look at them.
\<close>

theorem tls_server_handshake_timeout_unused:
  assumes "0 \<le> m" "0 \<le> m'"
  shows "case (create_tls_peer os fd (s\<lparr>peer_handshake_ms := m\<rparr>) w,
      create_tls_peer os fd (s\<lparr>peer_handshake_ms := m'\<rparr>) w) of
    ((r1, s1, w1), (r2, s2, w2)) \<Rightarrow> r1 = r2 \<and> w1 = w2 \<and> s1\<lparr>peer_handshake_ms := m'\<rparr> = s2"
proof -
  obtain x0 w0 where 0: "ssl_socket_adopt os fd (server_ctx s) w = (x0, w0)" by fastforce
  obtain e1 x1 w1 where 1: "set_blocking os True x0 w0 = (e1, x1, w1)" by (rule prod_cases3)
  let ?y1 = "x1\<lparr>error_code := err_none\<rparr>"
  obtain e4 x4 w4 where 4: "perform_server_handshake os ?y1 w1 = (e4, x4, w4)" by (rule prod_cases3)
  define ok where "ok = x4\<lparr>read_timeout_ms := 0, write_timeout_ms := 0, error_code := err_none\<rparr>"
  have run: "create_tls_peer os fd (s\<lparr>peer_handshake_ms := k\<rparr>) w =
      (if e1 \<noteq> err_none then (None, set_error ssl_error_io (s\<lparr>peer_handshake_ms := k\<rparr>), ssl_destroy os x1 w1)
       else if e4 \<noteq> err_none
       then (None, set_error (error_code x4) (s\<lparr>peer_handshake_ms := k\<rparr>), ssl_destroy os x4 w4)
       else (Some ok, set_error err_none (s\<lparr>peer_handshake_ms := k\<rparr>), w4))" if k: "0 \<le> k" for k
  proof -
    obtain y2 x3 where t: "set_read_timeout k x1 = (0, y2)" "set_write_timeout k y2 = (0, x3)"
      and x3: "x3 = with_timeouts k k ?y1"
      by (rule that [of "?y1\<lparr>read_timeout_ms := k\<rparr>" "with_timeouts k k ?y1"])
        (use k in \<open>simp_all add: set_read_timeout_def set_write_timeout_def with_timeouts_def\<close>)
    define x4' where "x4' = with_timeouts k k x4"
    have h: "perform_server_handshake os x3 w1 = (e4, x4', w4)"
      unfolding x3 handshake_with_timeouts 4 prod.case x4'_def ..
    obtain x5 where fin: "set_read_timeout 0 x4' = (0, x5)" "set_write_timeout 0 x5 = (0, ok)"
      "error_code x4' = error_code x4" "ssl_destroy os x4' w4 = ssl_destroy os x4 w4"
      by (rule that [of "x4\<lparr>read_timeout_ms := 0, write_timeout_ms := k, error_code := err_none\<rparr>"])
        (simp_all add: x4'_def ssl_destroy_with_timeouts,
         simp_all add: set_read_timeout_def set_write_timeout_def with_timeouts_def ok_def)
    show ?thesis
      by (simp add: create_tls_peer_def 0 1 t h fin Let_def)
  qed
  show ?thesis by (simp add: run [OF assms(1)] run [OF assms(2)] set_error_def)
qed

theorem tls_server_handshake_timeout_unused_witness:
  "snd (snd (create_tls_peer handshake_os 4 (listening_tls\<lparr>peer_handshake_ms := 100\<rparr>) listening_world)) =
   snd (snd (create_tls_peer handshake_os 4 (listening_tls\<lparr>peer_handshake_ms := 60000\<rparr>) listening_world))"
proof -
  have "0 \<le> (100::int)" "0 \<le> (60000::int)" by simp_all
  then show ?thesis
    using tls_server_handshake_timeout_unused [of 100 60000 handshake_os 4 listening_tls listening_world]
    by (auto split: prod.splits)
qed

end
