(* ===== verification/Clients.thy ===== *)
theory Clients
  imports Tcp Udp
begin

text \<open>
  \<open>src/client_socket.cpp\<close> and \<open>src/udp_client_socket.cpp\<close>, the synchronous
  clients, and the stream operators of \<open>src/socket.cpp\<close>. They forward to the operations of
  their base classes, with the base class's own \<open>close\<close>.
\<close>

section \<open>TCP\<close>

definition client_connect_host :: "os \<Rightarrow> string option \<Rightarrow> int \<Rightarrow> sock \<Rightarrow> world \<Rightarrow> bool \<times> sock \<times> world" where
  "client_connect_host os host p s w = tcp_connect_host os socket_close host p s w"

definition client_connect_stored :: "os \<Rightarrow> sock \<Rightarrow> world \<Rightarrow> bool \<times> sock \<times> world" where
  "client_connect_stored os s w = tcp_connect_stored os socket_close s w"

definition client_connect :: "os \<Rightarrow> address \<Rightarrow> sock \<Rightarrow> world \<Rightarrow> bool \<times> sock \<times> world" where
  "client_connect os addr s w = tcp_connect_addr os socket_close addr s w"

definition client_new :: "os \<Rightarrow> world \<Rightarrow> sock \<times> world" where
  "client_new os w = socket_new os AF_INET SOCK_STREAM w"

definition client_new_to :: "os \<Rightarrow> string option \<Rightarrow> int \<Rightarrow> world \<Rightarrow> sock \<times> world" where
  "client_new_to os host p w =
    (let (s, w) = client_new os w in snd (client_connect_host os host p s w))"

text \<open>The overload for a pointer to a string leaves a null pointer alone.\<close>

definition client_new_to_string :: "os \<Rightarrow> string option \<Rightarrow> int \<Rightarrow> world \<Rightarrow> sock \<times> world" where
  "client_new_to_string os host p w =
    (let (s, w) = client_new os w in
     if host = None then (s, w) else snd (client_connect_host os host p s w))"

section \<open>UDP\<close>

definition udp_client_connect_host ::
  "os \<Rightarrow> string option \<Rightarrow> int \<Rightarrow> udp_sock \<Rightarrow> world \<Rightarrow> bool \<times> udp_sock \<times> world" where
  "udp_client_connect_host os host p s w = udp_connect_host os host p s w"

definition udp_client_connect_stored :: "os \<Rightarrow> udp_sock \<Rightarrow> world \<Rightarrow> bool \<times> udp_sock \<times> world" where
  "udp_client_connect_stored os s w = udp_connect_stored os s w"

definition udp_client_connect :: "os \<Rightarrow> address \<Rightarrow> udp_sock \<Rightarrow> world \<Rightarrow> bool \<times> udp_sock \<times> world" where
  "udp_client_connect os target s w = udp_connect os target s w"

definition udp_client_new_to :: "os \<Rightarrow> string option \<Rightarrow> int \<Rightarrow> world \<Rightarrow> udp_sock \<times> world" where
  "udp_client_new_to os host p w =
    (let (s, w) = udp_new os w in snd (udp_client_connect_host os host p s w))"

definition udp_client_new_to_string :: "os \<Rightarrow> string option \<Rightarrow> int \<Rightarrow> world \<Rightarrow> udp_sock \<times> world" where
  "udp_client_new_to_string os host p w =
    (let (s, w) = udp_new os w in
     if host = None then (s, w) else snd (udp_client_connect_host os host p s w))"

section \<open>Stream operators of a plain socket\<close>

definition socket_put_cstr ::
  "os \<Rightarrow> byte list option \<Rightarrow> 'a sock_scheme \<Rightarrow> world \<Rightarrow> int \<times> 'a sock_scheme \<times> world" where
  "socket_put_cstr os data s w =
    (if data = None then (socket_error, s, w) else socket_write_cstr os data s w)"

definition socket_put_string ::
  "os \<Rightarrow> byte list \<Rightarrow> 'a sock_scheme \<Rightarrow> world \<Rightarrow> int \<times> 'a sock_scheme \<times> world" where
  "socket_put_string os data s w = socket_write_string os data s w"

definition socket_get_string ::
  "os \<Rightarrow> 'a sock_scheme \<Rightarrow> world \<Rightarrow> byte list \<times> 'a sock_scheme \<times> world" where
  "socket_get_string os s w = socket_read_string (socket_read os) max_buffer_size s w"

definition get_state :: "'a sock_scheme \<Rightarrow> int" where
  "get_state s = error_state s"

definition get_error :: "'a sock_scheme \<Rightarrow> int" where
  "get_error s = error_code s"

end
