(* ===== verification/Http_Message.thy ===== *)
theory Http_Message
  imports Prelude "HOL-Library.Sublist"
begin

text \<open>
  The messages of \<open>example/http_server.cpp\<close>: the parser of a request head and the text of a
  response. A message is a string of 8-bit characters; \<open>std::string::npos\<close> is \<open>None\<close>.
\<close>

section \<open>Searching\<close>

fun find_sub :: "string \<Rightarrow> string \<Rightarrow> nat option" where
  "find_sub pat [] = (if pat = [] then Some 0 else None)"
| "find_sub pat (c # cs) =
    (if take (length pat) (c # cs) = pat then Some 0 else map_option Suc (find_sub pat cs))"

definition find_from :: "string \<Rightarrow> string \<Rightarrow> nat \<Rightarrow> nat option" where
  "find_from pat text at =
    (if at > length text then None else map_option ((+) at) (find_sub pat (drop at text)))"

definition CR :: char where "CR = CHR 0x0D"
definition LF :: char where "LF = CHR 0x0A"
definition TAB :: char where "TAB = CHR 0x09"

definition crlf :: string where "crlf = [CR, LF]"

definition code :: "char \<Rightarrow> nat" where "code c = of_char c"

section \<open>Tokens and fields\<close>

definition lower :: "string \<Rightarrow> string" where
  "lower input = map (\<lambda>c. if 65 \<le> code c \<and> code c \<le> 90 then char_of (code c + 32) else c) input"

definition blank :: "char \<Rightarrow> bool" where
  "blank c \<longleftrightarrow> c = CHR '' '' \<or> c = TAB"

definition trim :: "string \<Rightarrow> string" where
  "trim s = rev (dropWhile blank (rev (dropWhile blank s)))"

definition is_digit :: "char \<Rightarrow> bool" where
  "is_digit c \<longleftrightarrow> 48 \<le> code c \<and> code c \<le> 57"

definition is_alnum :: "char \<Rightarrow> bool" where
  "is_alnum c \<longleftrightarrow> is_digit c \<or> 65 \<le> code c \<and> code c \<le> 90 \<or> 97 \<le> code c \<and> code c \<le> 122"

definition token_extra :: string where
  "token_extra = ''!#$%&'' @ [CHR 0x27] @ ''*+-.^_`|~''"

definition token_name :: "string \<Rightarrow> bool" where
  "token_name s \<longleftrightarrow> s \<noteq> [] \<and> list_all (\<lambda>c. is_alnum c \<or> c \<in> set token_extra) s"

function contains_token :: "string \<Rightarrow> string \<Rightarrow> bool" where
  "contains_token comma_separated match =
    (if comma_separated = [] then False
     else
       let item = trim (takeWhile (\<lambda>c. c \<noteq> CHR '','') comma_separated) in
       if lower item = match then True
       else if CHR '','' \<notin> set comma_separated then False
       else contains_token (tl (dropWhile (\<lambda>c. c \<noteq> CHR '','') comma_separated)) match)"
  by pat_completeness auto
termination
proof (relation "measure (\<lambda>(s, m). length s)", simp_all)
  fix s :: string
  assume "s \<noteq> []" "CHR '','' \<in> set s"
  moreover have "length (dropWhile (\<lambda>c. c \<noteq> CHR '','') s) \<le> length s" by (rule length_dropWhile_le)
  ultimately show "length (dropWhile (\<lambda>c. c \<noteq> CHR '','') s) - Suc 0 < length s"
    by (cases s) (auto simp: less_Suc_eq_le)
qed

declare contains_token.simps [simp del]

text \<open>\<open>std::from_chars\<close> to 64 bits, of the whole value.\<close>

definition digit_value :: "char \<Rightarrow> nat" where "digit_value c = code c - 48"

definition number :: "string \<Rightarrow> nat" where
  "number ds = foldl (\<lambda>n c. 10 * n + digit_value c) 0 ds"

definition from_chars :: "string \<Rightarrow> nat option" where
  "from_chars value =
    (if value \<noteq> [] \<and> list_all is_digit value \<and> number value < 2 ^ 64 then Some (number value) else None)"

section \<open>The parser\<close>

record parsed_request =
  req_error :: int
  req_head :: bool
  req_close :: bool
  req_http10 :: bool
  req_path :: string

record header_state =
  hosts :: int
  lengths :: int
  request_body :: bool
  connection :: string

definition no_headers :: header_state where
  "no_headers = \<lparr>hosts = 0, lengths = 0, request_body = False, connection = []\<rparr>"

definition bad_byte :: "char \<Rightarrow> bool" where
  "bad_byte c \<longleftrightarrow> code c \<ge> 127 \<or> code c < 32 \<and> c \<noteq> CR \<and> c \<noteq> LF \<and> c \<noteq> TAB"

text \<open>Exactly two spaces separate three non-empty parts.\<close>

definition split_start :: "string \<Rightarrow> (string \<times> string \<times> string) option" where
  "split_start start =
    (case find_from '' '' start 0 of
       None \<Rightarrow> None
     | Some sp1 \<Rightarrow>
         (case find_from '' '' start (sp1 + 1) of
            None \<Rightarrow> None
          | Some sp2 \<Rightarrow>
              if find_from '' '' start (sp2 + 1) \<noteq> None \<or> sp1 = 0 \<or> sp2 = sp1 + 1 \<or> sp2 + 1 \<ge> length start
              then None
              else Some (take sp1 start, take (sp2 - sp1 - 1) (drop (sp1 + 1) start), drop (sp2 + 1) start)))"

text \<open>One header line: the status to answer, or the state after it.\<close>

definition header_field :: "string \<Rightarrow> header_state \<Rightarrow> int + header_state" where
  "header_field line hs =
    (if CHR '':'' \<notin> set line \<or> \<not> token_name (takeWhile (\<lambda>c. c \<noteq> CHR '':'') line) then Inl 400
     else
       let field = lower (takeWhile (\<lambda>c. c \<noteq> CHR '':'') line);
           value = trim (tl (dropWhile (\<lambda>c. c \<noteq> CHR '':'') line)) in
       if list_ex (\<lambda>c. c = CR \<or> c = LF \<or> code c < 32 \<and> c \<noteq> TAB) value then Inl 400
       else if field = ''host''
       then (if hosts hs \<noteq> 0 \<or> value = [] then Inl 400 else Inr (hs\<lparr>hosts := hosts hs + 1\<rparr>))
       else if field = ''content-length''
       then
         (if lengths hs \<noteq> 0 \<or> value = [] then Inl 400
          else case from_chars value of
              None \<Rightarrow> Inl 400
            | Some n \<Rightarrow> Inr (hs\<lparr>lengths := lengths hs + 1, request_body := request_body hs \<or> n \<noteq> 0\<rparr>))
       else if field = ''transfer-encoding'' then Inl 501
       else if field = ''connection''
       then Inr (hs\<lparr>connection := (if connection hs = [] then [] else connection hs @ '','') @ value\<rparr>)
       else Inr hs)"

function header_loop :: "string \<Rightarrow> nat \<Rightarrow> header_state \<Rightarrow> int + header_state" where
  "header_loop raw at hs =
    (let end_headers = length raw - 2 in
     if at < end_headers
     then
       (case find_from crlf raw at of
          None \<Rightarrow> Inl 400
        | Some e \<Rightarrow>
            if e > end_headers then Inl 400
            else
              let line = take (e - at) (drop at raw) in
              if line = [] then Inr hs
              else case header_field line hs of
                  Inl err \<Rightarrow> Inl err
                | Inr hs \<Rightarrow> header_loop raw (e + 2) hs)
     else Inr hs)"
  by pat_completeness auto
termination
  by (relation "measure (\<lambda>(raw, at, hs). length raw - at)")
    (auto simp: find_from_def split: if_splits option.splits)

declare header_loop.simps [simp del]

definition parse_start :: "string \<Rightarrow> parsed_request \<Rightarrow> parsed_request \<times> (string \<times> bool) option" where
  "parse_start start p =
    (case split_start start of
       None \<Rightarrow> (p\<lparr>req_error := 400\<rparr>, None)
     | Some (method, target, version) \<Rightarrow>
         if \<not> token_name method \<or> target = [] \<or> hd target \<noteq> CHR ''/'' \<or> CHR ''#'' \<in> set target \<or>
            CHR '' '' \<in> set target
         then (p\<lparr>req_error := 400\<rparr>, None)
         else if version \<noteq> ''HTTP/1.1'' \<and> version \<noteq> ''HTTP/1.0''
         then (p\<lparr>req_error := (if take 5 version = ''HTTP/'' then 505 else 400)\<rparr>, None)
         else
           let http11 = (version = ''HTTP/1.1'') in
           (p\<lparr>req_http10 := \<not> http11, req_close := \<not> http11, req_head := (method = ''HEAD''),
              req_path := takeWhile (\<lambda>c. c \<noteq> CHR ''?'') target\<rparr>, Some (method, http11)))"

definition parse_end :: "string \<Rightarrow> bool \<Rightarrow> header_state \<Rightarrow> parsed_request \<Rightarrow> parsed_request" where
  "parse_end method http11 hs p =
    (if http11 \<and> hosts hs \<noteq> 1 then p\<lparr>req_error := 400\<rparr>
     else
       let p = (if contains_token (connection hs) ''close'' then p\<lparr>req_close := True\<rparr>
                else if contains_token (connection hs) ''keep-alive'' then p\<lparr>req_close := False\<rparr> else p) in
       if request_body hs then p\<lparr>req_error := 413\<rparr>
       else if method \<noteq> ''GET'' \<and> method \<noteq> ''HEAD'' then p\<lparr>req_error := 405\<rparr> else p)"

definition parse :: "string \<Rightarrow> parsed_request" where
  "parse raw =
    (let p = \<lparr>req_error = 0, req_head = False, req_close = True, req_http10 = False, req_path = []\<rparr> in
     if length raw < 4 \<or> drop (length raw - 4) raw \<noteq> crlf @ crlf then p\<lparr>req_error := 400\<rparr>
     else if list_ex bad_byte raw then p\<lparr>req_error := 400\<rparr>
     else case find_from crlf raw 0 of
         None \<Rightarrow> p\<lparr>req_error := 400\<rparr>
       | Some first_end \<Rightarrow>
           (case parse_start (take first_end raw) p of
              (p, None) \<Rightarrow> p
            | (p, Some (method, http11)) \<Rightarrow>
                (case header_loop raw (first_end + 2) no_headers of
                   Inl err \<Rightarrow> p\<lparr>req_error := err\<rparr>
                 | Inr hs \<Rightarrow> parse_end method http11 hs p)))"

section \<open>Responses\<close>

definition reason :: "int \<Rightarrow> string" where
  "reason status =
    (if status = 200 then ''OK'' else if status = 400 then ''Bad Request''
     else if status = 404 then ''Not Found'' else if status = 405 then ''Method Not Allowed''
     else if status = 408 then ''Request Timeout'' else if status = 413 then ''Content Too Large''
     else if status = 431 then ''Request Header Fields Too Large''
     else if status = 501 then ''Not Implemented''
     else if status = 505 then ''HTTP Version Not Supported'' else ''Internal Server Error'')"

text \<open>\<open>std::to_string\<close> of a natural number.\<close>

fun decimal :: "nat \<Rightarrow> string" where
  "decimal n = (if n < 10 then [char_of (48 + n)] else decimal (n div 10) @ [char_of (48 + n mod 10)])"

declare decimal.simps [simp del]

definition response_text ::
  "int \<Rightarrow> string \<Rightarrow> string \<Rightarrow> bool \<Rightarrow> bool \<Rightarrow> bool \<Rightarrow> bool \<Rightarrow> string" where
  "response_text status type body head close allow_header http10 =
    (if http10 then ''HTTP/1.0 '' else ''HTTP/1.1 '') @ decimal (nat status) @ '' '' @ reason status @ crlf @
    ''Content-Type: '' @ type @ crlf @
    ''Content-Length: '' @ decimal (length body) @ crlf @
    ''Connection: '' @ (if close then ''close'' else ''keep-alive'') @ crlf @
    (if allow_header then ''Allow: GET, HEAD'' @ crlf else []) @ crlf @
    (if head then [] else body)"

text \<open>A text as bytes, and back.\<close>

definition bytes_of :: "string \<Rightarrow> byte list" where
  "bytes_of s = map (\<lambda>c. word_of_nat (code c)) s"

definition text_of :: "byte list \<Rightarrow> string" where
  "text_of d = map (\<lambda>b. char_of (unat b)) d"

section \<open>Lemmas on searching\<close>

lemma control_chars [simp]: "CR \<noteq> LF" "LF \<noteq> CR" "CR \<noteq> TAB" "TAB \<noteq> CR" "LF \<noteq> TAB" "TAB \<noteq> LF"
  "code CR = 13" "code LF = 10" "code TAB = 9"
  by (simp_all add: CR_def LF_def TAB_def code_def)

text \<open>A prefix without the first character of the pattern holds no match.\<close>

lemma find_sub_skip:
  "c \<notin> set a \<Longrightarrow> find_sub (c # pat) (a @ t) = map_option ((+) (length a)) (find_sub (c # pat) t)"
proof (induction a)
  case Nil
  show ?case by (cases "find_sub (c # pat) t") simp_all
next
  case (Cons x a)
  then show ?case by (auto simp: option.map_comp comp_def)
qed

lemma find_sub_here: "find_sub (c # pat) (c # pat @ t) = Some 0"
  by simp

lemma find_sub_first: "c \<notin> set a \<Longrightarrow> find_sub (c # pat) (a @ c # pat @ t) = Some (length a)"
  using find_sub_skip [of c a pat "c # pat @ t"] by simp

lemma find_char_None: "find_sub [c] a = None \<longleftrightarrow> c \<notin> set a"
  by (induction a) auto

lemma find_sub_match: "find_sub pat s = Some i \<Longrightarrow> take (length pat) (drop i s) = pat"
  by (induction pat s arbitrary: i rule: find_sub.induct) (auto split: if_splits)

lemma find_crlf: "CR \<notin> set a \<Longrightarrow> find_sub crlf (a @ crlf @ t) = Some (length a)"
  using find_sub_first [of CR a "[LF]" t] by (simp add: crlf_def)

lemma find_from_0: "find_from pat s 0 = find_sub pat s"
  by (cases "find_sub pat s") (simp_all add: find_from_def)

lemma find_sub_extend: "find_sub pat s = Some i \<Longrightarrow> find_sub pat (s @ t) = Some i"
proof (induction pat s arbitrary: i rule: find_sub.induct)
  case (1 pat)
  then show ?case by (cases t) (auto split: if_splits)
next
  case (2 pat c cs)
  show ?case
  proof (cases "take (length pat) (c # cs) = pat")
    case True
    have len: "length pat \<le> length (c # cs)" using arg_cong [OF True, of length] by simp
    have "take (length pat) ((c # cs) @ t) = pat" using True len by (simp only: take_append) simp
    then show ?thesis using 2(2) True by simp
  next
    case False
    have "length pat \<le> length (c # cs)" using arg_cong [OF find_sub_match [OF 2(2)], of length] by simp
    then have "take (length pat) ((c # cs) @ t) \<noteq> pat" using False by (simp only: take_append) simp
    then have step: "find_sub pat ((c # cs) @ t) = map_option Suc (find_sub pat (cs @ t))" by simp
    obtain j where j: "find_sub pat cs = Some j" "i = Suc j" using 2(2) False by auto
    show ?thesis unfolding step using 2(1) [OF False j(1)] j(2) by simp
  qed
qed

lemma find_from_append: "find_from pat (a @ t) (length a) = map_option ((+) (length a)) (find_sub pat t)"
  by (simp add: find_from_def)

text \<open>A line that is not the last one holds no blank line.\<close>

lemma find_blank_line:
  assumes "CR \<notin> set a" "take 2 t \<noteq> crlf"
  shows "find_sub (crlf @ crlf) (a @ crlf @ t) = map_option ((+) (length a + 2)) (find_sub (crlf @ crlf) t)"
proof -
  have "find_sub (crlf @ crlf) (crlf @ t) = map_option ((+) 2) (find_sub (crlf @ crlf) t)"
    using assms(2)
    by (cases "find_sub (crlf @ crlf) t") (simp_all add: crlf_def option.map_comp comp_def numeral_2_eq_2)
  then show ?thesis
    using find_sub_skip [OF assms(1), of "LF # crlf" "crlf @ t"]
    by (cases "find_sub (crlf @ crlf) t") (simp_all add: crlf_def option.map_comp comp_def add.assoc)
qed

lemma find_blank_line_last: "CR \<notin> set a \<Longrightarrow> find_sub (crlf @ crlf) (a @ crlf @ crlf @ t) = Some (length a)"
  using find_sub_first [of CR a "LF # crlf" t] by (simp add: crlf_def)

section \<open>Printable text\<close>

definition printable :: "char \<Rightarrow> bool" where
  "printable c \<longleftrightarrow> 33 \<le> code c \<and> code c < 127"

lemma not_printable [simp]: "\<not> printable CR" "\<not> printable LF" "\<not> printable TAB" "\<not> printable (CHR '' '')"
  by (simp_all add: printable_def code_def CR_def LF_def TAB_def)

lemma printable_plain: "printable c \<Longrightarrow> \<not> bad_byte c \<and> \<not> blank c \<and> c \<noteq> CR \<and> c \<noteq> LF \<and> c \<noteq> TAB \<and> c \<noteq> CHR '' '' \<and> \<not> code c < 32"
  by (auto simp: bad_byte_def blank_def printable_def code_def CR_def LF_def TAB_def)

lemma trim_printable:
  assumes "list_all printable s"
  shows "trim (CHR '' '' # s) = s"
proof -
  have keep: "dropWhile blank t = t" if "list_all printable t" for t
    using that printable_plain by (cases t) auto
  have "dropWhile blank (CHR '' '' # s) = s" using keep [OF assms] by (simp add: blank_def)
  moreover have "dropWhile blank (rev s) = rev s" using keep [of "rev s"] assms by (simp add: list_all_iff)
  ultimately show ?thesis by (simp add: trim_def)
qed

lemma known_names: "token_name ''GET''" "token_name ''HEAD''" "token_name ''Host''" "lower ''Host'' = ''host''"
  by code_simp+

section \<open>Numbers\<close>

lemma code_digit: "d < 10 \<Longrightarrow> code (char_of (48 + (d :: nat))) = 48 + d"
  by (simp add: code_def)

lemma is_digit_char: "d < 10 \<Longrightarrow> is_digit (char_of (48 + (d :: nat)))"
  by (simp add: is_digit_def code_digit)

lemma decimal_digits: "list_all is_digit (decimal n) \<and> decimal n \<noteq> []"
proof (induction n rule: decimal.induct)
  case (1 n)
  then show ?case by (subst (1 2) decimal.simps) (auto simp: is_digit_char)
qed

lemma number_decimal: "number (decimal n) = n"
proof (induction n rule: decimal.induct)
  case (1 n)
  show ?case
  proof (cases "n < 10")
    case True
    then show ?thesis by (subst decimal.simps) (simp add: number_def digit_value_def code_digit)
  next
    case False
    then have "number (decimal n) = 10 * number (decimal (n div 10)) + n mod 10"
      by (subst decimal.simps) (simp add: number_def digit_value_def code_digit)
    then show ?thesis using 1 False by simp
  qed
qed

lemma from_chars_decimal: "n < 2 ^ 64 \<Longrightarrow> from_chars (decimal n) = Some n"
  using decimal_digits [of n] by (simp add: from_chars_def number_decimal)

lemma decimal_no_CR: "CR \<notin> set (decimal n)"
  using decimal_digits [of n] by (auto simp: list_all_iff is_digit_def)

section \<open>The request line\<close>

lemma find_char_at: "c \<notin> set a \<Longrightarrow> find_from [c] (a @ c # b) 0 = Some (length a)"
  using find_sub_first [of c a "[]" b] by (simp add: find_from_def)

lemma find_char_Some:
  "find_sub [c] s = Some i \<Longrightarrow> i < length s \<and> s = take i s @ c # drop (Suc i) s \<and> c \<notin> set (take i s)"
  by (induction s arbitrary: i) (auto split: if_splits)

text \<open>The parts are the start line, cut at its only two spaces.\<close>

lemma split_start_parts:
  assumes "m \<noteq> []" "t \<noteq> []" "v \<noteq> []" "CHR '' '' \<notin> set (m @ t @ v)"
  shows "split_start (m @ CHR '' '' # t @ CHR '' '' # v) = Some (m, t, v)"
proof -
  let ?s = "m @ CHR '' '' # t @ CHR '' '' # v"
  have 1: "find_from '' '' ?s 0 = Some (length m)"
    using find_char_at [of "CHR '' ''" m] assms(4) by simp
  have 2: "find_from '' '' ?s (length m + 1) = Some (length m + 1 + length t)"
    using find_from_append [of "'' ''" "m @ '' ''" "t @ CHR '' '' # v"] assms(4)
      find_sub_first [of "CHR '' ''" t "[]" v] by simp
  have 3: "find_from '' '' ?s (length m + 1 + length t + 1) = None"
    using find_from_append [of "'' ''" "m @ '' '' @ t @ '' ''" v] assms(4) find_char_None [of "CHR '' ''" v] by simp
  show ?thesis using assms(1-3) unfolding split_start_def 1 option.case 2 3 by simp
qed

lemma split_start_Some:
  assumes "split_start s = Some (m, t, v)"
  shows "s = m @ CHR '' '' # t @ CHR '' '' # v"
proof -
  obtain i where i: "find_from '' '' s 0 = Some i"
    using assms by (cases "find_from '' '' s 0") (simp_all add: split_start_def)
  obtain j where j: "find_from '' '' s (i + 1) = Some j"
    using assms i by (cases "find_from '' '' s (i + 1)") (simp_all add: split_start_def)
  have p: "m = take i s" "t = take (j - i - 1) (drop (i + 1) s)" "v = drop (j + 1) s"
    using assms i j by (simp_all add: split_start_def split: if_splits)
  have s: "s = m @ CHR '' '' # drop (Suc i) s" "i < length s"
    using i find_char_Some [of "CHR '' ''" s i] p(1) by (auto simp: find_from_def option.map_ident)
  obtain k where k: "find_sub '' '' (drop (Suc i) s) = Some k" "j = Suc i + k"
    using j by (auto simp: find_from_def split: if_splits)
  have "drop (Suc i) s = t @ CHR '' '' # v"
    using find_char_Some [OF k(1)] p(2,3) k(2) by (simp add: add.commute)
  then show ?thesis using s(1) by simp
qed

text \<open>One header line in the middle of a message.\<close>

lemma header_loop_line:
  assumes "CR \<notin> set line" "line \<noteq> []"
  shows "header_loop (a @ line @ crlf @ t @ crlf) (length a) hs =
    (case header_field line hs of Inl e \<Rightarrow> Inl e
     | Inr hs' \<Rightarrow> header_loop (a @ line @ crlf @ t @ crlf) (length (a @ line @ crlf)) hs')"
proof -
  let ?raw = "a @ line @ crlf @ t @ crlf"
  have "find_from crlf ?raw (length a) = Some (length a + length line)"
    using find_from_append [of crlf a "line @ crlf @ t @ crlf"] find_crlf [OF assms(1)] by simp
  then show ?thesis
    using assms(2) by (subst header_loop.simps) (simp add: crlf_def split: sum.split)
qed

lemma header_loop_error: "header_loop raw at hs = Inl e \<Longrightarrow> e \<noteq> 0"
proof (induction raw at hs rule: header_loop.induct)
  case (1 raw at hs)
  have field: "header_field line hs = Inl e \<Longrightarrow> e \<noteq> 0" for line
    by (auto simp: header_field_def Let_def split: if_splits option.splits)
  show ?case
    using 1 field by (subst (asm) (2) header_loop.simps) (auto simp: Let_def split: if_splits option.splits sum.splits)
qed

lemma parse_start_cases:
  assumes "parse_start start p = (p', r)"
  shows "case r of None \<Rightarrow> req_error p' \<noteq> 0
    | Some (method, http11) \<Rightarrow> \<exists>target. start = method @ '' '' @ target @ '' '' @ (if http11 then ''HTTP/1.1'' else ''HTTP/1.0'') \<and>
        hd target = CHR ''/'' \<and>
        p' = p\<lparr>req_http10 := \<not> http11, req_close := \<not> http11, req_head := (method = ''HEAD''),
          req_path := takeWhile (\<lambda>c. c \<noteq> CHR ''?'') target\<rparr>"
proof (cases "split_start start")
  case None
  then show ?thesis using assms by (auto simp: parse_start_def)
next
  case (Some x)
  obtain m t v where x: "x = (m, t, v)" by (rule prod_cases3)
  note parts = split_start_Some [OF Some [unfolded x]]
  show ?thesis
    using assms [unfolded parse_start_def Some x option.case prod.case] parts
    by (auto simp: Let_def split: if_splits)
qed

lemma parse_end_ok:
  "req_error (parse_end method http11 hs p) = 0 \<Longrightarrow>
    (method = ''GET'' \<or> method = ''HEAD'') \<and> \<not> request_body hs \<and> (http11 \<longrightarrow> hosts hs = 1)"
  by (auto simp: parse_end_def Let_def split: if_splits)

lemma parse_end_frame:
  "req_head (parse_end method http11 hs p) = req_head p" "req_http10 (parse_end method http11 hs p) = req_http10 p"
  "req_path (parse_end method http11 hs p) = req_path p"
  by (simp_all add: parse_end_def Let_def)

lemma take_start: "take (length x) (x @ y) = x"
  by simp

lemma drop_to_end: "length y = n \<Longrightarrow> drop (length (x @ y) - n) (x @ y) = y"
  by simp

lemma header_loop_end: "header_loop (a @ crlf) (length a) hs = Inr hs"
  by (subst header_loop.simps) (simp add: crlf_def)

section \<open>The header lines of a message\<close>

text \<open>
  The name and the value of a header line, read off the text: the name ends at the first colon and
  has no case, the value is what follows without the blanks around it.
\<close>

definition field_name :: "string \<Rightarrow> string" where
  "field_name l = lower (takeWhile (\<lambda>c. c \<noteq> CHR '':'') l)"

definition field_value :: "string \<Rightarrow> string" where
  "field_value l = trim (tl (dropWhile (\<lambda>c. c \<noteq> CHR '':'') l))"

definition lines_named :: "string \<Rightarrow> string list \<Rightarrow> string list" where
  "lines_named n ls = filter (\<lambda>l. field_name l = n) ls"

definition header_line_ok :: "string \<Rightarrow> bool" where
  "header_line_ok l \<longleftrightarrow> l \<noteq> [] \<and> \<not> sublist crlf l \<and> CHR '':'' \<in> set l \<and>
    token_name (takeWhile (\<lambda>c. c \<noteq> CHR '':'') l)"

definition lines_text :: "string list \<Rightarrow> string" where
  "lines_text ls = concat (map (\<lambda>l. l @ crlf) ls)"

lemma lines_simps [simp]:
  "lines_text [] = []" "lines_text (l # ls) = l @ crlf @ lines_text ls"
  "lines_named n [] = []"
  "lines_named n (l # ls) = (if field_name l = n then [l] else []) @ lines_named n ls"
  by (simp_all add: lines_text_def lines_named_def)

lemma find_sub_least: "find_sub pat (a @ pat @ b) = Some i \<Longrightarrow> i \<le> length a"
proof (induction a arbitrary: i)
  case Nil
  then show ?case by (cases pat; cases b) auto
next
  case (Cons x a)
  then show ?case by (auto split: if_splits)
qed

lemma find_sub_before: "find_sub pat t = Some i \<Longrightarrow> pat \<noteq> [] \<Longrightarrow> \<not> sublist pat (take i t)"
proof
  assume f: "find_sub pat t = Some i" "pat \<noteq> []" and "sublist pat (take i t)"
  then obtain a b where ab: "take i t = a @ pat @ b" by (auto simp: sublist_def)
  then have "t = a @ pat @ (b @ drop i t)" by (metis append.assoc append_take_drop_id)
  then have "i \<le> length a" using f(1) find_sub_least by metis
  moreover have "length a + length pat \<le> length (take i t)" using ab by simp
  ultimately show False using f(2) by (cases pat) simp_all
qed

text \<open>The digits of zero.\<close>

lemma number_zero:
  assumes "list_all is_digit ds" "number ds = 0"
  shows "list_all (\<lambda>c. c = CHR ''0'') ds"
  using assms
proof (induction ds rule: rev_induct)
  case (snoc c ds)
  have n: "number (ds @ [c]) = 10 * number ds + digit_value c" by (simp add: number_def)
  then have "code c = 48" using snoc.prems by (simp add: is_digit_def digit_value_def)
  then have "char_of (code c) = (char_of (48 :: nat) :: char)" by simp
  moreover have "char_of (48 :: nat) = CHR ''0''" by code_simp
  ultimately have "c = CHR ''0''" by (simp add: code_def)
  then show ?case using snoc n by simp
qed simp

text \<open>What one accepted line says, and what the accumulated state says of all of them.\<close>

lemma header_field_Inr:
  assumes "header_field l hs = Inr hs'"
  shows "CHR '':'' \<in> set l \<and> token_name (takeWhile (\<lambda>c. c \<noteq> CHR '':'') l) \<and>
    field_name l \<noteq> ''transfer-encoding'' \<and>
    hosts hs' = hosts hs + (if field_name l = ''host'' then 1 else 0) \<and>
    (field_name l = ''host'' \<longrightarrow> hosts hs = 0) \<and>
    lengths hs' = lengths hs + (if field_name l = ''content-length'' then 1 else 0) \<and>
    (field_name l = ''content-length'' \<longrightarrow> lengths hs = 0) \<and>
    (request_body hs \<longrightarrow> request_body hs') \<and>
    (field_name l = ''content-length'' \<longrightarrow> \<not> request_body hs' \<longrightarrow>
      field_value l \<noteq> [] \<and> list_all (\<lambda>c. c = CHR ''0'') (field_value l))"
proof -
  let ?bad = "CHR '':'' \<notin> set l \<or> \<not> token_name (takeWhile (\<lambda>c. c \<noteq> CHR '':'') l)"
  have ok: "\<not> ?bad"
  proof
    assume h: ?bad
    show False using assms unfolding header_field_def if_P [OF h] by simp
  qed
  note d = assms [unfolded header_field_def if_not_P [OF ok] Let_def,
      folded field_name_def field_value_def]
  have zero: "list_all (\<lambda>c. c = CHR ''0'') v" if "from_chars v = Some 0" for v
    using that number_zero [of v] by (auto simp: from_chars_def split: if_splits)
  show ?thesis
    using ok d zero [of "field_value l"]
    by (auto split: if_splits option.splits)
qed

fun header_fields :: "string list \<Rightarrow> header_state \<Rightarrow> int + header_state" where
  "header_fields [] hs = Inr hs"
| "header_fields (l # ls) hs =
    (case header_field l hs of Inl e \<Rightarrow> Inl e | Inr hs \<Rightarrow> header_fields ls hs)"

lemma header_fields_Inr:
  "header_fields ls hs = Inr hs' \<Longrightarrow>
   list_all (\<lambda>l. CHR '':'' \<in> set l \<and> token_name (takeWhile (\<lambda>c. c \<noteq> CHR '':'') l)) ls \<and>
   lines_named ''transfer-encoding'' ls = [] \<and>
   hosts hs' = hosts hs + int (length (lines_named ''host'' ls)) \<and>
   (0 \<le> hosts hs \<longrightarrow> lines_named ''host'' ls \<noteq> [] \<longrightarrow> hosts hs' = 1) \<and>
   lengths hs' = lengths hs + int (length (lines_named ''content-length'' ls)) \<and>
   (0 \<le> lengths hs \<longrightarrow> lines_named ''content-length'' ls \<noteq> [] \<longrightarrow> lengths hs' = 1) \<and>
   (request_body hs \<longrightarrow> request_body hs') \<and>
   (\<not> request_body hs' \<longrightarrow> list_all (\<lambda>l. field_value l \<noteq> [] \<and>
      list_all (\<lambda>c. c = CHR ''0'') (field_value l)) (lines_named ''content-length'' ls))"
proof (induction ls arbitrary: hs)
  case (Cons l ls)
  obtain hs1 where f: "header_field l hs = Inr hs1" and rest: "header_fields ls hs1 = Inr hs'"
    using Cons.prems by (auto split: sum.splits)
  show ?case using header_field_Inr [OF f] Cons.IH [OF rest] by (auto split: if_splits)
qed simp

text \<open>What ends in a blank line still does after its first line.\<close>

lemma suffix_after_line:
  assumes "suffix (crlf @ crlf) (l @ crlf @ r)" "l \<noteq> []" "\<not> sublist crlf l"
  shows "r = crlf \<or> suffix (crlf @ crlf) r"
proof -
  obtain x where "l @ crlf @ r = x @ crlf @ crlf" using assms(1) by (auto simp: suffix_def)
  then obtain us where "l = x @ us \<and> us @ crlf @ r = crlf @ crlf \<or> l @ us = x \<and> crlf @ r = us @ crlf @ crlf"
    unfolding append_eq_append_conv2 by blast
  then show ?thesis
  proof
    assume h: "l = x @ us \<and> us @ crlf @ r = crlf @ crlf"
    moreover have "us \<noteq> crlf" using h assms(3) sublist_appendI [of crlf x "[]"] by auto
    ultimately show ?thesis by (auto simp: crlf_def append_eq_Cons_conv)
  next
    assume "l @ us = x \<and> crlf @ r = us @ crlf @ crlf"
    then show ?thesis by (auto simp: crlf_def Cons_eq_append_conv suffix_def)
  qed
qed

text \<open>The loop reads the lines up to the first empty one.\<close>

lemma header_loop_lines:
  "header_loop raw at hs = Inr hs' \<Longrightarrow>
   drop at raw = crlf \<or> suffix (crlf @ crlf) (drop at raw) \<Longrightarrow>
   \<exists>ls rest. drop at raw = lines_text ls @ crlf @ rest \<and> list_all (\<lambda>l. l \<noteq> [] \<and> \<not> sublist crlf l) ls \<and>
     header_fields ls hs = Inr hs'"
proof (induction raw at hs rule: header_loop.induct)
  case (1 raw at hs)
  show ?case
  proof (cases "at < length raw - 2")
    case False
    then have "drop at raw = crlf" using 1(3) by (auto simp: suffix_def crlf_def dest!: arg_cong [of _ _ length])
    moreover have "hs' = hs" using 1(2) False by (subst (asm) header_loop.simps) simp
    ultimately show ?thesis by (intro exI [of _ "[]"] exI [of _ "[]"]) simp
  next
    case True
    let ?t = "drop at raw"
    obtain e where e: "find_from crlf raw at = Some e" "e \<le> length raw - 2"
      using 1(2) True by (subst (asm) header_loop.simps) (auto split: option.splits if_splits)
    then obtain i where i: "find_sub crlf ?t = Some i" "e = at + i"
      by (auto simp: find_from_def split: if_splits)
    let ?line = "take i ?t"
    have "take 2 (drop i ?t) = crlf" using find_sub_match [OF i(1)] by (simp add: crlf_def numeral_2_eq_2)
    then have t: "?t = ?line @ crlf @ drop (e + 2) raw"
      using i(2) append_take_drop_id [of i ?t] append_take_drop_id [of 2 "drop i ?t"]
      by (simp add: add.commute add.left_commute)
    show ?thesis
    proof (cases "?line = []")
      case empty: True
      then have "hs' = hs" using 1(2) True e i(2) by (subst (asm) header_loop.simps) simp
      then show ?thesis using t empty by (intro exI [of _ "[]"] exI [of _ "drop (e + 2) raw"]) simp
    next
      case line: False
      have at: "take (e - at) ?t = ?line" using i(2) by simp
      obtain hs1 where f: "header_field ?line hs = Inr hs1" "header_loop raw (e + 2) hs1 = Inr hs'"
        using 1(2) True e i(2) line by (subst (asm) header_loop.simps) (auto split: sum.splits)
      have "suffix (crlf @ crlf) ?t" using 1(3) True by (auto simp: crlf_def dest!: arg_cong [of _ _ length])
      then have tail: "drop (e + 2) raw = crlf \<or> suffix (crlf @ crlf) (drop (e + 2) raw)"
        using t line find_sub_before [OF i(1)] suffix_after_line by (metis crlf_def list.distinct(1))
      obtain ls rest where "drop (e + 2) raw = lines_text ls @ crlf @ rest"
        "list_all (\<lambda>l. l \<noteq> [] \<and> \<not> sublist crlf l) ls" "header_fields ls hs1 = Inr hs'"
        using 1(1) [OF refl True e(1) _ refl, unfolded at, OF _ line f(1) f(2) tail] e(2) by auto
      then show ?thesis
        using t line f(1) find_sub_before [OF i(1)]
        by (intro exI [of _ "?line # ls"] exI [of _ rest]) (simp add: crlf_def)
    qed
  qed
qed

text \<open>If the first blank line is the end, nothing follows the lines in front of it.\<close>

lemma blank_line_last:
  assumes "find_sub (crlf @ crlf) raw = Some (length raw - 4)" "raw = (x @ crlf) @ lines_text ls @ crlf @ rest"
  shows "rest = []"
proof -
  obtain y where y: "raw = y @ (crlf @ crlf) @ rest"
  proof (cases ls rule: rev_cases)
    case Nil
    then show thesis using assms(2) that [of x] by simp
  next
    case (snoc ks k)
    then show thesis using assms(2) that [of "x @ crlf @ lines_text ks @ k"] by (simp add: lines_text_def)
  qed
  have "length raw - 4 \<le> length y" using assms(1) find_sub_least unfolding y by blast
  moreover have "length raw = length y + 4 + length rest" unfolding y by (simp add: crlf_def)
  ultimately show ?thesis by simp
qed

section \<open>Properties\<close>

text \<open>
  A response is framed by its own text. For any status, any body that fits the length field and
  any type without a carriage return, the first blank line of the response ends its head, the rest
  is the body (nothing for a HEAD request), and the head states the length of the body in a number
  that the server's own parser reads back as that length. A client can therefore cut a kept-alive
  stream of responses, whatever the bodies contain.
\<close>

lemma response_framed:
  assumes "CR \<notin> set type" "length body < 2 ^ 64"
  shows "\<exists>pre post. response_text status type body head close allow http10 =
      (pre @ ''Content-Length: '' @ decimal (length body) @ post) @ (if head then [] else body) \<and>
    find_from (crlf @ crlf) (response_text status type body head close allow http10) 0 =
      Some (length (pre @ ''Content-Length: '' @ decimal (length body) @ post) - 4) \<and>
    take 2 post = crlf \<and> from_chars (decimal (length body)) = Some (length body)"
proof -
  let ?b = "if head then [] else body"
  let ?l1 = "(if http10 then ''HTTP/1.0 '' else ''HTTP/1.1 '') @ decimal (nat status) @ '' '' @ reason status"
  let ?l2 = "''Content-Type: '' @ type"
  let ?l3 = "''Content-Length: '' @ decimal (length body)"
  let ?l4 = "''Connection: '' @ (if close then ''close'' else ''keep-alive'')"
  let ?l5 = "if allow then ''Allow: GET, HEAD'' @ crlf else []"
  let ?pre = "?l1 @ crlf @ ?l2 @ crlf" and ?post = "crlf @ ?l4 @ crlf @ ?l5 @ crlf"
  let ?r = "response_text status type body head close allow http10"
  have r: "?r = ?l1 @ crlf @ ?l2 @ crlf @ ?l3 @ crlf @ ?l4 @ crlf @ ?l5 @ crlf @ ?b"
    by (simp add: response_text_def)
  have cr: "CR \<notin> set ?l1" "CR \<notin> set ?l2" "CR \<notin> set ?l3" "CR \<notin> set ?l4" "CR \<notin> set ''Allow: GET, HEAD''"
    using assms(1) decimal_no_CR by (auto simp: reason_def CR_def)
  have "find_sub (crlf @ crlf) (?l4 @ crlf @ ?l5 @ crlf @ ?b) = Some (length (?l4 @ crlf @ ?l5 @ crlf) - 4)"
  proof (cases allow)
    case True
    have "find_sub (crlf @ crlf) (''Allow: GET, HEAD'' @ crlf @ crlf @ ?b) = Some 16"
      using find_blank_line_last [OF cr(5)] by simp
    then show ?thesis
      using True find_blank_line [OF cr(4), of "''Allow: GET, HEAD'' @ crlf @ crlf @ ?b"]
      by (simp add: crlf_def CR_def)
  next
    case False
    then show ?thesis using find_blank_line_last [OF cr(4), of ?b] by (simp add: crlf_def)
  qed
  then have "find_sub (crlf @ crlf) ?r = Some (length (?pre @ ?l3 @ ?post) - 4)"
    unfolding r using find_blank_line [OF cr(1)] find_blank_line [OF cr(2)] find_blank_line [OF cr(3)]
    by (simp add: crlf_def CR_def)
  then have "find_from (crlf @ crlf) ?r 0 = Some (length (?pre @ ?l3 @ ?post) - 4)"
    by (simp add: find_from_def option.map_ident)
  moreover have "?r = (?pre @ ?l3 @ ?post) @ ?b" unfolding r by simp
  moreover have "take 2 ?post = crlf" by (simp add: crlf_def)
  ultimately show ?thesis using from_chars_decimal [OF assms(2)] by (metis append.assoc)
qed

text \<open>
  C37. What the parser accepts is a plain request, as its text shows. If no error is found, the
  message ends in a blank line and has no control or non-ASCII byte besides the line ends; it starts
  with a request line of exactly three parts, GET or HEAD, a target that starts with a slash, and
  one of the two versions; the path is the target up to the query. Then come the header lines up to
  the first empty one, each a name, a colon and a value: none is named Transfer-Encoding, at most
  one is named Content-Length and its value is all zeros, at most one is named Host, and for
  HTTP/1.1 exactly one is (names in any case). When the first blank line is the end of the message,
  nothing follows them. So no accepted request announces a body.
\<close>

theorem parse_accepts_sound:
  assumes "req_error (parse raw) = 0"
  shows "\<exists>method target version ls rest.
    raw = method @ '' '' @ target @ '' '' @ version @ crlf @ lines_text ls @ crlf @ rest \<and>
    suffix (crlf @ crlf) raw \<and> (find_sub (crlf @ crlf) raw = Some (length raw - 4) \<longrightarrow> rest = []) \<and>
    list_all (\<lambda>c. \<not> bad_byte c) raw \<and> (method = ''GET'' \<or> method = ''HEAD'') \<and>
    req_head (parse raw) = (method = ''HEAD'') \<and> hd target = CHR ''/'' \<and>
    req_path (parse raw) = takeWhile (\<lambda>c. c \<noteq> CHR ''?'') target \<and>
    version = (if req_http10 (parse raw) then ''HTTP/1.0'' else ''HTTP/1.1'') \<and>
    list_all header_line_ok ls \<and> lines_named ''transfer-encoding'' ls = [] \<and>
    length (lines_named ''content-length'' ls) \<le> 1 \<and>
    list_all (\<lambda>l. field_value l \<noteq> [] \<and> list_all (\<lambda>c. c = CHR ''0'') (field_value l))
      (lines_named ''content-length'' ls) \<and>
    length (lines_named ''host'' ls) \<le> 1 \<and>
    (\<not> req_http10 (parse raw) \<longrightarrow> length (lines_named ''host'' ls) = 1)"
proof -
  let ?p0 = "\<lparr>req_error = 0, req_head = False, req_close = True, req_http10 = False, req_path = []\<rparr>"
  have tail: "\<not> (length raw < 4 \<or> drop (length raw - 4) raw \<noteq> crlf @ crlf)"
  proof
    assume h: "length raw < 4 \<or> drop (length raw - 4) raw \<noteq> crlf @ crlf"
    show False using assms unfolding parse_def Let_def if_P [OF h] by simp
  qed
  have ascii: "\<not> list_ex bad_byte raw"
  proof
    assume h: "list_ex bad_byte raw"
    show False using assms unfolding parse_def Let_def if_not_P [OF tail] if_P [OF h] by simp
  qed
  note d = parse_def [of raw, unfolded Let_def if_not_P [OF tail] if_not_P [OF ascii]]
  obtain n where n: "find_from crlf raw 0 = Some n"
    using assms by (cases "find_from crlf raw 0") (simp_all add: d)
  obtain p r where st: "parse_start (take n raw) ?p0 = (p, r)" by fastforce
  note d = d [unfolded n option.case st prod.case]
  note c = parse_start_cases [OF st]
  obtain m b where r: "r = Some (m, b)" using assms c d by (cases r) auto
  note d = d [unfolded r option.case prod.case]
  obtain hs where hs: "header_loop raw (n + 2) no_headers = Inr hs"
    using assms header_loop_error by (cases "header_loop raw (n + 2) no_headers") (auto simp: d)
  have e: "parse raw = parse_end m b hs p" using d hs by simp
  obtain t where t: "take n raw = m @ '' '' @ t @ '' '' @ (if b then ''HTTP/1.1'' else ''HTTP/1.0'')"
    "hd t = CHR ''/''" "req_head p = (m = ''HEAD'')" "req_http10 p = (\<not> b)"
    "req_path p = takeWhile (\<lambda>c. c \<noteq> CHR ''?'') t"
    using c r by auto
  have at: "take 2 (drop n raw) = crlf"
    using n find_sub_match [of crlf raw n] by (simp add: find_from_def crlf_def option.map_ident numeral_2_eq_2)
  have len: "n + 2 \<le> length raw" using arg_cong [OF at, of length] by (simp add: crlf_def)
  let ?rest = "drop (n + 2) raw"
  have "raw = take n raw @ take 2 (drop n raw) @ drop 2 (drop n raw)" by (metis append_take_drop_id)
  then have raw: "raw = m @ '' '' @ t @ '' '' @ (if b then ''HTTP/1.1'' else ''HTTP/1.0'') @ crlf @ ?rest"
    unfolding at t(1) by (simp add: add.commute)
  have suf: "suffix (crlf @ crlf) raw" using tail by (metis suffix_drop)
  have m: "m = ''GET'' \<or> m = ''HEAD''" "\<not> request_body hs" "b \<longrightarrow> hosts hs = 1"
    using parse_end_ok [of m b hs p] assms e by simp_all
  have f: "req_head (parse raw) = (m = ''HEAD'')" "req_http10 (parse raw) = (\<not> b)"
    "req_path (parse raw) = takeWhile (\<lambda>c. c \<noteq> CHR ''?'') t"
    using parse_end_frame [of m b hs p] e t(3,4,5) by simp_all
  let ?v = "if b then ''HTTP/1.1'' else ''HTTP/1.0''"
  let ?start = "m @ '' '' @ t @ '' '' @ ?v"
  have plain: "\<not> sublist crlf ?start" "?start \<noteq> []"
    using find_sub_before [of crlf raw n] n t(1) by (simp_all add: find_from_def crlf_def option.map_ident)
  have "?rest = crlf \<or> suffix (crlf @ crlf) ?rest"
    by (rule suffix_after_line [OF _ plain(2,1)]) (use suf raw in simp)
  then obtain ls rest where ls: "?rest = lines_text ls @ crlf @ rest"
    "list_all (\<lambda>l. l \<noteq> [] \<and> \<not> sublist crlf l) ls" "header_fields ls no_headers = Inr hs"
    using header_loop_lines [OF hs] by blast
  have whole: "raw = m @ '' '' @ t @ '' '' @ ?v @ crlf @ lines_text ls @ crlf @ rest"
    using raw unfolding ls(1) .
  have last: "rest = []" if "find_sub (crlf @ crlf) raw = Some (length raw - 4)"
    by (rule blank_line_last [OF that, of "?start" ls]) (use whole in simp)
  note hf = header_fields_Inr [OF ls(3)]
  have lines: "list_all header_line_ok ls" "lines_named ''transfer-encoding'' ls = []"
    using hf ls(2) by (simp_all add: list_all_iff header_line_ok_def)
  have counts: "length (lines_named ''host'' ls) \<le> 1" "length (lines_named ''content-length'' ls) \<le> 1"
    "b \<longrightarrow> length (lines_named ''host'' ls) = 1"
    using hf m(3) by (auto simp: no_headers_def)
  have zeros: "list_all (\<lambda>l. field_value l \<noteq> [] \<and> list_all (\<lambda>c. c = CHR ''0'') (field_value l))
      (lines_named ''content-length'' ls)" using hf m(2) by simp
  have ascii': "list_all (\<lambda>c. \<not> bad_byte c) raw" using ascii by (simp add: list_all_iff list_ex_iff)
  have v: "?v = (if req_http10 (parse raw) then ''HTTP/1.0'' else ''HTTP/1.1'')" by (simp add: f(2))
  show ?thesis
    by (rule exI [of _ m], rule exI [of _ t], rule exI [of _ ?v], rule exI [of _ ls], rule exI [of _ rest],
        intro conjI impI whole suf last ascii' m(1) f(1) t(2) f(3) v lines counts(1,2) zeros)
      (use counts(3) f(2) in auto)
qed

lemma parse_start_usual:
  assumes "list_all printable (path @ query)" "CHR ''#'' \<notin> set (path @ query)" "path \<noteq> []" "hd path = CHR ''/''"
    and "CHR ''?'' \<notin> set path" "query = [] \<or> hd query = CHR ''?''" "m = ''GET'' \<or> m = ''HEAD''"
  shows "parse_start (m @ '' '' @ (path @ query) @ '' HTTP/1.1'') p =
    (p\<lparr>req_http10 := False, req_close := False, req_head := (m = ''HEAD''), req_path := path\<rparr>, Some (m, True))"
proof -
  have sp: "CHR '' '' \<notin> set (path @ query)" using assms(1) printable_plain by (auto simp: list_all_iff)
  have "split_start (m @ CHR '' '' # (path @ query) @ CHR '' '' # ''HTTP/1.1'') = Some (m, path @ query, ''HTTP/1.1'')"
    by (rule split_start_parts) (use assms(3,7) sp in auto)
  then have sp': "split_start (m @ '' '' @ (path @ query) @ '' HTTP/1.1'') = Some (m, path @ query, ''HTTP/1.1'')"
    by simp
  have "takeWhile (\<lambda>c. c \<noteq> CHR ''?'') (path @ query) = path"
  proof -
    have "takeWhile (\<lambda>c. c \<noteq> CHR ''?'') (path @ query) = path @ takeWhile (\<lambda>c. c \<noteq> CHR ''?'') query"
      using assms(5) by (intro takeWhile_append2) auto
    moreover have "takeWhile (\<lambda>c. c \<noteq> CHR ''?'') query = []" using assms(6) by (cases query) auto
    ultimately show ?thesis by simp
  qed
  then have path: "takeWhile (\<lambda>c. c \<noteq> CHR ''?'') (path @ query) = path" .
  have good: "\<not> (\<not> token_name m \<or> path @ query = [] \<or> hd (path @ query) \<noteq> CHR ''/'' \<or>
      CHR ''#'' \<in> set (path @ query) \<or> CHR '' '' \<in> set (path @ query))"
    using assms(2,3,4,7) sp known_names by auto
  have version: "\<not> (''HTTP/1.1'' \<noteq> ''HTTP/1.1'' \<and> ''HTTP/1.1'' \<noteq> ''HTTP/1.0'')" by simp
  show ?thesis
    unfolding parse_start_def sp' option.case prod.case if_not_P [OF good] if_not_P [OF version] Let_def path
    by simp
qed

lemma header_host:
  assumes "list_all printable host" "host \<noteq> []"
  shows "header_field (''Host: '' @ host) no_headers = Inr (no_headers\<lparr>hosts := 1\<rparr>)"
proof -
  have "\<not> list_ex (\<lambda>c. c = CR \<or> c = LF \<or> code c < 32 \<and> c \<noteq> TAB) host"
    using assms(1) printable_plain by (auto simp: list_all_iff list_ex_iff)
  then show ?thesis
    using trim_printable [OF assms(1)] known_names assms(2)
    by (simp add: header_field_def no_headers_def)
qed

lemma header_connection:
  "header_field ''Connection: close'' (no_headers\<lparr>hosts := 1\<rparr>) = Inr (no_headers\<lparr>hosts := 1, connection := ''close''\<rparr>)"
  by code_simp

text \<open>
  A request written in the usual form is read back: for a method, a path and a query that hold
  only printable characters, the parser finds no error and returns the method, the path without
  the query, and whether the connection is to be closed.
\<close>

lemma parse_round_trip:
  assumes "list_all printable (path @ query)" "CHR ''#'' \<notin> set (path @ query)" "path \<noteq> []" "hd path = CHR ''/''"
    and "CHR ''?'' \<notin> set path" "query = [] \<or> hd query = CHR ''?''" "list_all printable host" "host \<noteq> []"
  shows "parse ((if head then ''HEAD'' else ''GET'') @ '' '' @ (path @ query) @ '' HTTP/1.1'' @ crlf @
      ''Host: '' @ host @ crlf @ (if close then ''Connection: close'' @ crlf else []) @ crlf) =
    \<lparr>req_error = 0, req_head = head, req_close = close, req_http10 = False, req_path = path\<rparr>"
proof -
  let ?m = "if head then ''HEAD'' else ''GET''"
  let ?start = "?m @ '' '' @ (path @ query) @ '' HTTP/1.1''" and ?line = "''Host: '' @ host"
  let ?more = "if close then ''Connection: close'' @ crlf else []"
  let ?raw = "?start @ crlf @ ?line @ crlf @ ?more @ crlf"
  let ?p = "\<lparr>req_error = 0, req_head = False, req_close = True, req_http10 = False, req_path = []\<rparr>"
  let ?hs = "no_headers\<lparr>hosts := 1, connection := (if close then ''close'' else [])\<rparr>"
  have plain: "\<not> bad_byte c \<and> c \<noteq> CR" if "c \<in> set path \<union> set query \<union> set host" for c
    using that assms(1,7) printable_plain by (auto simp: list_all_iff)
  have const: "list_all (\<lambda>c. \<not> bad_byte c \<and> c \<noteq> CR) ''GET HEAD HTTP/1.1Host: Connection: close''" by code_simp
  have cr: "CR \<notin> set ?start" "CR \<notin> set ?line" "CR \<notin> set ''Connection: close''"
    using plain const by (auto simp: CR_def)
  have ascii: "\<not> list_ex bad_byte ?raw"
    using plain const by (auto simp: list_ex_iff crlf_def bad_byte_def [of CR] bad_byte_def [of LF])
  have tail: "\<not> (length ?raw < 4 \<or> drop (length ?raw - 4) ?raw \<noteq> crlf @ crlf)"
  proof (cases close)
    case True
    show ?thesis
      using drop_to_end [of "crlf @ crlf" 4 "?start @ crlf @ ?line @ crlf @ ''Connection: close''"] True
      by (simp only: append.assoc if_True) (simp add: crlf_def)
  next
    case False
    show ?thesis
      using drop_to_end [of "crlf @ crlf" 4 "?start @ crlf @ ?line"] False
      by (simp only: append.assoc if_False append_Nil) (simp add: crlf_def)
  qed
  have first: "find_from crlf ?raw 0 = Some (length ?start)"
    using find_crlf [OF cr(1)] by (simp add: find_from_def option.map_ident)
  have start: "parse_start (take (length ?start) ?raw) ?p =
      (\<lparr>req_error = 0, req_head = head, req_close = False, req_http10 = False, req_path = path\<rparr>, Some (?m, True))"
  proof -
    have "parse_start ?start ?p = (?p\<lparr>req_http10 := False, req_close := False, req_head := (?m = ''HEAD''),
        req_path := path\<rparr>, Some (?m, True))"
      by (rule parse_start_usual [OF assms(1-6)]) simp
    then show ?thesis unfolding take_start by simp
  qed
  have host: "header_loop ?raw (length (?start @ crlf)) no_headers =
      header_loop ?raw (length (?start @ crlf @ ?line @ crlf)) (no_headers\<lparr>hosts := 1\<rparr>)"
    using header_loop_line [OF cr(2), of "?start @ crlf" ?more no_headers] header_host [OF assms(7,8)] by simp
  have rest: "header_loop ?raw (length (?start @ crlf @ ?line @ crlf)) (no_headers\<lparr>hosts := 1\<rparr>) = Inr ?hs"
  proof (cases close)
    case True
    then show ?thesis
      using header_loop_line [OF cr(3), of "?start @ crlf @ ?line @ crlf" "[]" "no_headers\<lparr>hosts := 1\<rparr>"]
        header_connection header_loop_end [of "?start @ crlf @ ?line @ crlf @ ''Connection: close'' @ crlf"]
      by simp
  next
    case False
    then show ?thesis
      using header_loop_end [of "?start @ crlf @ ?line @ crlf" "no_headers\<lparr>hosts := 1\<rparr>"] by (simp add: no_headers_def)
  qed
  have loop: "header_loop ?raw (length ?start + 2) no_headers = Inr ?hs"
    using host rest by (simp add: crlf_def)
  have tok: "contains_token ''close'' ''close''" "\<not> contains_token [] t" for t
    by code_simp (simp add: contains_token.simps)
  have fin: "parse_end ?m True ?hs p = (if close then p\<lparr>req_close := True\<rparr> else p)" for p
    using tok by (cases close) (simp_all add: parse_end_def no_headers_def)
  have "parse ?raw = \<lparr>req_error = 0, req_head = head, req_close = close, req_http10 = False, req_path = path\<rparr>"
    unfolding parse_def Let_def if_not_P [OF tail] if_not_P [OF ascii] first option.case start prod.case loop sum.case fin
    by simp
  then show ?thesis by simp
qed

text \<open>An accepted request with two header lines, read off its text.\<close>

theorem parse_accepts_sound_witness:
  "\<exists>start ls. ''GET /a?b HTTP/1.1'' @ crlf @ ''Host: h'' @ crlf @ ''Connection: close'' @ crlf @ crlf =
      start @ crlf @ lines_text ls @ crlf \<and>
    list_all header_line_ok ls \<and> length (lines_named ''host'' ls) = 1 \<and>
    lines_named ''transfer-encoding'' ls = []"
proof -
  let ?raw = "''GET /a?b HTTP/1.1'' @ crlf @ ''Host: h'' @ crlf @ ''Connection: close'' @ crlf @ crlf"
  have "list_all printable (''/a'' @ ''?b'')" "list_all printable ''h''" by code_simp+
  then have ok: "req_error (parse ?raw) = 0" "\<not> req_http10 (parse ?raw)"
    using parse_round_trip [of "''/a''" "''?b''" "''h''" False True] by simp_all
  have cr: "CR \<notin> set ''GET /a?b HTTP/1.1''" "CR \<notin> set ''Host: h''" "CR \<notin> set ''Connection: close''"
    by (simp_all add: CR_def)
  have blank: "find_sub (crlf @ crlf) ?raw = Some (length ?raw - 4)"
    using find_blank_line_last [OF cr(3), of "[]"] find_blank_line [OF cr(1)] find_blank_line [OF cr(2)]
    by (simp add: crlf_def CR_def)
  obtain m t v ls rest where r: "?raw = m @ '' '' @ t @ '' '' @ v @ crlf @ lines_text ls @ crlf @ rest"
    "rest = []" "list_all header_line_ok ls" "length (lines_named ''host'' ls) = 1"
    "lines_named ''transfer-encoding'' ls = []"
    using parse_accepts_sound [OF ok(1)] ok(2) blank by blast
  have "?raw = (m @ '' '' @ t @ '' '' @ v) @ crlf @ lines_text ls @ crlf" using r(1,2) by simp
  then show ?thesis using r(3-5) by blast
qed

end
