(* ===== verification/Http_Server.thy ===== *)
theory Http_Server
  imports Event_Poll Server_Ownership Http_Message
begin

text \<open>
  The server of \<open>example/http_server.cpp\<close>: the largest client of the library. It owns a
  listener and an event set, and runs entirely in the handlers of the set. The state of the
  server extends the state of its set, so a handler of the set is an operation of the server and
  \<open>event_set_poll\<close> is used as it is.

  The objects live in the set's \<open>streams\<close>: the listener at address \<open>0\<close>, accepted sockets
  at the address the listener gives them. The listener's record is put together from them when
  one of its own operations runs.
\<close>

section \<open>State\<close>

record http_limits =
  max_clients :: nat
  max_header_bytes :: nat
  max_queued :: nat
  idle_timeout_ms :: int

record http_peer =
  psocket :: nat
  incoming :: string
  last_activity :: int
  closing :: bool
  retired :: bool

record http_server = event_set +
  limits :: http_limits
  accepted_sockets :: "ev_sock accepted"
  accept_wait_ms :: int
  http_peers :: "http_peer list"
  running :: bool
  http_polling :: bool

definition plain :: "stream_obj \<Rightarrow> ev_sock" where
  "plain x = (case x of Plain s \<Rightarrow> s | Listener s \<Rightarrow> s | Secure s \<Rightarrow> ev_of_sock sock_init)"

definition get_listener :: "http_server \<Rightarrow> ev_sock server_ev_sock" where
  "get_listener st = ev_sock.extend (plain (streams st 0))
     \<lparr>ev_accepted = (accepted_sockets st)\<lparr>peer_heap := (\<lambda>a. plain (streams st a))\<rparr>,
      ev_accept_timeout_ms = accept_wait_ms st\<rparr>"

definition put_listener :: "ev_sock server_ev_sock \<Rightarrow> http_server \<Rightarrow> http_server" where
  "put_listener s st = st\<lparr>
     streams := (\<lambda>a. if a = 0 then Listener (ev_sock.truncate s) else Plain (peer_heap (ev_accepted s) a)),
     accepted_sockets := ev_accepted s, accept_wait_ms := ev_accept_timeout_ms s\<rparr>"

text \<open>The server installs no handlers in the sockets themselves.\<close>

definition no_user :: "('a ev_sock_scheme) user_handlers" where
  "no_user ev s w = (s, w)"

definition peer_close_call :: "ev_sock virtual_closer" where
  "peer_close_call os = event_close no_user os"

section \<open>Peers\<close>

definition client_count :: "http_server \<Rightarrow> nat" where
  "client_count st = length (filter (\<lambda>p. \<not> retired p) (http_peers st))"

definition lookup_peer :: "nat \<Rightarrow> http_server \<Rightarrow> nat option" where
  "lookup_peer a st = first_where (\<lambda>p. psocket p = a) (http_peers st)"

definition update_peer :: "nat \<Rightarrow> (http_peer \<Rightarrow> http_peer) \<Rightarrow> http_server \<Rightarrow> http_server" where
  "update_peer i f st = st\<lparr>http_peers := (http_peers st)[i := f (http_peers st ! i)]\<rparr>"

definition retire :: "nat \<Rightarrow> http_server \<Rightarrow> http_server" where
  "retire a st =
    (case lookup_peer a st of
       None \<Rightarrow> st
     | Some i \<Rightarrow>
         if retired (http_peers st ! i) then st
         else snd (remove_stream (Some a) (update_peer i (\<lambda>p. p\<lparr>retired := True\<rparr>) st)))"

definition drained :: "nat \<Rightarrow> http_server \<Rightarrow> http_server" where
  "drained a st =
    (case lookup_peer a st of
       Some i \<Rightarrow> if closing (http_peers st ! i) then retire a st else st
     | None \<Rightarrow> st)"

section \<open>Accepting\<close>

text \<open>A socket over the limit is closed; only its address stays in the listener's collection.\<close>

definition admit :: "os \<Rightarrow> nat \<Rightarrow> http_server \<Rightarrow> world \<Rightarrow> http_server \<times> world" where
  "admit os a st w =
    (let (ok, st) =
       (if client_count st \<ge> max_clients (limits st) then (False, st)
        else let (b, s) = set_max_queued_bytes (max_queued (limits st)) (plain (streams st a)) in
             (b, update_stream a (\<lambda>_. Plain s) st)) in
     if \<not> ok
     then
       let (_, s, w) = event_close no_user os (plain (streams st a)) w in
       (update_stream a (\<lambda>_. Plain s) st, w)
     else
       let (t, w) = now os w;
           p = \<lparr>psocket = a, incoming = [], last_activity = t, closing = False, retired = False\<rparr>;
           (added, st) = add_stream (Some a) st in
       (if added then st\<lparr>http_peers := http_peers st @ [p]\<rparr> else st, w))"

fun accept_loop :: "os \<Rightarrow> nat \<Rightarrow> http_server \<Rightarrow> world \<Rightarrow> http_server \<times> world" where
  "accept_loop os 0 st w = (st, w)"
| "accept_loop os (Suc n) st w =
    (let (p, s, w) = server_event_accept os False (get_listener st) w; st = put_listener s st in
     case p of
       None \<Rightarrow> (st, w)
     | Some a \<Rightarrow> let (st, w) = admit os a st w in accept_loop os n st w)"

definition accept_ready :: "os \<Rightarrow> http_server \<Rightarrow> world \<Rightarrow> http_server \<times> world" where
  "accept_ready os = accept_loop os 32"

section \<open>Answering\<close>

definition send_response ::
  "nat \<Rightarrow> int \<Rightarrow> string \<Rightarrow> string \<Rightarrow> bool \<Rightarrow> bool \<Rightarrow> bool \<Rightarrow> bool \<Rightarrow> http_server \<Rightarrow> bool \<times> http_server"
where
  "send_response i status type body head close allow_header http10 st =
    (let a = psocket (http_peers st ! i);
         (ok, s) = queue_write_string (\<lambda>_. True)
            (bytes_of (response_text status type body head close allow_header http10)) (plain (streams st a));
         st = update_stream a (\<lambda>_. Plain s) st in
     if \<not> ok then (False, retire a st)
     else (True, if close then update_peer i (\<lambda>p. p\<lparr>closing := True\<rparr>) st else st))"

definition text_plain :: string where
  "text_plain = ''text/plain; charset=utf-8''"

definition handle_request :: "nat \<Rightarrow> string \<Rightarrow> http_server \<Rightarrow> http_server" where
  "handle_request i raw st =
    (let request = parse raw in
     snd (if req_error request \<noteq> 0
       then send_response i (req_error request) text_plain (reason (req_error request) @ [LF])
              False True (req_error request = 405) (req_http10 request) st
       else if req_path request = ''/'' \<or> req_path request = ''/index.html''
       then send_response i 200 ''text/html; charset=utf-8''
              (''<html><body><h1>libAeon HTTP example</h1></body></html>'' @ [LF])
              (req_head request) (req_close request) False (req_http10 request) st
       else if req_path request = ''/health''
       then send_response i 200 text_plain (''ok'' @ [LF]) (req_head request) (req_close request) False
              (req_http10 request) st
       else send_response i 404 text_plain (''Not Found'' @ [LF]) (req_head request) (req_close request) False
              (req_http10 request) st))"

definition too_large :: "nat \<Rightarrow> http_server \<Rightarrow> http_server" where
  "too_large i st = snd (send_response i 431 text_plain (''Request Header Fields Too Large'' @ [LF])
     False True False False st)"

definition too_many :: "nat \<Rightarrow> http_server \<Rightarrow> http_server" where
  "too_many i st = snd (send_response i 400 text_plain (''Too many pipelined requests'' @ [LF])
     False True False False st)"

text \<open>The first request, whose blank line is at \<open>e\<close>, is taken off and answered.\<close>

definition answer_first :: "nat \<Rightarrow> nat \<Rightarrow> http_server \<Rightarrow> http_server" where
  "answer_first e i st =
    (let request = take (e + 4) (incoming (http_peers st ! i)) in
     handle_request i request (update_peer i (\<lambda>p. p\<lparr>incoming := drop (e + 4) (incoming p)\<rparr>) st))"

text \<open>The argument counts the requests that may still be answered in this event.\<close>

fun receive_loop :: "nat \<Rightarrow> nat \<Rightarrow> http_server \<Rightarrow> http_server" where
  "receive_loop n i st =
    (let p = http_peers st ! i in
     if retired p \<or> closing p then st
     else
       (case find_from (crlf @ crlf) (incoming p) 0 of
          None \<Rightarrow> if length (incoming p) > max_header_bytes (limits st) then too_large i st else st
        | Some e \<Rightarrow>
            if e + 4 > max_header_bytes (limits st) then too_large i st
            else (case n of 0 \<Rightarrow> too_many i st | Suc m \<Rightarrow> receive_loop m i (answer_first e i st))))"

declare receive_loop.simps [simp del]

definition max_pipelined_per_event :: nat where
  "max_pipelined_per_event = 32"

text \<open>What is done with the data once it is appended.\<close>

definition serve :: "nat \<Rightarrow> http_server \<Rightarrow> http_server" where
  "serve i st =
    (let st = receive_loop max_pipelined_per_event i st;
         st = (if closing (http_peers st ! i) then update_peer i (\<lambda>p. p\<lparr>incoming := []\<rparr>) st else st);
         p = http_peers st ! i in
     if \<not> retired p \<and> \<not> closing p \<and> length (incoming p) > max_header_bytes (limits st)
     then too_large i st else st)"

definition receive :: "os \<Rightarrow> nat \<Rightarrow> byte list \<Rightarrow> http_server \<Rightarrow> world \<Rightarrow> http_server \<times> world" where
  "receive os a data st w =
    (case lookup_peer a st of
       None \<Rightarrow> (st, w)
     | Some i \<Rightarrow>
         let p = http_peers st ! i in
         if retired p \<or> closing p \<or> data = [] then (st, w)
         else
           let (t, w) = now os w in
           (serve i (update_peer i (\<lambda>p. p\<lparr>last_activity := t, incoming := incoming p @ text_of data\<rparr>) st), w))"

section \<open>Polling\<close>

text \<open>The handlers that the constructor installs in the set.\<close>

definition http_callback :: "os \<Rightarrow> nat \<Rightarrow> event \<Rightarrow> http_server \<Rightarrow> world \<Rightarrow> http_server \<times> world" where
  "http_callback os a ev st w =
    (case ev of
       Ev_listen \<Rightarrow> if a = 0 then accept_ready os st w else (st, w)
     | Ev_data d \<Rightarrow> receive os a d st w
     | Ev_drain \<Rightarrow> (drained a st, w)
     | Ev_close \<Rightarrow> (retire a st, w)
     | Ev_error e \<Rightarrow> (retire a st, w)
     | _ \<Rightarrow> (st, w))"

definition http_handlers :: "os \<Rightarrow> (unit http_server_ext) handlers" where
  "http_handlers os =
    \<lparr>on_stream = (\<lambda>a ev st w. (st, w)), on_set = http_callback os, on_udp = (\<lambda>a ev st w. (st, w)),
     on_udp_set = (\<lambda>a ev st w. (st, w)), register_sender = (\<lambda>a from st w. (st, w))\<rparr>"

text \<open>The listener destroys a peer only here, when no poll is under way.\<close>

definition listener_remove :: "os \<Rightarrow> nat \<Rightarrow> http_server \<Rightarrow> world \<Rightarrow> http_server \<times> world" where
  "listener_remove os a st w =
    (let (_, s, w) = server_event_remove_peer peer_close_call socket_destroy os (Some a) (get_listener st) w in
     (put_listener s st, w))"

fun reap_loop :: "os \<Rightarrow> http_peer list \<Rightarrow> http_peer list \<Rightarrow> http_server \<Rightarrow> world \<Rightarrow> http_server \<times> world" where
  "reap_loop os kept [] st w = (st\<lparr>http_peers := kept\<rparr>, w)"
| "reap_loop os kept (p # ps) st w =
    (if \<not> retired p then reap_loop os (kept @ [p]) ps st w
     else let (st, w) = listener_remove os (psocket p) st w in reap_loop os kept ps st w)"

definition reap :: "os \<Rightarrow> http_server \<Rightarrow> world \<Rightarrow> http_server \<times> world" where
  "reap os st w = reap_loop os [] (http_peers st) st w"

text \<open>Times are nanoseconds of the steady clock.\<close>

definition expire_at :: "int \<Rightarrow> nat \<Rightarrow> http_server \<Rightarrow> http_server" where
  "expire_at t i st =
    (let p = http_peers st ! i in
     if \<not> retired p \<and> t - last_activity p > idle_timeout_ms (limits st) * 1000000
     then retire (psocket p) st else st)"

definition expire :: "os \<Rightarrow> http_server \<Rightarrow> world \<Rightarrow> http_server \<times> world" where
  "expire os st w =
    (if idle_timeout_ms (limits st) > 0
     then let (t, w) = now os w in (fold (expire_at t) [0..<length (http_peers st)] st, w)
     else (st, w))"

definition http_poll :: "os \<Rightarrow> int \<Rightarrow> http_server \<Rightarrow> world \<Rightarrow> (int \<times> http_server \<times> world) option" where
  "http_poll os timeout st w =
    (if \<not> running st \<or> http_polling st then Some (- 1, st, w)
     else
       case event_set_poll (http_handlers os) os timeout (st\<lparr>http_polling := True\<rparr>) w of
         None \<Rightarrow> None
       | Some (result, st, w) \<Rightarrow>
           let st = st\<lparr>http_polling := False\<rparr>; (st, w) = expire os st w; (st, w) = reap os st w in
           Some (result, st, w))"

section \<open>Starting and stopping\<close>

definition listener_close :: "os \<Rightarrow> http_server \<Rightarrow> world \<Rightarrow> http_server \<times> world" where
  "listener_close os st w =
    (let (_, s, w) = server_event_close (\<lambda>os. no_user) peer_close_call os (get_listener st) w in
     (put_listener s st, w))"

definition http_new :: "http_limits \<Rightarrow> os \<Rightarrow> world \<Rightarrow> http_server \<times> world" where
  "http_new lim os w =
    (let (s, w) = server_event_new os w;
         set = fold (\<lambda>slot st. the (on_socket slot True st))
           [set_listen, set_data, set_drain, set_close, set_on_error] event_set_new in
     (put_listener s (event_set.extend set
        \<lparr>limits = lim, accepted_sockets = accepted_empty (ev_of_sock sock_init), accept_wait_ms = 0,
         http_peers = [], running = False, http_polling = False\<rparr>), w))"

definition http_start ::
  "os \<Rightarrow> string option \<Rightarrow> int \<Rightarrow> http_server \<Rightarrow> world \<Rightarrow> bool \<times> http_server \<times> world" where
  "http_start os address port st w =
    (if running st \<or> http_polling st \<or> address = None \<or> max_clients (limits st) = 0 \<or>
        max_header_bytes (limits st) < 32 \<or> max_queued (limits st) < 256 \<or> idle_timeout_ms (limits st) < 0
     then (False, st, w)
     else
       let (ok, s, w) = server_event_listen_on (\<lambda>os. no_user) peer_close_call os address port (get_listener st) w;
           st = put_listener s st in
       if \<not> ok then (False, st, w)
       else
         let (added, st) = add_stream (Some 0) st in
         if \<not> added then (False, listener_close os st w)
         else (True, st\<lparr>running := True\<rparr>, w))"

definition http_stop :: "os \<Rightarrow> http_server \<Rightarrow> world \<Rightarrow> http_server \<times> world" where
  "http_stop os st w =
    (if http_polling st then (st, w)
     else
       let st = snd (remove_stream (Some 0) st);
           st = fold (\<lambda>p st. snd (remove_stream (Some (psocket p)) st)) (http_peers st) st;
           (st, w) = listener_close os (st\<lparr>http_peers := []\<rparr>) w in
       (st\<lparr>running := False\<rparr>, w))"

text \<open>What the application can do with a server, in any order.\<close>

inductive http_step :: "os \<Rightarrow> http_server \<times> world \<Rightarrow> http_server \<times> world \<Rightarrow> bool" for os where
  start: "http_start os address port st w = (b, st', w') \<Longrightarrow> http_step os (st, w) (st', w')"
| poll: "http_poll os timeout st w = Some (n, st', w') \<Longrightarrow> http_step os (st, w) (st', w')"
| stop: "http_stop os st w = (st', w') \<Longrightarrow> http_step os (st, w) (st', w')"

definition http_reachable :: "http_limits \<Rightarrow> os \<Rightarrow> http_server \<Rightarrow> world \<Rightarrow> bool" where
  "http_reachable lim os st w \<longleftrightarrow> (\<exists>w0. (http_step os)\<^sup>*\<^sup>* (http_new lim os w0) (st, w))"

end
