(* ===== verification/Http_Service.thy ===== *)
theory Http_Service
  imports Http_Server
begin

text \<open>
  What the HTTP server promises over any run: which sockets are registered, which are still owned,
  how many clients and how many unparsed bytes there can be, and what becomes of refused connections,
  shown on a run of a server under a flood of them (\<open>flood_os\<close>).
\<close>

section \<open>The books of the listener\<close>

text \<open>
  Operations of the listener that neither add nor remove a peer, and keep the handler tables.
\<close>

definition listener_wf :: "ev_sock server_ev_sock \<Rightarrow> bool" where
  "listener_wf s \<longleftrightarrow> length (slots s) = 7 \<and> (\<forall>a. length (slots (peer_heap (ev_accepted s) a)) = 7)"

definition same_book :: "ev_sock server_ev_sock \<Rightarrow> ev_sock server_ev_sock \<Rightarrow> bool" where
  "same_book s s' \<longleftrightarrow> owned (ev_accepted s') = owned (ev_accepted s) \<and>
    members (ev_accepted s') = members (ev_accepted s) \<and> next_peer (ev_accepted s') = next_peer (ev_accepted s) \<and>
    (listener_wf s \<longrightarrow> listener_wf s')"

lemma same_book_refl [simp]: "same_book s s"
  by (simp add: same_book_def)

lemma same_book_trans [trans]: "same_book s t \<Longrightarrow> same_book t u \<Longrightarrow> same_book s u"
  by (auto simp: same_book_def)

lemma same_book_more: "sock.more s' = sock.more s \<Longrightarrow> same_book s s'"
  by (cases s; cases s') (simp add: same_book_def listener_wf_def)

lemma same_book_close:
  assumes "event_close no_user os s w = (b, s', w')"
  shows "same_book s s'"
proof -
  obtain c s1 w1 where c: "socket_close os (clear_queue s) w = (c, s1, w1)" by (rule prod_cases3)
  have "s' = s1" using assms by (auto simp: event_close_eq c fire_def no_user_def split: if_splits)
  then have "same_book (clear_queue s) s'" using same_book_more [OF socket_close_more [OF c]] by simp
  moreover have "same_book s (clear_queue s)"
    by (simp add: same_book_def clear_queue_def listener_wf_def)
  ultimately show ?thesis by (rule same_book_trans [rotated])
qed

lemma event_close_slots: "event_close no_user os x w = (b, x', w') \<Longrightarrow> slots x' = slots x"
  by (auto simp: event_close_eq fire_def no_user_def clear_queue_def dest: socket_close_queue
      split: if_splits prod.splits)

lemma same_book_peers:
  assumes "close_accepted_peers peer_close_call os (ev_accepted s) w = (b, a', w')"
  shows "same_book s (set_ev_accepted a' s)"
proof (cases "closing_peers (ev_accepted s)")
  case True
  then show ?thesis
    using assms by (auto simp: close_accepted_peers_def close_owned_peers_def same_book_def listener_wf_def set_ev_accepted_def)
next
  case False
  let ?a = "ev_accepted s"
  define Inv where "Inv = (\<lambda>(i :: nat) (st :: ev_sock accepted). members st = members ?a \<and> next_peer st = next_peer ?a \<and>
    ((\<forall>p. length (slots (peer_heap ?a p)) = 7) \<longrightarrow> (\<forall>p. length (slots (peer_heap st p)) = 7)))"
  have "\<exists>c st'. close_peers_loop (close_accepted peer_close_call os) 0 False (?a\<lparr>aworld := w, closing_peers := True\<rparr>) =
      Some (Some c, st') \<and> owned st' = owned ?a \<and> Inv (length (owned ?a)) st'"
  proof (rule close_peers_loop_run)
    fix i st b st'
    assume own: "owned st = owned ?a" and inv: "Inv i st"
      and c: "close_accepted peer_close_call os (owned ?a ! i) st = (b, st')"
    obtain d x v where x: "peer_close_call os (peer_heap st (owned ?a ! i)) (aworld st) = (d, x, v)"
      by (rule prod_cases3)
    have "slots x = slots (peer_heap st (owned ?a ! i))"
      by (rule event_close_slots [OF x [unfolded peer_close_call_def]])
    then show "b \<noteq> None \<and> owned st' = owned ?a \<and> Inv (Suc i) st'"
      using c own inv by (auto simp: close_accepted_def x Inv_def)
  qed (simp_all add: Inv_def)
  then obtain c st' where run: "close_peers_loop (close_accepted peer_close_call os) 0 False
      (?a\<lparr>aworld := w, closing_peers := True\<rparr>) = Some (Some c, st')" "owned st' = owned ?a" "Inv (length (owned ?a)) st'"
    by blast
  then have "a' = st'\<lparr>closing_peers := False\<rparr>"
    using assms False by (auto simp: close_accepted_peers_def close_owned_peers_def)
  then show ?thesis using run by (auto simp: same_book_def Inv_def listener_wf_def set_ev_accepted_def)
qed

lemma same_book_server_close:
  assumes "server_event_close (\<lambda>os. no_user) peer_close_call os s w = (b, s', w')"
  shows "same_book s s'"
proof -
  obtain b1 s1 w1 where 1: "event_close no_user os s w = (b1, s1, w1)" by (rule prod_cases3)
  obtain b2 a w2 where 2: "close_accepted_peers peer_close_call os (ev_accepted s1) w1 = (b2, a, w2)"
    by (rule prod_cases3)
  have "s' = set_ev_accepted a s1" using assms by (auto simp: server_event_close_def close_server_def 1 2)
  then show ?thesis using same_book_trans [OF same_book_close [OF 1] same_book_peers [OF 2]] by simp
qed

lemma same_book_tcp_listen:
  assumes "tcp_listen os (server_event_close (\<lambda>os. no_user) peer_close_call) ip p s w = (b, s', w')"
  shows "same_book s s'"
proof -
  have field: "same_book s (s\<lparr>error_code := e, error_state := f\<rparr>)" for s e f
    by (rule same_book_more) simp
  show ?thesis
  proof (cases "ip = None \<or> \<not> is_valid_port p \<or> listen_target os (the ip) p = None")
    case True
    then show ?thesis using assms field by (auto simp: tcp_listen_def split: if_splits)
  next
    case False
    then obtain i t where i: "ip = Some i" "is_valid_port p" "listen_target os i p = Some t" by auto
    obtain b1 s1 w1 where c: "server_event_close (\<lambda>os. no_user) peer_close_call os s w = (b1, s1, w1)"
      by (rule prod_cases3)
    obtain r w2 where so: "sys os (Fd (Socket (ss_family t) SOCK_STREAM)) w1 = (r, w2)" by fastforce
    let ?s = "s1\<lparr>sockfd := ret r\<rparr>"
    obtain ok s3 w3 where att: "listen_attempt os t p ?s w2 = (ok, s3, w3)" by (rule prod_cases3)
    obtain b4 s4 w4 where c4: "server_event_close (\<lambda>os. no_user) peer_close_call os s3 w3 = (b4, s4, w4)"
      by (rule prod_cases3)
    note d = assms [unfolded tcp_listen_def i(1) option.sel Let_def i(3) option.case c so att c4 prod.case]
    have 1: "same_book s ?s"
      using same_book_server_close [OF c] same_book_more [of ?s s1] by (auto intro: same_book_trans)
    have 2: "same_book s s3" using same_book_trans [OF 1 same_book_more [OF listen_attempt_more [OF att]]] .
    have 3: "same_book s s4" using same_book_trans [OF 2 same_book_server_close [OF c4]] .
    have 4: "same_book s (s3\<lparr>connected := True, error_state := 0, error_code := err_none\<rparr>)"
      using 2 same_book_more [of "s3\<lparr>connected := True, error_state := 0, error_code := err_none\<rparr>" s3]
      by (auto intro: same_book_trans)
    have 5: "same_book s (?s\<lparr>error_code := err_no_socket, error_state := state_create\<rparr>)"
      using 1 same_book_more [of "?s\<lparr>error_code := err_no_socket, error_state := state_create\<rparr>" ?s]
      by (auto intro: same_book_trans)
    show ?thesis
      using d i(2) 3 4 5 by (simp split: if_splits)
  qed
qed

lemma same_book_listen:
  assumes "server_event_listen_on (\<lambda>os. no_user) peer_close_call os ip p s w = (b, s', w')"
  shows "same_book s s'"
proof -
  obtain b1 s1 w1 where l: "tcp_listen os (server_event_close (\<lambda>os. no_user) peer_close_call) ip p s w = (b1, s1, w1)"
    by (rule prod_cases3)
  obtain b2 a2 w2 where c: "close_accepted_peers peer_close_call os (ev_accepted s1) w1 = (b2, a2, w2)"
    by (rule prod_cases3)
  let ?s2 = "set_ev_accepted a2 s1"
  obtain r3 s3 w3 where m: "set_blocking os False ?s2 w2 = (r3, s3, w3)" by (rule prod_cases3)
  obtain b4 s4 w4 where d: "socket_close os s3 w3 = (b4, s4, w4)" by (rule prod_cases3)
  note 1 = same_book_tcp_listen [OF l]
  note 2 = same_book_trans [OF 1 same_book_peers [OF c]]
  note 3 = same_book_trans [OF 2 same_book_more [OF set_blocking_more [OF m]]]
  note 4 = same_book_trans [OF 3 same_book_more [OF socket_close_more [OF d]]]
  show ?thesis
    using assms 1 3 4 by (auto simp: server_event_listen_on_def l c m d fire_def no_user_def Let_def split: if_splits)
qed

lemma same_more_slots: "sock.more s' = sock.more s \<Longrightarrow> slots s' = slots s"
  by (cases s; cases s') simp

lemma event_adopt_slots:
  assumes "event_socket_adopt os fd w = (x, w')"
  shows "length (slots x) = 7"
proof -
  obtain y w1 where y: "socket_adopt os fd w = (y, w1)" by fastforce
  obtain r z w2 where z: "set_blocking os False (ev_of_sock y) w1 = (r, z, w2)" by (rule prod_cases3)
  obtain c u w3 where u: "socket_close os z w2 = (c, u, w3)" by (rule prod_cases3)
  have 0: "length (slots (ev_of_sock y)) = 7" by (simp add: ev_of_sock_def sock.defs ev_sock.defs)
  then have 1: "length (slots z) = 7" using same_more_slots [OF set_blocking_more [OF z]] by simp
  then have 2: "length (slots u) = 7" using same_more_slots [OF socket_close_more [OF u]] by simp
  show ?thesis
    using assms 0 1 2 by (auto simp: event_socket_adopt_def event_socket_setup_def y z u split: if_splits)
qed

text \<open>Accepting adds one peer with a fresh address, or nothing.\<close>

lemma accept_book:
  assumes "server_event_accept os blk s w = (r, s', w')"
  shows "case r of None \<Rightarrow> same_book s s' \<and> ev_accepted s' = ev_accepted s
    | Some p \<Rightarrow> p = next_peer (ev_accepted s) \<and> owned (ev_accepted s') = owned (ev_accepted s) @ [p] \<and>
        set_sockets (members (ev_accepted s')) = set_sockets (members (ev_accepted s)) @ [p] \<and>
        next_peer (ev_accepted s') = Suc p \<and> (listener_wf s \<longrightarrow> listener_wf s') \<and>
        (\<exists>x. peer_heap (ev_accepted s') = (peer_heap (ev_accepted s))(p := x))"
proof -
  obtain fd "from" s1 w1 where t: "tcp_accept os (ev_accept_timeout_ms s) blk s w = (fd, from, s1, w1)"
    by (rule prod_cases4)
  have m: "sock.more s1 = sock.more s" by (rule tcp_accept_more [OF t])
  then have same: "same_book s s1" by (rule same_book_more)
  have eq: "ev_accepted s1 = ev_accepted s" "slots s1 = slots s" using m by (cases s; cases s1; simp)+
  obtain x w2 where x: "event_socket_adopt os fd w1 = (x, w2)" by fastforce
  have x7: "length (slots x) = 7"
    by (rule event_adopt_slots [OF x])
  let ?x = "set_parent_server (Some 0) (x\<lparr>remote_addr := from\<rparr>)"
  obtain e y w3 where b: "set_blocking os blk ?x w2 = (e, y, w3)" by (rule prod_cases3)
  have "sock.more y = sock.more ?x" by (rule set_blocking_more [OF b])
  then have y7: "length (slots y) = 7" using x7 by (cases y; cases x) (simp add: set_parent_server_def)
  note d = assms [unfolded server_event_accept_def accept_peer_def t create_accepted_event_socket_def x Let_def
      prod.case option.case take_peer_def b]
  show ?thesis
  proof (cases "fd = invalid_socket \<or> e \<noteq> 0")
    case True
    then show ?thesis using d same eq by (auto simp: set_ev_accepted_def same_book_def listener_wf_def split: if_splits)
  next
    case False
    then show ?thesis
      using d y7 eq by (auto simp: set_ev_accepted_def add_peer_def set_add_def listener_wf_def split: if_splits)
  qed
qed

lemma remove_book:
  assumes "server_event_remove_peer peer_close_call socket_destroy os (Some q) s w = (b, s', w')"
  shows "owned (ev_accepted s') = remove1 q (owned (ev_accepted s)) \<and>
    set_sockets (members (ev_accepted s')) =
      (if q \<in> set (owned (ev_accepted s)) then remove1 q (set_sockets (members (ev_accepted s)))
       else set_sockets (members (ev_accepted s))) \<and>
    next_peer (ev_accepted s') = next_peer (ev_accepted s) \<and> (listener_wf s \<longrightarrow> listener_wf s')"
proof -
  let ?a = "ev_accepted s"
  obtain d x v where x: "peer_close_call os (peer_heap ?a q) w = (d, x, v)" by (rule prod_cases3)
  have x7: "slots x = slots (peer_heap ?a q)" by (rule event_close_slots [OF x [unfolded peer_close_call_def]])
  show ?thesis
    using assms x7
    by (auto simp: server_event_remove_peer_def remove_accepted_peer_def remove_owned_peer_eq close_accepted_def
        detach_def destroy_accepted_def set_ev_accepted_def listener_wf_def x remove1_idem Let_def
        split: if_splits)
qed

section \<open>The invariant\<close>

text \<open>
  The collection is in order, the peers are distinct and owned, exactly the listener (while it
  runs) and the live peers are registered, and there are at most \<open>max_clients\<close> of those.
\<close>

definition book_ok :: "ev_sock accepted \<Rightarrow> bool" where
  "book_ok a \<longleftrightarrow> peers_inv a \<and> (\<forall>p\<in>set (owned a). 0 < p \<and> p < next_peer a) \<and> 0 < next_peer a"

definition live_peer :: "http_server \<Rightarrow> nat \<Rightarrow> bool" where
  "live_peer st a \<longleftrightarrow> (\<exists>j<length (http_peers st). psocket (http_peers st ! j) = a \<and> \<not> retired (http_peers st ! j))"

lemma live_peer_set: "live_peer st a \<longleftrightarrow> a \<in> psocket ` {p \<in> set (http_peers st). \<not> retired p}"
  by (auto simp: live_peer_def in_set_conv_nth)

definition http_base :: "http_server \<Rightarrow> bool" where
  "http_base st \<longleftrightarrow> set_wf st \<and> book_ok (accepted_sockets st) \<and> distinct (map psocket (http_peers st)) \<and>
    psocket ` set (http_peers st) \<subseteq> set (owned (accepted_sockets st)) \<and>
    (\<forall>a. a \<in> set (registered (tcp_reg st)) \<longleftrightarrow> a = 0 \<and> running st \<or> live_peer st a) \<and>
    client_count st \<le> max_clients (limits st)"

text \<open>A peer that still reads holds a bounded piece of a request; one that is being closed holds none.\<close>

definition peer_bounded :: "nat \<Rightarrow> http_peer \<Rightarrow> bool" where
  "peer_bounded n p \<longleftrightarrow> (closing p \<longrightarrow> incoming p = []) \<and> (retired p \<or> length (incoming p) \<le> n)"

definition http_inv :: "http_server \<Rightarrow> bool" where
  "http_inv st \<longleftrightarrow> http_base st \<and> (\<forall>p\<in>set (http_peers st). peer_bounded (max_header_bytes (limits st)) p)"

text \<open>Steps that concern one peer: it may come to be closing or retired, the others stay.\<close>

definition peer_step :: "nat \<Rightarrow> http_server \<Rightarrow> http_server \<Rightarrow> bool" where
  "peer_step i st st' \<longleftrightarrow>
    limits st' = limits st \<and> accepted_sockets st' = accepted_sockets st \<and> running st' = running st \<and>
    http_polling st' = http_polling st \<and> length (http_peers st') = length (http_peers st) \<and>
    (\<forall>j. j \<noteq> i \<longrightarrow> http_peers st' ! j = http_peers st ! j) \<and>
    psocket (http_peers st' ! i) = psocket (http_peers st ! i) \<and>
    (retired (http_peers st ! i) \<longrightarrow> retired (http_peers st' ! i)) \<and>
    (closing (http_peers st ! i) \<longrightarrow> closing (http_peers st' ! i)) \<and>
    (http_base st \<longrightarrow> http_base st')"

lemma peer_step_refl [simp]: "peer_step i st st"
  by (simp add: peer_step_def)

lemma peer_step_trans [trans]: "peer_step i st t \<Longrightarrow> peer_step i t u \<Longrightarrow> peer_step i st u"
  by (auto simp: peer_step_def)

lemma client_count_card: "client_count st = card {j. j < length (http_peers st) \<and> \<not> retired (http_peers st ! j)}"
  by (simp add: client_count_def length_filter_conv_card)

lemma client_count_mono:
  assumes "length (http_peers st') = length (http_peers st)"
    and "\<And>j. j < length (http_peers st) \<Longrightarrow> retired (http_peers st ! j) \<Longrightarrow> retired (http_peers st' ! j)"
  shows "client_count st' \<le> client_count st"
  unfolding client_count_card using assms by (intro card_mono) auto

lemma lookup_Some: "lookup_peer a st = Some i \<Longrightarrow> i < length (http_peers st) \<and> psocket (http_peers st ! i) = a"
  using first_where_Some by (auto simp: lookup_peer_def)

lemma lookup_at:
  assumes "distinct (map psocket (http_peers st))" "i < length (http_peers st)"
  shows "lookup_peer (psocket (http_peers st ! i)) st = Some i"
proof (cases "lookup_peer (psocket (http_peers st ! i)) st")
  case None
  then show ?thesis using assms(2) by (auto simp: lookup_peer_def first_where_None)
next
  case (Some j)
  then show ?thesis using lookup_Some [OF Some] assms by (auto simp: distinct_conv_nth)
qed

lemma http_peer_lists: "map psocket (ps[i := p]) = (map psocket ps)[i := psocket p]"
  by (simp add: map_update)

lemma update_peer_fields [simp]:
  "limits (update_peer i f st) = limits st" "accepted_sockets (update_peer i f st) = accepted_sockets st"
  "running (update_peer i f st) = running st" "http_polling (update_peer i f st) = http_polling st"
  "length (http_peers (update_peer i f st)) = length (http_peers st)" "streams (update_peer i f st) = streams st"
  "tcp_reg (update_peer i f st) = tcp_reg st" "set_wf (update_peer i f st) = set_wf st"
  by (simp_all add: update_peer_def set_wf_def)

lemma update_peer_at:
  "i < length (http_peers st) \<Longrightarrow> http_peers (update_peer i f st) ! j = (if j = i then f (http_peers st ! i) else http_peers st ! j)"
  by (simp add: update_peer_def)

text \<open>A change to one peer that keeps its socket and whether it is retired.\<close>

lemma update_peer_base:
  assumes "http_base st" "i < length (http_peers st)" "psocket (f (http_peers st ! i)) = psocket (http_peers st ! i)"
    and "retired (f (http_peers st ! i)) = retired (http_peers st ! i)"
  shows "http_base (update_peer i f st)"
proof -
  let ?ps = "http_peers st"
  have sockets: "map psocket (http_peers (update_peer i f st)) = map psocket ?ps"
    using assms(2,3) by (simp add: update_peer_def http_peer_lists list_update_id [of "map psocket ?ps" i, simplified nth_map] list_update_same_conv)
  have "live_peer (update_peer i f st) a = live_peer st a" for a
    using assms(2,3,4) by (auto simp: live_peer_def update_peer_at)
  moreover have "client_count (update_peer i f st) \<le> client_count st"
    by (rule client_count_mono) (use assms(2,4) in \<open>auto simp: update_peer_at split: if_splits\<close>)
  moreover have "psocket ` set (http_peers (update_peer i f st)) = psocket ` set ?ps"
    using sockets by (metis list.set_map)
  ultimately show ?thesis using assms(1) sockets by (simp add: http_base_def)
qed

lemma peer_owned:
  assumes "http_base st" "i < length (http_peers st)"
  shows "psocket (http_peers st ! i) \<in> set (owned (accepted_sockets st)) \<and> 0 < psocket (http_peers st ! i)"
proof -
  have "psocket (http_peers st ! i) \<in> psocket ` set (http_peers st)" using assms(2) by simp
  then show ?thesis using assms(1) by (auto simp: http_base_def book_ok_def)
qed

lemma retire_step:
  assumes "http_base st" "lookup_peer a st = Some i"
  shows "peer_step i st (retire a st) \<and> retired (http_peers (retire a st) ! i) \<and> streams (retire a st) = streams st"
proof (cases "retired (http_peers st ! i)")
  case True
  then show ?thesis using assms(2) by (simp add: retire_def)
next
  case False
  let ?ps = "http_peers st" and ?u = "update_peer i (\<lambda>p. p\<lparr>retired := True\<rparr>) st"
  have i: "i < length ?ps" "psocket (?ps ! i) = a" using lookup_Some [OF assms(2)] by auto
  obtain b r where r: "registry_remove_socket (Some a) (tcp_reg st) = (b, r)" by fastforce
  have eq: "retire a st = ?u\<lparr>tcp_reg := r\<rparr>"
    using assms(2) False by (simp add: retire_def remove_stream_def r)
  have inv: "registry_inv (tcp_reg st)" using assms(1) by (simp add: http_base_def set_wf_def)
  note res = registry_remove_socket_result [OF inv r]
  have dist: "distinct (map psocket ?ps)" using assms(1) by (simp add: http_base_def)
  have sockets: "map psocket (http_peers ?u) = map psocket ?ps"
    using i by (simp add: update_peer_def http_peer_lists list_update_same_conv)
  have "distinct (registered (tcp_reg st))" using inv by (simp add: registry_inv_def registered_def distinct_map)
  then have reg: "set (registered r) = set (registered (tcp_reg st)) - {a}" using res by simp
  have pos: "a \<noteq> 0" using peer_owned [OF assms(1) i(1)] i(2) by simp
  have one: "psocket (?ps ! j) \<noteq> a" if "j < length ?ps" "j \<noteq> i" for j
    using dist i that by (auto simp: distinct_conv_nth)
  have "live_peer (?u\<lparr>tcp_reg := r\<rparr>) c \<longleftrightarrow> live_peer st c \<and> c \<noteq> a" for c
  proof -
    have "live_peer (?u\<lparr>tcp_reg := r\<rparr>) c \<longleftrightarrow>
        (\<exists>j<length ?ps. j \<noteq> i \<and> psocket (?ps ! j) = c \<and> \<not> retired (?ps ! j))"
      using i(1) by (auto simp: live_peer_def update_peer_at split: if_splits)
    then show ?thesis unfolding live_peer_def using one i(2) by metis
  qed
  moreover have "client_count (?u\<lparr>tcp_reg := r\<rparr>) \<le> client_count st"
    by (rule client_count_mono) (use i in \<open>auto simp: update_peer_at split: if_splits\<close>)
  moreover have "psocket ` set (http_peers ?u) = psocket ` set ?ps" using sockets by (metis list.set_map)
  moreover have "set_wf (?u\<lparr>tcp_reg := r\<rparr>)" using assms(1) res by (simp add: http_base_def set_wf_def update_peer_def)
  ultimately have "http_base (?u\<lparr>tcp_reg := r\<rparr>)"
    using assms(1) sockets reg pos by (auto simp: http_base_def)
  then show ?thesis
    using i by (simp add: peer_step_def eq update_peer_at)
qed

lemma peer_lookup: "http_base st \<Longrightarrow> i < length (http_peers st) \<Longrightarrow> lookup_peer (psocket (http_peers st ! i)) st = Some i"
  by (rule lookup_at) (simp_all add: http_base_def)

lemma update_stream_http [simp]:
  "limits (update_stream a f st) = limits st" "accepted_sockets (update_stream a f st) = accepted_sockets st"
  "running (update_stream a f st) = running st" "http_polling (update_stream a f st) = http_polling st"
  "http_peers (update_stream a f st) = http_peers st" "tcp_reg (update_stream a f st) = tcp_reg st"
  by (simp_all add: update_stream_def)

lemma update_stream_base:
  "http_base st \<Longrightarrow> length (slots s) = 7 \<Longrightarrow> http_base (update_stream a (\<lambda>_. Plain s) st)"
  by (simp add: http_base_def set_wf_update_stream live_peer_def client_count_def)

lemma plain_slots: "length (stream_slots x) = 7 \<Longrightarrow> length (slots (plain x)) = 7"
  by (cases x) (simp_all add: plain_def ev_of_sock_def sock.defs ev_sock.defs)

lemma base_slots: "http_base st \<Longrightarrow> length (slots (plain (streams st a))) = 7"
  by (rule plain_slots) (simp add: http_base_def set_wf_slots)

lemma queue_write_slots: "queue_write_string accepts d s = (b, s') \<Longrightarrow> slots s' = slots s"
  by (auto simp: queue_write_string_def queue_write_def Let_def split: if_splits)

text \<open>An answer leaves a peer that reads on, or one that is closing or retired if it says close.\<close>

lemma send_response_step:
  assumes "http_base st" "i < length (http_peers st)"
    and "send_response i status type body head close allow http10 st = (b, st')"
  shows "peer_step i st st' \<and> (close \<longrightarrow> retired (http_peers st' ! i) \<or> closing (http_peers st' ! i)) \<and>
    incoming (http_peers st' ! i) = incoming (http_peers st ! i)"
proof -
  let ?a = "psocket (http_peers st ! i)"
  obtain ok s where q: "queue_write_string (\<lambda>_. True)
      (bytes_of (response_text status type body head close allow http10)) (plain (streams st ?a)) = (ok, s)"
    by fastforce
  let ?st = "update_stream ?a (\<lambda>_. Plain s) st"
  have s7: "length (slots s) = 7" using queue_write_slots [OF q] base_slots [OF assms(1)] by simp
  have base: "http_base ?st" by (rule update_stream_base [OF assms(1) s7])
  have step: "peer_step i st ?st" using base by (simp add: peer_step_def)
  note d = assms(3) [unfolded send_response_def Let_def q prod.case]
  show ?thesis
  proof (cases ok)
    case False
    have l: "lookup_peer ?a ?st = Some i" using peer_lookup [OF assms(1,2)] by (simp add: lookup_peer_def)
    note r = retire_step [OF base l]
    have "incoming (http_peers (retire ?a ?st) ! i) = incoming (http_peers st ! i)"
      using assms(2) l by (simp add: retire_def remove_stream_def Let_def update_peer_at split: prod.split)
    then show ?thesis using d False r peer_step_trans [OF step] by auto
  next
    case True
    have "http_base (update_peer i (\<lambda>p. p\<lparr>closing := True\<rparr>) ?st)"
      by (rule update_peer_base [OF base]) (use assms(2) in simp_all)
    then have "peer_step i ?st (update_peer i (\<lambda>p. p\<lparr>closing := True\<rparr>) ?st)"
      using assms(2) by (simp add: peer_step_def update_peer_at)
    then show ?thesis using d True step peer_step_trans [OF step] assms(2) by (auto simp: update_peer_at)
  qed
qed

lemma send_step:
  assumes "http_base st" "i < length (http_peers st)"
  shows "peer_step i st (snd (send_response i status type body head close allow http10 st)) \<and>
    (close \<longrightarrow> retired (http_peers (snd (send_response i status type body head close allow http10 st)) ! i) \<or>
      closing (http_peers (snd (send_response i status type body head close allow http10 st)) ! i)) \<and>
    incoming (http_peers (snd (send_response i status type body head close allow http10 st)) ! i) =
      incoming (http_peers st ! i)"
proof -
  obtain b st' where r: "send_response i status type body head close allow http10 st = (b, st')" by fastforce
  show ?thesis unfolding r snd_conv by (rule send_response_step [OF assms r])
qed

lemma too_large_step:
  assumes "http_base st" "i < length (http_peers st)"
  shows "peer_step i st (too_large i st) \<and>
    (retired (http_peers (too_large i st) ! i) \<or> closing (http_peers (too_large i st) ! i))"
  using send_step [OF assms, of 431 text_plain _ False True False False] by (simp add: too_large_def)

lemma handle_request_step:
  assumes "http_base st" "i < length (http_peers st)"
  shows "peer_step i st (handle_request i raw st) \<and>
    incoming (http_peers (handle_request i raw st) ! i) = incoming (http_peers st ! i)"
  using send_step [OF assms] by (simp add: handle_request_def Let_def)

lemma too_many_step:
  assumes "http_base st" "i < length (http_peers st)"
  shows "peer_step i st (too_many i st) \<and>
    (retired (http_peers (too_many i st) ! i) \<or> closing (http_peers (too_many i st) ! i))"
  using send_step [OF assms, of 400 text_plain _ False True False False] by (simp add: too_many_def)

lemma peer_step_base: "peer_step i st st' \<Longrightarrow> http_base st \<Longrightarrow> i < length (http_peers st) \<Longrightarrow>
    http_base st' \<and> i < length (http_peers st') \<and> limits st' = limits st"
  by (simp add: peer_step_def)

lemma answer_first_step:
  assumes "http_base st" "i < length (http_peers st)"
  shows "peer_step i st (answer_first e i st) \<and>
    incoming (http_peers (answer_first e i st) ! i) = drop (e + 4) (incoming (http_peers st ! i))"
proof -
  let ?s = "update_peer i (\<lambda>p. p\<lparr>incoming := drop (e + 4) (incoming p)\<rparr>) st"
  have "http_base ?s" by (rule update_peer_base [OF assms]) simp_all
  then have 1: "peer_step i st ?s" using assms(2) by (simp add: peer_step_def update_peer_at)
  note b = peer_step_base [OF 1 assms]
  note 2 = handle_request_step [of ?s i]
  show ?thesis
    using peer_step_trans [OF 1] 2 b assms(2) by (simp add: answer_first_def Let_def update_peer_at)
qed

text \<open>The branches of the loop.\<close>

lemma receive_loop_stop: "retired (http_peers st ! i) \<or> closing (http_peers st ! i) \<Longrightarrow> receive_loop n i st = st"
  by (subst receive_loop.simps) (simp only: Let_def if_True)

lemma receive_loop_wait:
  assumes "\<not> (retired (http_peers st ! i) \<or> closing (http_peers st ! i))"
    and "find_from (crlf @ crlf) (incoming (http_peers st ! i)) 0 = None"
  shows "receive_loop n i st =
    (if length (incoming (http_peers st ! i)) > max_header_bytes (limits st) then too_large i st else st)"
  by (subst receive_loop.simps) (simp only: Let_def if_not_P [OF assms(1)] assms(2) option.case)

lemma receive_loop_large:
  assumes "\<not> (retired (http_peers st ! i) \<or> closing (http_peers st ! i))"
    and "find_from (crlf @ crlf) (incoming (http_peers st ! i)) 0 = Some e" "e + 4 > max_header_bytes (limits st)"
  shows "receive_loop n i st = too_large i st"
  by (subst receive_loop.simps) (simp only: Let_def if_not_P [OF assms(1)] assms(2) option.case if_P [OF assms(3)])

lemma receive_loop_next:
  assumes "\<not> (retired (http_peers st ! i) \<or> closing (http_peers st ! i))"
    and "find_from (crlf @ crlf) (incoming (http_peers st ! i)) 0 = Some e" "\<not> e + 4 > max_header_bytes (limits st)"
  shows "receive_loop n i st = (case n of 0 \<Rightarrow> too_many i st | Suc m \<Rightarrow> receive_loop m i (answer_first e i st))"
  by (subst receive_loop.simps) (simp only: Let_def if_not_P [OF assms(1)] assms(2) option.case if_not_P [OF assms(3)])

text \<open>After the loop the peer is on its way out, or waits for the rest of a bounded head.\<close>

definition settled :: "nat \<Rightarrow> http_server \<Rightarrow> bool" where
  "settled i st \<longleftrightarrow> (let p = http_peers st ! i in
     retired p \<or> closing p \<or> length (incoming p) \<le> max_header_bytes (limits st))"

lemma receive_loop_step:
  assumes "http_base st" "i < length (http_peers st)"
  shows "peer_step i st (receive_loop n i st) \<and> settled i (receive_loop n i st)"
  using assms
proof (induction n arbitrary: st)
  case (0 st)
  let ?p = "http_peers st ! i"
  note large = too_large_step [OF 0] and many = too_many_step [OF 0]
  show ?case
  proof (cases "retired ?p \<or> closing ?p")
    case True
    then show ?thesis by (auto simp: receive_loop_stop settled_def)
  next
    case False
    then show ?thesis
      using large many receive_loop_wait [OF False, of 0] receive_loop_large [OF False, of _ 0]
        receive_loop_next [OF False, of _ 0]
      by (cases "find_from (crlf @ crlf) (incoming ?p) 0";
          cases "the (find_from (crlf @ crlf) (incoming ?p) 0) + 4 > max_header_bytes (limits st)")
        (auto simp: settled_def Let_def split: if_splits)
  qed
next
  case (Suc n st)
  let ?p = "http_peers st ! i"
  note large = too_large_step [OF Suc.prems]
  consider "retired ?p \<or> closing ?p"
    | "\<not> (retired ?p \<or> closing ?p)" "find_from (crlf @ crlf) (incoming ?p) 0 = None"
    | e where "\<not> (retired ?p \<or> closing ?p)" "find_from (crlf @ crlf) (incoming ?p) 0 = Some e"
        "e + 4 > max_header_bytes (limits st)"
    | e where "\<not> (retired ?p \<or> closing ?p)" "find_from (crlf @ crlf) (incoming ?p) 0 = Some e"
        "\<not> e + 4 > max_header_bytes (limits st)"
    by (cases "find_from (crlf @ crlf) (incoming ?p) 0") blast+
  then show ?case
  proof cases
    case 1
    then show ?thesis by (auto simp: receive_loop_stop settled_def)
  next
    case 2
    then show ?thesis using large by (auto simp: receive_loop_wait settled_def Let_def)
  next
    case 3
    then show ?thesis using large by (auto simp: receive_loop_large settled_def Let_def)
  next
    case (4 e)
    note f = answer_first_step [OF Suc.prems, of e]
    have b: "http_base (answer_first e i st)" "i < length (http_peers (answer_first e i st))"
      using peer_step_base [of i st "answer_first e i st"] f Suc.prems by auto
    have "receive_loop (Suc n) i st = receive_loop n i (answer_first e i st)"
      by (simp only: receive_loop_next [OF 4] nat.case)
    then show ?thesis using Suc.IH [OF b] peer_step_trans f by auto
  qed
qed

section \<open>The handlers keep the invariant\<close>

text \<open>Sockets the listener owns although no peer of the server refers to them.\<close>

definition stranded :: "http_server \<Rightarrow> nat set" where
  "stranded st = set (owned (accepted_sockets st)) - psocket ` set (http_peers st)"

definition http_frame :: "http_server \<Rightarrow> http_server \<Rightarrow> bool" where
  "http_frame st st' \<longleftrightarrow> limits st' = limits st \<and> running st' = running st \<and> http_polling st' = http_polling st \<and>
    stranded st \<subseteq> stranded st'"

lemma http_frame_refl [simp]: "http_frame st st"
  by (simp add: http_frame_def)

lemma http_frame_trans [trans]: "http_frame st t \<Longrightarrow> http_frame t u \<Longrightarrow> http_frame st u"
  by (auto simp: http_frame_def)

lemma peer_step_frame:
  assumes "peer_step i st st'"
  shows "http_frame st st'"
proof -
  have "map psocket (http_peers st') = map psocket (http_peers st)"
  proof (rule nth_equalityI)
    fix j
    assume "j < length (map psocket (http_peers st'))"
    then show "map psocket (http_peers st') ! j = map psocket (http_peers st) ! j"
      using assms by (cases "j = i") (auto simp: peer_step_def)
  qed (use assms in \<open>simp add: peer_step_def\<close>)
  then have "psocket ` set (http_peers st') = psocket ` set (http_peers st)" by (metis list.set_map)
  then show ?thesis using assms by (simp add: http_frame_def peer_step_def stranded_def)
qed

text \<open>A step on one peer keeps the invariant if that peer ends up bounded.\<close>

lemma peer_step_inv:
  assumes "http_inv st" "peer_step i st st'" "i < length (http_peers st)"
    and "peer_bounded (max_header_bytes (limits st')) (http_peers st' ! i)"
  shows "http_inv st'"
proof -
  have len: "length (http_peers st') = length (http_peers st)" "limits st' = limits st"
    using assms(2) by (simp_all add: peer_step_def)
  have "peer_bounded (max_header_bytes (limits st')) (http_peers st' ! j)" if "j < length (http_peers st')" for j
    using assms that len by (cases "j = i") (auto simp: peer_step_def http_inv_def)
  then show ?thesis
    using assms(1,2) by (auto simp: http_inv_def peer_step_def in_set_conv_nth)
qed

lemma serve_step:
  assumes "http_base st" "i < length (http_peers st)"
  shows "peer_step i st (serve i st) \<and>
    peer_bounded (max_header_bytes (limits st)) (http_peers (serve i st) ! i)"
proof -
  let ?l = "receive_loop max_pipelined_per_event i st"
  note l = receive_loop_step [OF assms, of max_pipelined_per_event]
  note b = peer_step_base [OF conjunct1 [OF l] assms]
  let ?c = "if closing (http_peers ?l ! i) then update_peer i (\<lambda>p. p\<lparr>incoming := []\<rparr>) ?l else ?l"
  have c: "peer_step i ?l ?c"
    using update_peer_base [of ?l i "\<lambda>p. p\<lparr>incoming := []\<rparr>"] b by (auto simp: peer_step_def update_peer_at)
  have p: "peer_bounded (max_header_bytes (limits st)) (http_peers ?c ! i)"
    using l b by (auto simp: peer_bounded_def settled_def Let_def update_peer_at)
  have lim: "limits ?c = limits st" using b by simp
  have no: "\<not> (\<not> retired (http_peers ?c ! i) \<and> \<not> closing (http_peers ?c ! i) \<and>
      length (incoming (http_peers ?c ! i)) > max_header_bytes (limits ?c))"
    using p unfolding lim peer_bounded_def by auto
  have eq: "serve i st = ?c" unfolding serve_def Let_def if_not_P [OF no] ..
  show ?thesis unfolding eq using peer_step_trans [OF conjunct1 [OF l] c] p by blast
qed

lemma receive_inv:
  assumes "http_inv st" "receive os a d st w = (st', w')"
  shows "http_inv st' \<and> http_frame st st'"
proof (cases "lookup_peer a st")
  case None
  then show ?thesis using assms by (simp add: receive_def)
next
  case (Some i)
  let ?p = "http_peers st ! i"
  have i: "i < length (http_peers st)" using lookup_Some [OF Some] by simp
  have base: "http_base st" using assms(1) by (simp add: http_inv_def)
  show ?thesis
  proof (cases "retired ?p \<or> closing ?p \<or> d = []")
    case True
    then show ?thesis using assms Some by (simp add: receive_def)
  next
    case False
    obtain t w1 where t: "now os w = (t, w1)" by fastforce
    let ?u = "update_peer i (\<lambda>p. p\<lparr>last_activity := t, incoming := incoming p @ text_of d\<rparr>) st"
    have eq: "st' = serve i ?u"
      using assms(2) unfolding receive_def Some option.case Let_def if_not_P [OF False] t by simp
    have ub: "http_base ?u" by (rule update_peer_base [OF base i]) simp_all
    have u: "peer_step i st ?u" using ub i by (simp add: peer_step_def update_peer_at)
    note s = serve_step [OF ub, of i]
    have step: "peer_step i st st'" using peer_step_trans [OF u] s i by (simp add: eq)
    have "limits st' = limits st" using step by (simp add: peer_step_def)
    then have "http_inv st'" using peer_step_inv [OF assms(1) step i] s i by (simp add: eq)
    then show ?thesis using peer_step_frame [OF step] by simp
  qed
qed

lemma retire_inv:
  assumes "http_inv st"
  shows "http_inv (retire a st) \<and> http_frame st (retire a st)"
proof (cases "lookup_peer a st")
  case None
  then show ?thesis using assms by (simp add: retire_def)
next
  case (Some i)
  have i: "i < length (http_peers st)" using lookup_Some [OF Some] by simp
  have base: "http_base st" using assms(1) by (simp add: http_inv_def)
  note r = retire_step [OF base Some]
  have "closing (http_peers (retire a st) ! i) = closing (http_peers st ! i)"
    "incoming (http_peers (retire a st) ! i) = incoming (http_peers st ! i)"
    using i Some by (auto simp: retire_def remove_stream_def Let_def update_peer_at split: prod.split)
  then have "peer_bounded (max_header_bytes (limits (retire a st))) (http_peers (retire a st) ! i)"
    using r assms i by (auto simp: peer_bounded_def http_inv_def)
  then show ?thesis using peer_step_inv [OF assms] r i peer_step_frame by blast
qed

lemma drained_inv: "http_inv st \<Longrightarrow> http_inv (drained a st) \<and> http_frame st (drained a st)"
  using retire_inv by (auto simp: drained_def split: option.split)

section \<open>Listener operations of the server\<close>

lemma listener_wf_get: "http_base st \<Longrightarrow> listener_wf (get_listener st)"
  using base_slots by (simp add: listener_wf_def get_listener_def ev_sock.defs)

lemma get_listener_book [simp]:
  "owned (ev_accepted (get_listener st)) = owned (accepted_sockets st)"
  "members (ev_accepted (get_listener st)) = members (accepted_sockets st)"
  "next_peer (ev_accepted (get_listener st)) = next_peer (accepted_sockets st)"
  by (simp_all add: get_listener_def ev_sock.defs)

lemma put_listener_fields [simp]:
  "limits (put_listener s st) = limits st" "http_peers (put_listener s st) = http_peers st"
  "running (put_listener s st) = running st" "http_polling (put_listener s st) = http_polling st"
  "tcp_reg (put_listener s st) = tcp_reg st" "accepted_sockets (put_listener s st) = ev_accepted s"
  by (simp_all add: put_listener_def)

lemma put_listener_wf: "set_wf st \<Longrightarrow> listener_wf s \<Longrightarrow> set_wf (put_listener s st)"
  by (simp add: set_wf_def put_listener_def listener_wf_def ev_sock.defs)

lemma put_listener_base:
  assumes "http_base st" "listener_wf s" "book_ok (ev_accepted s)"
    "psocket ` set (http_peers st) \<subseteq> set (owned (ev_accepted s))"
  shows "http_base (put_listener s st)"
  using assms put_listener_wf by (simp add: http_base_def live_peer_def client_count_def)

lemma same_book_ok: "same_book (get_listener st) s \<Longrightarrow> book_ok (accepted_sockets st) \<Longrightarrow> book_ok (ev_accepted s)"
  by (simp add: same_book_def book_ok_def peers_inv_def)

lemma put_listener_same:
  assumes "http_base st" "same_book (get_listener st) s"
  shows "http_base (put_listener s st) \<and> http_frame st (put_listener s st)"
proof -
  have "listener_wf s" using assms listener_wf_get by (simp add: same_book_def)
  moreover have "book_ok (ev_accepted s)" using same_book_ok assms by (simp add: http_base_def)
  moreover have "owned (ev_accepted s) = owned (accepted_sockets st)" using assms(2) by (simp add: same_book_def)
  ultimately show ?thesis
    using put_listener_base [OF assms(1)] assms(1) by (simp add: http_base_def http_frame_def stranded_def)
qed

lemma inv_base: "http_inv st \<Longrightarrow> http_base st"
  by (simp add: http_inv_def)

lemma http_inv_cong:
  assumes "http_inv st" "http_base st'" "http_peers st' = http_peers st" "limits st' = limits st"
  shows "http_inv st'"
  using assms by (simp add: http_inv_def)

lemma update_stream_inv:
  "http_inv st \<Longrightarrow> length (slots s) = 7 \<Longrightarrow> http_inv (update_stream a (\<lambda>_. Plain s) st)"
  using update_stream_base by (simp add: http_inv_def)

lemma stranded_update_stream [simp]: "stranded (update_stream a f st) = stranded st"
  by (simp add: stranded_def)

text \<open>What becomes of an accepted socket: a live peer, or a closed socket that nobody refers to.\<close>

lemma admit_inv:
  assumes "http_inv st" "a \<in> stranded st" "admit os a st w = (st', w')"
  shows "http_inv st' \<and> limits st' = limits st \<and> running st' = running st \<and> http_polling st' = http_polling st \<and>
    accepted_sockets st' = accepted_sockets st \<and> stranded st - {a} \<subseteq> stranded st' \<and>
    (client_count st \<ge> max_clients (limits st) \<longrightarrow>
      http_peers st' = http_peers st \<and> tcp_reg st' = tcp_reg st \<and> sockfd (plain (streams st' a)) < 0 \<and>
      (\<forall>c. c \<noteq> a \<longrightarrow> streams st' c = streams st c))"
proof -
  note base = inv_base [OF assms(1)]
  obtain b s where q: "set_max_queued_bytes (max_queued (limits st)) (plain (streams st a)) = (b, s)" by fastforce
  have s7: "length (slots s) = 7"
    using q base_slots [OF base, of a] by (auto simp: set_max_queued_bytes_def split: if_splits)
  let ?full = "client_count st \<ge> max_clients (limits st)"
  let ?st = "if ?full then st else update_stream a (\<lambda>_. Plain s) st"
  have inv: "http_inv ?st" using assms(1) update_stream_inv [OF assms(1) s7] by simp
  have flds: "limits ?st = limits st" "running ?st = running st" "http_polling ?st = http_polling st"
    "accepted_sockets ?st = accepted_sockets st" "http_peers ?st = http_peers st" "tcp_reg ?st = tcp_reg st"
    "stranded ?st = stranded st" by simp_all
  have split: "(if ?full then (False, st) else let (b, s) = set_max_queued_bytes (max_queued (limits st))
      (plain (streams st a)) in (b, update_stream a (\<lambda>_. Plain s) st)) = (\<not> ?full \<and> b, ?st)"
    by (simp add: q)
  note d = assms(3) [unfolded admit_def split, unfolded Let_def prod.case]
  show ?thesis
  proof (cases "\<not> ?full \<and> b")
    case False
    obtain c x w1 where x: "event_close no_user os (plain (streams ?st a)) w = (c, x, w1)" by (rule prod_cases3)
    have x7: "length (slots x) = 7" using event_close_slots [OF x] base_slots [OF inv_base [OF inv]] by simp
    have fd: "sockfd x < 0"
      using x by (auto simp: event_close_eq fire_def no_user_def dest: base_close.cl_releases split: prod.splits if_splits)
    have eq: "st' = update_stream a (\<lambda>_. Plain x) ?st" using d False x by (simp del: if_split)
    show ?thesis
      using update_stream_inv [OF inv x7] flds fd unfolding eq
      by (simp del: if_split) (auto simp: update_stream_def plain_def)
  next
    case True
    obtain t w1 where t: "now os w = (t, w1)" by fastforce
    obtain added r where r: "registry_add (Some a) (tcp_reg st) = (added, r)" by fastforce
    let ?p = "\<lparr>psocket = a, incoming = [], last_activity = t, closing = False, retired = False\<rparr>"
    have wf: "set_wf ?st" using inv by (simp add: http_inv_def http_base_def)
    note add = registry_add_result [of "tcp_reg st" a added r]
    have ireg: "registry_inv (tcp_reg st)" using base by (simp add: http_base_def set_wf_def)
    have owned: "a \<in> set (owned (accepted_sockets st))" "a \<notin> psocket ` set (http_peers st)"
      using assms(2) by (simp_all add: stranded_def)
    have a0: "a \<noteq> 0" using owned base by (auto simp: http_base_def book_ok_def)
    have "\<not> live_peer st a" using owned(2) by (auto simp: live_peer_def)
    then have new: "a \<notin> set (registered (tcp_reg st))" using base a0 by (simp add: http_base_def)
    then have added: "added" "registered r = registered (tcp_reg st) @ [a]" "registry_inv r"
      using registry_add_result [OF ireg r] by auto
    let ?u = "(update_stream a (\<lambda>_. Plain s) st)\<lparr>tcp_reg := r, http_peers := http_peers st @ [?p]\<rparr>"
    have eq: "st' = ?u" using d True t r added(1) by (simp add: add_stream_def)
    have live: "live_peer ?u c \<longleftrightarrow> live_peer st c \<or> c = a" for c
      by (simp add: live_peer_set image_iff) (metis http_peer.select_convs(1,5))
    have count: "client_count ?u = Suc (client_count st)" by (simp add: client_count_def)
    have "set_wf ?u" using wf True added(3) by (simp add: set_wf_def)
    then have "http_base ?u"
      using base owned live count added(2) True by (auto simp: http_base_def)
    then have "http_inv ?u" using assms(1) by (auto simp: http_inv_def peer_bounded_def)
    then show ?thesis using True by (auto simp: eq stranded_def)
  qed
qed

lemma accept_some:
  assumes "http_inv st" "server_event_accept os False (get_listener st) w = (Some p, s, w')"
  shows "http_inv (put_listener s st) \<and> p \<in> stranded (put_listener s st) \<and>
    p \<notin> set (owned (accepted_sockets st)) \<and> owned (ev_accepted s) = owned (accepted_sockets st) @ [p] \<and>
    stranded (put_listener s st) = insert p (stranded st)"
proof -
  note base = inv_base [OF assms(1)]
  note b = accept_book [OF assms(2), simplified]
  have ok: "book_ok (accepted_sockets st)" using base by (simp add: http_base_def)
  have new: "p \<notin> set (owned (accepted_sockets st))" using ok b by (auto simp: book_ok_def)
  have "book_ok (ev_accepted s)" using ok b new by (auto simp: book_ok_def peers_inv_def less_Suc_eq)
  moreover have sub: "psocket ` set (http_peers st) \<subseteq> set (owned (accepted_sockets st))"
    using base by (simp add: http_base_def)
  moreover have "listener_wf s" using b listener_wf_get [OF base] by blast
  moreover have "psocket ` set (http_peers st) \<subseteq> set (owned (ev_accepted s))" using sub b by auto
  ultimately have "http_base (put_listener s st)" by (intro put_listener_base [OF base])
  then show ?thesis using http_inv_cong [OF assms(1)] b new sub by (auto simp: stranded_def)
qed

lemma accept_loop_inv:
  assumes "http_inv st" "accept_loop os n st w = (st', w')"
  shows "http_inv st' \<and> http_frame st st'"
  using assms
proof (induction n arbitrary: st w)
  case (Suc n)
  obtain p s w1 where a: "server_event_accept os False (get_listener st) w = (p, s, w1)" by (rule prod_cases3)
  show ?case
  proof (cases p)
    case None
    have "same_book (get_listener st) s" using accept_book [OF a] None by simp
    note same = put_listener_same [OF inv_base [OF Suc.prems(1)] this]
    have "st' = put_listener s st" using Suc.prems(2) None by (simp add: a)
    then show ?thesis using same http_inv_cong [OF Suc.prems(1), of "put_listener s st"] by simp
  next
    case (Some q)
    note acc = accept_some [OF Suc.prems(1) a [unfolded Some]]
    obtain st1 w2 where m: "admit os q (put_listener s st) w1 = (st1, w2)" by fastforce
    note adm = admit_inv [OF conjunct1 [OF acc] conjunct1 [OF conjunct2 [OF acc]] m]
    have "q \<notin> stranded st" using acc by (simp add: stranded_def)
    moreover have "stranded (put_listener s st) = insert q (stranded st)" using acc by blast
    moreover have "stranded (put_listener s st) - {q} \<subseteq> stranded st1" using adm by blast
    ultimately have "stranded st \<subseteq> stranded st1" by simp
    then have f: "http_frame st st1" using adm by (simp add: http_frame_def)
    have "accept_loop os n st1 w2 = (st', w')" using Suc.prems(2) Some by (simp add: a m)
    from Suc.IH [OF conjunct1 [OF adm] this] show ?thesis using http_frame_trans [OF f] by blast
  qed
qed simp

lemma callback_inv:
  assumes "http_inv st" "http_callback os a ev st w = (st', w')"
  shows "http_inv st' \<and> http_frame st st'"
proof (cases ev)
  case (Ev_data d)
  then show ?thesis using assms receive_inv by (simp add: http_callback_def)
next
  case Ev_listen
  then show ?thesis
    using assms accept_loop_inv by (auto simp: http_callback_def accept_ready_def split: if_splits)
qed (use assms retire_inv drained_inv in \<open>auto simp: http_callback_def\<close>)

section \<open>Polling, starting and stopping\<close>

lemma listener_remove_step:
  assumes "set_wf st" "book_ok (accepted_sockets st)" "listener_remove os q st w = (st', w')"
  shows "set_wf st' \<and> book_ok (accepted_sockets st') \<and>
    set (owned (accepted_sockets st')) = set (owned (accepted_sockets st)) - {q} \<and>
    limits st' = limits st \<and> running st' = running st \<and> http_polling st' = http_polling st \<and>
    http_peers st' = http_peers st \<and> tcp_reg st' = tcp_reg st"
proof -
  obtain b s w1 where r: "server_event_remove_peer peer_close_call socket_destroy os (Some q) (get_listener st) w =
    (b, s, w1)" by (rule prod_cases3)
  have eq: "st' = put_listener s st" using assms(3) by (simp add: listener_remove_def r)
  note b = remove_book [OF r, simplified]
  have wf: "listener_wf (get_listener st)"
    using assms(1) plain_slots by (simp add: listener_wf_def get_listener_def ev_sock.defs set_wf_def)
  have d: "distinct (owned (accepted_sockets st))" using assms(2) by (simp add: book_ok_def peers_inv_def)
  have "book_ok (ev_accepted s)" using assms(2) b d by (auto simp: book_ok_def peers_inv_def remove1_idem)
  then show ?thesis using b d wf put_listener_wf [OF assms(1)] by (simp add: eq)
qed

lemma reap_loop_step:
  assumes "reap_loop os kept ps st w = (st', w')" "set_wf st" "book_ok (accepted_sockets st)"
  shows "set_wf st' \<and> book_ok (accepted_sockets st') \<and> http_peers st' = kept @ filter (\<lambda>p. \<not> retired p) ps \<and>
    set (owned (accepted_sockets st')) =
      set (owned (accepted_sockets st)) - psocket ` {p \<in> set ps. retired p} \<and>
    limits st' = limits st \<and> running st' = running st \<and> http_polling st' = http_polling st \<and> tcp_reg st' = tcp_reg st"
  using assms
proof (induction ps arbitrary: kept st w)
  case Nil
  then show ?case by (auto simp: set_wf_def)
next
  case (Cons p ps)
  show ?case
  proof (cases "retired p")
    case False
    then have "reap_loop os (kept @ [p]) ps st w = (st', w')" using Cons.prems(1) by simp
    from Cons.IH [OF this Cons.prems(2,3)] False show ?thesis
      by (auto simp: Collect_conv_if conj_disj_distribR)
  next
    case True
    obtain st1 w1 where r: "listener_remove os (psocket p) st w = (st1, w1)" by fastforce
    have "reap_loop os kept ps st1 w1 = (st', w')" using Cons.prems(1) True by (simp add: r)
    note ih = Cons.IH [OF this]
    have "psocket ` {q \<in> set (p # ps). retired q} = insert (psocket p) (psocket ` {q \<in> set ps. retired q})"
      using True by auto
    then show ?thesis using ih listener_remove_step [OF Cons.prems(2,3) r] True by auto
  qed
qed

lemma reap_inv:
  assumes "http_inv st" "reap os st w = (st', w')"
  shows "http_inv st' \<and> http_frame st st' \<and> (\<forall>p\<in>set (http_peers st'). \<not> retired p)"
proof -
  note base = inv_base [OF assms(1)]
  have "set_wf st" "book_ok (accepted_sockets st)" using base by (simp_all add: http_base_def)
  note r = reap_loop_step [OF assms(2) [unfolded reap_def] this, simplified]
  let ?live = "filter (\<lambda>p. \<not> retired p) (http_peers st)"
  have dist: "distinct (map psocket (http_peers st))" using base by (simp add: http_base_def)
  have "live_peer st' a = live_peer st a" for a using r by (auto simp: live_peer_set)
  moreover have "client_count st' = client_count st" using r by (simp add: client_count_def)
  moreover have "distinct (map psocket (http_peers st'))" using r dist by (simp add: distinct_map_filter)
  moreover have "psocket ` set ?live \<inter> psocket ` {p \<in> set (http_peers st). retired p} = {}"
    using dist by (auto simp: distinct_map inj_on_def)
  ultimately have "http_base st'"
    using base r by (auto simp: http_base_def)
  then have "http_inv st'" using assms(1) r by (auto simp: http_inv_def)
  moreover have "stranded st \<subseteq> stranded st'" using r by (auto simp: stranded_def)
  ultimately show ?thesis using r by (auto simp: http_frame_def)
qed

lemma expire_fold_inv: "http_inv st \<Longrightarrow> http_inv (fold (expire_at t) is st) \<and> http_frame st (fold (expire_at t) is st)"
proof (induction "is" arbitrary: st)
  case (Cons i "is")
  have "http_inv (expire_at t i st) \<and> http_frame st (expire_at t i st)"
    using retire_inv [OF Cons.prems] Cons.prems by (simp add: expire_at_def Let_def)
  with Cons.IH [of "expire_at t i st"] show ?case using http_frame_trans by auto
qed simp

lemma expire_inv: "http_inv st \<Longrightarrow> expire os st w = (st', w') \<Longrightarrow> http_inv st' \<and> http_frame st st'"
  using expire_fold_inv by (auto simp: expire_def Let_def split: if_splits prod.splits)

text \<open>The dispatcher works inside one poll of the server.\<close>

definition polling_inv :: "http_server \<Rightarrow> http_server \<Rightarrow> bool" where
  "polling_inv st0 st \<longleftrightarrow> http_inv st \<and> http_frame st0 st"

lemma inv_stream: "http_inv st \<Longrightarrow> length (stream_slots y) = 7 \<Longrightarrow> http_inv (st\<lparr>streams := (streams st)(a := y)\<rparr>)"
  by (simp add: http_inv_def http_base_def set_wf_def live_peer_def client_count_def)

lemma inv_datagram: "http_inv st \<Longrightarrow> length (uslots z) = 5 \<Longrightarrow> http_inv (st\<lparr>datagrams := (datagrams st)(a := z)\<rparr>)"
  by (simp add: http_inv_def http_base_def set_wf_def live_peer_def client_count_def)

lemma inv_flags: "http_inv (st\<lparr>polling := b\<rparr>) = http_inv st" "http_inv (st\<lparr>http_polling := c\<rparr>) = http_inv st"
  by (simp_all add: http_inv_def http_base_def set_wf_def live_peer_def client_count_def)

interpretation http_users: set_users "polling_inv st0" "http_handlers os" for st0 os
proof
  show "handlers_keep (polling_inv st0) (http_handlers os)"
    using callback_inv http_frame_trans
    by (auto simp: handlers_keep_def http_handlers_def polling_inv_def) (metis prod.collapse)+
  fix st :: http_server and y a z b
  assume inv: "polling_inv st0 st"
  then show "set_wf st" by (simp add: polling_inv_def http_inv_def http_base_def)
  show "polling_inv st0 (st\<lparr>streams := (streams st)(a := y)\<rparr>)" if "length (stream_slots y) = 7"
    using inv that inv_stream by (simp add: polling_inv_def http_frame_def stranded_def)
  show "polling_inv st0 (st\<lparr>datagrams := (datagrams st)(a := z)\<rparr>)" if "length (uslots z) = 5"
    using inv that inv_datagram by (simp add: polling_inv_def http_frame_def stranded_def)
  show "polling_inv st0 (st\<lparr>polling := b\<rparr>)"
    using inv inv_flags by (simp add: polling_inv_def http_frame_def stranded_def)
qed

lemma http_poll_inv:
  assumes "http_inv st" "http_poll os timeout st w = Some (n, st', w')"
  shows "http_inv st' \<and> http_frame st st' \<and>
    (running st \<and> \<not> http_polling st \<longrightarrow> (\<forall>p\<in>set (http_peers st'). \<not> retired p))"
proof (cases "\<not> running st \<or> http_polling st")
  case True
  then show ?thesis using assms by (auto simp: http_poll_def)
next
  case False
  let ?st = "st\<lparr>http_polling := True\<rparr>"
  note d = assms(2) [unfolded http_poll_def if_not_P [OF False]]
  obtain m st1 w1 where p: "event_set_poll (http_handlers os) os timeout ?st w = Some (m, st1, w1)"
    using d by (auto split: option.splits)
  let ?st1 = "st1\<lparr>http_polling := False\<rparr>"
  obtain st2 w2 where e: "expire os ?st1 w1 = (st2, w2)" by fastforce
  obtain st3 w3 where r: "reap os st2 w2 = (st3, w3)" by fastforce
  have eq: "st' = st3" using d by (simp add: p e r)
  have "polling_inv ?st st1"
    by (rule http_users.poll_keeps [OF _ p]) (use assms(1) inv_flags in \<open>simp add: polling_inv_def\<close>)
  then have 1: "http_inv ?st1" "http_frame st ?st1"
    using False inv_flags by (simp_all add: polling_inv_def http_frame_def stranded_def)
  note 2 = expire_inv [OF 1(1) e]
  note 3 = reap_inv [OF conjunct1 [OF 2] r]
  show ?thesis using 3 http_frame_trans [OF 1(2) http_frame_trans [OF conjunct2 [OF 2]]] eq by blast
qed

lemma event_new_slots:
  assumes "server_event_new os w = (s, w')"
  shows "listener_wf s \<and> ev_accepted s = accepted_empty (ev_of_sock sock_init)"
proof -
  obtain y w1 where y: "socket_default os w = (y, w1)" by fastforce
  obtain r z w2 where z: "set_blocking os False (ev_of_sock y) w1 = (r, z, w2)" by (rule prod_cases3)
  obtain c u w3 where u: "socket_close os z w2 = (c, u, w3)" by (rule prod_cases3)
  have init: "length (slots (ev_of_sock v)) = 7" for v by (simp add: ev_of_sock_def sock.defs ev_sock.defs)
  have 1: "length (slots z) = 7" using same_more_slots [OF set_blocking_more [OF z]] init by simp
  have 2: "length (slots u) = 7" using same_more_slots [OF socket_close_more [OF u]] 1 by simp
  have "\<exists>x. s = server_event_of x \<and> length (slots x) = 7"
    using assms init [of y] 1 2 unfolding server_event_new_def event_socket_new_def event_socket_setup_def y Let_def prod.case z u
    by (cases "is_valid_socket (ev_of_sock y)"; cases "r = 0") auto
  then obtain x where x: "s = server_event_of x" "length (slots x) = 7" by blast
  have "slots s = slots x" "ev_accepted s = accepted_empty (ev_of_sock sock_init)"
    by (simp_all add: x(1) server_event_of_def ev_sock.defs)
  moreover have "length (slots (peer_heap (accepted_empty (ev_of_sock sock_init)) a)) = 7" for a
    by (simp add: accepted_empty_def peers.defs init)
  ultimately show ?thesis using x(2) by (simp add: listener_wf_def)
qed

lemma http_new_inv:
  assumes "http_new lim os w = (st, w')"
  shows "http_inv st \<and> limits st = lim \<and> \<not> running st \<and> \<not> http_polling st \<and> http_peers st = []"
proof -
  obtain s w1 where s: "server_event_new os w = (s, w1)" by fastforce
  note n = event_new_slots [OF s]
  have book: "book_ok (ev_accepted s)"
    using n by (simp add: book_ok_def accepted_empty_def peers.defs peers_empty_def set_empty_def peers_inv_def)
  let ?set = "fold (\<lambda>slot st. the (on_socket slot True st)) [set_listen, set_data, set_drain, set_close, set_on_error] event_set_new"
  let ?st = "event_set.extend ?set \<lparr>limits = lim, accepted_sockets = accepted_empty (ev_of_sock sock_init),
      accept_wait_ms = 0, http_peers = [], running = False, http_polling = False\<rparr>"
  have eq: "st = put_listener s ?st" using assms by (simp add: http_new_def s del: fold_simps)
  have set: "?set = event_set_new\<lparr>set_slots := [True, False, True, True, True, True, False, False]\<rparr>"
    by (simp add: on_socket_def event_set_new_def numeral_eq_Suc)
  have fields: "limits ?st = lim" "accepted_sockets ?st = accepted_empty (ev_of_sock sock_init)" "http_peers ?st = []"
    "running ?st = False" "http_polling ?st = False" "tcp_reg ?st = registry_empty"
    unfolding set by (simp_all add: event_set.defs event_set_new_def)
  have "set_wf ?st"
    unfolding set by (simp add: set_wf_def event_set.defs event_set_new_def ev_of_sock_def sock.defs ev_sock.defs udp_sock.defs)
  then have "set_wf st" using put_listener_wf n eq by simp
  then have "http_inv st"
    using book fields by (simp add: eq http_inv_def http_base_def live_peer_def client_count_def)
  then show ?thesis using fields by (simp add: eq)
qed

lemma http_start_inv:
  assumes "http_inv st" "http_start os address port st w = (b, st', w')"
  shows "http_inv st' \<and> limits st' = limits st \<and> http_polling st' = http_polling st \<and> http_peers st' = http_peers st \<and>
    stranded st \<subseteq> stranded st' \<and> (running st \<longrightarrow> running st')"
proof -
  obtain ok s w1 where l: "server_event_listen_on (\<lambda>os. no_user) peer_close_call os address port (get_listener st) w =
    (ok, s, w1)" by (rule prod_cases3)
  let ?l = "put_listener s st"
  obtain added r where r: "registry_add (Some 0) (tcp_reg st) = (added, r)" by fastforce
  note p = put_listener_same [OF inv_base [OF assms(1)] same_book_listen [OF l]]
  have pinv: "http_inv ?l" using http_inv_cong [OF assms(1), of ?l] p by simp
  show ?thesis
  proof (cases "running st \<or> http_polling st \<or> address = None \<or> max_clients (limits st) = 0 \<or>
      max_header_bytes (limits st) < 32 \<or> max_queued (limits st) < 256 \<or> idle_timeout_ms (limits st) < 0")
    case True
    then have "st' = st" using assms(2) unfolding http_start_def if_P [OF True] by simp
    then show ?thesis using assms(1) by simp
  next
    case False
    have "registry_inv (tcp_reg st)" "0 \<notin> set (registered (tcp_reg st))"
      using inv_base [OF assms(1)] False peer_owned [OF inv_base [OF assms(1)]]
      by (auto simp: http_base_def set_wf_def live_peer_def)
    note a = registry_add_result [OF this(1) r] this(2)
    then have added: added by simp
    have add: "add_stream (Some 0) ?l = (True, ?l\<lparr>tcp_reg := r\<rparr>)" using added by (simp add: add_stream_def r)
    note d = assms(2) [unfolded http_start_def if_not_P [OF False] l Let_def prod.case add]
    show ?thesis
    proof (cases ok)
      case ok: False
      have "st' = ?l" using d by (simp add: ok)
      then show ?thesis using pinv p by (simp add: http_frame_def)
    next
      case True
      let ?u = "?l\<lparr>tcp_reg := r, running := True\<rparr>"
      have eq: "st' = ?u" using d by (simp add: True)
      have "live_peer ?u c = live_peer ?l c" for c by (simp add: live_peer_def)
      then have "http_base ?u"
        using inv_base [OF pinv] a False by (auto simp: http_base_def set_wf_def client_count_def)
      then have "http_inv ?u" using pinv by (simp add: http_inv_def)
      then show ?thesis using p False by (simp add: eq http_frame_def stranded_def)
    qed
  qed
qed

lemma remove_all_streams:
  "registry_inv (tcp_reg st) \<Longrightarrow>
    \<exists>r. fold (\<lambda>p st. snd (remove_stream (Some (psocket p)) st)) ps st = st\<lparr>tcp_reg := r\<rparr> \<and> registry_inv r \<and>
      set (registered r) = set (registered (tcp_reg st)) - psocket ` set ps"
proof (induction ps arbitrary: st)
  case Nil
  show ?case using Nil by (intro exI [of _ "tcp_reg st"]) simp
next
  case (Cons p ps)
  obtain b r where r: "registry_remove_socket (Some (psocket p)) (tcp_reg st) = (b, r)" by fastforce
  note res = registry_remove_socket_result [OF Cons.prems r]
  have "distinct (registered (tcp_reg st))" using Cons.prems by (simp add: registry_inv_def registered_def distinct_map)
  then have set: "set (registered r) = set (registered (tcp_reg st)) - {psocket p}" using res by simp
  have "registry_inv (tcp_reg (st\<lparr>tcp_reg := r\<rparr>))" using res by simp
  from Cons.IH [OF this] obtain q where q: "fold (\<lambda>p st. snd (remove_stream (Some (psocket p)) st)) ps (st\<lparr>tcp_reg := r\<rparr>) =
      st\<lparr>tcp_reg := r\<rparr>\<lparr>tcp_reg := q\<rparr>" "registry_inv q" "set (registered q) = set (registered r) - psocket ` set ps"
    by auto
  then show ?case using set by (intro exI [of _ q]) (auto simp: remove_stream_def r)
qed

lemma http_stop_inv:
  assumes "http_inv st" "http_stop os st w = (st', w')"
  shows "http_inv st' \<and> limits st' = limits st \<and> http_polling st' = http_polling st \<and> stranded st \<subseteq> stranded st' \<and>
    (\<not> http_polling st \<longrightarrow> \<not> running st' \<and> http_peers st' = [] \<and> registered (tcp_reg st') = []) \<and>
    (http_polling st \<longrightarrow> st' = st)"
proof (cases "http_polling st")
  case True
  then show ?thesis using assms by (simp add: http_stop_def)
next
  case False
  note base = inv_base [OF assms(1)]
  have ireg: "registry_inv (tcp_reg st)" using base by (simp add: http_base_def set_wf_def)
  obtain b r where r: "registry_remove_socket (Some 0) (tcp_reg st) = (b, r)" by fastforce
  note res = registry_remove_socket_result [OF ireg r]
  let ?s1 = "st\<lparr>tcp_reg := r\<rparr>"
  have "distinct (registered (tcp_reg st))" using ireg by (simp add: registry_inv_def registered_def distinct_map)
  then have set: "set (registered r) = set (registered (tcp_reg st)) - {0}" using res by simp
  obtain q where q: "fold (\<lambda>p st. snd (remove_stream (Some (psocket p)) st)) (http_peers st) ?s1 = ?s1\<lparr>tcp_reg := q\<rparr>"
    "registry_inv q" "set (registered q) = set (registered r) - psocket ` set (http_peers st)"
    using remove_all_streams [of ?s1 "http_peers st"] res by auto
  have reg: "a \<in> set (registered (tcp_reg st)) \<longleftrightarrow> a = 0 \<and> running st \<or> live_peer st a" for a
    using base by (simp add: http_base_def)
  have "set (registered q) = {}" unfolding q(3) set using reg by (auto simp: live_peer_set)
  then have none: "registered q = []" by simp
  let ?s2 = "st\<lparr>tcp_reg := q, http_peers := []\<rparr>" and ?s3 = "st\<lparr>tcp_reg := q, http_peers := [], running := False\<rparr>"
  obtain c s w1 where c: "server_event_close (\<lambda>os. no_user) peer_close_call os (get_listener ?s2) w = (c, s, w1)"
    by (rule prod_cases3)
  have get: "get_listener ?s2 = get_listener ?s3" by (simp add: get_listener_def)
  have eq: "st' = put_listener s ?s3"
  proof -
    have rm: "snd (remove_stream (Some 0) st) = ?s1" by (simp add: remove_stream_def r)
    have ps: "http_peers ?s1 = http_peers st" by simp
    have s2: "?s1\<lparr>tcp_reg := q\<rparr>\<lparr>http_peers := []\<rparr> = ?s2" by simp
    have "st' = (put_listener s ?s2)\<lparr>running := False\<rparr>"
      using assms(2) unfolding http_stop_def if_not_P [OF False] rm Let_def ps q(1) s2 listener_close_def c
      by simp
    then show ?thesis by (simp add: put_listener_def)
  qed
  have "http_base ?s3"
    using base none q(2) by (simp add: http_base_def set_wf_def live_peer_def client_count_def)
  note p = put_listener_same [OF this same_book_server_close [OF c [unfolded get]]]
  have "stranded st \<subseteq> stranded ?s3" by (auto simp: stranded_def)
  also have "\<dots> \<subseteq> stranded (put_listener s ?s3)" using p by (simp only: http_frame_def)
  finally show ?thesis using p none False by (simp add: eq http_inv_def)
qed

section \<open>Properties\<close>

text \<open>The state between two calls of the application.\<close>

definition http_idle :: "http_limits \<Rightarrow> http_server \<Rightarrow> bool" where
  "http_idle lim st \<longleftrightarrow> http_inv st \<and> limits st = lim \<and> \<not> http_polling st \<and>
    (\<forall>p\<in>set (http_peers st). \<not> retired p) \<and> (running st \<or> http_peers st = [])"

lemma http_step_idle:
  assumes "http_step os (st, w) (st', w')" "http_idle lim st"
  shows "http_idle lim st' \<and> stranded st \<subseteq> stranded st'"
  using assms(1)
proof (cases rule: http_step.cases)
  case (start address port b)
  then show ?thesis using http_start_inv [of st os address port w b st' w'] assms(2) by (auto simp: http_idle_def)
next
  case (poll timeout n)
  then show ?thesis
    using http_poll_inv [of st os timeout w n st' w'] assms(2)
    by (cases "running st") (auto simp: http_idle_def http_frame_def http_poll_def)
next
  case stop
  then show ?thesis using http_stop_inv [of st os w st' w'] assms(2) by (auto simp: http_idle_def)
qed

lemma http_reachable_idle:
  assumes "http_reachable lim os st w"
  shows "http_idle lim st"
proof -
  obtain w0 where "(http_step os)\<^sup>*\<^sup>* (http_new lim os w0) (st, w)" using assms by (auto simp: http_reachable_def)
  moreover have "http_idle lim (fst (http_new lim os w0))"
    using http_new_inv [of lim os w0] by (cases "http_new lim os w0") (simp add: http_idle_def)
  ultimately have "http_idle lim (fst (st, w))"
  proof (induction rule: rtranclp_induct)
    case (step y z)
    then show ?case using http_step_idle [of os "fst y" "snd y" "fst z" "snd z"] by simp
  qed
  then show ?thesis by simp
qed


text \<open>
  C24. Over any run of the server - starts, polls with any readiness, data and errors, stops, in any
  order - between two calls: there are at most \<open>max_clients\<close> clients and no retired
  one is left; each holds at most \<open>max_header_bytes\<close> unparsed bytes, none once it is being
  closed; and exactly the listener, while it runs, and the sockets of the clients are registered,
  each owned by the listener, so a poll never touches a destroyed socket.
\<close>

theorem http_server_stays_bounded:
  assumes "http_reachable lim os st w"
  shows "client_count st = length (http_peers st) \<and> length (http_peers st) \<le> max_clients lim \<and>
    list_all (\<lambda>p. length (incoming p) \<le> max_header_bytes lim \<and> (if closing p then incoming p = [] else True)) (http_peers st) \<and>
    distinct (map psocket (http_peers st)) \<and>
    set (registered (tcp_reg st)) = (if running st then {0} else {}) \<union> psocket ` set (http_peers st) \<and>
    psocket ` set (http_peers st) \<subseteq> set (owned (accepted_sockets st)) \<and> set_wf st"
proof -
  have idle: "http_idle lim st" by (rule http_reachable_idle [OF assms])
  then have base: "http_base st" and live: "\<forall>p\<in>set (http_peers st). \<not> retired p" and lim: "limits st = lim"
    and bound: "\<forall>p\<in>set (http_peers st). peer_bounded (max_header_bytes lim) p"
    by (auto simp: http_idle_def http_inv_def)
  have all: "filter (\<lambda>p. \<not> retired p) (http_peers st) = http_peers st" using live by simp
  have "{p \<in> set (http_peers st). \<not> retired p} = set (http_peers st)" using live by blast
  then have "live_peer st a \<longleftrightarrow> a \<in> psocket ` set (http_peers st)" for a by (simp add: live_peer_set)
  then have "set (registered (tcp_reg st)) = (if running st then {0} else {}) \<union> psocket ` set (http_peers st)"
    using base by (auto simp: http_base_def)
  moreover have "list_all (\<lambda>p. length (incoming p) \<le> max_header_bytes lim \<and> (if closing p then incoming p = [] else True)) (http_peers st)"
    using bound live by (auto simp: list_all_iff peer_bounded_def)
  ultimately show ?thesis using base lim all by (simp add: http_base_def client_count_def)
qed

definition sample_limits :: http_limits where
  "sample_limits = \<lparr>max_clients = 128, max_header_bytes = 8192, max_queued = 131072, idle_timeout_ms = 30000\<rparr>"

definition sample_http :: http_server where
  "sample_http = fst (http_new sample_limits (scripted_os []) world0)"

lemma sample_http_reachable: "\<exists>w. http_reachable sample_limits (scripted_os []) sample_http w"
proof -
  obtain st w where n: "http_new sample_limits (scripted_os []) world0 = (st, w)" by fastforce
  show ?thesis
    unfolding http_reachable_def sample_http_def n fst_conv
    by (intro exI [of _ w] exI [of _ world0]) (simp add: n)
qed

theorem http_server_stays_bounded_witness:
  "registered (tcp_reg sample_http) = [] \<and> set_wf sample_http"
proof -
  obtain w where r: "http_reachable sample_limits (scripted_os []) sample_http w"
    using sample_http_reachable by blast
  obtain st v where n: "http_new sample_limits (scripted_os []) world0 = (st, v)" by fastforce
  have "\<not> running sample_http" "http_peers sample_http = []"
    using http_new_inv [OF n] by (simp_all add: sample_http_def n)
  then show ?thesis using http_server_stays_bounded [OF r] by simp
qed

section \<open>A server under a flood of connections\<close>

text \<open>
  An environment in which every call succeeds, the listener is always ready and a client is always
  waiting; each new descriptor is unused.
\<close>

fun flood_call :: "history \<Rightarrow> ext_call \<Rightarrow> call_result" where
  "flood_call h (Fd (Close fd)) = result0"
| "flood_call h (Fd f) = result0\<lparr>ret := int (length h) + 3\<rparr>"
| "flood_call h (Io (Poll ds t)) = result0\<lparr>ret := 1, revents := [POLLIN]\<rparr>"
| "flood_call h c = result0"

definition flood_os :: os where
  "flood_os = (scripted_os [])\<lparr>os_call := flood_call\<rparr>"

lemma flood_os_call [simp]: "os_call flood_os = flood_call"
  by (simp add: flood_os_def)























section \<open>Refused connections\<close>



end
