(* ===== verification/Http_Stream.thy ===== *)
theory Http_Stream
  imports Http_Service
begin

text \<open>
  How the bytes of a client are cut into reads does not matter: the answers, the registrations and
  the bytes kept depend on their concatenation only.
\<close>

section \<open>The stream seen as a whole\<close>

text \<open>The number of complete request heads in a text.\<close>

function heads :: "string \<Rightarrow> nat" where
  "heads s = (case find_from (crlf @ crlf) s 0 of None \<Rightarrow> 0 | Some e \<Rightarrow> Suc (heads (drop (e + 4) s)))"
  by pat_completeness auto
termination
  by (relation "measure length") (auto simp: find_from_def crlf_def split: if_splits; case_tac s; simp)+

declare heads.simps [simp del]

lemma blank_line [simp]: "length crlf = 2" "crlf @ crlf \<noteq> []"
  by (simp_all add: crlf_def)

lemma find_sub_bound: "pat \<noteq> [] \<Longrightarrow> find_sub pat s = Some e \<Longrightarrow> e + length pat \<le> length s"
proof (induction pat s arbitrary: e rule: find_sub.induct)
  case (2 pat c cs)
  show ?case
  proof (cases "take (length pat) (c # cs) = pat")
    case True
    then have "length pat \<le> length (c # cs)" by (metis length_take min.cobounded1)
    then show ?thesis using 2(3) True by simp
  qed (use 2 in auto)
qed simp

lemma find_sub_later:
  "pat \<noteq> [] \<Longrightarrow> find_sub pat s = None \<Longrightarrow> find_sub pat (s @ t) = Some e \<Longrightarrow> length s < e + length pat"
proof (induction pat s arbitrary: e rule: find_sub.induct)
  case (1 pat)
  then show ?case by simp
next
  case (2 pat c cs)
  have no: "take (length pat) (c # cs) \<noteq> pat" "find_sub pat cs = None" using 2(3) by (auto split: if_splits)
  show ?case
  proof (cases "take (length pat) ((c # cs) @ t) = pat")
    case True
    have "\<not> length pat \<le> length (c # cs)"
    proof
      assume "length pat \<le> length (c # cs)"
      then have "take (length pat) ((c # cs) @ t) = take (length pat) (c # cs)" by (simp only: take_append) simp
      then show False using True no(1) by simp
    qed
    then show ?thesis by simp
  next
    case False
    then obtain k where "find_sub pat (cs @ t) = Some k" "e = Suc k" using 2(4) by auto
    then show ?thesis using 2(1) [OF no(1) 2(2) no(2)] by simp
  qed
qed

section \<open>Changes the service does not look at\<close>

text \<open>Changes of a peer that do not meet the flags the service sets.\<close>

definition inert :: "(http_peer \<Rightarrow> http_peer) \<Rightarrow> bool" where
  "inert f \<longleftrightarrow> (\<forall>p. psocket (f p) = psocket p \<and> retired (f p) = retired p \<and> closing (f p) = closing p \<and>
    f (p\<lparr>retired := True\<rparr>) = (f p)\<lparr>retired := True\<rparr> \<and> f (p\<lparr>closing := True\<rparr>) = (f p)\<lparr>closing := True\<rparr>)"

lemma update_peer_comm:
  assumes "i < length (http_peers st)" "j < length (http_peers st)" "\<And>p. f (g p) = g (f p)"
  shows "update_peer j g (update_peer i f st) = update_peer i f (update_peer j g st)"
  using assms by (cases "i = j") (simp_all add: update_peer_def list_update_swap)

lemma update_peer_peer:
  "i < length (http_peers st) \<Longrightarrow> http_peers (update_peer i f st) ! i = f (http_peers st ! i)"
  by (simp add: update_peer_at)

lemma update_peer_twice:
  "i < length (http_peers st) \<Longrightarrow> update_peer i f (update_peer i g st) = update_peer i (\<lambda>p. f (g p)) st"
  by (simp add: update_peer_def)

lemma update_peer_stream: "update_stream a h (update_peer i f st) = update_peer i f (update_stream a h st)"
  by (simp add: update_peer_def update_stream_def)

lemma lookup_inert:
  assumes "inert f"
  shows "lookup_peer a (update_peer i f st) = lookup_peer a st"
proof -
  have "first_where (\<lambda>p. psocket p = a) (ps[i := f (ps ! i)]) = first_where (\<lambda>p. psocket p = a) ps" for ps
  proof (induction ps arbitrary: i)
    case (Cons p ps)
    then show ?case using assms by (cases i) (auto simp: inert_def)
  qed simp
  then show ?thesis by (simp add: lookup_peer_def update_peer_def)
qed

lemma retire_inert:
  assumes "inert f" "i < length (http_peers st)"
  shows "retire a (update_peer i f st) = update_peer i f (retire a st)"
proof (cases "lookup_peer a st")
  case None
  then show ?thesis using lookup_inert [OF assms(1)] by (simp add: retire_def)
next
  case (Some j)
  have j: "j < length (http_peers st)" using lookup_Some [OF Some] by simp
  have same: "retired (http_peers (update_peer i f st) ! j) = retired (http_peers st ! j)"
    using assms j by (auto simp: update_peer_at inert_def)
  have comm: "update_peer j (\<lambda>p. p\<lparr>retired := True\<rparr>) (update_peer i f st) =
      update_peer i f (update_peer j (\<lambda>p. p\<lparr>retired := True\<rparr>) st)"
    using assms j by (intro update_peer_comm) (simp_all add: inert_def)
  have rem: "snd (remove_stream (Some a) (update_peer i f s)) = update_peer i f (snd (remove_stream (Some a) s))" for s
    by (simp add: remove_stream_def update_peer_def Let_def split: prod.split)
  show ?thesis
    by (simp add: retire_def lookup_inert [OF assms(1)] Some same comm rem)
qed

lemma send_inert:
  assumes "inert f" "i < length (http_peers st)"
  shows "snd (send_response i status type body head close allow http10 (update_peer i f st)) =
    update_peer i f (snd (send_response i status type body head close allow http10 st))"
proof -
  let ?a = "psocket (http_peers st ! i)"
  have a: "psocket (http_peers (update_peer i f st) ! i) = ?a" using assms by (simp add: update_peer_peer inert_def)
  obtain ok s where q: "queue_write_string (\<lambda>_. True)
      (bytes_of (response_text status type body head close allow http10)) (plain (streams st ?a)) = (ok, s)" by fastforce
  let ?st = "update_stream ?a (\<lambda>_. Plain s) st"
  have r: "retire ?a (update_peer i f ?st) = update_peer i f (retire ?a ?st)"
    using assms by (intro retire_inert) simp_all
  have c: "update_peer i (\<lambda>p. p\<lparr>closing := True\<rparr>) (update_peer i f ?st) =
      update_peer i f (update_peer i (\<lambda>p. p\<lparr>closing := True\<rparr>) ?st)"
    using assms by (intro update_peer_comm) (simp_all add: inert_def)
  show ?thesis
    by (simp add: send_response_def Let_def a q update_peer_stream r c)
qed

lemma too_large_inert: "inert f \<Longrightarrow> i < length (http_peers st) \<Longrightarrow> too_large i (update_peer i f st) = update_peer i f (too_large i st)"
  by (simp add: too_large_def send_inert)

lemma handle_inert: "inert f \<Longrightarrow> i < length (http_peers st) \<Longrightarrow>
    handle_request i raw (update_peer i f st) = update_peer i f (handle_request i raw st)"
  by (simp add: handle_request_def send_inert Let_def)

text \<open>The time of the last read, and more bytes behind what has come.\<close>

definition stamp :: "int \<Rightarrow> http_peer \<Rightarrow> http_peer" where
  "stamp t p = p\<lparr>last_activity := t\<rparr>"

definition grow :: "string \<Rightarrow> http_peer \<Rightarrow> http_peer" where
  "grow b p = p\<lparr>incoming := incoming p @ b\<rparr>"

lemma inert_stamp [simp]: "inert (stamp t)"
  by (simp add: inert_def stamp_def)

lemma inert_grow [simp]: "inert (grow b)"
  by (simp add: inert_def grow_def)

definition dead :: "nat \<Rightarrow> http_server \<Rightarrow> bool" where
  "dead i st \<longleftrightarrow> retired (http_peers st ! i) \<or> closing (http_peers st ! i)"

text \<open>
  What later calls can see: not the clock, and not the bytes of a peer that is on its way out.
\<close>

definition settle :: "nat \<Rightarrow> http_server \<Rightarrow> http_server" where
  "settle i = update_peer i (\<lambda>p. p\<lparr>last_activity := 0,
     incoming := if retired p \<or> closing p then [] else incoming p\<rparr>)"

lemma dead_inert [simp]: "inert f \<Longrightarrow> i < length (http_peers st) \<Longrightarrow> dead i (update_peer i f st) = dead i st"
  by (simp add: dead_def update_peer_peer inert_def)

lemma settle_stamp [simp]: "i < length (http_peers st) \<Longrightarrow> settle i (update_peer i (stamp t) st) = settle i st"
  by (simp add: settle_def update_peer_def stamp_def)

lemma settle_dead:
  "i < length (http_peers st) \<Longrightarrow> dead i st \<Longrightarrow> settle i (update_peer i (\<lambda>p. p\<lparr>incoming := f p\<rparr>) st) = settle i st"
  by (auto simp: settle_def update_peer_def dead_def)

lemma settle_grow:
  "i < length (http_peers st) \<Longrightarrow> dead i st \<Longrightarrow> settle i (update_peer i (grow b) st) = settle i st"
  using settle_dead [of i st "\<lambda>p. incoming p @ b"] by (simp add: grow_def [abs_def])

section \<open>Frames without the invariant\<close>

lemma retire_frame:
  "length (http_peers (retire a st)) = length (http_peers st) \<and>
    (i < length (http_peers st) \<longrightarrow> incoming (http_peers (retire a st) ! i) = incoming (http_peers st ! i)) \<and>
    limits (retire a st) = limits st"
proof (cases "lookup_peer a st")
  case (Some j)
  then show ?thesis
    using lookup_Some [OF Some] by (auto simp: retire_def remove_stream_def Let_def update_peer_at split: prod.split)
qed (simp add: retire_def)

lemma send_frame:
  assumes "i < length (http_peers st)"
  shows "length (http_peers (snd (send_response i status type body head close allow http10 st))) = length (http_peers st) \<and>
    incoming (http_peers (snd (send_response i status type body head close allow http10 st)) ! i) =
      incoming (http_peers st ! i) \<and>
    limits (snd (send_response i status type body head close allow http10 st)) = limits st"
proof -
  let ?a = "psocket (http_peers st ! i)"
  obtain ok s where q: "queue_write_string (\<lambda>_. True)
      (bytes_of (response_text status type body head close allow http10)) (plain (streams st ?a)) = (ok, s)" by fastforce
  show ?thesis
    using retire_frame [of ?a "update_stream ?a (\<lambda>_. Plain s) st" i] assms
    by (simp add: send_response_def Let_def q update_peer_at)
qed

lemma handle_frame:
  "i < length (http_peers st) \<Longrightarrow> length (http_peers (handle_request i raw st)) = length (http_peers st) \<and>
    incoming (http_peers (handle_request i raw st) ! i) = incoming (http_peers st ! i) \<and>
    limits (handle_request i raw st) = limits st"
  using send_frame by (simp add: handle_request_def Let_def)

lemma answer_frame:
  assumes "i < length (http_peers st)"
  shows "length (http_peers (answer_first e i st)) = length (http_peers st) \<and>
    incoming (http_peers (answer_first e i st) ! i) = drop (e + 4) (incoming (http_peers st ! i)) \<and>
    limits (answer_first e i st) = limits st"
  using handle_frame [of i "update_peer i (\<lambda>p. p\<lparr>incoming := drop (e + 4) (incoming p)\<rparr>) st"] assms
  by (simp add: answer_first_def Let_def update_peer_at)

lemma answer_stamp:
  assumes "i < length (http_peers st)"
  shows "answer_first e i (update_peer i (stamp t) st) = update_peer i (stamp t) (answer_first e i st)"
proof -
  have "update_peer i (\<lambda>p. p\<lparr>incoming := drop (e + 4) (incoming p)\<rparr>) (update_peer i (stamp t) st) =
      update_peer i (stamp t) (update_peer i (\<lambda>p. p\<lparr>incoming := drop (e + 4) (incoming p)\<rparr>) st)"
    using assms by (intro update_peer_comm) (simp_all add: stamp_def)
  moreover have "incoming (http_peers (update_peer i (stamp t) st) ! i) = incoming (http_peers st ! i)"
    using assms by (simp add: update_peer_peer stamp_def)
  ultimately show ?thesis using assms by (simp add: answer_first_def Let_def handle_inert)
qed

lemma answer_grow:
  assumes "i < length (http_peers st)" "e + 4 \<le> length (incoming (http_peers st ! i))"
  shows "answer_first e i (update_peer i (grow b) st) = update_peer i (grow b) (answer_first e i st)"
proof -
  have "update_peer i (\<lambda>p. p\<lparr>incoming := drop (e + 4) (incoming p)\<rparr>) (update_peer i (grow b) st) =
      update_peer i (grow b) (update_peer i (\<lambda>p. p\<lparr>incoming := drop (e + 4) (incoming p)\<rparr>) st)"
    using assms by (simp add: update_peer_def grow_def)
  moreover have "take (e + 4) (incoming (http_peers (update_peer i (grow b) st) ! i)) =
      take (e + 4) (incoming (http_peers st ! i))"
    using assms by (simp add: update_peer_peer grow_def)
  ultimately show ?thesis using assms by (simp add: answer_first_def Let_def handle_inert)
qed

section \<open>The loop over a stream\<close>

text \<open>The four ways of one round.\<close>

lemma loop_cases [case_names dead wait large more]:
  assumes "dead i st \<Longrightarrow> P"
    and "\<not> dead i st \<Longrightarrow> find_from (crlf @ crlf) (incoming (http_peers st ! i)) 0 = None \<Longrightarrow> P"
    and "\<And>e. \<not> dead i st \<Longrightarrow> find_from (crlf @ crlf) (incoming (http_peers st ! i)) 0 = Some e \<Longrightarrow>
      e + 4 > max_header_bytes (limits st) \<Longrightarrow> P"
    and "\<And>e. \<not> dead i st \<Longrightarrow> find_from (crlf @ crlf) (incoming (http_peers st ! i)) 0 = Some e \<Longrightarrow>
      \<not> e + 4 > max_header_bytes (limits st) \<Longrightarrow> P"
  shows P
  using assms by (cases "find_from (crlf @ crlf) (incoming (http_peers st ! i)) 0") blast+

lemma loop_dead: "dead i st \<Longrightarrow> receive_loop n i st = st"
  by (rule receive_loop_stop) (simp add: dead_def)

lemmas loop_wait = receive_loop_wait [folded dead_def]
lemmas loop_large = receive_loop_large [folded dead_def]
lemmas loop_next = receive_loop_next [folded dead_def]

lemma heads_None: "find_from (crlf @ crlf) s 0 = None \<Longrightarrow> heads s = 0"
  by (subst heads.simps) simp

lemma heads_Some: "find_from (crlf @ crlf) s 0 = Some e \<Longrightarrow> heads s = Suc (heads (drop (e + 4) s))"
  by (subst heads.simps) simp

text \<open>A budget that covers the complete heads is as good as any other.\<close>

lemma loop_budget:
  assumes "i < length (http_peers st)" "heads (incoming (http_peers st ! i)) \<le> n" "heads (incoming (http_peers st ! i)) \<le> m"
  shows "receive_loop n i st = receive_loop m i st"
  using assms
proof (induction n arbitrary: m st)
  case (0 m st)
  then have "heads (incoming (http_peers st ! i)) = 0" by simp
  then have "find_from (crlf @ crlf) (incoming (http_peers st ! i)) 0 = None" using heads_Some by (metis nat.distinct(1) option.exhaust)
  then show ?case by (cases "dead i st") (simp_all add: loop_dead loop_wait)
next
  case (Suc n m st)
  show ?case
  proof (cases i st rule: loop_cases)
    case (more e)
    then obtain k where m: "m = Suc k" using Suc.prems(3) heads_Some by (cases m) auto
    note f = answer_frame [OF Suc.prems(1), of e]
    have "receive_loop n i (answer_first e i st) = receive_loop k i (answer_first e i st)"
      using Suc.prems f heads_Some [OF more(2)] m by (intro Suc.IH) simp_all
    then show ?thesis using m by (simp add: loop_next [OF more])
  qed (simp_all add: loop_dead loop_wait loop_large)
qed

lemma loop_stamp:
  assumes "i < length (http_peers st)"
  shows "settle i (receive_loop n i (update_peer i (stamp t) st)) = settle i (receive_loop n i st)"
proof -
  have "\<exists>s. receive_loop n i (update_peer i (stamp t) st) = update_peer i (stamp t) s \<and>
      receive_loop n i st = s \<and> i < length (http_peers s)"
    using assms
  proof (induction n arbitrary: st)
    case (0 st)
    have same: "incoming (http_peers (update_peer i (stamp t) st) ! i) = incoming (http_peers st ! i)"
      using 0 by (simp add: update_peer_peer stamp_def)
    show ?case
      using 0 send_frame [OF 0]
      by (cases i st rule: loop_cases)
        (simp_all add: loop_dead loop_wait loop_large loop_next same too_large_inert too_many_def send_inert too_large_def)
  next
    case (Suc n st)
    have same: "incoming (http_peers (update_peer i (stamp t) st) ! i) = incoming (http_peers st ! i)"
      using Suc.prems by (simp add: update_peer_peer stamp_def)
    show ?case
    proof (cases i st rule: loop_cases)
      case (more e)
      have "receive_loop (Suc n) i (update_peer i (stamp t) st) = receive_loop n i (update_peer i (stamp t) (answer_first e i st))"
        using more Suc.prems same by (simp add: loop_next answer_stamp)
      moreover have "receive_loop (Suc n) i st = receive_loop n i (answer_first e i st)" by (simp add: loop_next [OF more])
      ultimately show ?thesis using Suc.IH [of "answer_first e i st"] answer_frame [OF Suc.prems, of e] Suc.prems by simp
    qed (use Suc.prems send_frame [OF Suc.prems] in
        \<open>simp_all add: loop_dead loop_wait loop_large same too_large_inert too_large_def send_inert\<close>)
  qed
  then show ?thesis by auto
qed

text \<open>
  The loop over a text with more bytes behind it does what it does on the text alone, and then, if
  the peer still reads, what it does on the rest.
\<close>

lemma loop_split:
  assumes "http_base st" "i < length (http_peers st)"
    and "heads (incoming (http_peers st ! i) @ b) \<le> n" "heads (incoming (http_peers st ! i) @ b) \<le> m"
    and "heads (incoming (http_peers st ! i) @ b) \<le> k"
  shows "settle i (receive_loop n i (update_peer i (grow b) st)) =
    settle i (let s = receive_loop m i st in if dead i s then s else receive_loop k i (update_peer i (grow b) s))"
  using assms
proof (induction n arbitrary: st m)
  case (0 st m)
  have none: "find_from (crlf @ crlf) (incoming (http_peers st ! i) @ b) 0 = None"
    using 0(3) heads_Some by (metis le_zero_eq nat.distinct(1) option.exhaust)
  have none': "find_from (crlf @ crlf) (incoming (http_peers st ! i)) 0 = None"
    using none find_sub_extend [of "crlf @ crlf"] unfolding find_from_0 by (metis not_None_eq)
  have g: "incoming (http_peers (update_peer i (grow b) st) ! i) = incoming (http_peers st ! i) @ b"
    using 0(2) by (simp add: update_peer_peer grow_def)
  note large = too_large_step [OF 0(1,2)]
  have len: "i < length (http_peers (too_large i st))" using send_frame [OF 0(2)] 0(2) by (simp add: too_large_def)
  show ?case
  proof (cases "dead i st")
    case True
    then show ?thesis using 0(2) by (simp add: loop_dead settle_grow)
  next
    case False
    then show ?thesis
      using 0(2) none none' g large len
      by (auto simp: loop_wait Let_def too_large_inert settle_grow dead_def [of i "too_large i st"])
  qed
next
  case (Suc n st m)
  let ?inc = "incoming (http_peers st ! i)"
  have g: "incoming (http_peers (update_peer i (grow b) st) ! i) = ?inc @ b"
    using Suc.prems(2) by (simp add: update_peer_peer grow_def)
  note large = too_large_step [OF Suc.prems(1,2)]
  have len: "i < length (http_peers (too_large i st))"
    using send_frame [OF Suc.prems(2)] Suc.prems(2) by (simp add: too_large_def)
  have dead: "dead i (too_large i st)" using large by (simp add: dead_def)
  show ?case
  proof (cases i st rule: loop_cases)
    case dead
    then show ?thesis using Suc.prems(2) by (simp add: loop_dead settle_grow)
  next
    case wait
    show ?thesis
    proof (cases "length ?inc > max_header_bytes (limits st)")
      case True
      have "receive_loop (Suc n) i (update_peer i (grow b) st) = too_large i (update_peer i (grow b) st)"
      proof (cases "find_from (crlf @ crlf) (?inc @ b) 0")
        case None
        then show ?thesis using wait(1) Suc.prems(2) True g by (simp add: loop_wait)
      next
        case (Some e)
        have "length ?inc < e + 4"
          using find_sub_later [OF blank_line(2), of ?inc b e] wait(2) Some unfolding find_from_0 by simp
        then have "e + 4 > max_header_bytes (limits st)" using True by linarith
        then show ?thesis using wait(1) Suc.prems(2) g Some by (intro loop_large) simp_all
      qed
      then show ?thesis
        using wait True dead len Suc.prems(2) by (simp add: loop_wait too_large_inert settle_grow)
    next
      case False
      have "receive_loop m i st = st" using wait False by (simp add: loop_wait)
      moreover have "receive_loop (Suc n) i (update_peer i (grow b) st) = receive_loop k i (update_peer i (grow b) st)"
        using Suc.prems g by (intro loop_budget) simp_all
      ultimately show ?thesis using wait(1) by simp
    qed
  next
    case (large e)
    have e: "find_from (crlf @ crlf) (?inc @ b) 0 = Some e"
      using find_sub_extend [of "crlf @ crlf"] large(2) unfolding find_from_0 by blast
    then show ?thesis
      using large dead len Suc.prems(2) g by (simp add: loop_large too_large_inert settle_grow)
  next
    case (more e)
    have e: "find_from (crlf @ crlf) (?inc @ b) 0 = Some e"
      using find_sub_extend [of "crlf @ crlf"] more(2) unfolding find_from_0 by blast
    have at: "e + 4 \<le> length ?inc"
      using find_sub_bound [OF blank_line(2), of ?inc e] more(2) unfolding find_from_0 by simp
    note f = answer_frame [OF Suc.prems(2), of e] and step = answer_first_step [OF Suc.prems(1,2), of e]
    have h: "heads (?inc @ b) = Suc (heads (incoming (http_peers (answer_first e i st) ! i) @ b))"
      using heads_Some [OF e] f at by simp
    then obtain m' where m: "m = Suc m'" using Suc.prems(4) by (cases m) auto
    have base: "http_base (answer_first e i st)" using step Suc.prems(1) by (simp add: peer_step_def)
    have "receive_loop (Suc n) i (update_peer i (grow b) st) =
        receive_loop n i (update_peer i (grow b) (answer_first e i st))"
      using more(1,3) e g Suc.prems(2) at by (simp add: loop_next answer_grow)
    moreover have "receive_loop m i st = receive_loop m' i (answer_first e i st)"
      by (simp add: m loop_next [OF more])
    moreover have "settle i (receive_loop n i (update_peer i (grow b) (answer_first e i st))) =
        settle i (let s = receive_loop m' i (answer_first e i st) in
          if dead i s then s else receive_loop k i (update_peer i (grow b) s))"
      using Suc.prems h m f by (intro Suc.IH [OF base]) simp_all
    ultimately show ?thesis by simp
  qed
qed

text \<open>The end of the handler only drops the bytes of a peer that is being closed.\<close>

lemma serve_loop:
  assumes "http_base st" "i < length (http_peers st)"
  shows "serve i st = (let s = receive_loop max_pipelined_per_event i st in
      if closing (http_peers s ! i) then update_peer i (\<lambda>p. p\<lparr>incoming := []\<rparr>) s else s)"
proof -
  let ?l = "receive_loop max_pipelined_per_event i st"
  note l = receive_loop_step [OF assms, of max_pipelined_per_event]
  note b = peer_step_base [OF conjunct1 [OF l] assms]
  let ?c = "if closing (http_peers ?l ! i) then update_peer i (\<lambda>p. p\<lparr>incoming := []\<rparr>) ?l else ?l"
  have no: "\<not> (\<not> retired (http_peers ?c ! i) \<and> \<not> closing (http_peers ?c ! i) \<and>
      length (incoming (http_peers ?c ! i)) > max_header_bytes (limits ?c))"
    using l b by (auto simp: settled_def Let_def update_peer_at)
  show ?thesis unfolding serve_def Let_def if_not_P [OF no] ..
qed

lemma serve_settle:
  assumes "http_base st" "i < length (http_peers st)"
  shows "settle i (serve i st) = settle i (receive_loop max_pipelined_per_event i st)"
    "dead i (serve i st) = dead i (receive_loop max_pipelined_per_event i st)"
    "\<not> dead i (serve i st) \<Longrightarrow> serve i st = receive_loop max_pipelined_per_event i st"
    "length (http_peers (serve i st)) = length (http_peers st)"
proof -
  let ?l = "receive_loop max_pipelined_per_event i st"
  note b = peer_step_base [OF conjunct1 [OF receive_loop_step [OF assms, of max_pipelined_per_event]] assms]
  have i: "i < length (http_peers ?l)" using b by simp
  show "settle i (serve i st) = settle i ?l"
    using settle_dead [OF i, of "\<lambda>_. []"] by (simp add: serve_loop [OF assms] Let_def dead_def)
  show d: "dead i (serve i st) = dead i ?l"
    using i by (simp add: serve_loop [OF assms] Let_def dead_def update_peer_at)
  show "serve i st = ?l" if "\<not> dead i (serve i st)"
    using that unfolding d by (simp add: serve_loop [OF assms] Let_def dead_def)
  show "length (http_peers (serve i st)) = length (http_peers st)"
    using serve_step [OF assms] by (simp add: peer_step_def)
qed

lemma receive_eq:
  assumes "lookup_peer a st = Some i" "\<not> dead i st" "d \<noteq> []"
  shows "\<exists>t. fst (receive os a d st w) = serve i (update_peer i (stamp t) (update_peer i (grow (text_of d)) st))"
proof -
  obtain t w1 where t: "now os w = (t, w1)" by fastforce
  have c: "\<not> (retired (http_peers st ! i) \<or> closing (http_peers st ! i) \<or> d = [])" using assms(2,3) by (simp add: dead_def)
  have "update_peer i (\<lambda>p. p\<lparr>last_activity := t, incoming := incoming p @ text_of d\<rparr>) st =
      update_peer i (stamp t) (update_peer i (grow (text_of d)) st)"
  proof -
    have "p\<lparr>last_activity := t, incoming := incoming p @ text_of d\<rparr> = stamp t (grow (text_of d) p)" for p
      by (cases p) (simp add: stamp_def grow_def)
    then show ?thesis using lookup_Some [OF assms(1)] by (simp add: update_peer_twice)
  qed
  then have "fst (receive os a d st w) = serve i (update_peer i (stamp t) (update_peer i (grow (text_of d)) st))"
    unfolding receive_def assms(1) option.case Let_def if_not_P [OF c] t by simp
  then show ?thesis by blast
qed

lemma receive_nothing:
  assumes "lookup_peer a st = Some i" "dead i st \<or> d = []"
  shows "receive os a d st w = (st, w)"
proof -
  have c: "retired (http_peers st ! i) \<or> closing (http_peers st ! i) \<or> d = []" using assms(2) by (auto simp: dead_def)
  show ?thesis unfolding receive_def assms(1) option.case Let_def if_P [OF c] ..
qed

section \<open>Properties\<close>

lemma text_of_append: "text_of (x @ y) = text_of x @ text_of y"
  by (simp add: text_of_def)

lemma grow_grow: "grow c (grow b p) = grow (b @ c) p"
  by (simp add: grow_def)

text \<open>A second read, after a first one has been served.\<close>

lemma second_read:
  assumes "http_base s" "i < length (http_peers s)" "psocket (http_peers s ! i) = a"
    and "heads (incoming (http_peers s ! i) @ text_of y) \<le> max_pipelined_per_event"
  shows "settle i (fst (receive os a y (serve i (update_peer i (stamp u) s)) w)) =
    settle i (receive_loop max_pipelined_per_event i (update_peer i (grow (text_of y)) s))"
proof -
  let ?N = max_pipelined_per_event and ?s = "update_peer i (stamp u) s" and ?g = "update_peer i (grow (text_of y))"
  let ?L = "receive_loop ?N i ?s" and ?t = "serve i ?s"
  have sb: "http_base ?s" "i < length (http_peers ?s)"
    using update_peer_base [OF assms(1,2), of "stamp u"] assms(2) by (simp_all add: stamp_def)
  have inc: "incoming (http_peers ?s ! i) = incoming (http_peers s ! i)"
    using assms(2) by (simp add: update_peer_peer stamp_def)
  note step = serve_step [OF sb] and set = serve_settle [OF sb]
  have tb: "http_base ?t" "i < length (http_peers ?t)" "psocket (http_peers ?t ! i) = a"
    using step sb assms(2,3) by (simp_all add: peer_step_def update_peer_peer stamp_def)
  have look: "lookup_peer a ?t = Some i" using peer_lookup [OF tb(1,2)] tb(3) by simp
  have gb: "http_base (?g ?t)" "i < length (http_peers (?g ?t))"
    using update_peer_base [OF tb(1,2), of "grow (text_of y)"] tb(2) by (simp_all add: grow_def)
  have comm: "?g ?s = update_peer i (stamp u) (?g s)"
    using assms(2) by (intro update_peer_comm) (simp_all add: stamp_def grow_def)
  have whole: "settle i (receive_loop ?N i (?g s)) = settle i (if dead i ?L then ?L else receive_loop ?N i (?g ?L))"
    using loop_split [OF sb, of "text_of y" ?N ?N ?N] assms(4) inc loop_stamp [of i "?g s" ?N u] assms(2)
    by (simp add: comm Let_def)
  show ?thesis
  proof (cases "dead i ?t \<or> y = []")
    case True
    have "settle i ?t = settle i (receive_loop ?N i (?g s))"
    proof (cases "dead i ?t")
      case True
      then show ?thesis using whole set by simp
    next
      case False
      then have "y = []" using \<open>dead i ?t \<or> y = []\<close> by blast
      then have "grow (text_of y) = (\<lambda>p. p)" by (simp add: grow_def text_of_def fun_eq_iff)
      then have "?g s = s" by (simp add: update_peer_def)
      then show ?thesis by (simp only: set(1) loop_stamp [OF assms(2)])
    qed
    then show ?thesis using receive_nothing [OF look True] by simp
  next
    case False
    then have d: "\<not> dead i ?t" by blast
    from False obtain v where v: "fst (receive os a y ?t w) = serve i (update_peer i (stamp v) (?g ?t))"
      using receive_eq [OF look] by blast
    have "http_base (update_peer i (stamp v) (?g ?t))" "i < length (http_peers (update_peer i (stamp v) (?g ?t)))"
      using update_peer_base [OF gb, of "stamp v"] gb(2) by (simp_all add: stamp_def)
    then have "settle i (fst (receive os a y ?t w)) = settle i (receive_loop ?N i (?g ?t))"
      using serve_settle(1) loop_stamp [OF gb(2)] by (simp add: v)
    also have "\<dots> = settle i (receive_loop ?N i (?g ?L))" by (simp only: set(3) [OF d])
    also have "\<dots> = settle i (receive_loop ?N i (?g s))" by (simp only: whole if_not_P [OF d [unfolded set(2)]])
    finally show ?thesis .
  qed
qed

text \<open>
  C23. How a client's bytes are cut into reads does not matter. Two reads that bring \<open>x\<close> and then
  \<open>y\<close> leave the server in the same state as one read that brings both: the same answers
  queued in the same order, the same peers closing or retired, the same registrations and the same
  bytes kept, up to the time of the last read and the bytes of a peer that is on its way out. The
  one condition is that together they do not exceed the limit on requests answered in one event,
  which a single large read would run into and two small ones would not.
\<close>

theorem request_segmentation:
  assumes "http_inv st" "lookup_peer a st = Some i"
    and "heads (incoming (http_peers st ! i) @ text_of (x @ y)) \<le> max_pipelined_per_event"
  shows "settle i (fst (receive os a (x @ y) st w)) =
    settle i (let (st1, w1) = receive os a x st v in fst (receive os a y st1 w1))"
proof -
  have base: "http_base st" using assms(1) by (simp add: http_inv_def)
  have i: "i < length (http_peers st)" "psocket (http_peers st ! i) = a" using lookup_Some [OF assms(2)] by auto
  show ?thesis
  proof (cases "dead i st \<or> x = []")
    case True
    note none = receive_nothing [OF assms(2) True]
    show ?thesis
    proof (cases "dead i st \<or> y = []")
      case True
      then have "dead i st \<or> x @ y = []" using \<open>dead i st \<or> x = []\<close> by blast
      then show ?thesis using none receive_nothing [OF assms(2)] True by simp
    next
      case False
      then have "x = []" using True by blast
      obtain t where t: "fst (receive os a y st w) = serve i (update_peer i (stamp t) (update_peer i (grow (text_of y)) st))"
        using receive_eq [OF assms(2), of y] False by blast
      obtain u where u: "fst (receive os a y st v) = serve i (update_peer i (stamp u) (update_peer i (grow (text_of y)) st))"
        using receive_eq [OF assms(2), of y] False by blast
      have g: "http_base (update_peer i (stamp t) (update_peer i (grow (text_of y)) st))" for t
        using base i by (intro update_peer_base) (simp_all add: stamp_def grow_def)
      show ?thesis
        using serve_settle(1) [OF g] i loop_stamp [of i "update_peer i (grow (text_of y)) st"] none [unfolded \<open>x = []\<close>]
        by (simp add: t u \<open>x = []\<close>)
    qed
  next
    case False
    then have live: "\<not> dead i st" "x \<noteq> []" "x @ y \<noteq> []" by auto
    let ?N = max_pipelined_per_event and ?x = "update_peer i (grow (text_of x)) st"
    have xb: "http_base ?x" using base i by (intro update_peer_base) (simp_all add: grow_def)
    have xi: "i < length (http_peers ?x)" using i by simp
    have stamped: "http_base (update_peer i (stamp t) s)" "i < length (http_peers (update_peer i (stamp t) s))"
      if "http_base s" "i < length (http_peers s)" for s t
      using that update_peer_base [OF that, of "stamp t"] by (simp_all add: stamp_def)
    obtain t where "fst (receive os a (x @ y) st w) =
        serve i (update_peer i (stamp t) (update_peer i (grow (text_of (x @ y))) st))"
      using receive_eq [OF assms(2) live(1,3)] by blast
    moreover have xy: "update_peer i (grow (text_of (x @ y))) st = update_peer i (grow (text_of y)) ?x"
      using i by (simp add: update_peer_twice grow_grow text_of_append)
    moreover have xyb: "http_base (update_peer i (grow (text_of y)) ?x)"
      by (rule update_peer_base [OF xb xi]) (simp_all add: grow_def)
    ultimately have left: "settle i (fst (receive os a (x @ y) st w)) =
        settle i (receive_loop ?N i (update_peer i (grow (text_of y)) ?x))"
      using serve_settle(1) [OF stamped [OF xyb]] loop_stamp i by simp
    have h: "heads (incoming (http_peers ?x ! i) @ text_of y) \<le> ?N"
      using assms(3) i by (simp add: update_peer_peer grow_def text_of_append)
    obtain u where u: "fst (receive os a x st v) = serve i (update_peer i (stamp u) ?x)"
      using receive_eq [OF assms(2) live(1,2)] by blast
    obtain st1 w1 where r: "receive os a x st v = (st1, w1)" by fastforce
    have st1: "st1 = serve i (update_peer i (stamp u) ?x)" using u by (simp add: r)
    have "psocket (http_peers ?x ! i) = a" using i by (simp add: update_peer_peer grow_def)
    from second_read [OF xb xi this h] show ?thesis using left by (simp add: r st1)
  qed
qed

text \<open>A server with one client that has sent the beginning of a request.\<close>

definition one_client :: http_server where
  "one_client = (event_set.extend event_set_new
     \<lparr>limits = sample_limits,
      accepted_sockets = (accepted_empty (ev_of_sock sock_init))
        \<lparr>owned := [1], members := set_empty\<lparr>set_sockets := [1]\<rparr>, next_peer := 2\<rparr>,
      accept_wait_ms = 0,
      http_peers = [\<lparr>psocket = 1, incoming = ''GET '', last_activity = 0, closing = False, retired = False\<rparr>],
      running = False, http_polling = False\<rparr>)\<lparr>tcp_reg := snd (registry_add (Some 1) registry_empty)\<rparr>"

lemma one_client_facts: "http_inv one_client" "lookup_peer 1 one_client = Some 0"
  "incoming (http_peers one_client ! 0) = ''GET ''"
proof -
  have reg: "registry_inv (tcp_reg one_client)" "registered (tcp_reg one_client) = [1]"
    using registry_add_result [of registry_empty 1 "fst (registry_add (Some 1) registry_empty)"
        "snd (registry_add (Some 1) registry_empty)"] by (simp_all add: one_client_def)
  have fields: "http_peers one_client =
      [\<lparr>psocket = 1, incoming = ''GET '', last_activity = 0, closing = False, retired = False\<rparr>]"
    "limits one_client = sample_limits" "running one_client = False"
    "owned (accepted_sockets one_client) = [1]" "next_peer (accepted_sockets one_client) = 2"
    "set_sockets (members (accepted_sockets one_client)) = [1]"
    by (simp_all add: one_client_def event_set.defs)
  have "set_wf one_client"
    using reg(1) by (simp add: set_wf_def one_client_def event_set.defs event_set_new_def ev_of_sock_def sock.defs
        ev_sock.defs udp_sock.defs)
  moreover have "live_peer one_client a \<longleftrightarrow> a = 1" for a by (auto simp: live_peer_def fields)
  ultimately show "http_inv one_client"
    by (simp add: http_inv_def http_base_def book_ok_def peers_inv_def fields reg client_count_def
        peer_bounded_def sample_limits_def)
  show "lookup_peer 1 one_client = Some 0" "incoming (http_peers one_client ! 0) = ''GET ''"
    by (simp_all add: lookup_peer_def fields)
qed

theorem request_segmentation_witness:
  "settle 0 (fst (receive (scripted_os []) 1 ([47] @ [32]) one_client world0)) =
    settle 0 (let (st1, w1) = receive (scripted_os []) 1 [47] one_client world0 in
      fst (receive (scripted_os []) 1 [32] st1 w1))"
proof -
  have "find_from (crlf @ crlf) (''GET '' @ text_of ([47] @ [32])) 0 = None" by code_simp
  then have "heads (''GET '' @ text_of ([47] @ [32])) \<le> max_pipelined_per_event" using heads_None by simp
  then show ?thesis
    using request_segmentation [OF one_client_facts(1,2), of "[47]" "[32]"] one_client_facts(3) by simp
qed

end
