(* ===== verification/Http_Client.thy ===== *)
theory Http_Client
  imports Http_Message Clients Tls_Client
begin

text \<open>
  The program \<open>example/http-client.cpp\<close>: it fetches a URL over a plain or a TLS client socket
  and follows redirects. A message is text, the sockets carry its bytes.
\<close>

section \<open>URLs\<close>

record url_parts =
  is_https :: bool
  domain :: string
  url_path :: string
  url_port :: int

definition parse_url :: "string \<Rightarrow> url_parts" where
  "parse_url url =
    (let https = (take 8 url = ''https://'');
         working = (if https then drop 8 url else if take 7 url = ''http://'' then drop 7 url else url);
         port_number = (if https then 443 else 80) in
     case find_from ''/'' working 0 of
       Some slash \<Rightarrow> \<lparr>is_https = https, domain = take slash working, url_path = drop slash working, url_port = port_number\<rparr>
     | None \<Rightarrow> \<lparr>is_https = https, domain = working, url_path = ''/'', url_port = port_number\<rparr>)"

definition extract_redirect_url :: "string \<Rightarrow> string" where
  "extract_redirect_url headers =
    (case find_from ''Location: '' headers 0 of
       None \<Rightarrow> []
     | Some loc \<Rightarrow>
         let start = loc + 10;
             stop = (case find_from crlf headers start of None \<Rightarrow> find_from [LF] headers start | Some e \<Rightarrow> Some e) in
         (case stop of None \<Rightarrow> [] | Some e \<Rightarrow> take (e - start) (drop start headers)))"

text \<open>\<open>c_str()\<close>, as a callee that takes a C string sees it.\<close>

definition c_text :: "string \<Rightarrow> string" where
  "c_text s = takeWhile (\<lambda>c. c \<noteq> CHR 0x00) s"

section \<open>The connection\<close>

text \<open>The object behind the pointer, with the virtual calls the program makes on it.\<close>

datatype conn = Plain_conn sock | Tls_conn ssl_client

fun conn_write :: "os \<Rightarrow> byte list \<Rightarrow> int \<Rightarrow> conn \<Rightarrow> world \<Rightarrow> int \<times> conn \<times> world" where
  "conn_write os data sz (Plain_conn s) w = (let (n, s, w) = socket_write os (Some data) sz s w in (n, Plain_conn s, w))"
| "conn_write os data sz (Tls_conn s) w = (let (n, s, w) = ssl_write os data sz s w in (n, Tls_conn s, w))"

fun conn_read :: "os \<Rightarrow> byte list \<Rightarrow> int \<Rightarrow> conn \<Rightarrow> world \<Rightarrow> int \<times> byte list \<times> conn \<times> world" where
  "conn_read os buffer sz (Plain_conn s) w =
    (let (n, b, s, w) = socket_read os (Some buffer) sz s w in (n, the b, Plain_conn s, w))"
| "conn_read os buffer sz (Tls_conn s) w =
    (let (n, b, s, w) = ssl_read os (Some buffer) sz s w in (n, the b, Tls_conn s, w))"

fun conn_close :: "os \<Rightarrow> conn \<Rightarrow> world \<Rightarrow> conn \<times> world" where
  "conn_close os (Plain_conn s) w = (let (_, s, w) = socket_close os s w in (Plain_conn s, w))"
| "conn_close os (Tls_conn s) w = (let (_, s, w) = ssl_close os s w in (Tls_conn s, w))"

fun conn_delete :: "os \<Rightarrow> conn \<Rightarrow> world \<Rightarrow> world" where
  "conn_delete os (Plain_conn s) w = socket_destroy os s w"
| "conn_delete os (Tls_conn s) w = ssl_destroy os s w"

text \<open>\<open>None\<close>: no connection; the object was deleted.\<close>

definition open_tls :: "os \<Rightarrow> bool \<Rightarrow> string \<Rightarrow> url_parts \<Rightarrow> world \<Rightarrow> conn option \<times> world" where
  "open_tls os verify_peer ca_cert_file parts w =
    (let (s, w) = ssl_client_new os 0 w;
         s = snd (ssl_set_peer_verification (if verify_peer then Strict else Off) s);
         (ca_result, s, w) =
           (if verify_peer \<and> ca_cert_file \<noteq> [] then ssl_set_ca_file os (Some (c_text ca_cert_file)) s w else (0, s, w)) in
     if ca_result \<noteq> 0 then (None, conn_delete os (Tls_conn s) w)
     else
       let (ok, s, w) = ssl_client_connect_host os (Some (c_text (domain parts))) (url_port parts) s w in
       if \<not> ok \<or> \<not> connected s then (None, conn_delete os (Tls_conn s) w) else (Some (Tls_conn s), w))"

definition open_plain :: "os \<Rightarrow> url_parts \<Rightarrow> world \<Rightarrow> conn option \<times> world" where
  "open_plain os parts w =
    (let (s, w) = client_new_to os (Some (c_text (domain parts))) (url_port parts) w in
     if \<not> connected s then (None, conn_delete os (Plain_conn s) w) else (Some (Plain_conn s), w))"

section \<open>Request and response\<close>

definition request_text :: "string \<Rightarrow> string \<Rightarrow> string" where
  "request_text host path =
    ''GET '' @ path @ '' HTTP/1.1'' @ crlf @ ''Host: '' @ host @ crlf @ ''Connection: close'' @ crlf @ crlf"

function send_loop :: "os \<Rightarrow> byte list \<Rightarrow> nat \<Rightarrow> conn \<Rightarrow> world \<Rightarrow> bool \<times> conn \<times> world" where
  "send_loop os data offset c w =
    (if offset < length data
     then
       let (sent, c, w) = conn_write os (drop offset data) (to_int32 (int (length data - offset))) c w in
       if sent \<le> 0 then (False, c, w) else send_loop os data (offset + nat sent) c w
     else (True, c, w))"
  by pat_completeness auto
termination
  by (relation "measure (\<lambda>(os, data, offset, c, w). length data - offset)") auto

declare send_loop.simps [simp del]

definition send_request :: "os \<Rightarrow> conn \<Rightarrow> string \<Rightarrow> string \<Rightarrow> world \<Rightarrow> bool \<times> conn \<times> world" where
  "send_request os c host path w = send_loop os (bytes_of (request_text host path)) 0 c w"

text \<open>\<open>None\<close>: the peer never stops sending.\<close>

partial_function (option) read_response ::
  "os \<Rightarrow> conn \<Rightarrow> byte list \<Rightarrow> string \<Rightarrow> world \<Rightarrow> (bool \<times> string \<times> conn \<times> world) option" where
  "read_response os c buffer response w =
    (let (received, buffer, c, w) = conn_read os buffer 512 c w in
     if received < 0 then Some (False, response, c, w)
     else if received = 0 then Some (True, response, c, w)
     else read_response os c buffer (response @ text_of (take (nat received) buffer)) w)"

declare read_response.simps [code]

definition is_redirect :: "string \<Rightarrow> bool" where
  "is_redirect status_line \<longleftrightarrow>
    take 7 status_line = ''HTTP/1.'' \<and> length status_line \<ge> 12 \<and> status_line ! 8 = CHR '' '' \<and>
    take 3 (drop 9 status_line) \<in> {''301'', ''302'', ''303'', ''307'', ''308''}"

datatype fetched = Failed | Redirect string | Body string

text \<open>What is done with a whole response.\<close>

definition interpret_response :: "string \<Rightarrow> fetched" where
  "interpret_response response =
    (case find_from (crlf @ crlf) response 0 of
       None \<Rightarrow> Failed
     | Some header_end \<Rightarrow>
         let headers = take header_end response;
             body = drop (header_end + 4) response;
             status_line = (case find_from crlf headers 0 of None \<Rightarrow> headers | Some e \<Rightarrow> take e headers);
             redirect_url = extract_redirect_url headers in
         if is_redirect status_line \<and> redirect_url \<noteq> [] then Redirect redirect_url else Body body)"

section \<open>The program\<close>

text \<open>One round of the loop of \<open>main\<close>.\<close>

definition fetch :: "os \<Rightarrow> bool \<Rightarrow> string \<Rightarrow> string \<Rightarrow> world \<Rightarrow> (fetched \<times> world) option" where
  "fetch os verify_peer ca_cert_file url w =
    (let parts = parse_url url in
     if domain parts = [] then Some (Failed, w)
     else
       case (if is_https parts then open_tls os verify_peer ca_cert_file parts w else open_plain os parts w) of
         (None, w) \<Rightarrow> Some (Failed, w)
       | (Some c, w) \<Rightarrow>
           let (sent, c, w) = send_request os c (domain parts) (url_path parts) w in
           if \<not> sent then Some (Failed, conn_delete os c w)
           else
             case read_response os c (replicate 512 0) [] w of
               None \<Rightarrow> None
             | Some (ok, response, c, w) \<Rightarrow>
                 if \<not> ok then Some (Failed, conn_delete os c w)
                 else let (c, w) = conn_close os c w in Some (interpret_response response, conn_delete os c w))"

datatype exit_status = Exit_failure | Exit_success string

definition max_redirects :: nat where
  "max_redirects = 5"

fun fetch_loop :: "nat \<Rightarrow> os \<Rightarrow> bool \<Rightarrow> string \<Rightarrow> string \<Rightarrow> world \<Rightarrow> (exit_status \<times> world) option" where
  "fetch_loop 0 os verify_peer ca_cert_file url w = Some (Exit_failure, w)"
| "fetch_loop (Suc n) os verify_peer ca_cert_file url w =
    (case fetch os verify_peer ca_cert_file url w of
       None \<Rightarrow> None
     | Some (Failed, w) \<Rightarrow> Some (Exit_failure, w)
     | Some (Body b, w) \<Rightarrow> Some (Exit_success b, w)
     | Some (Redirect u, w) \<Rightarrow> fetch_loop n os verify_peer ca_cert_file u w)"

function parse_args :: "string list \<Rightarrow> bool \<Rightarrow> string \<Rightarrow> bool \<times> string" where
  "parse_args args verify_peer ca_cert_file =
    (case args of
       [] \<Rightarrow> (verify_peer, ca_cert_file)
     | arg # rest \<Rightarrow>
         if arg = ''--verify'' then parse_args rest True ca_cert_file
         else if arg = ''--no-verify'' then parse_args rest False ca_cert_file
         else if arg = ''--cacert'' \<and> rest \<noteq> [] then parse_args (tl rest) verify_peer (hd rest)
         else parse_args rest verify_peer ca_cert_file)"
  by pat_completeness auto
termination
  by (relation "measure (\<lambda>(args, v, ca). length args)") auto

declare parse_args.simps [simp del]

text \<open>The arguments start with the name of the program.\<close>

definition http_client_main :: "os \<Rightarrow> string list \<Rightarrow> world \<Rightarrow> (exit_status \<times> world) option" where
  "http_client_main os argv w =
    (if length argv < 2 then Some (Exit_failure, w)
     else
       let (verify_peer, ca_cert_file) = parse_args (drop 2 argv) True [] in
       fetch_loop max_redirects os verify_peer ca_cert_file (argv ! 1) w)"

section \<open>Sending\<close>

lemma outbound_pop: "outbound (trace (clear_ssl_errors os w)) = outbound (trace w)"
proof -
  have "outbound (trace (pop_errors k os w)) = outbound (trace w)" for k
  proof (induction k arbitrary: w)
    case (Suc k)
    obtain e w1 where e: "sys os (Tls Err_get_error) w = (e, w1)" by fastforce
    have "outbound (trace w1) = outbound (trace w)" using sys_trace [OF e] by (simp add: send_payload_def)
    then show ?case using Suc [of w1] by (simp add: e)
  qed simp
  then show ?thesis by (simp add: clear_ssl_errors_def)
qed

lemma outbound_sys:
  "sys os c w = (r, w') \<Longrightarrow> outbound (trace w') =
    outbound (trace w) @ (case send_payload c of None \<Rightarrow> [] | Some b \<Rightarrow> take (nat (ret r)) b)"
  using sys_trace by simp

lemma socket_write_wire:
  assumes "send_bounded os" "socket_write os (Some data) sz s w = (n, s', w')" "0 < sz" "sz \<le> int (length data)"
  shows "outbound (trace w') = outbound (trace w) @ take (nat n) data \<and> n \<le> sz"
proof (cases "is_valid_socket s")
  case False
  then show ?thesis using assms by (auto simp: socket_write_def)
next
  case True
  obtain k w1 where k: "(if write_timeout_ms s > 0 then wait_for_writable os (sockfd s) (write_timeout_ms s) w
      else (1, w)) = (k, w1)" by fastforce
  have o1: "outbound (trace w1) = outbound (trace w)"
    using k by (auto simp: wait_for_writable_def Let_def outbound_sys split: if_splits prod.splits)
  have call: "send_call (sockfd s) data sz 0 = Send (sockfd s) (take (nat sz) data) 0"
    using assms(3,4) by (simp add: send_call_def)
  obtain r w2 where r: "sys os (Io (Send (sockfd s) (take (nat sz) data) 0)) w1 = (r, w2)" by fastforce
  have n: "ret r \<le> sz"
    using send_boundedD [OF assms(1), of "Io (Send (sockfd s) (take (nat sz) data) 0)" "take (nat sz) data" "trace w1"]
      sys_answer [OF r] assms(3) by simp
  have "outbound (trace w2) = outbound (trace w1) @ take (nat (ret r)) data"
    using outbound_sys [OF r] n by (simp add: min_def)
  then show ?thesis
    using assms(2-4) True n o1 by (auto simp: socket_write_def k call r split: if_splits)
qed

lemma ssl_write_wire:
  assumes "send_bounded os" "ssl_write os data sz s w = (n, s', w')" "0 < sz" "sz \<le> int (length data)"
  shows "outbound (trace w') = outbound (trace w) @ take (nat n) data \<and> n \<le> sz"
proof (cases "ssl s = 0 \<or> \<not> connected s")
  case True
  then show ?thesis using assms(2,3) by (auto simp: ssl_write_def)
next
  case False
  have call: "ssl_write_call (ssl s) data sz = Ssl_write (ssl s) (take (nat sz) data)"
    using assms(3,4) by (simp add: ssl_write_call_def)
  let ?w = "clear_ssl_errors os w"
  obtain r w2 where r: "sys os (Tls (Ssl_write (ssl s) (take (nat sz) data))) ?w = (r, w2)" by fastforce
  have n: "ret r \<le> sz"
    using send_boundedD [OF assms(1), of "Tls (Ssl_write (ssl s) (take (nat sz) data))" "take (nat sz) data" "trace ?w"]
      sys_answer [OF r] assms(3) by simp
  have o: "outbound (trace w2) = outbound (trace w) @ take (nat (ret r)) data"
    using outbound_sys [OF r] n outbound_pop by (simp add: min_def)
  obtain e w3 where e: "sys os (Tls (Ssl_get_error (ssl s) (ret r))) w2 = (e, w3)" by fastforce
  have "outbound (trace w3) = outbound (trace w2)" using outbound_sys [OF e] by simp
  then show ?thesis
    using assms(2,3) False n o
    by (cases "ret r \<le> 0") (auto simp: ssl_write_def call r io_failed_def e Let_def)
qed

lemma conn_write_wire:
  assumes "send_bounded os" "conn_write os data sz c w = (n, c', w')" "0 < sz" "sz \<le> int (length data)"
  shows "outbound (trace w') = outbound (trace w) @ take (nat n) data \<and> n \<le> sz"
proof (cases c)
  case (Plain_conn s)
  obtain m x v where "socket_write os (Some data) sz s w = (m, x, v)" by (rule prod_cases3)
  with socket_write_wire [OF assms(1) this assms(3,4)] show ?thesis using assms(2) Plain_conn by simp
next
  case (Tls_conn s)
  obtain m x v where "ssl_write os data sz s w = (m, x, v)" by (rule prod_cases3)
  with ssl_write_wire [OF assms(1) this assms(3,4)] show ?thesis using assms(2) Tls_conn by simp
qed

lemma send_loop_wire:
  "send_bounded os \<Longrightarrow> length data < 2 ^ 31 \<Longrightarrow> offset \<le> length data \<Longrightarrow>
   send_loop os data offset c w = (ok, c', w') \<Longrightarrow>
    \<exists>k \<le> length data - offset. outbound (trace w') = outbound (trace w) @ take k (drop offset data) \<and>
      (ok \<longleftrightarrow> k = length data - offset)"
proof (induction os data offset c w rule: send_loop.induct)
  case (1 os data offset c w)
  show ?case
  proof (cases "offset < length data")
    case False
    then show ?thesis using 1(5) by (auto simp: send_loop.simps [of os data offset])
  next
    case True
    let ?sz = "int (length data - offset)"
    have sz: "to_int32 ?sz = ?sz" using 1(3) by simp
    obtain n c1 w1 where s: "conn_write os (drop offset data) (to_int32 ?sz) c w = (n, c1, w1)" by (rule prod_cases3)
    note wire = conn_write_wire [OF 1(2) s [unfolded sz]]
    then have o: "outbound (trace w1) = outbound (trace w) @ take (nat n) (drop offset data)" and n: "n \<le> ?sz"
      using True by simp_all
    note d = 1(5) [unfolded send_loop.simps [of os data offset] if_P [OF True] s prod.case]
    show ?thesis
    proof (cases "n \<le> 0")
      case stop: True
      then have "\<not> ok" "outbound (trace w') = outbound (trace w)" using d o by (auto simp: stop)
      then show ?thesis using True by (intro exI [of _ 0]) simp
    next
      case False
      then have "send_loop os data (offset + nat n) c1 w1 = (ok, c', w')" using d by simp
      moreover have "offset + nat n \<le> length data" using n False True by linarith
      ultimately obtain k where k: "k \<le> length data - (offset + nat n)"
        "outbound (trace w') = outbound (trace w1) @ take k (drop (offset + nat n) data)"
        "ok \<longleftrightarrow> k = length data - (offset + nat n)"
        using 1(1) [OF True s [symmetric] refl refl False 1(2,3)] by blast
      have "take (nat n + k) (drop offset data) = take (nat n) (drop offset data) @ take k (drop (offset + nat n) data)"
        by (simp only: take_add drop_drop add.commute [of offset])
      then show ?thesis using k o False True n by (intro exI [of _ "nat n + k"]) auto
    qed
  qed
qed

lemma send_loop_tls:
  "send_loop os data offset (Tls_conn s) w = (ok, c, w') \<Longrightarrow> \<exists>s'. c = Tls_conn s'"
proof (induction "length data - offset" arbitrary: offset s w rule: less_induct)
  case less
  show ?case
  proof (cases "offset < length data")
    case False
    then show ?thesis using less.prems by (auto simp: send_loop.simps [of os data offset])
  next
    case True
    obtain n s1 w1 where r: "ssl_write os (drop offset data) (to_int32 (int (length data - offset))) s w = (n, s1, w1)"
      by (rule prod_cases3)
    have "(if n \<le> 0 then (False, Tls_conn s1, w1) else send_loop os data (offset + nat n) (Tls_conn s1) w1) = (ok, c, w')"
      using less.prems by (simp only: send_loop.simps [of os data offset] True if_True conn_write.simps Let_def r prod.case)
    then show ?thesis using less.hyps [of "offset + nat n"] True by (cases "n \<le> 0") auto
  qed
qed

section \<open>Lines of a head\<close>

definition head_lines :: "string list \<Rightarrow> string" where
  "head_lines ls = concat (map (\<lambda>l. l @ crlf) ls)"

definition line_ok :: "string \<Rightarrow> bool" where
  "line_ok l \<longleftrightarrow> l \<noteq> [] \<and> CR \<notin> set l"

lemma head_lines_simps [simp]:
  "head_lines [] = []" "head_lines (l # ls) = l @ crlf @ head_lines ls" "head_lines (ls @ ms) = head_lines ls @ head_lines ms"
  by (simp_all add: head_lines_def)

text \<open>The first blank line ends a head of non-empty lines, whatever follows.\<close>

lemma head_ends:
  "list_all line_ok (ls @ [l]) \<Longrightarrow>
    find_sub (crlf @ crlf) (head_lines (ls @ [l]) @ crlf @ body) = Some (length (head_lines ls) + length l)"
proof (induction ls)
  case Nil
  then show ?case using find_blank_line_last [of l body] by (simp add: line_ok_def)
next
  case (Cons x ls)
  let ?t = "head_lines (ls @ [l]) @ crlf @ body"
  obtain m ms where m: "ls @ [l] = m # ms" by (cases ls) auto
  have ok: "line_ok x" "line_ok m" using Cons.prems m by (auto simp: append_eq_Cons_conv)
  obtain c y where c: "m = c # y" "c \<noteq> CR" using ok(2) by (cases m) (auto simp: line_ok_def)
  have "take 2 ?t \<noteq> crlf" unfolding m using c by (simp add: crlf_def)
  then show ?case
    using Cons find_blank_line [of x ?t] ok(1) by (simp add: line_ok_def crlf_def)
qed

declare find_from_0 [simp]

text \<open>A whole response, cut into its lines.\<close>

lemma interpret_head:
  assumes "list_all line_ok (status # ls)" "response = head_lines (status # ls) @ crlf @ body"
    and "headers = take (length (head_lines (status # ls)) - 2) (head_lines (status # ls))"
  shows "interpret_response response =
    (if is_redirect status \<and> extract_redirect_url headers \<noteq> [] then Redirect (extract_redirect_url headers) else Body body)"
proof -
  obtain ms l where m: "status # ls = ms @ [l]" by (metis append_butlast_last_id list.distinct(1))
  let ?n = "length (head_lines ms) + length l"
  have n: "find_from (crlf @ crlf) response 0 = Some ?n"
    using head_ends [of ms l body] assms(1,2) unfolding m by simp
  have len: "length (head_lines (status # ls)) = ?n + 2" unfolding m by (simp add: crlf_def)
  have "take ?n (h @ t) = take (length h - 2) h \<and> drop (?n + 4) (h @ crlf @ t) = t"
    if "length h = ?n + 2" for h t :: string
    using that by (simp add: crlf_def)
  from this [OF len] have h: "take ?n response = headers" and b: "drop (?n + 4) response = body"
    unfolding assms(2,3) by blast+
  have cr: "CR \<notin> set status" using assms(1) by (simp add: line_ok_def)
  have line: "(case find_from crlf headers 0 of None \<Rightarrow> headers | Some e \<Rightarrow> take e headers) = status"
  proof (cases ls)
    case Nil
    then have "headers = status" using assms(3) by (simp add: crlf_def)
    moreover have "find_sub crlf status = None"
      using find_sub_skip [OF cr, of "[LF]" "[]"] by (simp add: crlf_def)
    ultimately show ?thesis by simp
  next
    case (Cons l1 rest)
    then obtain t where "headers = status @ crlf @ t" using assms(3) by (simp add: crlf_def)
    then show ?thesis using find_crlf [OF cr] by simp
  qed
  show ?thesis
    unfolding interpret_response_def n option.case Let_def h b line ..
qed

lemma extract_at:
  assumes "find_sub ''Location: '' (before @ ''Location: '') = Some (length before)" "CR \<notin> set url"
  shows "extract_redirect_url (before @ ''Location: '' @ url @ crlf @ rest) = url"
    and "LF \<notin> set url \<Longrightarrow> extract_redirect_url (before @ ''Location: '' @ url) = []"
proof -
  have loc: "find_from ''Location: '' (before @ ''Location: '' @ t) 0 = Some (length before)" for t
    using find_sub_extend [OF assms(1), of t] by simp
  have at: "find_from pat (before @ ''Location: '' @ t) (length before + 10) =
      map_option ((+) (length before + 10)) (find_sub pat t)" for pat t
    by (simp add: find_from_def)
  have tail: "drop (length before + 10) (before @ ''Location: '' @ t) = t" for t by simp
  have "find_sub crlf (url @ crlf @ rest) = Some (length url)" by (rule find_crlf [OF assms(2)])
  then show "extract_redirect_url (before @ ''Location: '' @ url @ crlf @ rest) = url"
    unfolding extract_redirect_url_def loc option.case Let_def at tail by simp
  assume "LF \<notin> set url"
  then have "find_sub crlf url = None" "find_sub [LF] url = None"
    using find_sub_skip [OF assms(2), of "[LF]" "[]"] find_char_None by (simp_all add: crlf_def)
  then show "extract_redirect_url (before @ ''Location: '' @ url) = []"
    unfolding extract_redirect_url_def loc option.case Let_def at tail by simp
qed

section \<open>Reading over TLS\<close>

lemma ssl_read_not_zero: "ssl_read os b 512 s w = (n, b', s', w') \<Longrightarrow> n \<noteq> 0"
  by (auto simp: ssl_read_def Let_def split: if_splits prod.splits)

lemma read_response_tls:
  assumes "read_response os c buffer resp w = Some out" "\<exists>s. c = Tls_conn s"
  shows "\<not> fst out"
proof -
  have "(\<exists>s. c = Tls_conn s) \<longrightarrow> \<not> fst out"
  proof (rule read_response.raw_induct
      [where P = "\<lambda>os c buffer resp w out. (\<exists>s. c = Tls_conn s) \<longrightarrow> \<not> fst out", OF _ assms(1)])
    fix rec os c buffer resp w out
    assume step: "\<And>os c buffer resp w out. rec os c buffer resp w = Some out \<Longrightarrow> (\<exists>s. c = Tls_conn s) \<longrightarrow> \<not> fst out"
      "(let (received, buffer, c, w) = conn_read os buffer 512 c w in
         if received < 0 then Some (False, resp, c, w)
         else if received = 0 then Some (True, resp, c, w)
         else rec os c buffer (resp @ text_of (take (nat received) buffer)) w) = Some out"
    show "(\<exists>s. c = Tls_conn s) \<longrightarrow> \<not> fst out"
    proof
      assume "\<exists>s. c = Tls_conn s"
      then obtain s where c: "c = Tls_conn s" by blast
      obtain n b s1 w1 where r: "ssl_read os (Some buffer) 512 s w = (n, b, s1, w1)" by (rule prod_cases4)
      have n: "n \<noteq> 0" by (rule ssl_read_not_zero [OF r])
      note d = step(2) [unfolded c conn_read.simps r Let_def prod.case]
      show "\<not> fst out"
      proof (cases "n < 0")
        case True
        then show ?thesis using d by auto
      next
        case False
        then show ?thesis using d n step(1) by auto
      qed
    qed
  qed
  then show ?thesis using assms(2) by blast
qed

section \<open>A peer that answers\<close>

text \<open>It sends a script and closes; over TLS its certificate verifies.\<close>

definition tls_peer :: "byte list \<Rightarrow> os" where
  "tls_peer script = scripted_os script \<lparr>os_call := \<lambda>h c. case c of
     Tls (Ssl_get_verify_result x) \<Rightarrow> result0
   | Tls Err_get_error \<Rightarrow> result0
   | _ \<Rightarrow> scripted_call script h c\<rparr>"

definition sample_answer :: string where
  "sample_answer = ''HTTP/1.1 200 OK'' @ crlf @ crlf @ ''hi''"

lemma sample_plain_fetch:
  "map_option fst (fetch (tls_peer (bytes_of sample_answer)) True [] ''http://h/'' world0) = Some (Body ''hi'')"
  by code_simp

lemma sample_tls_fetch: "fetch (tls_peer (bytes_of sample_answer)) True [] ''https://h/'' world0 \<noteq> None"
  by code_simp

section \<open>Properties\<close>

text \<open>
  C32. Fetching an HTTPS URL never succeeds. A TLS socket reports the orderly end of the stream as a
  failed read, and the program takes a failed read for a failed response; so whatever the server
  sends, a fetch over TLS that returns at all has failed, and the program exits with failure
  whenever the URL it is given is an HTTPS one.
\<close>

theorem https_fetch_never_succeeds:
  assumes "is_https (parse_url url)"
  shows "(fetch os verify ca url w = Some (r, w') \<longrightarrow> r = Failed) \<and>
    (http_client_main os (name # url # options) w = Some (e, w2) \<longrightarrow> e = Exit_failure)"
proof -
  have fetched: "r = Failed" if f: "fetch os verify ca url w = Some (r, w')" for verify ca r w'
  proof (cases "domain (parse_url url) = []")
    case True
    then show ?thesis using f by (simp add: fetch_def)
  next
    case False
    obtain conn w1 where o: "open_tls os verify ca (parse_url url) w = (conn, w1)" by fastforce
    note d = f [unfolded fetch_def Let_def if_not_P [OF False] if_P [OF assms] o prod.case]
    show ?thesis
    proof (cases conn)
      case None
      then show ?thesis using d by simp
    next
      case (Some c)
      then obtain s where s: "c = Tls_conn s"
        using o by (auto simp: open_tls_def Let_def split: prod.splits if_splits)
      obtain sent c1 w2 where r: "send_request os c (domain (parse_url url)) (url_path (parse_url url)) w1 = (sent, c1, w2)"
        by (rule prod_cases3)
      have c1: "\<exists>s1. c1 = Tls_conn s1"
        using send_loop_tls [OF r [unfolded send_request_def s]] .
      note d = d [unfolded Some option.case r prod.case]
      show ?thesis
      proof (cases sent)
        case sent: True
        obtain out where out: "read_response os c1 (replicate 512 0) [] w2 = Some out"
          using d sent by (cases "read_response os c1 (replicate 512 0) [] w2") auto
        obtain ok resp c2 w3 where p: "out = (ok, resp, c2, w3)" by (rule prod_cases4)
        have "\<not> ok" using read_response_tls [OF out c1] by (simp add: p)
        then show ?thesis using d sent by (simp add: out p)
      qed (use d in simp)
    qed
  qed
  have "e = Exit_failure" if m: "http_client_main os (name # url # options) w = Some (e, w2)"
  proof -
    obtain v ca where a: "parse_args options True [] = (v, ca)" by fastforce
    obtain n where n: "max_redirects = Suc n" by (simp add: max_redirects_def)
    have loop: "fetch_loop (Suc n) os v ca url w = Some (e, w2)"
      using m by (simp add: http_client_main_def n a del: fetch_loop.simps)
    obtain x where x: "fetch os v ca url w = Some x" using loop by (cases "fetch os v ca url w") simp_all
    obtain r w' where "x = (r, w')" by fastforce
    then show ?thesis using fetched [of v ca r w'] x loop by simp
  qed
  then show ?thesis using fetched by blast
qed

theorem https_fetch_never_succeeds_witness:
  "map_option fst (fetch (tls_peer (bytes_of sample_answer)) True [] ''http://h/'' world0) = Some (Body ''hi'') \<and>
   map_option fst (fetch (tls_peer (bytes_of sample_answer)) True [] ''https://h/'' world0) = Some Failed"
proof -
  have https: "is_https (parse_url ''https://h/'')" by code_simp
  obtain r w where f: "fetch (tls_peer (bytes_of sample_answer)) True [] ''https://h/'' world0 = Some (r, w)"
    using sample_tls_fetch by auto
  then have "r = Failed" using https_fetch_never_succeeds [OF https] by blast
  then show ?thesis using f sample_plain_fetch by simp
qed

text \<open>
  C34. A redirect is followed only if another header comes after it. When the first match of the key in
  a well-formed redirect response is its location header, the program follows the location
  if a header line follows that header; if it is the last one, the program takes the body of the redirect for the
  answer and exits with success.
\<close>

theorem redirect_needs_another_header:
  assumes "is_redirect status" "list_all line_ok (status # before @ [''Location: '' @ url] @ after)"
    and "LF \<notin> set url" "url \<noteq> []"
    and "find_sub ''Location: '' (head_lines (status # before) @ ''Location: '') = Some (length (head_lines (status # before)))"
  shows "interpret_response (head_lines (status # before @ [''Location: '' @ url] @ after) @ crlf @ body) =
    (if after = [] then Body body else Redirect url)"
proof -
  let ?ls = "before @ [''Location: '' @ url] @ after" and ?b = "head_lines (status # before)"
  let ?h = "take (length (head_lines (status # ?ls)) - 2) (head_lines (status # ?ls))"
  have cr: "CR \<notin> set url" using assms(2) by (simp add: line_ok_def)
  have split: "head_lines (status # ?ls) = ?b @ ''Location: '' @ url @ crlf @ head_lines after" by simp
  have "extract_redirect_url ?h = (if after = [] then [] else url)"
  proof (cases after)
    case Nil
    have "take (length (t @ crlf) - 2) (t @ crlf) = t" for t :: string by (simp add: crlf_def)
    from this [of "?b @ ''Location: '' @ url"] have "?h = ?b @ ''Location: '' @ url"
      unfolding split Nil by (simp only: head_lines_simps append_Nil2 append.assoc)
    then show ?thesis using extract_at(2) [OF assms(5) cr assms(3)] Nil by simp
  next
    case (Cons a as)
    have "take (length (s @ t) - 2) (s @ t) = s @ take (length t - 2) t" if "2 \<le> length t" for s t :: string
      using that by simp
    from this [of "head_lines after" "?b @ ''Location: '' @ url @ crlf"]
    have "?h = ?b @ ''Location: '' @ url @ crlf @ take (length (head_lines after) - 2) (head_lines after)"
      unfolding split Cons by (simp only: append.assoc) (simp add: crlf_def)
    then show ?thesis using extract_at(1) [OF assms(5) cr] Cons by simp
  qed
  then show ?thesis
    using interpret_head [OF assms(2) refl refl, of body] assms(1,4) by simp
qed

theorem redirect_needs_another_header_witness:
  "interpret_response (''HTTP/1.1 302 Found'' @ crlf @ ''Location: http://h/'' @ crlf @ crlf @ ''moved'') = Body ''moved''"
proof -
  have "is_redirect ''HTTP/1.1 302 Found''" "list_all line_ok [''HTTP/1.1 302 Found'', ''Location: '' @ ''http://h/'']"
    "LF \<notin> set ''http://h/''"
    "find_sub ''Location: '' (head_lines [''HTTP/1.1 302 Found''] @ ''Location: '') =
      Some (length (head_lines [''HTTP/1.1 302 Found'']))" by code_simp+
  then show ?thesis
    using redirect_needs_another_header [of "''HTTP/1.1 302 Found''" "[]" "''http://h/''" "[]" "''moved''"] by simp
qed

text \<open>
  A request is reported as sent exactly if all of it was handed to the transport. Over a plain
  or a TLS connection, whatever pieces the transport takes, the bytes handed over are a prefix of the
  request in order, and sending succeeds exactly when that prefix is the whole request.
\<close>

lemma http_request_sent_whole:
  assumes "send_bounded os" "length (request_text host path) < 2 ^ 31"
    and "send_request os c host path w = (ok, c', w')"
  shows "\<exists>k. outbound (trace w') = outbound (trace w) @ take k (bytes_of (request_text host path)) \<and>
    k \<le> length (request_text host path) \<and> ok = (k = length (request_text host path))"
proof -
  have len: "length (bytes_of (request_text host path)) = length (request_text host path)" by (simp add: bytes_of_def)
  show ?thesis
    using send_loop_wire [OF assms(1) _ _ assms(3) [unfolded send_request_def]] assms(2) unfolding len by auto
qed

end
