(* ===== verification/Http_Exchange.thy ===== *)
theory Http_Exchange
  imports Http_Client Http_Server
begin

text \<open>
  The two HTTP programs together: what \<open>http-client.cpp\<close> sends is what \<open>http_server.cpp\<close>
  answers, and what the server writes is what the client prints.
\<close>

definition head_plain :: "int \<Rightarrow> string \<Rightarrow> nat \<Rightarrow> string list" where
  "head_plain status type n =
    [''HTTP/1.1 '' @ decimal (nat status) @ '' '' @ reason status, ''Content-Type: '' @ type,
     ''Content-Length: '' @ decimal n, ''Connection: close'']"

lemma response_lines:
  "response_text status type body False True False False =
    head_lines (head_plain status type (length body)) @ crlf @ body"
  by (simp add: response_text_def head_plain_def)

lemma decimal_plain: "CR \<notin> set (decimal n)"
  using decimal_no_CR .

text \<open>Every response that the server writes to a closing connection is cut right by the client.\<close>

lemma client_reads_response:
  assumes "CR \<notin> set type" "status = 200 \<or> status = 404"
  shows "interpret_response (response_text status type body False True False False) = Body body"
proof -
  have ok: "list_all line_ok (head_plain status type (length body))"
    using assms decimal_plain by (auto simp: head_plain_def line_ok_def reason_def CR_def)
  have no: "\<not> is_redirect (''HTTP/1.1 '' @ decimal (nat status) @ '' '' @ reason status)"
    using assms(2) by (elim disjE) (simp_all only:, code_simp+)
  show ?thesis
    using interpret_head [OF ok [unfolded head_plain_def] _ refl, of _ body] no
    unfolding response_lines head_plain_def by simp
qed

text \<open>The answer of the server to a path.\<close>

definition answer :: "string \<Rightarrow> int \<times> string \<times> string" where
  "answer path =
    (if path = ''/'' \<or> path = ''/index.html''
     then (200, ''text/html; charset=utf-8'', ''<html><body><h1>libAeon HTTP example</h1></body></html>'' @ [LF])
     else if path = ''/health'' then (200, text_plain, ''ok'' @ [LF])
     else (404, text_plain, ''Not Found'' @ [LF]))"

text \<open>
  C33. The client and the server understand each other. For a printable host, path and query, the
  request text of the client is one request to the server: it finds no error, takes the path
  without the query, and answers as its table of pages says, closing the connection. From that response the client
  prints exactly the page, whatever the page is.
\<close>

theorem http_client_and_server_agree:
  assumes "list_all printable (path @ query)" "CHR ''#'' \<notin> set (path @ query)" "path \<noteq> []" "hd path = CHR ''/''"
    and "CHR ''?'' \<notin> set path" "query = [] \<or> hd query = CHR ''?''" "list_all printable host" "host \<noteq> []"
    and "answer path = (status, type, page)"
  shows "handle_request i (request_text host (path @ query)) st = snd (send_response i status type page False True False False st) \<and>
    interpret_response (response_text status type page False True False False) = Body page"
proof -
  have "parse (request_text host (path @ query)) =
      \<lparr>req_error = 0, req_head = False, req_close = True, req_http10 = False, req_path = path\<rparr>"
    using parse_round_trip [OF assms(1-8), of False True] by (simp add: request_text_def)
  then have "handle_request i (request_text host (path @ query)) st = snd (send_response i status type page False True False False st)"
    using assms(9) by (auto simp: handle_request_def answer_def split: if_splits)
  moreover have "CR \<notin> set type" "status = 200 \<or> status = 404"
    using assms(9) by (auto simp: answer_def text_plain_def CR_def split: if_splits)
  ultimately show ?thesis using client_reads_response by blast
qed

definition sample_exchange :: http_server where
  "sample_exchange = fst (http_new \<lparr>max_clients = 2, max_header_bytes = 64, max_queued = 256, idle_timeout_ms = 0\<rparr>
     (scripted_os []) world0)"

theorem http_client_and_server_agree_witness:
  "handle_request 0 (request_text ''localhost'' (''/health'' @ ''?x=1'')) sample_exchange =
     snd (send_response 0 200 text_plain (''ok'' @ [LF]) False True False False sample_exchange) \<and>
   interpret_response (response_text 200 text_plain (''ok'' @ [LF]) False True False False) = Body (''ok'' @ [LF])"
proof -
  have "list_all printable (''/health'' @ ''?x=1'')" "CHR ''#'' \<notin> set (''/health'' @ ''?x=1'')"
    "list_all printable ''localhost''" by code_simp+
  then show ?thesis
    using http_client_and_server_agree [of "''/health''" "''?x=1''" "''localhost''" 200 text_plain "''ok'' @ [LF]" 0 sample_exchange]
    by (simp add: answer_def)
qed

end
