(* ===== verification/Chat_Server.thy ===== *)
theory Chat_Server
  imports Http_Service
begin

text \<open>
  The server of \<open>example/chat_server.cpp\<close>: lines of text from any client go to all of them. As in
  \<open>Http_Server\<close>, its state extends that of its event set, the listener is the stream at
  address \<open>0\<close> and the accepted sockets are the streams at the addresses it gives them.
\<close>

section \<open>State\<close>

record chat_limits =
  chat_max_clients :: nat
  max_line_bytes :: nat
  max_queued_bytes :: nat

record chat_peer =
  csocket :: nat
  pending_line :: string
  peer_id :: "64 word"
  cretired :: bool

record chat_server = event_set +
  chat_limit :: chat_limits
  chat_accepted :: "ev_sock accepted"
  chat_wait_ms :: int
  chat_peers :: "chat_peer list"
  next_id :: "64 word"
  chat_running :: bool
  chat_polling :: bool

definition get_chat_listener :: "chat_server \<Rightarrow> ev_sock server_ev_sock" where
  "get_chat_listener st = ev_sock.extend (plain (streams st 0))
     \<lparr>ev_accepted = (chat_accepted st)\<lparr>peer_heap := (\<lambda>a. plain (streams st a))\<rparr>,
      ev_accept_timeout_ms = chat_wait_ms st\<rparr>"

definition put_chat_listener :: "ev_sock server_ev_sock \<Rightarrow> chat_server \<Rightarrow> chat_server" where
  "put_chat_listener s st = st\<lparr>
     streams := (\<lambda>a. if a = 0 then Listener (ev_sock.truncate s) else Plain (peer_heap (ev_accepted s) a)),
     chat_accepted := ev_accepted s, chat_wait_ms := ev_accept_timeout_ms s\<rparr>"

section \<open>Peers\<close>

definition chat_client_count :: "chat_server \<Rightarrow> nat" where
  "chat_client_count st = length (filter (\<lambda>p. \<not> cretired p) (chat_peers st))"

definition lookup_chat :: "nat \<Rightarrow> chat_server \<Rightarrow> nat option" where
  "lookup_chat a st = first_where (\<lambda>p. csocket p = a) (chat_peers st)"

definition update_chat :: "nat \<Rightarrow> (chat_peer \<Rightarrow> chat_peer) \<Rightarrow> chat_server \<Rightarrow> chat_server" where
  "update_chat i f st = st\<lparr>chat_peers := (chat_peers st)[i := f (chat_peers st ! i)]\<rparr>"

definition chat_retire :: "nat \<Rightarrow> chat_server \<Rightarrow> chat_server" where
  "chat_retire a st =
    (case lookup_chat a st of
       None \<Rightarrow> st
     | Some i \<Rightarrow>
         if cretired (chat_peers st ! i) then st
         else snd (remove_stream (Some a) (update_chat i (\<lambda>p. p\<lparr>cretired := True\<rparr>) st)))"

text \<open>A text goes to the queue of one socket.\<close>

definition chat_queue :: "string \<Rightarrow> nat \<Rightarrow> chat_server \<Rightarrow> bool \<times> chat_server" where
  "chat_queue text a st =
    (let (ok, s) = queue_write_string (\<lambda>_. True) (bytes_of text) (plain (streams st a)) in
     (ok, update_stream a (\<lambda>_. Plain s) st))"

section \<open>Accepting\<close>

definition greeting :: "64 word \<Rightarrow> string" where
  "greeting n = ''* connected as guest-'' @ decimal (unat n) @ [LF]"

definition chat_admit :: "os \<Rightarrow> nat \<Rightarrow> chat_server \<Rightarrow> world \<Rightarrow> chat_server \<times> world" where
  "chat_admit os a st w =
    (let (ok, st) =
       (if chat_client_count st \<ge> chat_max_clients (chat_limit st) then (False, st)
        else let (b, s) = set_max_queued_bytes (max_queued_bytes (chat_limit st)) (plain (streams st a)) in
             (b, update_stream a (\<lambda>_. Plain s) st)) in
     if \<not> ok
     then
       let (_, s, w) = event_close no_user os (plain (streams st a)) w in
       (update_stream a (\<lambda>_. Plain s) st, w)
     else
       let p = \<lparr>csocket = a, pending_line = [], peer_id = next_id st, cretired = False\<rparr>;
           (added, st) = add_stream (Some a) (st\<lparr>next_id := next_id st + 1\<rparr>) in
       if \<not> added then (st, w)
       else
         let (ok, st) = chat_queue (greeting (peer_id p)) a (st\<lparr>chat_peers := chat_peers st @ [p]\<rparr>) in
         (if ok then st else chat_retire a st, w))"

fun chat_accept_loop :: "os \<Rightarrow> nat \<Rightarrow> chat_server \<Rightarrow> world \<Rightarrow> chat_server \<times> world" where
  "chat_accept_loop os 0 st w = (st, w)"
| "chat_accept_loop os (Suc n) st w =
    (let (p, s, w) = server_event_accept os False (get_chat_listener st) w; st = put_chat_listener s st in
     case p of
       None \<Rightarrow> (st, w)
     | Some a \<Rightarrow> let (st, w) = chat_admit os a st w in chat_accept_loop os n st w)"

definition chat_accept_ready :: "os \<Rightarrow> chat_server \<Rightarrow> world \<Rightarrow> chat_server \<times> world" where
  "chat_accept_ready os = chat_accept_loop os 32"

section \<open>Lines\<close>

definition chat_frame :: "64 word \<Rightarrow> string \<Rightarrow> string" where
  "chat_frame sender line = ''guest-'' @ decimal (unat sender) @ '': '' @ line @ [LF]"

definition chat_send :: "string \<Rightarrow> nat \<Rightarrow> chat_server \<Rightarrow> chat_server" where
  "chat_send frame j st =
    (let p = chat_peers st ! j in
     if cretired p then st
     else let (ok, st) = chat_queue frame (csocket p) st in if ok then st else chat_retire (csocket p) st)"

definition broadcast :: "64 word \<Rightarrow> string \<Rightarrow> chat_server \<Rightarrow> chat_server" where
  "broadcast sender line st = fold (chat_send (chat_frame sender line)) [0..<length (chat_peers st)] st"

definition strip_cr :: "string \<Rightarrow> string" where
  "strip_cr line = (if line \<noteq> [] \<and> last line = CR then butlast line else line)"

definition end_line :: "nat \<Rightarrow> chat_server \<Rightarrow> chat_server" where
  "end_line i st =
    (let st = update_chat i (\<lambda>p. p\<lparr>pending_line := strip_cr (pending_line p)\<rparr>) st;
         sender = chat_peers st ! i;
         st = (if pending_line sender \<noteq> [] then broadcast (peer_id sender) (pending_line sender) st else st) in
     update_chat i (\<lambda>p. p\<lparr>pending_line := []\<rparr>) st)"

fun chat_receive_loop :: "nat \<Rightarrow> string \<Rightarrow> chat_server \<Rightarrow> chat_server" where
  "chat_receive_loop i [] st = st"
| "chat_receive_loop i (c # cs) st =
    (let sender = chat_peers st ! i in
     if cretired sender then st
     else if c = CHR 0x00 then chat_retire (csocket sender) st
     else chat_receive_loop i cs
       (if c = LF then end_line i st
        else if length (pending_line sender) \<ge> max_line_bytes (chat_limit st) then chat_retire (csocket sender) st
        else update_chat i (\<lambda>p. p\<lparr>pending_line := pending_line p @ [c]\<rparr>) st))"

definition chat_receive :: "nat \<Rightarrow> byte list \<Rightarrow> chat_server \<Rightarrow> chat_server" where
  "chat_receive a data st =
    (case lookup_chat a st of
       None \<Rightarrow> st
     | Some i \<Rightarrow> if cretired (chat_peers st ! i) \<or> data = [] then st else chat_receive_loop i (text_of data) st)"

section \<open>Polling\<close>

definition chat_callback :: "os \<Rightarrow> nat \<Rightarrow> event \<Rightarrow> chat_server \<Rightarrow> world \<Rightarrow> chat_server \<times> world" where
  "chat_callback os a ev st w =
    (case ev of
       Ev_listen \<Rightarrow> if a = 0 then chat_accept_ready os st w else (st, w)
     | Ev_data d \<Rightarrow> (chat_receive a d st, w)
     | Ev_close \<Rightarrow> (chat_retire a st, w)
     | Ev_error e \<Rightarrow> (chat_retire a st, w)
     | _ \<Rightarrow> (st, w))"

definition chat_handlers :: "os \<Rightarrow> (unit chat_server_ext) handlers" where
  "chat_handlers os =
    \<lparr>on_stream = (\<lambda>a ev st w. (st, w)), on_set = chat_callback os, on_udp = (\<lambda>a ev st w. (st, w)),
     on_udp_set = (\<lambda>a ev st w. (st, w)), register_sender = (\<lambda>a from st w. (st, w))\<rparr>"

fun chat_reap_loop :: "os \<Rightarrow> chat_peer list \<Rightarrow> chat_peer list \<Rightarrow> chat_server \<Rightarrow> world \<Rightarrow> chat_server \<times> world" where
  "chat_reap_loop os kept [] st w = (st\<lparr>chat_peers := kept\<rparr>, w)"
| "chat_reap_loop os kept (p # ps) st w =
    (if \<not> cretired p then chat_reap_loop os (kept @ [p]) ps st w
     else
       let (_, s, w) = server_event_remove_peer peer_close_call socket_destroy os (Some (csocket p)) (get_chat_listener st) w in
       chat_reap_loop os kept ps (put_chat_listener s st) w)"

definition chat_reap :: "os \<Rightarrow> chat_server \<Rightarrow> world \<Rightarrow> chat_server \<times> world" where
  "chat_reap os st w = chat_reap_loop os [] (chat_peers st) st w"

definition chat_poll :: "os \<Rightarrow> int \<Rightarrow> chat_server \<Rightarrow> world \<Rightarrow> (int \<times> chat_server \<times> world) option" where
  "chat_poll os timeout st w =
    (if \<not> chat_running st \<or> chat_polling st then Some (- 1, st, w)
     else
       case event_set_poll (chat_handlers os) os timeout (st\<lparr>chat_polling := True\<rparr>) w of
         None \<Rightarrow> None
       | Some (handled, st, w) \<Rightarrow>
           let (st, w) = chat_reap os (st\<lparr>chat_polling := False\<rparr>) w in Some (handled, st, w))"

section \<open>Starting and stopping\<close>

definition chat_listener_close :: "os \<Rightarrow> chat_server \<Rightarrow> world \<Rightarrow> chat_server \<times> world" where
  "chat_listener_close os st w =
    (let (_, s, w) = server_event_close (\<lambda>os. no_user) peer_close_call os (get_chat_listener st) w in
     (put_chat_listener s st, w))"

definition chat_new :: "chat_limits \<Rightarrow> os \<Rightarrow> world \<Rightarrow> chat_server \<times> world" where
  "chat_new lim os w =
    (let (s, w) = server_event_new os w;
         set = fold (\<lambda>slot st. the (on_socket slot True st))
           [set_listen, set_data, set_close, set_on_error] event_set_new in
     (put_chat_listener s (event_set.extend set
        \<lparr>chat_limit = lim, chat_accepted = accepted_empty (ev_of_sock sock_init), chat_wait_ms = 0,
         chat_peers = [], next_id = 1, chat_running = False, chat_polling = False\<rparr>), w))"

definition chat_start ::
  "os \<Rightarrow> string option \<Rightarrow> int \<Rightarrow> chat_server \<Rightarrow> world \<Rightarrow> bool \<times> chat_server \<times> world" where
  "chat_start os bind_address port st w =
    (if chat_running st \<or> chat_polling st \<or> bind_address = None \<or> chat_max_clients (chat_limit st) = 0 \<or>
        max_line_bytes (chat_limit st) = 0 \<or> max_queued_bytes (chat_limit st) = 0
     then (False, st, w)
     else
       let (ok, s, w) = server_event_listen_on (\<lambda>os. no_user) peer_close_call os bind_address port (get_chat_listener st) w;
           st = put_chat_listener s st in
       if \<not> ok then (False, st, w)
       else
         let (added, st) = add_stream (Some 0) st in
         if \<not> added then (False, chat_listener_close os st w)
         else (True, st\<lparr>chat_running := True\<rparr>, w))"

definition chat_stop :: "os \<Rightarrow> chat_server \<Rightarrow> world \<Rightarrow> chat_server \<times> world" where
  "chat_stop os st w =
    (if chat_polling st then (st, w)
     else
       let st = snd (remove_stream (Some 0) st);
           st = fold (\<lambda>p st. snd (remove_stream (Some (csocket p)) st)) (chat_peers st) st;
           (st, w) = chat_listener_close os (st\<lparr>chat_peers := []\<rparr>) w in
       (st\<lparr>chat_running := False\<rparr>, w))"

text \<open>What the application can do with a server, in any order.\<close>

inductive chat_step :: "os \<Rightarrow> chat_server \<times> world \<Rightarrow> chat_server \<times> world \<Rightarrow> bool" for os where
  start: "chat_start os address port st w = (b, st', w') \<Longrightarrow> chat_step os (st, w) (st', w')"
| poll: "chat_poll os timeout st w = Some (n, st', w') \<Longrightarrow> chat_step os (st, w) (st', w')"
| stop: "chat_stop os st w = (st', w') \<Longrightarrow> chat_step os (st, w) (st', w')"

inductive_cases chat_stepE: "chat_step os (st, w) (st', w')"

definition chat_reachable :: "chat_limits \<Rightarrow> os \<Rightarrow> chat_server \<Rightarrow> world \<Rightarrow> bool" where
  "chat_reachable lim os st w \<longleftrightarrow> (\<exists>w0. (chat_step os)\<^sup>*\<^sup>* (chat_new lim os w0) (st, w))"

end
