(* ===== verification/Chat_Service.thy ===== *)
theory Chat_Service
  imports Chat_Server Scripted_Os
begin

text \<open>
  What the chat server of \<open>Chat_Server\<close> promises over any run: bounded clients and lines; and
  that what a client says depends on the bytes it sends, not on how they are split, and reaches
  every client.
\<close>

section \<open>The invariant\<close>

definition line_bounded :: "chat_limits \<Rightarrow> string \<Rightarrow> bool" where
  "line_bounded lim l \<longleftrightarrow> length l \<le> max_line_bytes lim \<and> CHR 0x00 \<notin> set l \<and> LF \<notin> set l"

definition chat_inv :: "chat_limits \<Rightarrow> chat_server \<Rightarrow> bool" where
  "chat_inv lim st \<longleftrightarrow> set_wf st \<and> chat_limit st = lim \<and> chat_client_count st \<le> chat_max_clients lim \<and>
    (\<forall>p\<in>set (chat_peers st). line_bounded lim (pending_line p))"

text \<open>Steps that only write to sockets and retire peers.\<close>

definition calm :: "chat_server \<Rightarrow> chat_server \<Rightarrow> bool" where
  "calm st st' \<longleftrightarrow> (set_wf st \<longrightarrow> set_wf st') \<and> chat_limit st' = chat_limit st \<and> chat_running st' = chat_running st \<and>
    chat_polling st' = chat_polling st \<and>
    list_all2 (\<lambda>p q. csocket q = csocket p \<and> pending_line q = pending_line p \<and> peer_id q = peer_id p \<and>
      (cretired p \<longrightarrow> cretired q)) (chat_peers st) (chat_peers st')"

lemma calm_refl [simp, intro]: "calm st st"
  by (simp add: calm_def list.rel_refl)

lemma calm_trans [trans]: "calm st t \<Longrightarrow> calm t u \<Longrightarrow> calm st u"
proof -
  assume a: "calm st t" "calm t u"
  let ?R = "\<lambda>p q. csocket q = csocket p \<and> pending_line q = pending_line p \<and> peer_id q = peer_id p \<and> (cretired p \<longrightarrow> cretired q)"
  have "list_all2 ?R (chat_peers st) (chat_peers u)"
    by (rule list_all2_trans [where ?P1.0 = ?R and ?P2.0 = ?R and bs = "chat_peers t"])
      (use a in \<open>auto simp: calm_def\<close>)
  then show ?thesis using a by (simp add: calm_def)
qed

lemma calm_at:
  assumes "calm st st'" "j < length (chat_peers st)"
  shows "csocket (chat_peers st' ! j) = csocket (chat_peers st ! j) \<and>
    pending_line (chat_peers st' ! j) = pending_line (chat_peers st ! j) \<and>
    peer_id (chat_peers st' ! j) = peer_id (chat_peers st ! j) \<and>
    (cretired (chat_peers st ! j) \<longrightarrow> cretired (chat_peers st' ! j))"
  using assms by (simp add: calm_def list_all2_conv_all_nth)

lemma calm_length: "calm st st' \<Longrightarrow> length (chat_peers st') = length (chat_peers st)"
  by (simp add: calm_def list_all2_conv_all_nth)

lemma chat_count_card: "chat_client_count st = card {j. j < length (chat_peers st) \<and> \<not> cretired (chat_peers st ! j)}"
  by (simp add: chat_client_count_def length_filter_conv_card)

lemma calm_count:
  assumes "calm st st'"
  shows "chat_client_count st' \<le> chat_client_count st"
  unfolding chat_count_card
  using calm_at [OF assms] calm_length [OF assms] by (intro card_mono) auto

lemma calm_inv: "calm st st' \<Longrightarrow> chat_inv lim st \<Longrightarrow> chat_inv lim st'"
proof -
  assume c: "calm st st'" and i: "chat_inv lim st"
  have "line_bounded lim (pending_line p)" if "p \<in> set (chat_peers st')" for p
  proof -
    obtain j where "j < length (chat_peers st')" "chat_peers st' ! j = p" using \<open>p \<in> _\<close> by (auto simp: in_set_conv_nth)
    then show ?thesis using calm_at [OF c, of j] calm_length [OF c] i by (auto simp: chat_inv_def)
  qed
  then show ?thesis using c i calm_count [OF c] by (simp add: chat_inv_def calm_def)
qed

lemma update_stream_chat [simp]:
  "chat_limit (update_stream a f st) = chat_limit st" "chat_accepted (update_stream a f st) = chat_accepted st"
  "chat_peers (update_stream a f st) = chat_peers st" "chat_running (update_stream a f st) = chat_running st"
  "chat_polling (update_stream a f st) = chat_polling st" "tcp_reg (update_stream a f st) = tcp_reg st"
  by (simp_all add: update_stream_def)

lemma calm_update_stream_wf: "(set_wf st \<Longrightarrow> length (slots s) = 7) \<Longrightarrow> calm st (update_stream a (\<lambda>_. Plain s) st)"
  by (simp add: calm_def list.rel_refl set_wf_update_stream)

lemma calm_queue: "chat_queue text a st = (ok, st') \<Longrightarrow> calm st st'"
proof -
  assume c: "chat_queue text a st = (ok, st')"
  obtain b s where q: "queue_write_string (\<lambda>_. True) (bytes_of text) (plain (streams st a)) = (b, s)" by fastforce
  have "calm st (update_stream a (\<lambda>_. Plain s) st)"
    using queue_write_slots [OF q] plain_slots [OF set_wf_slots [of st a]] by (intro calm_update_stream_wf) simp
  then show ?thesis using c by (simp add: chat_queue_def q)
qed

lemma lookup_chat_Some: "lookup_chat a st = Some i \<Longrightarrow> i < length (chat_peers st) \<and> csocket (chat_peers st ! i) = a"
  using first_where_Some by (auto simp: lookup_chat_def)

lemma calm_retire: "calm st (chat_retire a st)"
proof (cases "lookup_chat a st")
  case (Some i)
  obtain b r where r: "registry_remove_socket (Some a) (tcp_reg st) = (b, r)" by fastforce
  have reg: "registry_inv (tcp_reg st) \<Longrightarrow> registry_inv r"
    using registry_remove_socket_inv [of "tcp_reg st" "Some a"] by (simp add: r)
  have "calm st (update_chat i (\<lambda>p. p\<lparr>cretired := True\<rparr>) st\<lparr>tcp_reg := r\<rparr>)"
    using lookup_chat_Some [OF Some] reg
    by (auto simp: calm_def update_chat_def set_wf_def list_all2_conv_all_nth nth_list_update)
  then show ?thesis using Some by (auto simp: chat_retire_def remove_stream_def update_chat_def r split: if_splits)
qed (simp add: chat_retire_def)

lemma calm_send: "calm st (chat_send frame j st)"
proof -
  obtain ok t where q: "chat_queue frame (csocket (chat_peers st ! j)) st = (ok, t)" by fastforce
  show ?thesis using calm_queue [OF q] calm_trans [OF calm_queue [OF q] calm_retire] by (simp add: chat_send_def q Let_def)
qed

lemma calm_fold: "calm st (fold (chat_send frame) js st)"
proof (induction js arbitrary: st)
  case (Cons j js)
  show ?case using calm_trans [OF calm_send Cons.IH] by simp
qed simp

lemma calm_broadcast: "calm st (broadcast sender line st)"
  by (simp add: broadcast_def calm_fold)

section \<open>Receiving\<close>

definition same_chat :: "chat_server \<Rightarrow> chat_server \<Rightarrow> bool" where
  "same_chat st st' \<longleftrightarrow> chat_running st' = chat_running st \<and> chat_polling st' = chat_polling st \<and>
    map csocket (chat_peers st') = map csocket (chat_peers st)"

lemma same_chat_refl [simp, intro]: "same_chat st st"
  by (simp add: same_chat_def)

lemma same_chat_trans: "same_chat st t \<Longrightarrow> same_chat t u \<Longrightarrow> same_chat st u"
  by (simp add: same_chat_def)

lemma calm_same: "calm st st' \<Longrightarrow> same_chat st st'"
  by (auto simp: calm_def same_chat_def list_all2_conv_all_nth intro: nth_equalityI)

text \<open>A change to the line of one peer.\<close>

lemma update_line:
  assumes "\<And>p. csocket (f p) = csocket p \<and> cretired (f p) = cretired p"
  shows "same_chat st (update_chat i f st)"
    and "chat_inv lim st \<Longrightarrow> (i < length (chat_peers st) \<Longrightarrow> line_bounded lim (pending_line (f (chat_peers st ! i)))) \<Longrightarrow>
      chat_inv lim (update_chat i f st)"
proof -
  let ?st = "update_chat i f st"
  have at: "csocket (chat_peers ?st ! j) = csocket (chat_peers st ! j) \<and> cretired (chat_peers ?st ! j) = cretired (chat_peers st ! j)"
    if "j < length (chat_peers st)" for j
    using that assms by (cases "i = j") (simp_all add: update_chat_def)
  then show "same_chat st ?st"
    by (auto simp: same_chat_def update_chat_def intro: nth_equalityI)
  have "{j. j < length (chat_peers ?st) \<and> \<not> cretired (chat_peers ?st ! j)} =
      {j. j < length (chat_peers st) \<and> \<not> cretired (chat_peers st ! j)}"
    using at by (auto simp: update_chat_def)
  then have "chat_client_count ?st = chat_client_count st" by (simp add: chat_count_card)
  moreover assume "chat_inv lim st" "i < length (chat_peers st) \<Longrightarrow> line_bounded lim (pending_line (f (chat_peers st ! i)))"
  ultimately show "chat_inv lim ?st"
  proof (cases "i < length (chat_peers st)")
    case True
    then show ?thesis
      using \<open>chat_inv lim st\<close> \<open>chat_client_count ?st = _\<close> \<open>_ \<Longrightarrow> line_bounded lim _\<close>
      by (auto simp: chat_inv_def update_chat_def set_wf_def dest!: subsetD [OF set_update_subset_insert])
  next
    case False
    then show ?thesis
      using \<open>chat_inv lim st\<close> by (simp add: update_chat_def chat_inv_def set_wf_def chat_client_count_def not_less list_update_beyond)
  qed
qed

lemma strip_cr_bounded: "line_bounded lim l \<Longrightarrow> line_bounded lim (strip_cr l)"
  by (auto simp: line_bounded_def strip_cr_def dest: in_set_butlastD)

lemma end_line_ok:
  assumes "i < length (chat_peers st)"
  shows "same_chat st (end_line i st)" "chat_inv lim st \<Longrightarrow> chat_inv lim (end_line i st)"
proof -
  let ?s = "update_chat i (\<lambda>p. p\<lparr>pending_line := strip_cr (pending_line p)\<rparr>) st"
  let ?b = "if pending_line (chat_peers ?s ! i) \<noteq> []
    then broadcast (peer_id (chat_peers ?s ! i)) (pending_line (chat_peers ?s ! i)) ?s else ?s"
  let ?e = "update_chat i (\<lambda>p. p\<lparr>pending_line := []\<rparr>) ?b"
  have e: "end_line i st = ?e" by (simp add: end_line_def Let_def)
  have calm: "calm ?s ?b" using calm_broadcast by simp
  have 1: "same_chat st ?s" by (rule update_line(1)) simp
  have 2: "same_chat ?b ?e" by (rule update_line(1)) simp
  show "same_chat st (end_line i st)"
    unfolding e using same_chat_trans [OF 1 same_chat_trans [OF calm_same [OF calm] 2]] .
  assume inv: "chat_inv lim st"
  have "chat_inv lim ?s"
    by (rule update_line(2)) (use inv assms in \<open>auto simp: chat_inv_def intro: strip_cr_bounded\<close>)
  then have "chat_inv lim ?b" by (rule calm_inv [OF calm])
  then have "chat_inv lim ?e" by (rule update_line(2) [rotated]) (simp_all add: line_bounded_def)
  then show "chat_inv lim (end_line i st)" unfolding e .
qed

lemma same_chat_length: "same_chat st st' \<Longrightarrow> length (chat_peers st') = length (chat_peers st)"
  unfolding same_chat_def by (metis length_map)

lemma chat_receive_loop_ok:
  "i < length (chat_peers st) \<Longrightarrow> same_chat st (chat_receive_loop i cs st) \<and>
    (chat_inv lim st \<longrightarrow> chat_inv lim (chat_receive_loop i cs st))"
proof (induction cs arbitrary: st)
  case (Cons c cs)
  let ?p = "chat_peers st ! i"
  show ?case
  proof (cases "cretired ?p \<or> c = CHR 0x00")
    case True
    then show ?thesis
      using calm_same [OF calm_retire] calm_inv [OF calm_retire] by (auto simp: Let_def)
  next
    case False
    define t where "t = (if c = LF then end_line i st
      else if length (pending_line ?p) \<ge> max_line_bytes (chat_limit st) then chat_retire (csocket ?p) st
      else update_chat i (\<lambda>p. p\<lparr>pending_line := pending_line p @ [c]\<rparr>) st)"
    have loop: "chat_receive_loop i (c # cs) st = chat_receive_loop i cs t" using False by (simp add: Let_def t_def)
    have push: "same_chat st (update_chat i (\<lambda>p. p\<lparr>pending_line := pending_line p @ [c]\<rparr>) st)"
      by (rule update_line(1)) simp
    have same: "same_chat st t"
      using end_line_ok(1) [OF Cons.prems] calm_same [OF calm_retire] push by (simp add: t_def)
    have inv: "chat_inv lim t" if i: "chat_inv lim st"
    proof -
      have "chat_inv lim (update_chat i (\<lambda>p. p\<lparr>pending_line := pending_line p @ [c]\<rparr>) st)"
        if h: "c \<noteq> LF" "\<not> length (pending_line ?p) \<ge> max_line_bytes (chat_limit st)"
        by (rule update_line(2)) (use i h False Cons.prems in \<open>auto simp: chat_inv_def line_bounded_def\<close>)
      then show ?thesis using end_line_ok(2) [OF Cons.prems i] calm_inv [OF calm_retire i] by (auto simp: t_def)
    qed
    have "i < length (chat_peers t)" using Cons.prems same_chat_length [OF same] by simp
    from Cons.IH [OF this] show ?thesis unfolding loop using same_chat_trans [OF same] inv by blast
  qed
qed simp

lemma chat_receive_ok:
  "same_chat st (chat_receive a d st) \<and> (chat_inv lim st \<longrightarrow> chat_inv lim (chat_receive a d st))"
  using chat_receive_loop_ok lookup_chat_Some by (auto simp: chat_receive_def split: option.split)

section \<open>Accepting and reaping\<close>

lemma put_chat_wf:
  "set_wf st \<Longrightarrow> listener_wf s \<Longrightarrow> set_wf (put_chat_listener s st)"
  by (simp add: set_wf_def put_chat_listener_def listener_wf_def ev_sock.defs)

lemma get_chat_wf: "set_wf st \<Longrightarrow> listener_wf (get_chat_listener st)"
  by (simp add: listener_wf_def get_chat_listener_def ev_sock.defs plain_slots set_wf_slots)

lemma put_chat_fields [simp]:
  "chat_limit (put_chat_listener s st) = chat_limit st" "chat_peers (put_chat_listener s st) = chat_peers st"
  "chat_running (put_chat_listener s st) = chat_running st" "chat_polling (put_chat_listener s st) = chat_polling st"
  by (simp_all add: put_chat_listener_def)

lemma put_chat_inv: "chat_inv lim st \<Longrightarrow> listener_wf s \<Longrightarrow> chat_inv lim (put_chat_listener s st)"
  using put_chat_wf by (simp add: chat_inv_def chat_client_count_def)

definition chat_flags :: "chat_server \<Rightarrow> chat_server \<Rightarrow> bool" where
  "chat_flags st st' \<longleftrightarrow> chat_running st' = chat_running st \<and> chat_polling st' = chat_polling st"

lemma chat_flags_refl [simp]: "chat_flags st st"
  by (simp add: chat_flags_def)

lemma chat_flags_trans: "chat_flags st t \<Longrightarrow> chat_flags t u \<Longrightarrow> chat_flags st u"
  by (simp add: chat_flags_def)

lemma same_chat_flags: "same_chat st st' \<Longrightarrow> chat_flags st st'"
  by (simp add: same_chat_def chat_flags_def)

lemma chat_admit_ok:
  assumes "chat_inv lim st" "chat_admit os a st w = (st', w')"
  shows "chat_inv lim st' \<and> chat_flags st st'"
proof -
  obtain b s where q: "set_max_queued_bytes (max_queued_bytes (chat_limit st)) (plain (streams st a)) = (b, s)" by fastforce
  let ?full = "chat_client_count st \<ge> chat_max_clients (chat_limit st)"
  have wf: "set_wf st" using assms(1) by (simp add: chat_inv_def)
  have s7: "length (slots s) = 7"
    using q plain_slots [OF set_wf_slots [OF wf, of a]] by (auto simp: set_max_queued_bytes_def split: if_splits)
  let ?st = "if ?full then st else update_stream a (\<lambda>_. Plain s) st"
  have calm: "calm st ?st" using calm_update_stream_wf s7 by simp
  have inv: "chat_inv lim ?st" by (rule calm_inv [OF calm assms(1)])
  have flags: "chat_flags st ?st" by (rule same_chat_flags [OF calm_same [OF calm]])
  have split: "(if ?full then (False, st) else let (b, s) = set_max_queued_bytes (max_queued_bytes (chat_limit st))
      (plain (streams st a)) in (b, update_stream a (\<lambda>_. Plain s) st)) = (\<not> ?full \<and> b, ?st)"
    by (simp add: q)
  note d = assms(2) [unfolded chat_admit_def split, unfolded Let_def prod.case]
  show ?thesis
  proof (cases "\<not> ?full \<and> b")
    case False
    obtain c x w1 where x: "event_close no_user os (plain (streams ?st a)) w = (c, x, w1)" by (rule prod_cases3)
    have wf2: "set_wf ?st" using inv by (simp add: chat_inv_def)
    have "length (slots x) = 7" using event_close_slots [OF x] plain_slots [OF set_wf_slots [OF wf2, of a]] by simp
    then have c2: "calm ?st (update_stream a (\<lambda>_. Plain x) ?st)" by (intro calm_update_stream_wf)
    have "st' = update_stream a (\<lambda>_. Plain x) ?st" using d False x by (simp del: if_split)
    then show ?thesis
      using calm_inv [OF c2 inv] chat_flags_trans [OF flags same_chat_flags [OF calm_same [OF c2]]] by simp
  next
    case True
    obtain added r where r: "registry_add (Some a) (tcp_reg ?st) = (added, r)" by fastforce
    let ?p = "\<lparr>csocket = a, pending_line = [], peer_id = next_id ?st, cretired = False\<rparr>"
    let ?n = "?st\<lparr>next_id := next_id ?st + 1, tcp_reg := r\<rparr>"
    let ?u = "?n\<lparr>chat_peers := chat_peers ?st @ [?p]\<rparr>"
    obtain ok t where g: "chat_queue (greeting (next_id ?st)) a ?u = (ok, t)" by fastforce
    have reg: "registry_inv r"
      using registry_add_inv [of "tcp_reg ?st" "Some a"] inv r by (simp add: chat_inv_def set_wf_def)
    have n: "chat_inv lim ?n" using inv reg by (simp add: chat_inv_def set_wf_def chat_client_count_def)
    have "chat_client_count st < chat_max_clients lim" using True assms(1) by (simp add: chat_inv_def)
    then have u: "chat_inv lim ?u"
      using n by (auto simp: chat_inv_def set_wf_def chat_client_count_def line_bounded_def)
    have f: "chat_flags st ?n" "chat_flags st ?u" using flags by (simp_all add: chat_flags_def)
    have c: "calm ?u (if ok then t else chat_retire a t)"
      using calm_queue [OF g] calm_trans [OF calm_queue [OF g] calm_retire] by simp
    have "st' = (if added then if ok then t else chat_retire a t else ?n)"
      using d True g r by (auto simp: add_stream_def simp del: if_split split: if_splits)
    then show ?thesis
      using n f calm_inv [OF c u] chat_flags_trans [OF f(2) same_chat_flags [OF calm_same [OF c]]] by simp
  qed
qed

lemma chat_accept_loop_ok:
  "chat_inv lim st \<Longrightarrow> chat_accept_loop os n st w = (st', w') \<Longrightarrow> chat_inv lim st' \<and> chat_flags st st'"
proof (induction n arbitrary: st w)
  case (Suc n)
  obtain p s w1 where a: "server_event_accept os False (get_chat_listener st) w = (p, s, w1)" by (rule prod_cases3)
  have "listener_wf (get_chat_listener st)" using Suc.prems(1) get_chat_wf by (simp add: chat_inv_def)
  then have "listener_wf s" using accept_book [OF a] by (cases p) (simp_all add: same_book_def)
  then have inv: "chat_inv lim (put_chat_listener s st)" by (rule put_chat_inv [OF Suc.prems(1)])
  have f: "chat_flags st (put_chat_listener s st)" by (simp add: chat_flags_def)
  show ?case
  proof (cases p)
    case None
    then show ?thesis using Suc.prems(2) inv f by (simp add: a)
  next
    case (Some q)
    obtain st1 w2 where m: "chat_admit os q (put_chat_listener s st) w1 = (st1, w2)" by fastforce
    note adm = chat_admit_ok [OF inv m]
    have "chat_accept_loop os n st1 w2 = (st', w')" using Suc.prems(2) Some by (simp add: a m)
    from Suc.IH [OF conjunct1 [OF adm] this] show ?thesis using adm f chat_flags_trans by blast
  qed
qed simp

lemma chat_callback_ok:
  assumes "chat_inv lim st" "chat_callback os a ev st w = (st', w')"
  shows "chat_inv lim st' \<and> chat_flags st st'"
proof -
  have "chat_inv lim (chat_retire a st) \<and> chat_flags st (chat_retire a st)"
    using calm_inv [OF calm_retire assms(1)] same_chat_flags [OF calm_same [OF calm_retire]] by simp
  then show ?thesis
    using assms chat_accept_loop_ok chat_receive_ok [of st a _ lim] same_chat_flags
    by (cases ev) (auto simp: chat_callback_def chat_accept_ready_def split: if_splits)
qed

text \<open>The dispatcher works inside one poll of the server.\<close>

definition chatting :: "chat_server \<Rightarrow> chat_server \<Rightarrow> bool" where
  "chatting st0 st \<longleftrightarrow> chat_inv (chat_limit st0) st \<and> chat_flags st0 st"

interpretation chat_users: set_users "chatting st0" "chat_handlers os" for st0 os
proof
  show "handlers_keep (chatting st0) (chat_handlers os)"
    using chat_callback_ok chat_flags_trans
    by (auto simp: handlers_keep_def chat_handlers_def chatting_def) (metis prod.collapse)+
  fix st :: chat_server and y a z b
  assume inv: "chatting st0 st"
  then show "set_wf st" by (simp add: chatting_def chat_inv_def)
  show "chatting st0 (st\<lparr>streams := (streams st)(a := y)\<rparr>)" if "length (stream_slots y) = 7"
    using inv that by (auto simp: chatting_def chat_inv_def set_wf_def chat_client_count_def chat_flags_def)
  show "chatting st0 (st\<lparr>datagrams := (datagrams st)(a := z)\<rparr>)" if "length (uslots z) = 5"
    using inv that by (auto simp: chatting_def chat_inv_def set_wf_def chat_client_count_def chat_flags_def)
  show "chatting st0 (st\<lparr>polling := b\<rparr>)"
    using inv by (auto simp: chatting_def chat_inv_def set_wf_def chat_client_count_def chat_flags_def)
qed

lemma chat_reap_loop_ok:
  "chat_reap_loop os kept ps st w = (st', w') \<Longrightarrow> set_wf st \<Longrightarrow>
    set_wf st' \<and> chat_peers st' = kept @ filter (\<lambda>p. \<not> cretired p) ps \<and> chat_limit st' = chat_limit st \<and>
    chat_flags st st'"
proof (induction ps arbitrary: kept st w)
  case Nil
  then show ?case by (auto simp: set_wf_def chat_flags_def)
next
  case (Cons p ps)
  show ?case
  proof (cases "cretired p")
    case False
    then show ?thesis using Cons.IH [of "kept @ [p]" st w] Cons.prems by simp
  next
    case True
    obtain b s w1 where r: "server_event_remove_peer peer_close_call socket_destroy os (Some (csocket p))
        (get_chat_listener st) w = (b, s, w1)" by (rule prod_cases3)
    have "listener_wf s" using remove_book [OF r] get_chat_wf [OF Cons.prems(2)] by blast
    then have "set_wf (put_chat_listener s st)" by (rule put_chat_wf [OF Cons.prems(2)])
    moreover have "chat_reap_loop os kept ps (put_chat_listener s st) w1 = (st', w')"
      using Cons.prems(1) True by (simp add: r)
    ultimately show ?thesis using Cons.IH True by (simp add: chat_flags_def)
  qed
qed

lemma chat_reap_ok:
  assumes "chat_inv lim st" "chat_reap os st w = (st', w')"
  shows "chat_inv lim st' \<and> chat_flags st st' \<and> (\<forall>p\<in>set (chat_peers st'). \<not> cretired p)"
proof -
  have "set_wf st" using assms(1) by (simp add: chat_inv_def)
  note r = chat_reap_loop_ok [OF assms(2) [unfolded chat_reap_def] this]
  then show ?thesis using assms(1) by (auto simp: chat_inv_def chat_client_count_def)
qed

lemma chat_poll_ok:
  assumes "chat_inv lim st" "chat_poll os timeout st w = Some (n, st', w')"
  shows "chat_inv lim st' \<and> chat_flags st st' \<and>
    (chat_running st \<and> \<not> chat_polling st \<longrightarrow> (\<forall>p\<in>set (chat_peers st'). \<not> cretired p))"
proof (cases "\<not> chat_running st \<or> chat_polling st")
  case True
  then show ?thesis using assms by (auto simp: chat_poll_def)
next
  case False
  let ?st = "st\<lparr>chat_polling := True\<rparr>"
  note d = assms(2) [unfolded chat_poll_def if_not_P [OF False]]
  obtain m st1 w1 where p: "event_set_poll (chat_handlers os) os timeout ?st w = Some (m, st1, w1)"
    using d by (auto split: option.splits)
  obtain st2 w2 where r: "chat_reap os (st1\<lparr>chat_polling := False\<rparr>) w1 = (st2, w2)" by fastforce
  have "st' = st2" using d by (simp add: p r)
  have "chatting ?st ?st"
    using assms(1) by (auto simp: chatting_def chat_inv_def chat_flags_def set_wf_def chat_client_count_def)
  from chat_users.poll_keeps [OF this p] have "chat_inv lim (st1\<lparr>chat_polling := False\<rparr>)" "chat_running st1 = chat_running st"
    using assms(1) by (auto simp: chatting_def chat_inv_def chat_flags_def set_wf_def chat_client_count_def)
  then show ?thesis using chat_reap_ok [OF _ r] \<open>st' = st2\<close> False by (simp add: chat_flags_def)
qed

section \<open>Starting and stopping\<close>

definition chat_idle :: "chat_limits \<Rightarrow> chat_server \<Rightarrow> bool" where
  "chat_idle lim st \<longleftrightarrow> chat_inv lim st \<and> \<not> chat_polling st \<and> (\<forall>p\<in>set (chat_peers st). \<not> cretired p) \<and>
    (chat_running st \<or> chat_peers st = [])"

lemma listen_chat_inv:
  assumes "chat_inv lim st" "same_book (get_chat_listener st) s"
  shows "chat_inv lim (put_chat_listener s st)"
proof -
  have "listener_wf (get_chat_listener st)" using assms(1) get_chat_wf by (simp add: chat_inv_def)
  then have "listener_wf s" using assms(2) by (simp add: same_book_def)
  then show ?thesis by (rule put_chat_inv [OF assms(1)])
qed

lemma chat_start_ok:
  assumes "chat_idle lim st" "chat_start os address port st w = (b, st', w')"
  shows "chat_idle lim st'"
proof (cases "chat_running st \<or> chat_polling st \<or> address = None \<or> chat_max_clients (chat_limit st) = 0 \<or>
    max_line_bytes (chat_limit st) = 0 \<or> max_queued_bytes (chat_limit st) = 0")
  case True
  then have "st' = st" using assms(2) unfolding chat_start_def if_P [OF True] by simp
  then show ?thesis using assms(1) by simp
next
  case False
  obtain ok s w1 where l: "server_event_listen_on (\<lambda>os. no_user) peer_close_call os address port (get_chat_listener st) w =
    (ok, s, w1)" by (rule prod_cases3)
  let ?l = "put_chat_listener s st"
  obtain added r where r: "registry_add (Some 0) (tcp_reg ?l) = (added, r)" by fastforce
  let ?a = "?l\<lparr>tcp_reg := r\<rparr>"
  obtain c v w2 where c: "server_event_close (\<lambda>os. no_user) peer_close_call os (get_chat_listener ?a) w1 = (c, v, w2)"
    by (rule prod_cases3)
  have inv: "chat_inv lim ?l" using listen_chat_inv [OF _ same_book_listen [OF l]] assms(1) by (simp add: chat_idle_def)
  then have "registry_inv r"
    using registry_add_inv [of "tcp_reg ?l" "Some 0"] r by (simp add: chat_inv_def set_wf_def)
  then have inv2: "chat_inv lim ?a" "chat_inv lim (?a\<lparr>chat_running := True\<rparr>)"
    using inv by (simp_all add: chat_inv_def set_wf_def chat_client_count_def)
  have inv3: "chat_inv lim (put_chat_listener v ?a)" by (rule listen_chat_inv [OF inv2(1) same_book_server_close [OF c]])
  note d = assms(2) [unfolded chat_start_def if_not_P [OF False] l Let_def prod.case add_stream_def r chat_listener_close_def c]
  have "st' = ?l \<or> st' = put_chat_listener v ?a \<or> st' = ?a\<lparr>chat_running := True\<rparr>"
    using d by (auto split: if_splits)
  then show ?thesis
    using assms(1) inv inv2 inv3 by (auto simp: chat_idle_def)
qed

lemma remove_chat_streams:
  "registry_inv (tcp_reg st) \<Longrightarrow>
    \<exists>r. fold (\<lambda>p st. snd (remove_stream (Some (csocket p)) st)) ps st = st\<lparr>tcp_reg := r\<rparr> \<and> registry_inv r"
proof (induction ps arbitrary: st)
  case Nil
  show ?case using Nil by (intro exI [of _ "tcp_reg st"]) simp
next
  case (Cons p ps)
  obtain b r where r: "registry_remove_socket (Some (csocket p)) (tcp_reg st) = (b, r)" by fastforce
  have "registry_inv (tcp_reg (st\<lparr>tcp_reg := r\<rparr>))"
    using registry_remove_socket_inv [OF Cons.prems, of "Some (csocket p)"] by (simp add: r)
  from Cons.IH [OF this] show ?case by (auto simp: remove_stream_def r)
qed

lemma chat_stop_ok:
  assumes "chat_idle lim st" "chat_stop os st w = (st', w')"
  shows "chat_idle lim st' \<and> \<not> chat_running st'"
proof -
  have poll: "\<not> chat_polling st" and inv: "chat_inv lim st" using assms(1) by (simp_all add: chat_idle_def)
  obtain b r where r: "registry_remove_socket (Some 0) (tcp_reg st) = (b, r)" by fastforce
  have reg: "registry_inv (tcp_reg (st\<lparr>tcp_reg := r\<rparr>))"
    using registry_remove_socket_inv [of "tcp_reg st" "Some 0"] inv by (simp add: r chat_inv_def set_wf_def)
  obtain q where q: "fold (\<lambda>p st. snd (remove_stream (Some (csocket p)) st)) (chat_peers st) (st\<lparr>tcp_reg := r\<rparr>) =
      st\<lparr>tcp_reg := r\<rparr>\<lparr>tcp_reg := q\<rparr>" "registry_inv q"
    using remove_chat_streams [OF reg] by blast
  let ?e = "st\<lparr>tcp_reg := q, chat_peers := []\<rparr>"
  obtain c v w2 where c: "server_event_close (\<lambda>os. no_user) peer_close_call os (get_chat_listener ?e) w = (c, v, w2)"
    by (rule prod_cases3)
  have e: "chat_inv lim ?e" using inv q(2) by (simp add: chat_inv_def set_wf_def chat_client_count_def)
  have "chat_inv lim (put_chat_listener v ?e)" by (rule listen_chat_inv [OF e same_book_server_close [OF c]])
  moreover have "st' = (put_chat_listener v ?e)\<lparr>chat_running := False\<rparr>"
  proof -
    have "snd (remove_stream (Some 0) st) = st\<lparr>tcp_reg := r\<rparr>" by (simp add: remove_stream_def r)
    moreover have "(st\<lparr>tcp_reg := r\<rparr>\<lparr>tcp_reg := q\<rparr>)\<lparr>chat_peers := []\<rparr> = ?e" by simp
    ultimately show ?thesis
      using assms(2) poll q(1) c unfolding chat_stop_def chat_listener_close_def Let_def by simp
  qed
  ultimately show ?thesis
    using poll by (auto simp: chat_idle_def chat_inv_def set_wf_def chat_client_count_def)
qed

lemma chat_new_ok:
  assumes "chat_new lim os w = (st, w')"
  shows "chat_idle lim st \<and> \<not> chat_running st"
proof -
  obtain s w1 where s: "server_event_new os w = (s, w1)" by fastforce
  let ?set = "fold (\<lambda>slot st. the (on_socket slot True st)) [set_listen, set_data, set_close, set_on_error] event_set_new"
  let ?st = "event_set.extend ?set \<lparr>chat_limit = lim, chat_accepted = accepted_empty (ev_of_sock sock_init),
      chat_wait_ms = 0, chat_peers = [], next_id = 1, chat_running = False, chat_polling = False\<rparr>"
  have eq: "st = put_chat_listener s ?st" using assms by (simp add: chat_new_def s del: fold_simps)
  have set: "?set = event_set_new\<lparr>set_slots := [True, False, True, True, True, False, False, False]\<rparr>"
    by (simp add: on_socket_def event_set_new_def numeral_eq_Suc)
  have "set_wf ?st"
    unfolding set by (simp add: set_wf_def event_set.defs event_set_new_def ev_of_sock_def sock.defs ev_sock.defs udp_sock.defs)
  then have "set_wf st" using put_chat_wf event_new_slots [OF s] eq by simp
  moreover have "chat_limit st = lim" "chat_peers st = []" "\<not> chat_running st" "\<not> chat_polling st"
    unfolding eq by (simp_all add: event_set.defs)
  ultimately show ?thesis by (simp add: chat_idle_def chat_inv_def chat_client_count_def)
qed

lemma chat_step_ok:
  assumes "chat_step os (st, w) (st', w')" "chat_idle lim st"
  shows "chat_idle lim st'"
  using assms(1)
proof (cases rule: chat_step.cases)
  case (poll timeout n)
  then show ?thesis
    using chat_poll_ok [of lim st os timeout w n st' w'] assms(2)
    by (cases "chat_running st") (auto simp: chat_idle_def chat_flags_def chat_poll_def)
qed (use assms(2) chat_start_ok chat_stop_ok in blast)+

lemma chat_reachable_idle:
  assumes "chat_reachable lim os st w"
  shows "chat_idle lim st"
proof -
  obtain w0 where "(chat_step os)\<^sup>*\<^sup>* (chat_new lim os w0) (st, w)" using assms by (auto simp: chat_reachable_def)
  moreover have "chat_idle lim (fst (chat_new lim os w0))"
    using chat_new_ok [of lim os w0] by (cases "chat_new lim os w0") simp
  ultimately have "chat_idle lim (fst (st, w))"
  proof (induction rule: rtranclp_induct)
    case (step y z)
    then show ?case using chat_step_ok [of os "fst y" "snd y" "fst z" "snd z"] by simp
  qed
  then show ?thesis by simp
qed

section \<open>Lines reach everyone\<close>

lemma queue_write_pending:
  assumes "queue_write_string (\<lambda>_. True) d s = (ok, s')" "queue_inv (outgoing s)" "d \<noteq> []"
  shows "if ok then pending (outgoing s') = pending (outgoing s) @ d else s' = s"
proof -
  have "pending (queue_append d (outgoing s)) = pending (outgoing s) @ d"
    if "length d \<le> qlimit (outgoing s) - qbytes (outgoing s)"
    by (rule queue_append_refines(1) [OF assms(2,3)]) (use that assms(3) in \<open>cases d; simp\<close>)
  then show ?thesis
    using assms(1,3) by (auto simp: queue_write_string_def queue_write_def Let_def split: if_splits)
qed

definition chat_pending :: "chat_server \<Rightarrow> nat \<Rightarrow> byte list" where
  "chat_pending st j = pending (outgoing (plain (streams st (csocket (chat_peers st ! j)))))"

definition got_frame :: "string \<Rightarrow> chat_server \<Rightarrow> chat_server \<Rightarrow> nat \<Rightarrow> bool" where
  "got_frame frame st st' j \<longleftrightarrow>
    (if cretired (chat_peers st' ! j) then chat_pending st' j = chat_pending st j
     else chat_pending st' j = chat_pending st j @ bytes_of frame)"

lemma retire_streams: "streams (chat_retire a st) = streams st"
  by (simp add: chat_retire_def remove_stream_def update_chat_def split: option.split prod.split)

lemma distinct_lookup:
  assumes "distinct (map csocket (chat_peers st))" "j < length (chat_peers st)"
  shows "lookup_chat (csocket (chat_peers st ! j)) st = Some j"
proof (cases "lookup_chat (csocket (chat_peers st ! j)) st")
  case None
  then show ?thesis using assms(2) by (auto simp: lookup_chat_def first_where_None)
next
  case (Some i)
  note l = lookup_chat_Some [OF Some]
  then have "i = j" using assms(2) nth_eq_iff_index_eq [OF assms(1), of i j] by simp
  then show ?thesis using Some by simp
qed

lemma retire_others:
  assumes "distinct (map csocket (chat_peers st))" "j < length (chat_peers st)" "k \<noteq> j"
  shows "cretired (chat_peers (chat_retire (csocket (chat_peers st ! j)) st) ! k) = cretired (chat_peers st ! k)"
  using assms(3) unfolding chat_retire_def distinct_lookup [OF assms(1,2)] option.case
  by (simp add: remove_stream_def update_chat_def split: prod.split)

lemma retire_marks:
  assumes "distinct (map csocket (chat_peers st))" "j < length (chat_peers st)"
  shows "cretired (chat_peers (chat_retire (csocket (chat_peers st ! j)) st) ! j)"
  using assms(2) unfolding chat_retire_def distinct_lookup [OF assms] option.case
  by (simp add: remove_stream_def update_chat_def split: prod.split)

text \<open>One socket gets the frame or is retired; the others stay as they are.\<close>

lemma send_one:
  assumes "distinct (map csocket (chat_peers st))" "j < length (chat_peers st)" "\<not> cretired (chat_peers st ! j)"
    and "queue_inv (outgoing (plain (streams st (csocket (chat_peers st ! j)))))" "frame \<noteq> []"
  shows "got_frame frame st (chat_send frame j st) j"
    and "k < length (chat_peers st) \<Longrightarrow> k \<noteq> j \<Longrightarrow>
      cretired (chat_peers (chat_send frame j st) ! k) = cretired (chat_peers st ! k) \<and>
      streams (chat_send frame j st) (csocket (chat_peers st ! k)) = streams st (csocket (chat_peers st ! k))"
proof -
  let ?a = "csocket (chat_peers st ! j)"
  obtain ok s where q: "queue_write_string (\<lambda>_. True) (bytes_of frame) (plain (streams st ?a)) = (ok, s)" by fastforce
  let ?u = "update_stream ?a (\<lambda>_. Plain s) st"
  have eq: "chat_send frame j st = (if ok then ?u else chat_retire ?a ?u)"
    using assms(3) by (simp add: chat_send_def chat_queue_def q Let_def)
  have u: "distinct (map csocket (chat_peers ?u))" "j < length (chat_peers ?u)" using assms(1,2) by simp_all
  have "bytes_of frame \<noteq> []" using assms(5) by (simp add: bytes_of_def)
  note w = queue_write_pending [OF q assms(4) this]
  have at: "streams (chat_send frame j st) ?a = Plain s" by (simp add: eq retire_streams update_stream_def)
  have sock: "csocket (chat_peers (chat_send frame j st) ! j) = ?a" using calm_at [OF calm_send assms(2)] by simp
  have plain: "plain (Plain s) = s" by (simp add: plain_def)
  have pend: "chat_pending (chat_send frame j st) j = pending (outgoing s)"
    unfolding chat_pending_def sock at plain ..
  have ret: "cretired (chat_peers (chat_send frame j st) ! j) = (\<not> ok)"
    using retire_marks [OF u] assms(3) by (simp add: eq)
  show "got_frame frame st (chat_send frame j st) j"
    using w unfolding got_frame_def ret pend by (auto simp: chat_pending_def split: if_splits)
  assume k: "k < length (chat_peers st)" "k \<noteq> j"
  then have "csocket (chat_peers st ! k) \<noteq> ?a"
    using nth_eq_iff_index_eq [OF assms(1), of k j] assms(2) by auto
  then show "cretired (chat_peers (chat_send frame j st) ! k) = cretired (chat_peers st ! k) \<and>
      streams (chat_send frame j st) (csocket (chat_peers st ! k)) = streams st (csocket (chat_peers st ! k))"
    using retire_others [OF u k(2)] by (simp add: eq retire_streams update_stream_def)
qed

definition left_alone :: "chat_server \<Rightarrow> chat_server \<Rightarrow> nat \<Rightarrow> bool" where
  "left_alone st st' k \<longleftrightarrow> cretired (chat_peers st' ! k) = cretired (chat_peers st ! k) \<and>
     streams st' (csocket (chat_peers st ! k)) = streams st (csocket (chat_peers st ! k))"

lemma send_all:
  assumes "distinct js" "\<forall>j\<in>set js. j < length (chat_peers st)" "distinct (map csocket (chat_peers st))" "frame \<noteq> []"
    and "\<forall>j\<in>set js. queue_inv (outgoing (plain (streams st (csocket (chat_peers st ! j)))))" "k < length (chat_peers st)"
  shows "if k \<in> set js \<and> \<not> cretired (chat_peers st ! k) then got_frame frame st (fold (chat_send frame) js st) k
    else left_alone st (fold (chat_send frame) js st) k"
  using assms
proof (induction js arbitrary: st)
  case Nil
  then show ?case by (simp add: left_alone_def)
next
  case (Cons j js)
  let ?t = "chat_send frame j st" and ?u = "fold (chat_send frame) js (chat_send frame j st)"
  have j: "j < length (chat_peers st)" "j \<notin> set js" using Cons.prems by auto
  have len: "length (chat_peers ?t) = length (chat_peers st)" by (rule calm_length [OF calm_send])
  have sock: "csocket (chat_peers ?t ! m) = csocket (chat_peers st ! m)" if "m < length (chat_peers st)" for m
    using calm_at [OF calm_send that] by simp
  have other: "left_alone st ?t m" if "m < length (chat_peers st)" "m \<noteq> j" for m
  proof (cases "cretired (chat_peers st ! j)")
    case True
    then show ?thesis by (simp add: chat_send_def left_alone_def)
  next
    case False
    then show ?thesis using send_one(2) [OF Cons.prems(3) j(1) False _ Cons.prems(4) that] Cons.prems(5)
      by (simp add: left_alone_def)
  qed
  have "distinct (map csocket (chat_peers ?t))"
    using calm_same [OF calm_send] Cons.prems(3) by (simp add: same_chat_def)
  moreover have "\<forall>m\<in>set js. queue_inv (outgoing (plain (streams ?t (csocket (chat_peers ?t ! m)))))"
  proof
    fix m assume "m \<in> set js"
    then have "m < length (chat_peers st)" "m \<noteq> j" "queue_inv (outgoing (plain (streams st (csocket (chat_peers st ! m)))))"
      using Cons.prems j(2) by auto
    then show "queue_inv (outgoing (plain (streams ?t (csocket (chat_peers ?t ! m)))))"
      using other sock by (simp add: left_alone_def)
  qed
  ultimately have ih: "if k \<in> set js \<and> \<not> cretired (chat_peers ?t ! k) then got_frame frame ?t ?u k else left_alone ?t ?u k"
    using Cons.IH [of ?t] Cons.prems len by simp
  have pend: "chat_pending ?t k = chat_pending st k" if "left_alone st ?t k"
    using that sock [OF Cons.prems(6)] by (simp add: left_alone_def chat_pending_def)
  have usock: "csocket (chat_peers ?u ! k) = csocket (chat_peers st ! k)"
    using calm_at [OF calm_fold, of k ?t] Cons.prems(6) len sock by simp
  have keep: "chat_pending ?u k = chat_pending ?t k" if "left_alone ?t ?u k"
    using that usock sock [OF Cons.prems(6)] by (simp add: left_alone_def chat_pending_def)
  show ?case
  proof (cases "k = j")
    case False
    then have "left_alone st ?t k" using other Cons.prems(6) by simp
    then show ?thesis
      using ih pend sock [OF Cons.prems(6)] False by (auto simp: got_frame_def left_alone_def split: if_splits)
  next
    case True
    then have alone: "left_alone ?t ?u j" using ih j(2) by simp
    show ?thesis
    proof (cases "cretired (chat_peers st ! j)")
      case True
      then have "?t = st" by (simp add: chat_send_def)
      then show ?thesis using alone \<open>k = j\<close> True by simp
    next
      case False
      have "got_frame frame st ?t j"
        using send_one(1) [OF Cons.prems(3) j(1) False _ Cons.prems(4)] Cons.prems(5) by simp
      then show ?thesis
        using alone keep \<open>k = j\<close> False by (simp add: got_frame_def left_alone_def)
    qed
  qed
qed

section \<open>Packets\<close>

lemma lookup_chat_map: "lookup_chat a st = first_where (\<lambda>x. x = a) (map csocket (chat_peers st))"
proof -
  have "first_where (\<lambda>p. csocket p = a) ps = first_where (\<lambda>x. x = a) (map csocket ps)" for ps
    by (induction ps) auto
  then show ?thesis by (simp add: lookup_chat_def)
qed

lemma chat_loop_append:
  "chat_receive_loop i (cs @ ds) st =
    (let t = chat_receive_loop i cs st in
     if cretired (chat_peers t ! i) then t else chat_receive_loop i ds t) \<or>
   i \<ge> length (chat_peers st) \<or> \<not> distinct (map csocket (chat_peers st))"
proof (induction cs arbitrary: st)
  case Nil
  then show ?case by (cases ds) (auto simp: Let_def)
next
  case (Cons c cs)
  show ?case
  proof (cases "i < length (chat_peers st) \<and> distinct (map csocket (chat_peers st))")
    case True
    then have i: "i < length (chat_peers st)" by simp
    note loop = chat_receive_loop.simps(2) [unfolded Let_def]
    consider "cretired (chat_peers st ! i)" | "\<not> cretired (chat_peers st ! i)" "c = CHR 0x00"
      | "\<not> cretired (chat_peers st ! i)" "c \<noteq> CHR 0x00" by blast
    then show ?thesis
    proof cases
      case 1
      then show ?thesis by (simp add: loop Let_def)
    next
      case 2
      then show ?thesis using retire_marks [of st i] True by (simp add: loop Let_def)
    next
      case 3
      define t where "t = (if c = LF then end_line i st
        else if length (pending_line (chat_peers st ! i)) \<ge> max_line_bytes (chat_limit st)
        then chat_retire (csocket (chat_peers st ! i)) st
        else update_chat i (\<lambda>p. p\<lparr>pending_line := pending_line p @ [c]\<rparr>) st)"
      have "same_chat st (update_chat i (\<lambda>p. p\<lparr>pending_line := pending_line p @ [c]\<rparr>) st)"
        by (rule update_line(1)) simp
      then have same: "same_chat st t"
        using end_line_ok(1) [OF i] calm_same [OF calm_retire] by (simp add: t_def)
      have "i < length (chat_peers t)" "distinct (map csocket (chat_peers t))"
        using True same same_chat_length [OF same] by (simp_all add: same_chat_def)
      then show ?thesis using Cons.IH [of t] 3 unfolding t_def by (simp add: loop Let_def)
    qed
  qed auto
qed

text \<open>What a client says does not depend on how it is cut into packets.\<close>

lemma chat_receive_append:
  assumes "distinct (map csocket (chat_peers st))"
  shows "chat_receive a (d1 @ d2) st = chat_receive a d2 (chat_receive a d1 st)"
proof (cases "lookup_chat a st")
  case None
  then show ?thesis by (simp add: chat_receive_def)
next
  case (Some i)
  have i: "i < length (chat_peers st)" using lookup_chat_Some [OF Some] by simp
  have both: "text_of (d1 @ d2) = text_of d1 @ text_of d2" by (simp add: text_of_def)
  show ?thesis
  proof (cases "cretired (chat_peers st ! i) \<or> d1 = [] \<or> d2 = []")
    case True
    then show ?thesis by (auto simp: chat_receive_def Some split: option.split)
  next
    case False
    let ?t = "chat_receive_loop i (text_of d1) st"
    have t: "chat_receive a d1 st = ?t" using False by (simp add: chat_receive_def Some)
    have "lookup_chat a ?t = Some i"
      using conjunct1 [OF chat_receive_loop_ok [OF i, of "text_of d1"]] Some by (simp add: lookup_chat_map same_chat_def)
    then show ?thesis
      using False chat_loop_append [of i "text_of d1" "text_of d2" st] assms i
      by (auto simp: chat_receive_def Some t both Let_def)
  qed
qed

lemma chat_loop_push:
  assumes "i < length (chat_peers st)" "\<not> cretired (chat_peers st ! i)" "CHR 0x00 \<notin> set v" "LF \<notin> set v"
    and "length (pending_line (chat_peers st ! i)) + length v \<le> max_line_bytes (chat_limit st)"
  shows "chat_receive_loop i (v @ cs) st =
    chat_receive_loop i cs (update_chat i (\<lambda>p. p\<lparr>pending_line := pending_line p @ v\<rparr>) st)"
  using assms
proof (induction v arbitrary: st)
  case Nil
  have "update_chat i (\<lambda>p. p\<lparr>pending_line := pending_line p @ []\<rparr>) st = st" by (simp add: update_chat_def)
  then show ?case by simp
next
  case (Cons c v)
  let ?t = "update_chat i (\<lambda>p. p\<lparr>pending_line := pending_line p @ [c]\<rparr>) st"
  have at: "chat_peers ?t ! i = (chat_peers st ! i)\<lparr>pending_line := pending_line (chat_peers st ! i) @ [c]\<rparr>"
    "length (chat_peers ?t) = length (chat_peers st)" "chat_limit ?t = chat_limit st"
    using Cons.prems(1) by (simp_all add: update_chat_def)
  have "chat_receive_loop i ((c # v) @ cs) st = chat_receive_loop i (v @ cs) ?t"
    using Cons.prems by (auto simp: Let_def)
  also have "\<dots> = chat_receive_loop i cs (update_chat i (\<lambda>p. p\<lparr>pending_line := pending_line p @ v\<rparr>) ?t)"
    by (rule Cons.IH) (use Cons.prems at in auto)
  also have "update_chat i (\<lambda>p. p\<lparr>pending_line := pending_line p @ v\<rparr>) ?t =
      update_chat i (\<lambda>p. p\<lparr>pending_line := pending_line p @ c # v\<rparr>) st"
    using Cons.prems(1) by (simp add: update_chat_def)
  finally show ?case .
qed

text \<open>Nothing is queued while a line is still coming in.\<close>

lemma update_chat_view:
  assumes "\<And>p. csocket (f p) = csocket p \<and> cretired (f p) = cretired p"
  shows "streams (update_chat i f st) = streams st"
    and "k < length (chat_peers st) \<Longrightarrow> csocket (chat_peers (update_chat i f st) ! k) = csocket (chat_peers st ! k) \<and>
      cretired (chat_peers (update_chat i f st) ! k) = cretired (chat_peers st ! k)"
  using assms by (simp_all add: update_chat_def) (cases "i = k"; simp)

lemma update_chat_pending:
  assumes "\<And>p. csocket (f p) = csocket p \<and> cretired (f p) = cretired p" "k < length (chat_peers st)"
  shows "chat_pending (update_chat i f st) k = chat_pending st k"
  using update_chat_view [OF assms(1)] assms(2) by (simp add: chat_pending_def)

section \<open>Properties\<close>

text \<open>
  C30. Over any run of the chat server, between two calls: there are at most \<open>max_clients\<close> clients,
  none of them retired; the unfinished line of each is at most \<open>max_line_bytes\<close> long and holds neither a
  zero byte nor a line end; a stopped server has no clients; and the registries stay well formed.
\<close>

theorem chat_server_stays_bounded:
  assumes "chat_reachable lim os st w"
  shows "length (chat_peers st) \<le> chat_max_clients lim \<and>
    list_all (\<lambda>p. \<not> cretired p \<and> length (pending_line p) \<le> max_line_bytes lim \<and>
      CHR 0x00 \<notin> set (pending_line p) \<and> LF \<notin> set (pending_line p)) (chat_peers st) \<and>
    (chat_running st \<or> chat_peers st = []) \<and> set_wf st"
proof -
  have idle: "chat_idle lim st" by (rule chat_reachable_idle [OF assms])
  then have "filter (\<lambda>p. \<not> cretired p) (chat_peers st) = chat_peers st" by (simp add: chat_idle_def)
  then show ?thesis
    using idle by (auto simp: chat_idle_def chat_inv_def chat_client_count_def list_all_iff line_bounded_def)
qed

definition sample_chat_limits :: chat_limits where
  "sample_chat_limits = \<lparr>chat_max_clients = 128, max_line_bytes = 1024, max_queued_bytes = 131072\<rparr>"

definition sample_chat :: chat_server where
  "sample_chat = fst (chat_new sample_chat_limits (scripted_os []) world0)"

theorem chat_server_stays_bounded_witness: "length (chat_peers sample_chat) \<le> 128 \<and> set_wf sample_chat"
proof -
  obtain st w where n: "chat_new sample_chat_limits (scripted_os []) world0 = (st, w)" by fastforce
  have "chat_reachable sample_chat_limits (scripted_os []) sample_chat w"
    unfolding chat_reachable_def sample_chat_def n fst_conv by (intro exI [of _ world0]) (simp add: n)
  from chat_server_stays_bounded [OF this] show ?thesis by (simp add: sample_chat_limits_def)
qed

text \<open>
  C31. A line reaches every client whole, however it is cut into packets. When the bytes that a live
  client sends, in two pieces split anywhere, complete its line, then every client that was live gets
  exactly one frame with the whole line behind what it was already to be sent, or is retired with nothing
  added; the sender starts a new line; and the outcome is the same as if the bytes had come at once.
\<close>

theorem chat_line_reaches_everyone:
  assumes "lookup_chat a st = Some i" "\<not> cretired (chat_peers st ! i)" "distinct (map csocket (chat_peers st))"
    and "text_of (d1 @ d2) = v @ [LF]" "CHR 0x00 \<notin> set v" "LF \<notin> set v"
    and "length (pending_line (chat_peers st ! i)) + length v \<le> max_line_bytes (chat_limit st)"
    and "line = strip_cr (pending_line (chat_peers st ! i) @ v)" "line \<noteq> []"
    and "\<forall>j<length (chat_peers st). queue_inv (outgoing (plain (streams st (csocket (chat_peers st ! j)))))"
    and "k < length (chat_peers st)" "\<not> cretired (chat_peers st ! k)"
    and "st' = chat_receive a d2 (chat_receive a d1 st)"
  shows "got_frame (chat_frame (peer_id (chat_peers st ! i)) line) st st' k \<and> pending_line (chat_peers st' ! i) = [] \<and>
    st' = chat_receive a (d1 @ d2) st"
proof -
  have i: "i < length (chat_peers st)" using lookup_chat_Some [OF assms(1)] by simp
  let ?f = "\<lambda>p. p\<lparr>pending_line := pending_line p @ v\<rparr>" and ?g = "\<lambda>p. p\<lparr>pending_line := strip_cr (pending_line p)\<rparr>"
  let ?h = "\<lambda>p. p\<lparr>pending_line := []\<rparr>"
  let ?u = "update_chat i ?g (update_chat i ?f st)" and ?frame = "chat_frame (peer_id (chat_peers st ! i)) line"
  have at: "pending_line (chat_peers ?u ! i) = line" "peer_id (chat_peers ?u ! i) = peer_id (chat_peers st ! i)"
    using i assms(8) by (simp_all add: update_chat_def)
  let ?b = "broadcast (peer_id (chat_peers st ! i)) line ?u"
  have join: "st' = chat_receive a (d1 @ d2) st" using assms(13) chat_receive_append [OF assms(3)] by simp
  have "d1 @ d2 \<noteq> []" using assms(4) by (auto simp: text_of_def)
  then have "st' = chat_receive_loop i (v @ [LF]) st"
    using join assms(1,2,4) by (auto simp: chat_receive_def)
  also have "\<dots> = chat_receive_loop i [LF] (update_chat i ?f st)"
    by (rule chat_loop_push [OF i assms(2,5,6,7)])
  also have "\<dots> = end_line i (update_chat i ?f st)"
    using i assms(2) by (simp add: Let_def update_chat_def LF_def)
  finally have st': "st' = update_chat i ?h ?b"
    using at assms(9) by (simp add: end_line_def Let_def)
  have view: "streams ?u = streams st" "length (chat_peers ?u) = length (chat_peers st)"
    by (simp_all add: update_chat_def)
  have peers: "csocket (chat_peers ?u ! j) = csocket (chat_peers st ! j) \<and> cretired (chat_peers ?u ! j) = cretired (chat_peers st ! j)"
    if "j < length (chat_peers st)" for j
    using that by (cases "i = j") (simp_all add: update_chat_def)
  have pend: "chat_pending ?u k = chat_pending st k"
    using peers [OF assms(11)] view by (simp add: chat_pending_def)
  have "map csocket (chat_peers ?u) = map csocket (chat_peers st)"
    using peers view by (auto intro: nth_equalityI)
  then have "got_frame ?frame ?u ?b k"
    using send_all [of "[0..<length (chat_peers ?u)]" ?u ?frame k] assms(3,10,11,12) peers view
    by (simp add: broadcast_def chat_frame_def)
  moreover have k: "k < length (chat_peers ?b)" "i < length (chat_peers ?b)"
    using calm_length [OF calm_broadcast, of "peer_id (chat_peers st ! i)" line ?u] view assms(11) i by simp_all
  have "chat_pending st' k = chat_pending ?b k" "cretired (chat_peers st' ! k) = cretired (chat_peers ?b ! k)"
    unfolding st' using k(1) by (cases "i = k"; simp add: chat_pending_def update_chat_def)+
  ultimately have "got_frame ?frame st st' k" using pend by (simp add: got_frame_def)
  moreover have "pending_line (chat_peers st' ! i) = []" unfolding st' using k(2) by (simp add: update_chat_def)
  ultimately show ?thesis using join by simp
qed

definition sample_talk :: chat_server where
  "sample_talk = sample_chat\<lparr>chat_peers :=
     [\<lparr>csocket = 1, pending_line = [], peer_id = 1, cretired = False\<rparr>,
      \<lparr>csocket = 2, pending_line = [], peer_id = 2, cretired = False\<rparr>],
     streams := (\<lambda>_. Plain (ev_of_sock (sock_init\<lparr>sockfd := 3, connected := True, blocking := False\<rparr>)))\<rparr>"

theorem chat_line_reaches_everyone_witness:
  "got_frame (chat_frame 1 ''hi'') sample_talk (chat_receive 1 [105, 10] (chat_receive 1 [104] sample_talk)) 1"
proof -
  have peers: "lookup_chat 1 sample_talk = Some 0" "length (chat_peers sample_talk) = 2"
    "\<not> cretired (chat_peers sample_talk ! 0)" "\<not> cretired (chat_peers sample_talk ! 1)"
    "distinct (map csocket (chat_peers sample_talk))" "pending_line (chat_peers sample_talk ! 0) = []"
    "peer_id (chat_peers sample_talk ! 0) = 1"
    by (simp_all add: sample_talk_def lookup_chat_def)
  have "chat_limit (put_chat_listener s x) = chat_limit x" for s x by simp
  then have lim: "chat_limit sample_talk = sample_chat_limits"
    by (simp add: sample_talk_def sample_chat_def chat_new_def event_set.defs Let_def split: prod.split)
  have queue: "queue_inv (outgoing (plain (streams sample_talk b)))" for b
    by (simp add: sample_talk_def plain_def ev_of_sock_def sock.defs ev_sock.defs)
  have bytes: "text_of ([104] @ [105, 10]) = ''hi'' @ [LF]" "strip_cr ([] @ ''hi'') = ''hi''" "LF \<notin> set ''hi''"
    "CHR 0x00 \<notin> set ''hi''" by code_simp+
  have room: "length (pending_line (chat_peers sample_talk ! 0)) + length ''hi'' \<le> max_line_bytes (chat_limit sample_talk)"
    by (simp add: peers lim sample_chat_limits_def)
  have line: "''hi'' = strip_cr (pending_line (chat_peers sample_talk ! 0) @ ''hi'')" using peers(6) bytes(2) by simp
  have "got_frame (chat_frame (peer_id (chat_peers sample_talk ! 0)) ''hi'') sample_talk
      (chat_receive 1 [105, 10] (chat_receive 1 [104] sample_talk)) 1"
    by (rule conjunct1 [OF chat_line_reaches_everyone
          [OF peers(1,3,5) bytes(1) bytes(4,3) room line _ _ _ peers(4) refl]])
      (use queue peers(2) in auto)
  then show ?thesis by (simp only: peers(7))
qed

end
