(* ===== verification/Pong_Server.thy ===== *)
theory Pong_Server
  imports Event_Poll Http_Message
begin

text \<open>
  The game of \<open>example/pong_server.cpp\<close>: a UDP application on a server event socket and an
  event set. The application polls for datagrams and advances the simulation by elapsed time. As
  in \<open>Http_Server\<close>, the state of the game extends that of its event set; the server socket is
  the datagram object at address \<open>0\<close>, and its peers are kept in \<open>udp_peers\<close>.
\<close>

section \<open>State\<close>

definition court_width :: int where [simp]: "court_width = 24"
definition court_height :: int where [simp]: "court_height = 12"
definition paddle_height :: int where [simp]: "paddle_height = 3"
definition tick_ms :: int where [simp]: "tick_ms = 100"
definition pong_idle_timeout_ms :: int where [simp]: "pong_idle_timeout_ms = 5000"

record game_state =
  left_y :: int
  right_y :: int
  ball_x :: int
  ball_y :: int
  left_score :: int
  right_score :: int
  occupied :: int
  seq_no :: "64 word"

record player =
  seated :: bool
  seat_of :: address
  direction :: int
  inactivity_ms :: int

record pong_server = event_set +
  udp_peers :: udp_server
  players :: "player list"
  game :: game_state
  dx :: int
  dy :: int
  accumulator_ms :: int
  pong_running :: bool
  pong_polling :: bool

definition no_player :: player where
  "no_player = \<lparr>seated = False, seat_of = address_empty, direction = 0, inactivity_ms = 0\<rparr>"

definition new_game :: game_state where
  "new_game = \<lparr>left_y = 4, right_y = 4, ball_x = court_width div 2, ball_y = court_height div 2,
     left_score = 0, right_score = 0, occupied = 0, seq_no = 0\<rparr>"

definition get_udp :: "pong_server \<Rightarrow> world \<Rightarrow> udp_ev_server" where
  "get_udp st w =
    \<lparr>udp_base = (udp_peers st)\<lparr>server := udp_sock.truncate (datagrams st 0), uworld := w\<rparr>,
     server_slots = uslots (datagrams st 0)\<rparr>"

definition put_udp :: "udp_ev_server \<Rightarrow> pong_server \<Rightarrow> pong_server \<times> world" where
  "put_udp u st =
    (st\<lparr>udp_peers := udp_base u,
        datagrams := (datagrams st)(0 := udp_sock.extend (server (udp_base u)) \<lparr>uslots = server_slots u\<rparr>)\<rparr>,
     uworld (udp_base u))"

text \<open>The application sets no handler on the server socket itself.\<close>

definition no_server_user :: server_user where
  "no_server_user ev u = u"

section \<open>Seats and answers\<close>

definition same_endpoint :: "address \<Rightarrow> address \<Rightarrow> bool" where
  "same_endpoint a b =
    (let lhs = get_sockaddr_storage a; rhs = get_sockaddr_storage b in
     if ss_family lhs \<noteq> ss_family rhs \<or> get_port a \<noteq> get_port b then False
     else if ss_family lhs = AF_INET then sin_addr lhs = sin_addr rhs
     else if ss_family lhs = AF_INET6
     then sin6_scope_id lhs = sin6_scope_id rhs \<and> sin6_addr lhs = sin6_addr rhs
     else False)"

definition player_count :: "pong_server \<Rightarrow> int" where
  "player_count st = of_bool (seated (players st ! 0)) + of_bool (seated (players st ! 1))"

definition current_game :: "pong_server \<Rightarrow> game_state" where
  "current_game st = (game st)\<lparr>occupied :=
     (if seated (players st ! 0) then 1 else 0) OR (if seated (players st ! 1) then 2 else 0)\<rparr>"

definition seat :: "address \<Rightarrow> pong_server \<Rightarrow> nat option" where
  "seat from st =
    (if seated (players st ! 0) \<and> same_endpoint (seat_of (players st ! 0)) from then Some 0
     else if seated (players st ! 1) \<and> same_endpoint (seat_of (players st ! 1)) from then Some 1
     else None)"

definition reply :: "os \<Rightarrow> address \<Rightarrow> string \<Rightarrow> pong_server \<Rightarrow> world \<Rightarrow> pong_server \<times> world" where
  "reply os to payload st w =
    (let (peer, u) = udp_server_event_get_peer os to (get_udp st w) in
     case peer of
       None \<Rightarrow> put_udp u st
     | Some p \<Rightarrow>
         let b = udp_base u;
             (n, x, w) = send_datagram os (Some (server b)) (Some (bytes_of payload)) (int (length payload))
                (uheap b p) (uworld b) in
         put_udp (u\<lparr>udp_base := b\<lparr>uheap := (uheap b)(p := x), uworld := w\<rparr>\<rparr>) st)"

text \<open>\<open>std::to_string\<close> of an integer.\<close>

definition to_string :: "int \<Rightarrow> string" where
  "to_string i = (if i < 0 then CHR ''-'' # decimal (nat (- i)) else decimal (nat i))"

definition frame_text :: "64 word \<Rightarrow> game_state \<Rightarrow> string" where
  "frame_text n s =
    ''S '' @ to_string (uint n) @ '' '' @ to_string (left_y s) @ '' '' @ to_string (right_y s) @ '' '' @
    to_string (ball_x s) @ '' '' @ to_string (ball_y s) @ '' '' @ to_string (left_score s) @ '' '' @
    to_string (right_score s) @ '' '' @ to_string (occupied s)"

fun reply_all :: "os \<Rightarrow> string \<Rightarrow> player list \<Rightarrow> pong_server \<Rightarrow> world \<Rightarrow> pong_server \<times> world" where
  "reply_all os frame [] st w = (st, w)"
| "reply_all os frame (p # ps) st w =
    (let (st, w) = (if seated p then reply os (seat_of p) frame st w else (st, w)) in
     reply_all os frame ps st w)"

definition snapshot :: "os \<Rightarrow> pong_server \<Rightarrow> world \<Rightarrow> pong_server \<times> world" where
  "snapshot os st w =
    (let s = current_game st;
         st = st\<lparr>game := (game st)\<lparr>seq_no := seq_no (game st) + 1\<rparr>\<rparr> in
     reply_all os (frame_text (seq_no (game st)) s) (players st) st w)"

section \<open>The rules\<close>

definition reset_ball :: "int \<Rightarrow> pong_server \<Rightarrow> pong_server" where
  "reset_ball d st = st\<lparr>game := (game st)\<lparr>ball_x := court_width div 2, ball_y := court_height div 2\<rparr>,
     dx := d, dy := 1\<rparr>"

definition update_player :: "nat \<Rightarrow> (player \<Rightarrow> player) \<Rightarrow> pong_server \<Rightarrow> pong_server" where
  "update_player i f st = st\<lparr>players := (players st)[i := f (players st ! i)]\<rparr>"

definition clamp :: "int \<Rightarrow> int \<Rightarrow> int \<Rightarrow> int" where
  "clamp v lo hi = (if v < lo then lo else if hi < v then hi else v)"

definition age_player :: "nat \<Rightarrow> pong_server \<Rightarrow> pong_server" where
  "age_player i st =
    (if \<not> seated (players st ! i) then st
     else
       let st = update_player i (\<lambda>p. p\<lparr>inactivity_ms := inactivity_ms p + tick_ms\<rparr>) st in
       if inactivity_ms (players st ! i) \<ge> pong_idle_timeout_ms
       then reset_ball 1 (update_player i (\<lambda>_. no_player) st) else st)"

definition move_paddles :: "pong_server \<Rightarrow> pong_server" where
  "move_paddles st = st\<lparr>game := (game st)
     \<lparr>left_y := clamp (left_y (game st) + direction (players st ! 0)) 0 (court_height - paddle_height),
      right_y := clamp (right_y (game st) + direction (players st ! 1)) 0 (court_height - paddle_height)\<rparr>\<rparr>"

definition move_ball :: "pong_server \<Rightarrow> pong_server" where
  "move_ball st =
    (let s = game st;
         next_y = ball_y s + dy st;
         (dy', next_y) = (if next_y < 0 \<or> next_y \<ge> court_height then (- dy st, ball_y s + - dy st) else (dy st, next_y));
         next_x = ball_x s + dx st;
         (dx', next_x) =
           (if next_x = 2 \<and> dx st < 0 \<and> next_y \<ge> left_y s \<and> next_y < left_y s + paddle_height
            then (1, ball_x s + 1)
            else if next_x = court_width - 3 \<and> dx st > 0 \<and> next_y \<ge> right_y s \<and> next_y < right_y s + paddle_height
            then (- 1, ball_x s + - 1)
            else (dx st, next_x));
         st = st\<lparr>game := s\<lparr>ball_x := next_x, ball_y := next_y\<rparr>, dx := dx', dy := dy'\<rparr> in
     if next_x \<le> 0
     then reset_ball 1 (st\<lparr>game := (game st)\<lparr>right_score := right_score (game st) + 1\<rparr>\<rparr>)
     else if next_x \<ge> court_width - 1
     then reset_ball (- 1) (st\<lparr>game := (game st)\<lparr>left_score := left_score (game st) + 1\<rparr>\<rparr>)
     else st)"

definition tick :: "pong_server \<Rightarrow> pong_server" where
  "tick st =
    (let st = age_player 1 (age_player 0 st) in
     if player_count st = 2 then move_ball (move_paddles st) else st)"

definition step :: "os \<Rightarrow> pong_server \<Rightarrow> world \<Rightarrow> pong_server \<times> world" where
  "step os st w = snapshot os (tick st) w"

section \<open>Commands\<close>

definition join :: "os \<Rightarrow> address \<Rightarrow> pong_server \<Rightarrow> world \<Rightarrow> pong_server \<times> world" where
  "join os from st w =
    (let taken = \<lparr>seated = True, seat_of = from, direction = 0, inactivity_ms = 0\<rparr>;
         (who, st) =
           (case seat from st of
              Some i \<Rightarrow> (Some i, st)
            | None \<Rightarrow>
                if \<not> seated (players st ! 0) then (Some 0, update_player 0 (\<lambda>_. taken) st)
                else if \<not> seated (players st ! 1) then (Some 1, update_player 1 (\<lambda>_. taken) st)
                else (None, st)) in
     case who of
       None \<Rightarrow> reply os from ''FULL'' st w
     | Some i \<Rightarrow>
         let st = update_player i (\<lambda>p. p\<lparr>inactivity_ms := 0\<rparr>) st;
             (st, w) = reply os from (if i = 0 then ''W 1'' else ''W 2'') st w in
         snapshot os st w)"

definition steer :: "string \<Rightarrow> player \<Rightarrow> player" where
  "steer cmd p =
    (if cmd = ''H'' \<or> cmd = ''U'' \<or> cmd = ''D'' \<or> cmd = ''N''
     then
       let p = p\<lparr>inactivity_ms := 0\<rparr>;
           p = (if cmd = ''U'' then p\<lparr>direction := - 1\<rparr> else p);
           p = (if cmd = ''D'' then p\<lparr>direction := 1\<rparr> else p) in
       (if cmd = ''N'' then p\<lparr>direction := 0\<rparr> else p)
     else p)"

definition datagram :: "os \<Rightarrow> byte list \<Rightarrow> address \<Rightarrow> pong_server \<Rightarrow> world \<Rightarrow> pong_server \<times> world" where
  "datagram os data from st w =
    (if \<not> pong_running st \<or> data = [] \<or> length data > 32 then (st, w)
     else if text_of data = ''J'' then join os from st w
     else
       case seat from st of
         None \<Rightarrow> (st, w)
       | Some i \<Rightarrow>
           if text_of data = ''Q'' then snapshot os (reset_ball 1 (update_player i (\<lambda>_. no_player) st)) w
           else (update_player i (steer (text_of data)) st, w))"

section \<open>Running\<close>

definition pong_callback :: "os \<Rightarrow> nat \<Rightarrow> event \<Rightarrow> pong_server \<Rightarrow> world \<Rightarrow> pong_server \<times> world" where
  "pong_callback os a ev st w =
    (case ev of
       Ev_datagram d from \<Rightarrow> if a = 0 then datagram os d (address_of_storage from) st w else (st, w)
     | _ \<Rightarrow> (st, w))"

definition pong_register :: "os \<Rightarrow> nat \<Rightarrow> address \<Rightarrow> pong_server \<Rightarrow> world \<Rightarrow> pong_server \<times> world" where
  "pong_register os a from st w =
    (if a = 0 then put_udp (udp_server_register_sender os from (get_udp st w)) st else (st, w))"

definition pong_handlers :: "os \<Rightarrow> (unit pong_server_ext) handlers" where
  "pong_handlers os =
    \<lparr>on_stream = (\<lambda>a ev st w. (st, w)), on_set = (\<lambda>a ev st w. (st, w)), on_udp = (\<lambda>a ev st w. (st, w)),
     on_udp_set = pong_callback os, register_sender = pong_register os\<rparr>"

definition pong_poll :: "os \<Rightarrow> int \<Rightarrow> pong_server \<Rightarrow> world \<Rightarrow> (int \<times> pong_server \<times> world) option" where
  "pong_poll os timeout st w =
    (if \<not> pong_running st \<or> pong_polling st then Some (- 1, st, w)
     else
       map_option (\<lambda>(result, st, w). (result, st\<lparr>pong_polling := False\<rparr>, w))
         (event_set_poll (pong_handlers os) os timeout (st\<lparr>pong_polling := True\<rparr>) w))"

text \<open>
  What a step leaves alone: answering touches only the server object, its peers and the sequence
  number; the clock belongs to the application.
\<close>

definition same_play :: "pong_server \<Rightarrow> pong_server \<Rightarrow> bool" where
  "same_play st st' \<longleftrightarrow> (\<exists>v z. st' = st\<lparr>udp_peers := v, datagrams := (datagrams st)(0 := z)\<rparr> \<and>
     uslots z = uslots (datagrams st 0))"

lemma same_play_refl [simp, intro]: "same_play st st"
  unfolding same_play_def
  by (rule exI [of _ "udp_peers st"], rule exI [of _ "datagrams st 0"]) simp

lemma same_play_trans:
  assumes "same_play st st1" "same_play st1 st2"
  shows "same_play st st2"
proof -
  obtain v z where 1: "st1 = st\<lparr>udp_peers := v, datagrams := (datagrams st)(0 := z)\<rparr>" "uslots z = uslots (datagrams st 0)"
    using assms(1) unfolding same_play_def by blast
  obtain v' z' where 2: "st2 = st1\<lparr>udp_peers := v', datagrams := (datagrams st1)(0 := z')\<rparr>" "uslots z' = uslots (datagrams st1 0)"
    using assms(2) unfolding same_play_def by blast
  have "st2 = st\<lparr>udp_peers := v', datagrams := (datagrams st)(0 := z')\<rparr>" "uslots z' = uslots (datagrams st 0)"
    using 1 2 by simp_all
  then show ?thesis unfolding same_play_def by blast
qed

lemma put_udp_same_play: "server_slots u = uslots (datagrams st 0) \<Longrightarrow> same_play st (fst (put_udp u st))"
  unfolding same_play_def put_udp_def fst_conv
  by (intro exI conjI, rule refl) (simp add: udp_sock.defs)

lemma get_peer_slots: "udp_server_event_get_peer os a u = (p, u') \<Longrightarrow> server_slots u' = server_slots u"
  by (auto simp: udp_server_event_get_peer_def split: prod.splits)

lemma reply_same_play: "reply os a d st w = (st', w') \<Longrightarrow> same_play st st'"
proof -
  assume r: "reply os a d st w = (st', w')"
  obtain p u where p: "udp_server_event_get_peer os a (get_udp st w) = (p, u)" by fastforce
  have u: "server_slots u = uslots (datagrams st 0)" using get_peer_slots [OF p] by (simp add: get_udp_def)
  show ?thesis
    using r put_udp_same_play [of _ st] u
    by (cases p; simp add: reply_def p Let_def split: prod.splits) (metis fst_conv udp_ev_server.select_convs(2)
      udp_ev_server.surjective udp_ev_server.update_convs(1))+
qed

lemma reply_all_same_play: "reply_all os frame ps st w = (st', w') \<Longrightarrow> same_play st st'"
proof (induction ps arbitrary: st w)
  case (Cons p ps)
  obtain st1 w1 where r: "(if seated p then reply os (seat_of p) frame st w else (st, w)) = (st1, w1)" by fastforce
  have "same_play st st1" using r reply_same_play by (auto split: if_splits)
  moreover have "same_play st1 st'" using Cons r by simp
  ultimately show ?case by (rule same_play_trans)
qed simp

lemma same_play_simps:
  "same_play st st' \<Longrightarrow> players st' = players st \<and> game st' = game st \<and> dx st' = dx st \<and> dy st' = dy st \<and>
     accumulator_ms st' = accumulator_ms st \<and> pong_running st' = pong_running st \<and>
     pong_polling st' = pong_polling st \<and> tcp_reg st' = tcp_reg st \<and> udp_reg st' = udp_reg st \<and>
     set_slots st' = set_slots st \<and> polling st' = polling st \<and> streams st' = streams st"
  by (auto simp: same_play_def)

definition count_frame :: "pong_server \<Rightarrow> pong_server" where
  "count_frame st = st\<lparr>game := (game st)\<lparr>seq_no := seq_no (game st) + 1\<rparr>\<rparr>"

lemma snapshot_same_play: "snapshot os st w = (st', w') \<Longrightarrow> same_play (count_frame st) st'"
  using reply_all_same_play by (simp add: snapshot_def Let_def count_frame_def)

lemma age_player_clock [simp]: "accumulator_ms (age_player i st) = accumulator_ms st"
  by (simp add: age_player_def Let_def update_player_def reset_ball_def)

lemma move_ball_clock [simp]: "accumulator_ms (move_ball st) = accumulator_ms st"
  by (simp add: move_ball_def Let_def reset_ball_def split: prod.split)

lemma tick_clock [simp]: "accumulator_ms (tick st) = accumulator_ms st"
  by (simp add: tick_def Let_def move_paddles_def)

lemma step_clock: "step os st w = (st', w') \<Longrightarrow> accumulator_ms st' = accumulator_ms st"
  using same_play_simps [OF snapshot_same_play] by (simp add: step_def count_frame_def)

text \<open>The loop that catches up; a tick takes its time off the accumulator first.\<close>

function catch_up :: "os \<Rightarrow> pong_server \<Rightarrow> world \<Rightarrow> pong_server \<times> world" where
  "catch_up os st w =
    (if accumulator_ms st \<ge> tick_ms
     then let (st, w) = step os (st\<lparr>accumulator_ms := accumulator_ms st - tick_ms\<rparr>) w in catch_up os st w
     else (st, w))"
  by pat_completeness auto

termination
  by (relation "measure (\<lambda>(os, st, w). nat (accumulator_ms st))") (auto split: prod.split dest: step_clock step_clock [OF sym])

declare catch_up.simps [simp del]

definition pong_advance :: "os \<Rightarrow> int \<Rightarrow> pong_server \<Rightarrow> world \<Rightarrow> pong_server \<times> world" where
  "pong_advance os elapsed st w =
    (if \<not> pong_running st \<or> pong_polling st \<or> elapsed \<le> 0 then (st, w)
     else catch_up os (st\<lparr>accumulator_ms := accumulator_ms st + min elapsed (tick_ms * 4)\<rparr>) w)"

definition pong_new :: "os \<Rightarrow> world \<Rightarrow> pong_server \<times> world" where
  "pong_new os w =
    (let (s, w) = udp_event_new os w;
         set = the (on_socket set_datagram True event_set_new);
         st = event_set.extend set
           \<lparr>udp_peers = peers.extend peers_empty
              \<lparr>server = udp_sock.truncate s, uheap = (\<lambda>_. udp_of_sock None sock_init), unext = 1, uworld = w\<rparr>,
            players = [no_player, no_player], game = new_game, dx = 1, dy = 1, accumulator_ms = 0,
            pong_running = False, pong_polling = False\<rparr> in
     (st\<lparr>datagrams := (datagrams st)(0 := s)\<rparr>, w))"

text \<open>\<open>None\<close>: closing the peers of an earlier session never returned.\<close>

definition server_close_op :: "os \<Rightarrow> pong_server \<Rightarrow> world \<Rightarrow> (pong_server \<times> world) option" where
  "server_close_op os st w =
    map_option (\<lambda>(_, u). put_udp u st) (udp_server_event_close no_server_user os (get_udp st w))"

definition pong_start :: "os \<Rightarrow> int \<Rightarrow> pong_server \<Rightarrow> world \<Rightarrow> (bool \<times> pong_server \<times> world) option" where
  "pong_start os port st w =
    (if pong_running st \<or> pong_polling st \<or> port < 0 \<or> port > 65535 then Some (False, st, w)
     else
       case udp_server_event_listen no_server_user os port (get_udp st w) of
         None \<Rightarrow> None
       | Some (ok, u) \<Rightarrow>
           let (st, w) = put_udp u st in
           if \<not> ok then Some (False, st, w)
           else
             let (added, st) = add_datagram (Some 0) st in
             if \<not> added then map_option (Pair False) (server_close_op os st w)
             else Some (True, st\<lparr>pong_running := True\<rparr>, w))"

definition pong_stop :: "os \<Rightarrow> pong_server \<Rightarrow> world \<Rightarrow> (pong_server \<times> world) option" where
  "pong_stop os st w =
    (if pong_polling st then Some (st, w)
     else
       map_option (\<lambda>(st, w). (st\<lparr>players := [no_player, no_player], pong_running := False, accumulator_ms := 0\<rparr>, w))
         (server_close_op os (snd (remove_datagram (Some 0) st)) w))"

text \<open>What the application can do with a game, in any order, and what it does elsewhere.\<close>

inductive pong_step :: "os \<Rightarrow> pong_server \<times> world \<Rightarrow> pong_server \<times> world \<Rightarrow> bool" for os where
  start: "pong_start os port st w = Some (b, st', w') \<Longrightarrow> pong_step os (st, w) (st', w')"
| poll: "pong_poll os timeout st w = Some (n, st', w') \<Longrightarrow> pong_step os (st, w) (st', w')"
| advance: "pong_advance os elapsed st w = (st', w') \<Longrightarrow> pong_step os (st, w) (st', w')"
| stop: "pong_stop os st w = Some (st', w') \<Longrightarrow> pong_step os (st, w) (st', w')"
| elsewhere: "pong_step os (st, w) (st, w')"

inductive_cases pong_stepE: "pong_step os (st, w) (st', w')"

definition pong_reachable :: "os \<Rightarrow> pong_server \<Rightarrow> world \<Rightarrow> bool" where
  "pong_reachable os st w \<longleftrightarrow> (\<exists>w0. (pong_step os)\<^sup>*\<^sup>* (pong_new os w0) (st, w))"

end
