(* ===== verification/Pong_Game.thy ===== *)
theory Pong_Game
  imports Pong_Server Server_Ownership Scripted_Os
begin

text \<open>
  What the game of \<open>Pong_Server\<close> promises: the court and its players stay legal in every
  reachable state, whatever the network and the clock do; catching up is bounded and follows the
  rules alone; a source without a seat cannot touch the game.
\<close>

section \<open>Legal states\<close>

definition player_ok :: "player \<Rightarrow> bool" where
  "player_ok p \<longleftrightarrow> direction p \<in> {- 1, 0, 1} \<and>
     (if seated p then 0 \<le> inactivity_ms p \<and> inactivity_ms p < pong_idle_timeout_ms else p = no_player)"

definition court_ok :: "game_state \<Rightarrow> bool" where
  "court_ok s \<longleftrightarrow> 0 \<le> left_y s \<and> left_y s \<le> court_height - paddle_height \<and>
     0 \<le> right_y s \<and> right_y s \<le> court_height - paddle_height \<and>
     1 \<le> ball_x s \<and> ball_x s \<le> court_width - 2 \<and> 0 \<le> ball_y s \<and> ball_y s < court_height \<and>
     0 \<le> left_score s \<and> 0 \<le> right_score s"

definition seats_ok :: "player list \<Rightarrow> bool" where
  "seats_ok ps \<longleftrightarrow> length ps = 2 \<and> player_ok (ps ! 0) \<and> player_ok (ps ! 1) \<and>
     \<not> (seated (ps ! 0) \<and> seated (ps ! 1) \<and> same_endpoint (seat_of (ps ! 0)) (seat_of (ps ! 1)))"

definition play_ok :: "pong_server \<Rightarrow> bool" where
  "play_ok st \<longleftrightarrow> seats_ok (players st) \<and> court_ok (game st) \<and> dx st \<in> {- 1, 1} \<and> dy st \<in> {- 1, 1}"

lemma no_player_ok [simp]: "player_ok no_player" "\<not> seated no_player"
  by (simp_all add: player_ok_def no_player_def)

lemma same_endpoint_sym: "same_endpoint a b = same_endpoint b a"
  by (auto simp: same_endpoint_def Let_def)

lemma two_update:
  "length ps = 2 \<Longrightarrow> ps[i := x] ! 0 = (if i = 0 then x else ps ! 0)"
  "length ps = 2 \<Longrightarrow> ps[i := x] ! 1 = (if i = 1 then x else ps ! 1)"
  by auto

lemma seats_clear: "seats_ok ps \<Longrightarrow> seats_ok (ps[i := no_player])"
  unfolding seats_ok_def by (simp only: two_update length_list_update) auto

lemma seats_update:
  assumes "seats_ok ps" "player_ok (f (ps ! i))" "seated (f (ps ! i)) \<longrightarrow> seated (ps ! i) \<and> seat_of (f (ps ! i)) = seat_of (ps ! i)"
  shows "seats_ok (ps[i := f (ps ! i)])"
  using assms unfolding seats_ok_def by (simp only: two_update length_list_update) auto

section \<open>The rules keep the court legal\<close>

lemma play_ok_reset: "play_ok st \<Longrightarrow> d \<in> {- 1, 1} \<Longrightarrow> play_ok (reset_ball d st)"
  by (simp add: play_ok_def reset_ball_def court_ok_def)

lemma play_ok_clear: "play_ok st \<Longrightarrow> play_ok (update_player i (\<lambda>_. no_player) st)"
  by (simp add: play_ok_def update_player_def seats_clear)

lemma play_ok_update:
  assumes "play_ok st" "player_ok (f (players st ! i))"
    "seated (f (players st ! i)) \<longrightarrow> seated (players st ! i) \<and> seat_of (f (players st ! i)) = seat_of (players st ! i)"
  shows "play_ok (update_player i f st)"
  using assms seats_update [of "players st" f i] by (simp add: play_ok_def update_player_def)

lemma play_ok_length: "play_ok st \<Longrightarrow> length (players st) = 2"
  by (simp add: play_ok_def seats_ok_def)

lemma play_ok_player: "play_ok st \<Longrightarrow> i < 2 \<Longrightarrow> player_ok (players st ! i)"
  by (auto simp: play_ok_def seats_ok_def numeral_2_eq_2 less_Suc_eq)

lemma age_player_ok:
  assumes "play_ok st" "i < 2"
  shows "play_ok (age_player i st)"
proof (cases "seated (players st ! i)")
  case False
  then show ?thesis using assms by (simp add: age_player_def)
next
  case True
  let ?f = "\<lambda>p. p\<lparr>inactivity_ms := inactivity_ms p + tick_ms\<rparr>"
  let ?p = "?f (players st ! i)"
  have len: "i < length (players st)" using assms play_ok_length by simp
  then have nth: "players (update_player i ?f st) ! i = ?p" by (simp add: update_player_def)
  have twice: "update_player i (\<lambda>_. no_player) (update_player i ?f st) = update_player i (\<lambda>_. no_player) st"
    by (simp add: update_player_def)
  show ?thesis
  proof (cases "inactivity_ms ?p \<ge> pong_idle_timeout_ms")
    case late: True
    have "age_player i st = reset_ball 1 (update_player i (\<lambda>_. no_player) st)"
      unfolding age_player_def using True late nth twice by (simp del: tick_ms_def)
    then show ?thesis using play_ok_reset [OF play_ok_clear [OF assms(1)]] by simp
  next
    case False
    have "age_player i st = update_player i ?f st"
      unfolding age_player_def using True False nth by (simp del: tick_ms_def)
    moreover have "player_ok ?p"
      using play_ok_player [OF assms] True False by (simp add: player_ok_def)
    ultimately show ?thesis using play_ok_update [of st ?f i] assms(1) True by simp
  qed
qed

lemma move_paddles_ok: "play_ok st \<Longrightarrow> play_ok (move_paddles st)"
  by (simp add: play_ok_def move_paddles_def court_ok_def clamp_def)

lemma move_ball_ok:
  assumes "play_ok st"
  shows "play_ok (move_ball st)"
proof -
  let ?s = "game st"
  have c: "court_ok ?s" and dx: "dx st = - 1 \<or> dx st = 1" and dy: "dy st = - 1 \<or> dy st = 1" and seats: "seats_ok (players st)"
    using assms by (auto simp: play_ok_def)
  obtain dy' ny where y: "(if ball_y ?s + dy st < 0 \<or> ball_y ?s + dy st \<ge> court_height
      then (- dy st, ball_y ?s + - dy st) else (dy st, ball_y ?s + dy st)) = (dy', ny)" by fastforce
  have ny: "dy' \<in> {- 1, 1}" "0 \<le> ny" "ny < court_height"
    using y c dy by (auto simp: court_ok_def split: if_splits)
  obtain dx' nx where x: "(if ball_x ?s + dx st = 2 \<and> dx st < 0 \<and> ny \<ge> left_y ?s \<and> ny < left_y ?s + paddle_height
      then (1, ball_x ?s + 1)
      else if ball_x ?s + dx st = court_width - 3 \<and> dx st > 0 \<and> ny \<ge> right_y ?s \<and> ny < right_y ?s + paddle_height
      then (- 1, ball_x ?s + - 1) else (dx st, ball_x ?s + dx st)) = (dx', nx)" by fastforce
  have dx': "dx' \<in> {- 1, 1}" using x dx by (auto split: if_splits)
  show ?thesis
    unfolding move_ball_def Let_def y prod.case x
    using c ny dx' seats by (auto simp: play_ok_def court_ok_def reset_ball_def)
qed

lemma tick_ok: "play_ok st \<Longrightarrow> play_ok (tick st)"
  by (simp add: tick_def Let_def age_player_ok move_paddles_ok move_ball_ok)

section \<open>Commands keep the court legal\<close>

lemma play_ok_cong:
  "players st' = players st \<Longrightarrow> game st' = game st \<Longrightarrow> dx st' = dx st \<Longrightarrow> dy st' = dy st \<Longrightarrow> play_ok st' = play_ok st"
  by (simp add: play_ok_def)

lemma play_ok_same_play: "same_play st st' \<Longrightarrow> play_ok st' = play_ok st"
  by (rule play_ok_cong) (use same_play_simps in blast)+

lemma play_ok_count [simp]: "play_ok (count_frame st) = play_ok st"
  by (simp add: play_ok_def court_ok_def count_frame_def)

lemma snapshot_ok: "snapshot os st w = (st', w') \<Longrightarrow> play_ok st \<Longrightarrow> play_ok st'"
  using play_ok_same_play [OF snapshot_same_play] by simp

lemma seat_Some: "seat from st = Some i \<Longrightarrow>
    i < 2 \<and> seated (players st ! i) \<and> same_endpoint (seat_of (players st ! i)) from"
  by (auto simp: seat_def split: if_splits)

lemma seat_None: "seat from st = None \<Longrightarrow>
    \<not> (seated (players st ! 0) \<and> same_endpoint (seat_of (players st ! 0)) from) \<and>
    \<not> (seated (players st ! 1) \<and> same_endpoint (seat_of (players st ! 1)) from)"
  by (auto simp: seat_def split: if_splits)

text \<open>Taking the first free seat, for a source that has none.\<close>

lemma take_seat_ok:
  assumes "play_ok st" "seat from st = None"
    "i = 0 \<or> i = 1" "p = \<lparr>seated = True, seat_of = from, direction = 0, inactivity_ms = 0\<rparr>"
  shows "play_ok (update_player i (\<lambda>_. p) st)"
proof -
  have p: "player_ok p" "seat_of p = from" using assms(4) by (simp_all add: player_ok_def)
  have s: "seats_ok (players st)" using assms(1) by (simp add: play_ok_def)
  note n = seat_None [OF assms(2)]
  have "seats_ok ((players st)[i := p])"
    using assms(3)
  proof
    assume "i = 0"
    then show ?thesis
      using s p n same_endpoint_sym [of "from" "seat_of (players st ! 1)"] unfolding seats_ok_def
      by (simp only: two_update length_list_update) auto
  next
    assume "i = 1"
    then show ?thesis using s p n unfolding seats_ok_def by (simp only: two_update length_list_update) auto
  qed
  then show ?thesis using assms(1) by (simp add: play_ok_def update_player_def)
qed

lemma touch_ok:
  assumes "play_ok st" "i < 2" "seated (players st ! i)"
  shows "play_ok (update_player i (\<lambda>p. p\<lparr>inactivity_ms := 0\<rparr>) st)"
  using assms play_ok_player [OF assms(1,2)] by (intro play_ok_update) (simp_all add: player_ok_def)

lemma steer_ok:
  assumes "play_ok st" "i < 2" "seated (players st ! i)"
  shows "play_ok (update_player i (steer cmd) st)"
  using assms play_ok_player [OF assms(1,2)]
  by (intro play_ok_update) (simp_all add: player_ok_def steer_def Let_def)

text \<open>Joining: the seat that answers, and the state in which it does.\<close>

lemma join_cases:
  assumes "join os from st w = (st', w')" "length (players st) = 2"
  obtains (full) "seat from st = None" "seated (players st ! 0)" "seated (players st ! 1)"
      "reply os from ''FULL'' st w = (st', w')"
  | (again) i st1 w1 where "seat from st = Some i"
      "reply os from (if i = 0 then ''W 1'' else ''W 2'') (update_player i (\<lambda>p. p\<lparr>inactivity_ms := 0\<rparr>) st) w = (st1, w1)"
      "snapshot os st1 w1 = (st', w')"
  | (fresh) i st1 w1 where "seat from st = None" "i = 0 \<or> i = 1" "\<not> seated (players st ! i)"
      "reply os from (if i = 0 then ''W 1'' else ''W 2'') (update_player i
         (\<lambda>_. \<lparr>seated = True, seat_of = from, direction = 0, inactivity_ms = 0\<rparr>) st) w = (st1, w1)"
      "snapshot os st1 w1 = (st', w')"
proof -
  let ?p = "\<lparr>seated = True, seat_of = from, direction = 0, inactivity_ms = 0\<rparr>"
  have twice: "update_player i (\<lambda>p. p\<lparr>inactivity_ms := 0\<rparr>) (update_player i (\<lambda>_. ?p) st) = update_player i (\<lambda>_. ?p) st"
    if "i = 0 \<or> i = 1" for i
    using that assms(2) by (auto simp: update_player_def)
  note d = assms(1) [unfolded join_def Let_def]
  show thesis
  proof (cases "seat from st")
    case (Some i)
    obtain st1 w1 where r: "reply os from (if i = 0 then ''W 1'' else ''W 2'')
        (update_player i (\<lambda>p. p\<lparr>inactivity_ms := 0\<rparr>) st) w = (st1, w1)" by fastforce
    show thesis by (rule again [OF Some r]) (use d in \<open>simp add: Some r\<close>)
  next
    case None
    have put: thesis if i: "i = 0 \<or> i = 1" "\<not> seated (players st ! i)" and
      e: "(if \<not> seated (players st ! 0) then (Some 0, update_player 0 (\<lambda>_. ?p) st)
          else if \<not> seated (players st ! 1) then (Some 1, update_player 1 (\<lambda>_. ?p) st) else (None, st)) =
        (Some i, update_player i (\<lambda>_. ?p) st)" for i :: nat
    proof -
      obtain st1 w1 where r: "reply os from (if i = 0 then ''W 1'' else ''W 2'') (update_player i (\<lambda>_. ?p) st) w = (st1, w1)"
        by fastforce
      have "snapshot os st1 w1 = (st', w')"
        using d unfolding None option.case e prod.case twice [OF i(1)] r by simp
      then show thesis by (rule fresh [OF None i r])
    qed
    show thesis
    proof (cases "seated (players st ! 0) \<and> seated (players st ! 1)")
      case True
      then show thesis using full [OF None] d by (simp add: None)
    next
      case False
      then show thesis using put [of 0] put [of 1] by (cases "seated (players st ! 0)") simp_all
    qed
  qed
qed

lemma join_ok:
  assumes "join os from st w = (st', w')" "play_ok st"
  shows "play_ok st'"
  using assms(1) play_ok_length [OF assms(2)]
proof (cases rule: join_cases)
  case full
  then show ?thesis using play_ok_same_play [OF reply_same_play] assms(2) by blast
next
  case (again i st1 w1)
  have "play_ok (update_player i (\<lambda>p. p\<lparr>inactivity_ms := 0\<rparr>) st)"
    using touch_ok [OF assms(2), of i] seat_Some [OF again(1)] by blast
  then show ?thesis
    using again seat_Some [OF again(1)] play_ok_same_play [OF reply_same_play [OF again(2)]] snapshot_ok by blast
next
  case (fresh i st1 w1)
  then show ?thesis
    using take_seat_ok [OF assms(2) fresh(1,2) refl] play_ok_same_play [OF reply_same_play [OF fresh(4)]] snapshot_ok
    by blast
qed

lemma datagram_ok:
  assumes "datagram os d from st w = (st', w')" "play_ok st"
  shows "play_ok st'"
proof (cases "\<not> pong_running st \<or> d = [] \<or> length d > 32")
  case True
  then show ?thesis using assms by (auto simp: datagram_def)
next
  case False
  note d = assms(1) [unfolded datagram_def if_not_P [OF False]]
  show ?thesis
  proof (cases "text_of d = ''J''")
    case True
    then show ?thesis using d join_ok assms(2) by simp
  next
    case no_join: False
    show ?thesis
    proof (cases "seat from st")
      case None
      then show ?thesis using d no_join assms(2) by simp
    next
      case (Some i)
      have "play_ok (reset_ball 1 (update_player i (\<lambda>_. no_player) st))"
        using play_ok_reset [OF play_ok_clear [OF assms(2)]] by simp
      then show ?thesis
        using d no_join Some snapshot_ok steer_ok [OF assms(2)] seat_Some [OF Some] by (auto split: if_splits)
    qed
  qed
qed

section \<open>Reachable states\<close>

text \<open>
  A game that does not run has no players and no time left to catch up. The server object is the
  only registration, and it is registered while the game runs.
\<close>

definition game_inv :: "pong_server \<Rightarrow> bool" where
  "game_inv st \<longleftrightarrow> set_wf st \<and> play_ok st"

definition pong_inv :: "pong_server \<Rightarrow> bool" where
  "pong_inv st \<longleftrightarrow> game_inv st \<and> 0 \<le> accumulator_ms st \<and> accumulator_ms st < tick_ms \<and> \<not> pong_polling st \<and>
     registered (udp_reg st) = (if pong_running st then [0] else []) \<and>
     (\<not> pong_running st \<longrightarrow> players st = [no_player, no_player] \<and> accumulator_ms st = 0)"

text \<open>What poll leaves alone beyond that.\<close>

definition same_run :: "pong_server \<Rightarrow> pong_server \<Rightarrow> bool" where
  "same_run st0 st \<longleftrightarrow> accumulator_ms st = accumulator_ms st0 \<and> pong_running st = pong_running st0 \<and>
     pong_polling st = pong_polling st0 \<and> udp_reg st = udp_reg st0"

lemma set_wf_same_play: "same_play st st' \<Longrightarrow> set_wf st' = set_wf st"
proof -
  assume s: "same_play st st'"
  then have "uslots (datagrams st' a) = uslots (datagrams st a)" for a by (auto simp: same_play_def)
  then show ?thesis using same_play_simps [OF s] by (simp add: set_wf_def)
qed

lemma game_inv_same_play: "same_play st st' \<Longrightarrow> game_inv st' = game_inv st"
  by (simp add: game_inv_def play_ok_same_play set_wf_same_play)

text \<open>The rules and the commands write only the fields of the game.\<close>

definition same_set :: "pong_server \<Rightarrow> pong_server \<Rightarrow> bool" where
  "same_set st st' \<longleftrightarrow> set_wf st' = set_wf st \<and> same_run st st'"

lemma same_set_refl [simp, intro]: "same_set st st"
  by (simp add: same_set_def same_run_def)

lemma same_set_trans: "same_set st st1 \<Longrightarrow> same_set st1 st2 \<Longrightarrow> same_set st st2"
  by (simp add: same_set_def same_run_def)

lemma same_set_fields [simp]:
  "same_set st (update_player i f st)" "same_set st (reset_ball d st)" "same_set st (count_frame st)"
  "same_set st (move_paddles st)"
  by (simp_all add: same_set_def same_run_def set_wf_def update_player_def reset_ball_def count_frame_def move_paddles_def)

lemma same_set_ball [simp]: "same_set st (move_ball st)"
proof -
  have a: "same_set st (st\<lparr>game := g, dx := d, dy := e\<rparr>)" for g d e
    by (simp add: same_set_def same_run_def set_wf_def)
  have b: "same_set st (reset_ball k (st\<lparr>game := g, dx := d, dy := e\<rparr>\<lparr>game := g'\<rparr>))" for g g' d e k
    by (simp add: same_set_def same_run_def set_wf_def reset_ball_def)
  show ?thesis
    unfolding move_ball_def Let_def
    by (simp only: a b split: prod.split if_split) blast
qed

lemma same_set_clear [simp]: "same_set st (reset_ball d (update_player i f st))"
  by (rule same_set_trans [where ?st1.0 = "update_player i f st"]) simp_all

lemma same_set_age [simp]: "same_set st (age_player i st)"
  unfolding age_player_def Let_def
  using same_set_trans [OF same_set_fields(1) same_set_clear] by simp

lemma same_set_tick [simp]: "same_set st (tick st)"
proof -
  have 1: "same_set st (age_player 1 (age_player 0 st))"
    by (rule same_set_trans [where ?st1.0 = "age_player 0 st"]) simp_all
  have 2: "same_set t (move_ball (move_paddles t))" for t
    by (rule same_set_trans [where ?st1.0 = "move_paddles t"]) simp_all
  show ?thesis unfolding tick_def Let_def using 1 same_set_trans [OF 1 2] by simp
qed

lemma same_set_play: "same_play st st' \<Longrightarrow> same_set st st'"
  using same_play_simps set_wf_same_play by (auto simp: same_set_def same_run_def)

lemma same_set_snapshot: "snapshot os st w = (st', w') \<Longrightarrow> same_set st st'"
  using same_set_trans [OF same_set_fields(3) same_set_play [OF snapshot_same_play]] .

lemma same_set_reply: "reply os a d st w = (st', w') \<Longrightarrow> same_set st st'"
  by (rule same_set_play [OF reply_same_play])

lemma same_set_join:
  assumes "join os from st w = (st', w')" "length (players st) = 2"
  shows "same_set st st'"
  using assms
proof (cases rule: join_cases)
  case full
  then show ?thesis by (auto intro: same_set_reply)
next
  case (again i st1 w1)
  show ?thesis
    using same_set_trans [OF same_set_fields(1) same_set_trans [OF same_set_reply [OF again(2)] same_set_snapshot [OF again(3)]]] .
next
  case (fresh i st1 w1)
  show ?thesis
    using same_set_trans [OF same_set_fields(1) same_set_trans [OF same_set_reply [OF fresh(4)] same_set_snapshot [OF fresh(5)]]] .
qed

lemma same_set_datagram:
  assumes "datagram os d from st w = (st', w')" "length (players st) = 2"
  shows "same_set st st'"
proof -
  have q: "same_set st st'" if "snapshot os (reset_ball 1 (update_player i (\<lambda>_. no_player) st)) w = (st', w')" for i
    using same_set_trans [OF same_set_clear same_set_snapshot [OF that]] .
  show ?thesis
    using assms same_set_join q by (auto simp: datagram_def split: if_splits option.splits)
qed

text \<open>The dispatcher works inside one poll of the game.\<close>

definition playing :: "pong_server \<Rightarrow> pong_server \<Rightarrow> bool" where
  "playing st0 st \<longleftrightarrow> game_inv st \<and> same_run st0 st"

lemma playing_same_set: "playing st0 st \<Longrightarrow> same_set st st' \<Longrightarrow> play_ok st' \<Longrightarrow> playing st0 st'"
  by (simp add: playing_def game_inv_def same_set_def same_run_def)

lemma playing_callback: "playing st0 st \<Longrightarrow> playing st0 (fst (pong_callback os a ev st w))"
proof -
  assume p: "playing st0 st"
  then have ok: "play_ok st" by (simp add: playing_def game_inv_def)
  have "playing st0 (fst (datagram os d from st w))" for d "from"
    using playing_same_set [OF p same_set_datagram datagram_ok] ok play_ok_length [OF ok] by (metis prod.collapse)
  then show ?thesis using p by (auto simp: pong_callback_def split: event.split)
qed

lemma get_udp_slots: "server_slots (get_udp st w) = uslots (datagrams st 0)"
  by (simp add: get_udp_def)

lemma playing_register: "playing st0 st \<Longrightarrow> playing st0 (fst (pong_register os a from st w))"
proof -
  assume p: "playing st0 st"
  obtain q u where q: "udp_server_event_get_peer os from (get_udp st w) = (q, u)" by fastforce
  have "same_play st (fst (put_udp (udp_server_register_sender os from (get_udp st w)) st))"
    using get_peer_slots [OF q] get_udp_slots [of st w]
    by (intro put_udp_same_play) (simp add: udp_server_register_sender_def q)
  from playing_same_set [OF p same_set_play [OF this]] play_ok_same_play [OF this] p show ?thesis
    by (simp add: pong_register_def playing_def game_inv_def)
qed

interpretation pong_users: set_users "playing st0" "pong_handlers os" for st0 os
proof
  show "handlers_keep (playing st0) (pong_handlers os)"
    using playing_callback playing_register by (simp add: handlers_keep_def pong_handlers_def)
  fix st :: pong_server and y a z b
  assume inv: "playing st0 st"
  then show "set_wf st" by (simp add: playing_def game_inv_def)
  show "playing st0 (st\<lparr>streams := (streams st)(a := y)\<rparr>)" if "length (stream_slots y) = 7"
    using inv that by (auto simp: playing_def game_inv_def set_wf_def play_ok_def same_run_def)
  show "playing st0 (st\<lparr>datagrams := (datagrams st)(a := z)\<rparr>)" if "length (uslots z) = 5"
    using inv that by (auto simp: playing_def game_inv_def set_wf_def play_ok_def same_run_def)
  show "playing st0 (st\<lparr>polling := b\<rparr>)"
    using inv by (auto simp: playing_def game_inv_def set_wf_def play_ok_def same_run_def)
qed

lemma pong_poll_inv:
  assumes "pong_inv st" "pong_poll os timeout st w = Some (n, st', w')"
  shows "pong_inv st'"
proof (cases "\<not> pong_running st \<or> pong_polling st")
  case True
  then show ?thesis using assms by (auto simp: pong_poll_def)
next
  case False
  let ?st = "st\<lparr>pong_polling := True\<rparr>"
  obtain st1 w1 where p: "event_set_poll (pong_handlers os) os timeout ?st w = Some (n, st1, w1)"
    "st' = st1\<lparr>pong_polling := False\<rparr>"
    using assms(2) unfolding pong_poll_def if_not_P [OF False] by auto
  have "playing ?st ?st"
    using assms(1) by (simp add: playing_def game_inv_def pong_inv_def set_wf_def play_ok_def same_run_def)
  from pong_users.poll_keeps [OF this p(1)] show ?thesis
    using assms(1) p(2) False
    by (simp add: playing_def game_inv_def pong_inv_def set_wf_def play_ok_def same_run_def)
qed

lemma step_ok: "step os st w = (st', w') \<Longrightarrow> game_inv st \<Longrightarrow> game_inv st' \<and> same_run st st'"
  using same_set_trans [OF same_set_tick same_set_snapshot] snapshot_ok tick_ok
  unfolding step_def game_inv_def same_set_def by blast

lemma catch_up_ok:
  "catch_up os st w = (st', w') \<Longrightarrow> game_inv st \<Longrightarrow> 0 \<le> accumulator_ms st \<Longrightarrow>
    game_inv st' \<and> 0 \<le> accumulator_ms st' \<and> accumulator_ms st' < tick_ms \<and> pong_running st' = pong_running st \<and>
    pong_polling st' = pong_polling st \<and> udp_reg st' = udp_reg st"
proof (induction os st w rule: catch_up.induct)
  case (1 os st w)
  show ?case
  proof (cases "accumulator_ms st \<ge> tick_ms")
    case False
    then show ?thesis using 1 by (simp add: catch_up.simps [of os st w])
  next
    case True
    let ?st = "st\<lparr>accumulator_ms := accumulator_ms st - tick_ms\<rparr>"
    obtain st1 w1 where s: "step os ?st w = (st1, w1)" by fastforce
    have "catch_up os st1 w1 = (st', w')" using 1(2) by (simp only: catch_up.simps [of os st w] True if_True Let_def s prod.case)
    moreover have "game_inv ?st" using 1(3) by (simp add: game_inv_def play_ok_def set_wf_def)
    from step_ok [OF s this] have "game_inv st1" "same_run ?st st1" by simp_all
    ultimately show ?thesis using 1(1) [OF True s [symmetric] refl] True by (simp add: same_run_def)
  qed
qed

lemma pong_advance_inv:
  assumes "pong_inv st" "pong_advance os elapsed st w = (st', w')"
  shows "pong_inv st'"
proof (cases "\<not> pong_running st \<or> pong_polling st \<or> elapsed \<le> 0")
  case True
  then show ?thesis using assms by (auto simp: pong_advance_def)
next
  case False
  let ?st = "st\<lparr>accumulator_ms := accumulator_ms st + min elapsed (tick_ms * 4)\<rparr>"
  have c: "catch_up os ?st w = (st', w')" using assms(2) unfolding pong_advance_def if_not_P [OF False] .
  have "game_inv ?st" "0 \<le> accumulator_ms ?st"
    using assms(1) False by (simp_all add: pong_inv_def game_inv_def play_ok_def set_wf_def)
  from catch_up_ok [OF c this] show ?thesis using assms(1) False by (simp add: pong_inv_def)
qed

lemma server_close_play: "server_close_op os st w = Some (st', w') \<Longrightarrow> same_play st st'"
proof -
  assume c: "server_close_op os st w = Some (st', w')"
  then obtain b u where u: "udp_server_event_close no_server_user os (get_udp st w) = Some (b, u)" "put_udp u st = (st', w')"
    by (auto simp: server_close_op_def)
  have "server_slots u = server_slots (get_udp st w)"
    using u(1) by (auto simp: udp_server_event_close_def server_fire_def no_server_user_def Let_def split: prod.splits if_splits)
  then show ?thesis using put_udp_same_play [of u st] u(2) by (simp add: get_udp_def)
qed

lemma listen_play:
  assumes "udp_server_event_listen no_server_user os port (get_udp st w) = Some (ok, u)" "put_udp u st = (st', w')"
  shows "same_play st st'"
proof -
  have "server_slots u = server_slots (get_udp st w)"
    using assms(1) by (auto simp: udp_server_event_listen_def server_fire_def no_server_user_def split: prod.splits if_splits)
  then show ?thesis using put_udp_same_play [of u st] assms(2) by (simp add: get_udp_def)
qed

lemma pong_inv_same_play: "same_play st st' \<Longrightarrow> pong_inv st' = pong_inv st"
  using same_play_simps game_inv_same_play by (simp add: pong_inv_def)

lemma pong_start_inv:
  assumes "pong_inv st" "pong_start os port st w = Some (b, st', w')"
  shows "pong_inv st'"
proof (cases "pong_running st \<or> pong_polling st \<or> port < 0 \<or> port > 65535")
  case True
  then show ?thesis using assms unfolding pong_start_def if_P [OF True] by simp
next
  case False
  note d = assms(2) [unfolded pong_start_def if_not_P [OF False]]
  obtain ok u where l: "udp_server_event_listen no_server_user os port (get_udp st w) = Some (ok, u)"
    using d by (auto split: option.splits)
  obtain st1 w1 where p: "put_udp u st = (st1, w1)" by fastforce
  note same = listen_play [OF l p]
  have inv: "pong_inv st1" using pong_inv_same_play [OF same] assms(1) by simp
  have idle: "\<not> pong_running st1" using False same_play_simps [OF same] by simp
  obtain added r where r: "registry_add (Some 0) (udp_reg st1) = (added, r)" by fastforce
  have "registry_inv (udp_reg st1)" "registered (udp_reg st1) = []"
    using inv idle by (simp_all add: pong_inv_def game_inv_def set_wf_def)
  note a = registry_add_result [OF this(1) r] this(2)
  then have add: "add_datagram (Some 0) st1 = (True, st1\<lparr>udp_reg := r\<rparr>)" by (simp add: add_datagram_def r)
  show ?thesis
  proof (cases ok)
    case no: False
    then have "st' = st1" using d by (simp add: l p)
    then show ?thesis using inv by simp
  next
    case True
    then have "st' = st1\<lparr>udp_reg := r, pong_running := True\<rparr>" using d by (simp add: l p add)
    then show ?thesis
      using inv a idle by (auto simp: pong_inv_def game_inv_def set_wf_def play_ok_def)
  qed
qed

lemma pong_stop_inv:
  assumes "pong_inv st" "pong_stop os st w = Some (st', w')"
  shows "pong_inv st' \<and> \<not> pong_running st'"
proof -
  obtain b r where r: "registry_remove_socket (Some 0) (udp_reg st) = (b, r)" by fastforce
  have poll: "\<not> pong_polling st" and reg: "registry_inv (udp_reg st)"
    using assms(1) by (simp_all add: pong_inv_def game_inv_def set_wf_def)
  note rem = registry_remove_socket_result [OF reg r]
  obtain st1 w1 where c: "server_close_op os (st\<lparr>udp_reg := r\<rparr>) w = Some (st1, w1)"
    "st' = st1\<lparr>players := [no_player, no_player], pong_running := False, accumulator_ms := 0\<rparr>"
    using assms(2) poll by (auto simp: pong_stop_def remove_datagram_def r)
  note same = server_close_play [OF c(1)]
  have empty: "registered r = []" using rem assms(1) by (auto simp: pong_inv_def)
  have "game_inv (st\<lparr>udp_reg := r\<rparr>)"
    using assms(1) rem by (simp add: pong_inv_def game_inv_def set_wf_def play_ok_def)
  then have "game_inv st1" using game_inv_same_play [OF same] by simp
  then show ?thesis
    using c(2) same_play_simps [OF same] empty poll
    by (simp add: pong_inv_def game_inv_def set_wf_def play_ok_def seats_ok_def)
qed

lemma pong_step_inv: "pong_step os (st, w) (st', w') \<Longrightarrow> pong_inv st \<Longrightarrow> pong_inv st'"
  by (erule pong_stepE) (blast dest: pong_start_inv, blast dest: pong_poll_inv, blast dest: pong_advance_inv,
    blast dest: pong_stop_inv, blast)

lemma pong_new_inv: "pong_new os w = (st, w') \<Longrightarrow> pong_inv st"
proof -
  assume n: "pong_new os w = (st, w')"
  obtain y w1 where y: "udp_event_new os w = (y, w1)" by fastforce
  have "length (uslots y) = 5"
  proof -
    obtain s w2 where s: "udp_new os w = (s, w2)" by fastforce
    obtain r z w3 where z: "set_blocking os False (udp_ev_of s) w2 = (r, z, w3)" by (rule prod_cases3)
    obtain c u w4 where u: "socket_close os z w3 = (c, u, w4)" by (rule prod_cases3)
    have init: "length (uslots (udp_ev_of s)) = 5" by (simp add: udp_ev_of_def udp_sock.defs)
    have more: "uslots b = uslots a" if "sock.more b = sock.more a" for a b :: udp_ev_sock
      using that by (cases a; cases b) simp
    have "uslots z = uslots (udp_ev_of s)" "uslots u = uslots z"
      using set_blocking_more [OF z] socket_close_more [OF u] by (auto intro: more)
    then show ?thesis
      using y init by (auto simp: udp_event_new_def s z u Let_def split: if_splits)
  qed
  then have slots: "\<forall>a. length (uslots (datagrams st a)) = 5"
    using n by (auto simp: pong_new_def y Let_def event_set.defs on_socket_def event_set_new_def udp_sock.defs)
  have regs: "tcp_reg st = registry_empty" "udp_reg st = registry_empty" "length (set_slots st) = 8"
    "\<forall>a. length (stream_slots (streams st a)) = 7"
    using n by (auto simp: pong_new_def y Let_def event_set.defs on_socket_def event_set_new_def ev_of_sock_def
      sock.defs ev_sock.defs)
  have "players st = [no_player, no_player]" "game st = new_game" "dx st = 1" "dy st = 1" "accumulator_ms st = 0"
    "\<not> pong_running st" "\<not> pong_polling st"
    using n by (auto simp: pong_new_def y Let_def event_set.defs)
  moreover from this have "play_ok st" by (simp add: play_ok_def seats_ok_def court_ok_def new_game_def)
  moreover have "set_wf st" using slots regs by (simp add: set_wf_def)
  ultimately show ?thesis using regs by (simp add: pong_inv_def game_inv_def)
qed

lemma pong_reachable_inv:
  assumes "pong_reachable os st w"
  shows "pong_inv st"
proof -
  obtain w0 where "(pong_step os)\<^sup>*\<^sup>* (pong_new os w0) (st, w)" using assms by (auto simp: pong_reachable_def)
  then have "pong_inv (fst (st, w))"
  proof (induction rule: rtranclp_induct)
    case base
    show ?case using pong_new_inv by (metis prod.collapse)
  next
    case (step x y)
    then show ?case using pong_step_inv by (metis prod.collapse)
  qed
  then show ?thesis by simp
qed

section \<open>Catching up\<close>

text \<open>The part of the state that the rules read and write.\<close>

definition same_rules :: "pong_server \<Rightarrow> pong_server \<Rightarrow> bool" where
  "same_rules a b \<longleftrightarrow> players a = players b \<and> (game a)\<lparr>seq_no := 0\<rparr> = (game b)\<lparr>seq_no := 0\<rparr> \<and>
     dx a = dx b \<and> dy a = dy b"

lemma same_rules_iff:
  "same_rules a b \<longleftrightarrow> players b = players a \<and> (\<exists>n. game b = (game a)\<lparr>seq_no := n\<rparr>) \<and> dx b = dx a \<and> dy b = dy a"
  unfolding same_rules_def by (cases "game a"; cases "game b") auto

lemma same_rules_trans: "same_rules a b \<Longrightarrow> same_rules b c \<Longrightarrow> same_rules a c"
  by (simp add: same_rules_def)

lemma same_rules_refl [simp, intro]: "same_rules a a"
  by (simp add: same_rules_def)

lemma age_player_rules: "same_rules a b \<Longrightarrow> same_rules (age_player i a) (age_player i b)"
  by (drule same_rules_iff [THEN iffD1]) (auto simp: same_rules_def age_player_def Let_def update_player_def reset_ball_def)

lemma move_paddles_rules: "same_rules a b \<Longrightarrow> same_rules (move_paddles a) (move_paddles b)"
  by (drule same_rules_iff [THEN iffD1]) (auto simp: same_rules_def move_paddles_def)

lemma reset_ball_rules: "same_rules a b \<Longrightarrow> same_rules (reset_ball d a) (reset_ball d b)"
  by (drule same_rules_iff [THEN iffD1]) (auto simp: same_rules_def reset_ball_def)

lemma move_ball_rules:
  assumes "same_rules a b"
  shows "same_rules (move_ball a) (move_ball b)"
proof -
  let ?s = "game a"
  obtain n where n: "game b = ?s\<lparr>seq_no := n\<rparr>" and eq: "players b = players a" "dx b = dx a" "dy b = dy a"
    using assms by (auto simp: same_rules_iff)
  obtain dy' ny where y: "(if ball_y ?s + dy a < 0 \<or> ball_y ?s + dy a \<ge> court_height
      then (- dy a, ball_y ?s + - dy a) else (dy a, ball_y ?s + dy a)) = (dy', ny)" by fastforce
  obtain dx' nx where x: "(if ball_x ?s + dx a = 2 \<and> dx a < 0 \<and> ny \<ge> left_y ?s \<and> ny < left_y ?s + paddle_height
      then (1, ball_x ?s + 1)
      else if ball_x ?s + dx a = court_width - 3 \<and> dx a > 0 \<and> ny \<ge> right_y ?s \<and> ny < right_y ?s + paddle_height
      then (- 1, ball_x ?s + - 1) else (dx a, ball_x ?s + dx a)) = (dx', nx)" by fastforce
  have sel: "ball_y (game b) = ball_y ?s" "ball_x (game b) = ball_x ?s" "left_y (game b) = left_y ?s"
    "right_y (game b) = right_y ?s" by (simp_all add: n)
  show ?thesis
    unfolding move_ball_def Let_def sel eq y prod.case x
    using n eq by (auto simp: same_rules_def reset_ball_def)
qed

lemma tick_rules: "same_rules a b \<Longrightarrow> same_rules (tick a) (tick b)"
proof -
  assume "same_rules a b"
  then have r: "same_rules (age_player 1 (age_player 0 a)) (age_player 1 (age_player 0 b))"
    by (intro age_player_rules)
  then have "player_count (age_player 1 (age_player 0 a)) = player_count (age_player 1 (age_player 0 b))"
    by (simp add: same_rules_def player_count_def)
  then show ?thesis
    using r move_ball_rules [OF move_paddles_rules [OF r]] unfolding tick_def Let_def by simp
qed

lemma ticks_rules: "same_rules a b \<Longrightarrow> same_rules ((tick ^^ n) a) ((tick ^^ n) b)"
  by (induction n) (simp_all add: tick_rules)

lemma age_player_seq: "seq_no (game (age_player i st)) = seq_no (game st)"
  by (simp add: age_player_def Let_def update_player_def reset_ball_def)

lemma move_ball_seq: "seq_no (game (move_ball st)) = seq_no (game st)"
  by (simp add: move_ball_def Let_def reset_ball_def split: prod.split)

lemma tick_seq: "seq_no (game (tick st)) = seq_no (game st)"
  by (simp add: tick_def Let_def age_player_seq move_ball_seq) (simp add: move_paddles_def age_player_seq)

lemma step_rules:
  assumes "step os st w = (st', w')"
  shows "same_rules (tick st) st' \<and> seq_no (game st') = seq_no (game st) + 1 \<and> accumulator_ms st' = accumulator_ms st"
proof -
  have s: "same_play (count_frame (tick st)) st'" using assms snapshot_same_play by (simp add: step_def)
  show ?thesis
    using same_play_simps [OF s] step_clock [OF assms]
    by (simp add: same_rules_def count_frame_def tick_seq)
qed

lemma catch_up_rules:
  "catch_up os st w = (st', w') \<Longrightarrow> 0 \<le> accumulator_ms st \<Longrightarrow>
    same_rules ((tick ^^ nat (accumulator_ms st div tick_ms)) st) st' \<and>
    seq_no (game st') = seq_no (game st) + of_nat (nat (accumulator_ms st div tick_ms)) \<and>
    accumulator_ms st' = accumulator_ms st mod tick_ms"
proof (induction os st w rule: catch_up.induct)
  case (1 os st w)
  show ?case
  proof (cases "accumulator_ms st \<ge> tick_ms")
    case False
    then show ?thesis using 1 by (simp add: catch_up.simps [of os st w])
  next
    case True
    let ?st = "st\<lparr>accumulator_ms := accumulator_ms st - tick_ms\<rparr>"
    obtain st1 w1 where s: "step os ?st w = (st1, w1)" by fastforce
    have c: "catch_up os st1 w1 = (st', w')"
      using 1(2) by (simp only: catch_up.simps [of os st w] True if_True Let_def s prod.case)
    note r = step_rules [OF s]
    define m where "m = nat (accumulator_ms st1 div tick_ms)"
    have m: "nat (accumulator_ms st div tick_ms) = Suc m" "accumulator_ms st1 mod tick_ms = accumulator_ms st mod tick_ms"
      using r True by (simp_all add: m_def)
    have "same_rules (tick st) (tick ?st)" by (rule tick_rules) (simp add: same_rules_def)
    then have "same_rules (tick st) st1" using r same_rules_trans by blast
    from ticks_rules [OF this, of m] have "same_rules ((tick ^^ Suc m) st) ((tick ^^ m) st1)"
      by (simp only: funpow_Suc_right o_apply)
    moreover note ih = 1(1) [OF True s [symmetric] refl c, folded m_def]
    have ih: "same_rules ((tick ^^ m) st1) st' \<and> seq_no (game st') = seq_no (game st1) + of_nat m \<and>
        accumulator_ms st' = accumulator_ms st1 mod tick_ms"
      using ih r True by simp
    ultimately show ?thesis
      unfolding m using same_rules_trans r m(2) by simp
  qed
qed

section \<open>A game that runs\<close>

definition sample_start :: "(bool \<times> pong_server \<times> world) option" where
  "sample_start = (let (st, w) = pong_new (scripted_os []) world0 in pong_start (scripted_os []) 2302 st w)"

definition sample_game :: pong_server where
  "sample_game = fst (snd (the sample_start))"

definition sample_game_world :: world where
  "sample_game_world = snd (snd (the sample_start))"

definition sample_stranger :: address where
  "sample_stranger = address_of_storage (zero_sockaddr\<lparr>ss_family := AF_INET, sin_port := 80\<rparr>)"

lemma pong_start_runs:
  assumes "pong_inv st" "\<not> pong_running st" "0 \<le> port" "port \<le> 65535"
    and "udp_server_event_listen no_server_user os port (get_udp st w) = Some (True, u)"
  shows "\<exists>st' w'. pong_start os port st w = Some (True, st', w') \<and> pong_running st' \<and>
    players st' = players st \<and> accumulator_ms st' = accumulator_ms st"
proof -
  obtain st1 w1 where p: "put_udp u st = (st1, w1)" by fastforce
  note same = same_play_simps [OF listen_play [OF assms(5) p]]
  obtain added r where r: "registry_add (Some 0) (udp_reg st1) = (added, r)" by fastforce
  have "registry_inv (udp_reg st1)" "registered (udp_reg st1) = []" "\<not> pong_polling st"
    using assms(1,2) same by (simp_all add: pong_inv_def game_inv_def set_wf_def)
  then have "added" using registry_add_result [OF _ r] by simp
  then have "add_datagram (Some 0) st1 = (True, st1\<lparr>udp_reg := r\<rparr>)" by (simp add: add_datagram_def r)
  then show ?thesis using assms(2-5) \<open>\<not> pong_polling st\<close> p same by (simp add: pong_start_def)
qed

lemma sample_listens:
  "fst (let (y, w) = udp_event_new (scripted_os []) world0
        in udp_listen (scripted_os []) 2302 (udp_sock.truncate y) w)"
  by code_simp

lemma sample_start_runs:
  "\<exists>st w. sample_start = Some (True, st, w) \<and> pong_running st \<and> players st = [no_player, no_player] \<and> accumulator_ms st = 0"
proof -
  let ?os = "scripted_os []"
  obtain y w where y: "udp_event_new ?os world0 = (y, w)" by fastforce
  obtain st w' where n: "pong_new ?os world0 = (st, w')" by fastforce
  have w: "w' = w" and base: "server (udp_base (get_udp st w)) = udp_sock.truncate y" "uworld (udp_base (get_udp st w)) = w"
    "owned (udp_base (get_udp st w)) = []" "\<not> closing_peers (udp_base (get_udp st w))"
    and run: "\<not> pong_running st" "players st = [no_player, no_player]" "accumulator_ms st = 0"
    using n by (auto simp: pong_new_def y Let_def get_udp_def event_set.defs peers.defs peers_empty_def)
  obtain ok s v where l: "udp_listen ?os 2302 (udp_sock.truncate y) w = (ok, s, v)" by (rule prod_cases3)
  have ok using sample_listens by (simp add: y l)
  let ?b = "udp_base (get_udp st w)\<lparr>server := s, uworld := v\<rparr>"
  obtain c b where "close_owned_peers (peer_close ?os) ?b = Some (c, b)"
    using close_owned_udp_peers [of ?b ?os] base(3,4) by auto
  then obtain u where "udp_server_event_listen no_server_user ?os 2302 (get_udp st w) = Some (True, u)"
    using \<open>ok\<close> l base(1,2) by (simp add: udp_server_event_listen_def with_server_def)
  from pong_start_runs [OF pong_new_inv [OF n] run(1) _ _ this] show ?thesis
    using run w by (simp add: sample_start_def n)
qed

lemma sample_game_runs:
  "sample_start = Some (True, sample_game, sample_game_world)" "pong_running sample_game" "accumulator_ms sample_game = 0"
  "seat sample_stranger sample_game = None"
proof -
  obtain st w where r: "sample_start = Some (True, st, w)" "pong_running st" "players st = [no_player, no_player]"
    "accumulator_ms st = 0" using sample_start_runs by blast
  have eq: "sample_game = st" "sample_game_world = w"
    unfolding sample_game_def sample_game_world_def r(1) by simp_all
  show "sample_start = Some (True, sample_game, sample_game_world)" using r(1) by (simp only: eq)
  show "pong_running sample_game" "accumulator_ms sample_game = 0" "seat sample_stranger sample_game = None"
    using r(2-4) by (simp_all add: eq seat_def)
qed

lemma sample_game_reachable: "pong_reachable (scripted_os []) sample_game sample_game_world"
proof -
  obtain st w where n: "pong_new (scripted_os []) world0 = (st, w)" by fastforce
  have "pong_start (scripted_os []) 2302 st w = Some (True, sample_game, sample_game_world)"
    using sample_game_runs(1) by (simp add: sample_start_def n)
  then have "pong_step (scripted_os []) (pong_new (scripted_os []) world0) (sample_game, sample_game_world)"
    using pong_step.start n by simp
  then show ?thesis unfolding pong_reachable_def by blast
qed

section \<open>Properties\<close>

text \<open>
  C25. Whatever the application calls in whatever order, whatever datagrams arrive and however the
  system calls fail, the game stays legal. The ball is on the court and off the goal lines, both
  paddles are inside, the scores never go below zero, each player's direction and idle time are in range,
  and no endpoint holds two seats. Between calls less than one tick is left to catch up, and the
  server socket is the only registration, made exactly while the game runs; a stopped game has no players.
\<close>

theorem pong_game_stays_legal:
  assumes "pong_reachable os st w"
  shows "play_ok st \<and> 0 \<le> accumulator_ms st \<and> accumulator_ms st < tick_ms \<and> \<not> pong_polling st \<and>
    registered (udp_reg st) = (if pong_running st then [0] else []) \<and>
    (pong_running st \<or> player_count st = 0)"
proof -
  have inv: "pong_inv st" by (rule pong_reachable_inv [OF assms])
  then have "pong_running st \<or> player_count st = 0" by (auto simp: pong_inv_def player_count_def)
  then show ?thesis using inv by (simp add: pong_inv_def game_inv_def)
qed

theorem pong_game_stays_legal_witness:
  "play_ok sample_game \<and> registered (udp_reg sample_game) = [0]"
  using pong_game_stays_legal [OF sample_game_reachable] sample_game_runs(2) by simp

text \<open>
  C26. Advancing is bounded and follows the rules alone. However late the application calls, at most
  four ticks run; their number and the time left over are the quotient and the rest of the time
  due; each tick sends one numbered frame; and the resulting court, players and ball are those of
  that many pure ticks, whatever the system calls answer.
\<close>

theorem pong_advance_follows_rules:
  assumes "pong_reachable os st w" "pong_running st" "0 < elapsed"
    and "pong_advance os elapsed st w = (st', w')"
    and "due = accumulator_ms st + min elapsed (tick_ms * 4)"
  shows "due div tick_ms \<le> 4 \<and> same_rules ((tick ^^ nat (due div tick_ms)) st) st' \<and>
    accumulator_ms st' = due mod tick_ms \<and>
    seq_no (game st') = seq_no (game st) + of_nat (nat (due div tick_ms))"
proof -
  have inv: "pong_inv st" by (rule pong_reachable_inv [OF assms(1)])
  then have b: "0 \<le> accumulator_ms st" "accumulator_ms st < tick_ms" "\<not> pong_polling st" by (simp_all add: pong_inv_def)
  let ?st = "st\<lparr>accumulator_ms := due\<rparr>"
  have c: "catch_up os ?st w = (st', w')"
    using assms(2-5) b(3) by (simp add: pong_advance_def)
  have due: "0 \<le> due" "due div tick_ms \<le> 4" using b assms(3,5) by simp_all
  have "same_rules st ?st" by (simp add: same_rules_def)
  from ticks_rules [OF this] catch_up_rules [OF c] due show ?thesis
    using same_rules_trans by fastforce
qed

theorem pong_advance_follows_rules_witness:
  "accumulator_ms (fst (pong_advance (scripted_os []) 250 sample_game sample_game_world)) = 50 \<and>
   same_rules (tick (tick sample_game)) (fst (pong_advance (scripted_os []) 250 sample_game sample_game_world))"
proof -
  obtain st w where "pong_advance (scripted_os []) 250 sample_game sample_game_world = (st, w)" by fastforce
  from pong_advance_follows_rules [OF sample_game_reachable sample_game_runs(2) _ this refl] this
  show ?thesis by (simp add: sample_game_runs(3) numeral_2_eq_2)
qed

text \<open>
  C27. A source without a seat cannot touch the game. Its datagrams never move the ball or a
  paddle, never change the score or the clock, and leave every seated player as it is; only the
  request to join does anything at all, and when both seats are taken it does not even send a frame
  to the players.
\<close>

theorem pong_strangers_cannot_play:
  assumes "pong_reachable os st w" "seat from st = None" "datagram os d from st w = (st', w')"
  shows "(text_of d = ''J'' \<or> st' = st \<and> w' = w) \<and>
    (game st')\<lparr>seq_no := 0\<rparr> = (game st)\<lparr>seq_no := 0\<rparr> \<and> dx st' = dx st \<and> dy st' = dy st \<and>
    accumulator_ms st' = accumulator_ms st \<and>
    (\<not> seated (players st ! i) \<or> i > 1 \<or> players st' ! i = players st ! i) \<and>
    (player_count st < 2 \<or> players st' = players st \<and> game st' = game st)"
proof (cases "pong_running st \<and> d \<noteq> [] \<and> length d \<le> 32 \<and> text_of d = ''J''")
  case False
  then have "st' = st" "w' = w \<or> text_of d = ''J''" using assms(2,3) by (auto simp: datagram_def split: if_splits)
  moreover have "text_of d = ''J'' \<or> w' = w" using calculation by blast
  ultimately show ?thesis by simp
next
  case True
  have len: "length (players st) = 2"
    using pong_reachable_inv [OF assms(1)] play_ok_length by (simp add: pong_inv_def game_inv_def)
  have "join os from st w = (st', w')" using assms(3) True by (auto simp: datagram_def)
  then show ?thesis
    using len
  proof (cases rule: join_cases)
    case full
    then show ?thesis using True same_play_simps [OF reply_same_play [OF full(4)]] by simp
  next
    case (again j st1 w1)
    then show ?thesis using assms(2) by simp
  next
    case (fresh j st1 w1)
    note r = same_play_simps [OF reply_same_play [OF fresh(4)]]
    note s = same_play_simps [OF snapshot_same_play [OF fresh(5)]]
    have "player_count st < 2" using fresh(2,3) by (auto simp: player_count_def)
    moreover have "players st' ! i = players st ! i" if "seated (players st ! i)"
      using r s that fresh(3) by (cases "i = j") (simp_all add: count_frame_def update_player_def)
    ultimately show ?thesis
      using True r s by (auto simp: count_frame_def update_player_def)
  qed
qed

theorem pong_strangers_cannot_play_witness:
  "datagram (scripted_os []) [0x51] sample_stranger sample_game sample_game_world = (sample_game, sample_game_world)"
proof -
  obtain st w where d: "datagram (scripted_os []) [0x51] sample_stranger sample_game sample_game_world = (st, w)"
    by fastforce
  have "text_of [0x51] \<noteq> ''J''" by code_simp
  with d pong_strangers_cannot_play [OF sample_game_reachable sample_game_runs(4) d] show ?thesis by simp
qed

end
