(* ===== verification/Pong_Client.thy ===== *)
theory Pong_Client
  imports Pong_Game
begin

text \<open>
  The terminal client of the game, \<open>example/pong-client.cpp\<close>: reading the frames of the server, the
  picture, and one round of its loop. The terminal and the clock are inputs of the round, the
  datagrams it sends its output.
\<close>

section \<open>Reading numbers\<close>

text \<open>\<open>operator >>\<close> of an input stream in the \<open>C\<close> locale: \<open>None\<close> sets the fail bit.\<close>

definition is_space :: "char \<Rightarrow> bool" where
  "is_space c \<longleftrightarrow> c = CHR '' '' \<or> 9 \<le> code c \<and> code c \<le> 13"

definition skip_space :: "string \<Rightarrow> string" where
  "skip_space s = dropWhile is_space s"

definition read_char :: "string \<Rightarrow> (char \<times> string) option" where
  "read_char s = (case skip_space s of [] \<Rightarrow> None | c # cs \<Rightarrow> Some (c, cs))"

definition read_digits :: "string \<Rightarrow> (bool \<times> nat \<times> string) option" where
  "read_digits s =
    (let s = skip_space s;
         negative = (s \<noteq> [] \<and> hd s = CHR ''-'');
         s = (if s \<noteq> [] \<and> (hd s = CHR ''-'' \<or> hd s = CHR ''+'') then tl s else s);
         ds = takeWhile is_digit s in
     if ds = [] then None else Some (negative, number ds, dropWhile is_digit s))"

definition read_int :: "string \<Rightarrow> (int \<times> string) option" where
  "read_int s =
    (case read_digits s of
       None \<Rightarrow> None
     | Some (negative, n, rest) \<Rightarrow>
         let i = (if negative then - int n else int n) in
         if i < - 2147483648 \<or> i > 2147483647 then None else Some (i, rest))"

text \<open>A negative number wraps, as with \<open>strtoull\<close>.\<close>

definition read_uint64 :: "string \<Rightarrow> (64 word \<times> string) option" where
  "read_uint64 s =
    (case read_digits s of
       None \<Rightarrow> None
     | Some (negative, n, rest) \<Rightarrow>
         if n \<ge> 2 ^ 64 then None else Some (if negative then - word_of_nat n else word_of_nat n, rest))"

section \<open>Frames\<close>

record view =
  sequence :: "64 word"
  ly :: int
  ry :: int
  vx :: int
  vy :: int
  score1 :: int
  score2 :: int
  voccupied :: int

definition view_init :: view where
  "view_init = \<lparr>sequence = 0, ly = 4, ry = 4, vx = 12, vy = 6, score1 = 0, score2 = 0, voccupied = 0\<rparr>"

definition read_view :: "string \<Rightarrow> (char \<times> view \<times> string) option" where
  "read_view s =
    Option.bind (read_char s) (\<lambda>(tag, s).
    Option.bind (read_uint64 s) (\<lambda>(n, s).
    Option.bind (read_int s) (\<lambda>(a, s).
    Option.bind (read_int s) (\<lambda>(b, s).
    Option.bind (read_int s) (\<lambda>(x, s).
    Option.bind (read_int s) (\<lambda>(y, s).
    Option.bind (read_int s) (\<lambda>(p, s).
    Option.bind (read_int s) (\<lambda>(q, s).
    Option.bind (read_int s) (\<lambda>(c, s).
      Some (tag, \<lparr>sequence = n, ly = a, ry = b, vx = x, vy = y, score1 = p, score2 = q, voccupied = c\<rparr>, s))))))))))"

text \<open>\<open>None\<close>: the packet is not a newer frame, and the view stays.\<close>

definition parse_state :: "string \<Rightarrow> view \<Rightarrow> view option" where
  "parse_state packet out =
    (if length packet > 128 \<or> take 2 packet \<noteq> ''S '' then None
     else
       case read_view packet of
         None \<Rightarrow> None
       | Some (tag, s, rest) \<Rightarrow>
           if tag \<noteq> CHR ''S'' \<or> skip_space rest \<noteq> [] \<or> ly s < 0 \<or> ry s < 0 \<or> ly s > 9 \<or> ry s > 9 \<or>
              vx s < 0 \<or> vx s \<ge> 24 \<or> vy s < 0 \<or> vy s \<ge> 12 \<or> score1 s < 0 \<or> score2 s < 0 \<or>
              voccupied s < 0 \<or> voccupied s > 3
           then None
           else if sequence s \<le> sequence out then None else Some s)"

section \<open>The picture\<close>

definition cell :: "view \<Rightarrow> int \<Rightarrow> int \<Rightarrow> char" where
  "cell s x y =
    (let c = CHR '' '';
         c = (if x = 1 \<and> voccupied s AND 1 \<noteq> 0 \<and> y \<ge> ly s \<and> y < ly s + 3 then CHR ''#'' else c);
         c = (if x = 22 \<and> voccupied s AND 2 \<noteq> 0 \<and> y \<ge> ry s \<and> y < ry s + 3 then CHR ''#'' else c) in
     if x = vx s \<and> y = vy s then CHR ''O'' else c)"

definition draw_row :: "view \<Rightarrow> int \<Rightarrow> string" where
  "draw_row s y = ''|'' @ map (\<lambda>x. cell s (int x) y) [0..<24] @ ''|'' @ [LF]"

definition draw :: "view \<Rightarrow> int \<Rightarrow> string" where
  "draw s player_no =
    [CHR 0x1B] @ ''[H'' @ [CHR 0x1B] @ ''[2JUDP PONG    '' @ to_string (score1 s) @ '' : '' @ to_string (score2 s) @
    ''    You: player '' @ to_string player_no @ [LF] @ ''W = up  S = down  X = stop  Q = quit'' @ [LF] @
    (if voccupied s = 3 then ''Match in progress'' else ''Waiting for second player'') @
    [LF] @ ''+------------------------+'' @ [LF] @
    concat (map (\<lambda>y. draw_row s (int y)) [0..<12]) @ ''+------------------------+'' @ [LF]"

section \<open>The loop\<close>

record pong_client =
  screen :: view
  player_no :: int
  full :: bool
  dirty :: bool
  last_snapshot :: int
  last_join :: int
  last_heartbeat :: int
  steering :: int

text \<open>Times are nanoseconds of the steady clock. The client starts at time \<open>t\<close>.\<close>

definition client_start :: "int \<Rightarrow> pong_client" where
  "client_start t = \<lparr>screen = view_init, player_no = 0, full = False, dirty = False, last_snapshot = t,
     last_join = t - 1000000000, last_heartbeat = t - 1000000000, steering = 0\<rparr>"

definition client_packet :: "os \<Rightarrow> address \<Rightarrow> int \<Rightarrow> byte list \<Rightarrow> address \<Rightarrow> pong_client \<Rightarrow> pong_client" where
  "client_packet os server_addr t data from c =
    (if get_port from \<noteq> get_port server_addr \<or> get_string os from \<noteq> get_string os server_addr \<or> data = [] then c
     else if text_of data = ''W 1'' then c\<lparr>player_no := 1\<rparr>
     else if text_of data = ''W 2'' then c\<lparr>player_no := 2\<rparr>
     else if text_of data = ''FULL'' then c\<lparr>full := True\<rparr>
     else case parse_state (text_of data) (screen c) of
         None \<Rightarrow> c
       | Some s \<Rightarrow> c\<lparr>screen := s, dirty := True, last_snapshot := t\<rparr>)"

text \<open>The keys waiting at the terminal, at most \<open>n\<close> of them; \<open>False\<close> ends the program.\<close>

fun press :: "nat \<Rightarrow> string \<Rightarrow> pong_client \<Rightarrow> bool \<times> string list \<times> pong_client" where
  "press 0 ks c = (True, [], c)"
| "press n [] c = (True, [], c)"
| "press (Suc n) (k # ks) c =
    (if k = CHR ''q'' \<or> k = CHR ''Q'' then (False, [], c)
     else
       let new_direction = (if k = CHR ''x'' \<or> k = CHR ''X'' then 0 else if k = CHR ''s'' \<or> k = CHR ''S'' then 1
                   else if k = CHR ''w'' \<or> k = CHR ''W'' then - 1 else steering c) in
       if new_direction \<noteq> steering c \<and> player_no c \<noteq> 0
       then
         let (go, out, c) = press n ks (c\<lparr>steering := new_direction\<rparr>) in
         (go, (if new_direction = - 1 then ''U'' else if new_direction = 1 then ''D'' else ''N'') # out, c)
       else press n ks c)"

definition client_timers :: "int \<Rightarrow> pong_client \<Rightarrow> string list \<times> pong_client" where
  "client_timers t c =
    (let c = (if player_no c \<noteq> 0 \<and> t - last_snapshot c > 3000000000
              then c\<lparr>player_no := 0, steering := 0, screen := view_init, last_join := t - 1000000000, last_snapshot := t\<rparr>
              else c);
         (j, c) = (if player_no c = 0 \<and> t - last_join c \<ge> 500000000 then ([''J''], c\<lparr>last_join := t\<rparr>) else ([], c));
         (h, c) = (if player_no c \<noteq> 0 \<and> t - last_heartbeat c \<ge> 750000000
                   then ([''H''], c\<lparr>last_heartbeat := t\<rparr>) else ([], c)) in
     (j @ h, c))"

text \<open>The part of a round before the client polls.\<close>

definition client_round :: "int \<Rightarrow> string \<Rightarrow> pong_client \<Rightarrow> bool \<times> string list \<times> pong_client" where
  "client_round t ks c =
    (let (out, c) = client_timers t c; (go, more, c) = press 8 ks c in (go, out @ more, c))"

section \<open>Lemmas\<close>

lemma is_digit_code: "is_digit c \<Longrightarrow> \<not> is_space c \<and> c \<noteq> CHR ''-'' \<and> c \<noteq> CHR ''+'' \<and> c \<noteq> CHR '' ''"
  by (auto simp: is_digit_def is_space_def code_def)

text \<open>A written number is read back, up to the next blank.\<close>

lemma read_digits_decimal:
  assumes "rest = [] \<or> \<not> is_digit (hd rest)"
  shows "read_digits (CHR '' '' # decimal n @ rest) = Some (False, n, rest)"
proof -
  obtain d ds where d: "decimal n = d # ds" using decimal_digits by (cases "decimal n") auto
  have digit: "is_digit d" "list_all is_digit (decimal n)" using decimal_digits [of n] d by auto
  have skip: "skip_space (CHR '' '' # decimal n @ rest) = decimal n @ rest"
  proof -
    have "is_space (CHR '' '')" "\<not> is_space d" using is_digit_code [OF digit(1)] by (simp_all add: is_space_def)
    then show ?thesis by (simp add: skip_space_def d)
  qed
  have sign: "hd (decimal n) \<noteq> CHR ''-''" "hd (decimal n) \<noteq> CHR ''+''" "decimal n \<noteq> []"
    using is_digit_code [OF digit(1)] by (simp_all add: d)
  have "takeWhile is_digit (decimal n @ rest) = decimal n" "dropWhile is_digit (decimal n @ rest) = rest"
    using digit(2) assms by (cases rest; simp add: list_all_iff takeWhile_append dropWhile_append)+
  then show ?thesis
    unfolding read_digits_def Let_def skip using sign by (simp add: number_decimal)
qed

lemma read_int_to_string:
  assumes "0 \<le> i" "i \<le> 2147483647" "rest = [] \<or> \<not> is_digit (hd rest)"
  shows "read_int (CHR '' '' # to_string i @ rest) = Some (i, rest)"
  using read_digits_decimal [OF assms(3), of "nat i"] assms(1,2) by (simp add: read_int_def to_string_def)

lemma read_uint64_to_string:
  assumes "rest = [] \<or> \<not> is_digit (hd rest)"
  shows "read_uint64 (CHR '' '' # to_string (uint n) @ rest) = Some (n, rest)"
proof -
  have "unat n < 2 ^ LENGTH(64)" by (rule unsigned_less)
  then show ?thesis
    using read_digits_decimal [OF assms, of "unat n"] by (simp add: read_uint64_def to_string_def nat_uint_eq)
qed

lemma decimal_length: "n < 10 ^ k \<Longrightarrow> 0 < k \<Longrightarrow> length (decimal n) \<le> k"
proof (induction k arbitrary: n)
  case (Suc k)
  show ?case
  proof (cases "n < 10")
    case True
    then show ?thesis by (subst decimal.simps) simp
  next
    case False
    have "n div 10 < 10 ^ k" using Suc.prems(1) by (simp add: less_mult_imp_div_less mult.commute)
    moreover from this have "0 < k" using False by (cases k) auto
    ultimately show ?thesis using Suc.IH [of "n div 10"] False by (subst decimal.simps) simp
  qed
qed simp

lemma to_string_length: "0 \<le> i \<Longrightarrow> i < 10 ^ k \<Longrightarrow> 0 < k \<Longrightarrow> length (to_string i) \<le> k"
  using decimal_length [of "nat i" k] by (simp add: to_string_def nat_less_iff)

lemma read_view_frame:
  assumes "0 \<le> left_y s" "left_y s \<le> 2147483647" "0 \<le> right_y s" "right_y s \<le> 2147483647"
    and "0 \<le> ball_x s" "ball_x s \<le> 2147483647" "0 \<le> ball_y s" "ball_y s \<le> 2147483647"
    and "0 \<le> left_score s" "left_score s \<le> 2147483647" "0 \<le> right_score s" "right_score s \<le> 2147483647"
    and "0 \<le> occupied s" "occupied s \<le> 2147483647"
  shows "read_view (frame_text n s) = Some (CHR ''S'',
    \<lparr>sequence = n, ly = left_y s, ry = right_y s, vx = ball_x s, vy = ball_y s, score1 = left_score s,
     score2 = right_score s, voccupied = occupied s\<rparr>, [])"
proof -
  have blank: "\<not> is_digit (CHR '' '')" by code_simp
  have more: "CHR '' '' # t = [] \<or> \<not> is_digit (hd (CHR '' '' # t))" for t using blank by simp
  have frame: "frame_text n s = CHR ''S'' # CHR '' '' # to_string (uint n) @ CHR '' '' # to_string (left_y s) @
      CHR '' '' # to_string (right_y s) @ CHR '' '' # to_string (ball_x s) @ CHR '' '' # to_string (ball_y s) @
      CHR '' '' # to_string (left_score s) @ CHR '' '' # to_string (right_score s) @ CHR '' '' # to_string (occupied s) @ []"
    by (simp add: frame_text_def)
  have tag: "read_char (CHR ''S'' # t) = Some (CHR ''S'', t)" for t
  proof -
    have "\<not> is_space (CHR ''S'')" by code_simp
    then show ?thesis by (simp add: read_char_def skip_space_def)
  qed
  note num = read_int_to_string [OF _ _ more]
  show ?thesis
    unfolding read_view_def frame tag Option.bind.bind_lunit prod.case read_uint64_to_string [OF more]
      num [OF assms(1,2)] num [OF assms(3,4)] num [OF assms(5,6)] num [OF assms(7,8)] num [OF assms(9,10)]
      num [OF assms(11,12)] read_int_to_string [OF assms(13,14) disjI1 [OF refl]] ..
qed

text \<open>Every field of a legal frame is short, so the frame fits a packet.\<close>

lemma frame_length:
  assumes "0 \<le> left_y s" "left_y s \<le> 9" "0 \<le> right_y s" "right_y s \<le> 9" "0 \<le> ball_x s" "ball_x s < 24"
    and "0 \<le> ball_y s" "ball_y s < 12" "0 \<le> left_score s" "left_score s \<le> 2147483647"
    and "0 \<le> right_score s" "right_score s \<le> 2147483647" "0 \<le> occupied s" "occupied s \<le> 3"
  shows "length (frame_text n s) \<le> 128"
proof -
  have "uint n < 2 ^ LENGTH(64)" by (rule unsigned_less)
  then have "uint n < 10 ^ 20" by simp
  then have "length (to_string (uint n)) \<le> 20" by (intro to_string_length) simp_all
  moreover have "length (to_string (left_y s)) \<le> 10" "length (to_string (right_y s)) \<le> 10"
    "length (to_string (ball_x s)) \<le> 10" "length (to_string (ball_y s)) \<le> 10" "length (to_string (left_score s)) \<le> 10"
    "length (to_string (right_score s)) \<le> 10" "length (to_string (occupied s)) \<le> 10"
    using assms by (intro to_string_length; simp)+
  ultimately show ?thesis by (simp add: frame_text_def)
qed

section \<open>Properties\<close>

text \<open>
  C35. Client and server agree on the frames. Every frame of a legal game with a newer number is
  accepted and shows exactly the state of the game, and no frame is accepted twice or out of order; and whatever
  packet arrives, an accepted view has its paddles, its ball and its scores in range and a greater
  number than the last.
\<close>

theorem pong_client_reads_frames:
  assumes "court_ok s" "left_score s \<le> 2147483647" "right_score s \<le> 2147483647" "0 \<le> occupied s" "occupied s \<le> 3"
  shows "parse_state (frame_text n s) out =
      (if n \<le> sequence out then None
       else Some \<lparr>sequence = n, ly = left_y s, ry = right_y s, vx = ball_x s, vy = ball_y s, score1 = left_score s,
              score2 = right_score s, voccupied = occupied s\<rparr>) \<and>
    (case parse_state packet out of None \<Rightarrow> True
     | Some v \<Rightarrow> sequence out < sequence v \<and> 0 \<le> ly v \<and> ly v \<le> 9 \<and> 0 \<le> ry v \<and> ry v \<le> 9 \<and>
         0 \<le> vx v \<and> vx v < 24 \<and> 0 \<le> vy v \<and> vy v < 12 \<and> 0 \<le> score1 v \<and> 0 \<le> score2 v)"
proof -
  have r: "0 \<le> left_y s" "left_y s \<le> 9" "0 \<le> right_y s" "right_y s \<le> 9" "0 \<le> ball_x s" "ball_x s < 24"
    "0 \<le> ball_y s" "ball_y s < 12" "0 \<le> left_score s" "0 \<le> right_score s"
    using assms(1) by (simp_all add: court_ok_def)
  have len: "length (frame_text n s) \<le> 128" using frame_length [of s n] r assms by simp
  have two: "take 2 (frame_text n s) = ''S ''" by (simp add: frame_text_def)
  have view: "read_view (frame_text n s) = Some (CHR ''S'',
    \<lparr>sequence = n, ly = left_y s, ry = right_y s, vx = ball_x s, vy = ball_y s, score1 = left_score s,
     score2 = right_score s, voccupied = occupied s\<rparr>, [])"
    using read_view_frame [of s n] r assms by simp
  have "skip_space [] = []" by (simp add: skip_space_def)
  then have "parse_state (frame_text n s) out =
      (if n \<le> sequence out then None
       else Some \<lparr>sequence = n, ly = left_y s, ry = right_y s, vx = ball_x s, vy = ball_y s, score1 = left_score s,
              score2 = right_score s, voccupied = occupied s\<rparr>)"
    using len two r assms by (simp add: parse_state_def view)
  moreover have "case parse_state packet out of None \<Rightarrow> True
     | Some v \<Rightarrow> sequence out < sequence v \<and> 0 \<le> ly v \<and> ly v \<le> 9 \<and> 0 \<le> ry v \<and> ry v \<le> 9 \<and>
         0 \<le> vx v \<and> vx v < 24 \<and> 0 \<le> vy v \<and> vy v < 12 \<and> 0 \<le> score1 v \<and> 0 \<le> score2 v"
    by (simp add: parse_state_def not_le not_less split: option.split prod.split)
  ultimately show ?thesis by blast
qed

theorem pong_client_reads_frames_witness:
  "map_option vx (parse_state (frame_text 7 new_game) view_init) = Some 12"
proof -
  have "court_ok new_game" by (simp add: court_ok_def new_game_def)
  moreover have "left_score new_game \<le> 2147483647" "right_score new_game \<le> 2147483647" "0 \<le> occupied new_game"
    "occupied new_game \<le> 3" "ball_x new_game = 12" by (simp_all add: new_game_def)
  ultimately show ?thesis
    using pong_client_reads_frames [of new_game 7 view_init] by (simp add: view_init_def)
qed

end
