(* ===== verification/Programs.thy ===== *)
theory Programs
  imports Chat_Service Pong_Client Clients Http_Client
begin

text \<open>
  The small programs of \<open>example/\<close>: their arguments, the signal that ends them and their loops
  over the operations of the library and of the three servers. A program ends with its exit status; what
  it prints is kept only where it is the point of the program.
\<close>

section \<open>The process\<close>

text \<open>
  Whether \<open>std::signal\<close> installs the handler of \<open>SIGINT\<close>, and the flag that the handler
  sets, as the loop finds it at a point of the history.
\<close>

record process =
  signal_ok :: bool
  interrupted :: "world \<Rightarrow> bool"

text \<open>\<open>std::from_chars\<close> for an \<open>int\<close>: no blanks and no plus sign; \<open>None\<close> is an error.\<close>

definition from_chars_int :: "string \<Rightarrow> (int \<times> string) option" where
  "from_chars_int s =
    (let negative = (s \<noteq> [] \<and> hd s = CHR ''-'');
         s = (if negative then tl s else s);
         ds = takeWhile is_digit s;
         i = (if negative then - int (number ds) else int (number ds)) in
     if ds = [] \<or> i < - 2147483648 \<or> i > 2147483647 then None else Some (i, dropWhile is_digit s))"

definition parse_port :: "int \<Rightarrow> string \<Rightarrow> int option" where
  "parse_port least arg =
    (case from_chars_int arg of
       None \<Rightarrow> None
     | Some (p, rest) \<Rightarrow> if rest \<noteq> [] \<or> p < least \<or> p > 65535 then None else Some p)"

text \<open>\<open>atoi\<close>; a number outside \<open>int\<close> is undefined in C.\<close>

definition atoi :: "string \<Rightarrow> int" where
  "atoi s = (case read_digits s of None \<Rightarrow> 0 | Some (negative, n, rest) \<Rightarrow> if negative then - int n else int n)"

text \<open>Port and address of the two TCP servers; \<open>Inl\<close> is the exit status of a program that stops here.\<close>

definition tcp_server_args :: "int \<Rightarrow> string list \<Rightarrow> int + (int \<times> string)" where
  "tcp_server_args standard argv =
    (if length argv > 3 \<or> length argv > 1 \<and> (argv ! 1 = ''-h'' \<or> argv ! 1 = ''--help'')
     then Inl (if length argv > 3 then 1 else 0)
     else
       case (if length argv > 1 then parse_port 0 (argv ! 1) else Some standard) of
         None \<Rightarrow> Inl 1
       | Some p \<Rightarrow> Inr (p, if length argv > 2 then argv ! 2 else ''127.0.0.1''))"

section \<open>The chat server\<close>

definition default_chat_limits :: chat_limits where
  "default_chat_limits = \<lparr>chat_max_clients = 128, max_line_bytes = 1024, max_queued_bytes = 128 * 1024\<rparr>"

partial_function (option) chat_loop ::
  "process \<Rightarrow> os \<Rightarrow> chat_server \<Rightarrow> world \<Rightarrow> (int \<times> chat_server \<times> world) option" where
  "chat_loop pr os st w =
    (if interrupted pr w then let (st, w) = chat_stop os st w in Some (0, st, w)
     else
       case chat_poll os 100 st w of
         None \<Rightarrow> None
       | Some (n, st, w) \<Rightarrow>
           if n < 0 then let (st, w) = chat_stop os st w in Some (1, st, w) else chat_loop pr os st w)"

definition chat_main :: "process \<Rightarrow> os \<Rightarrow> string list \<Rightarrow> world \<Rightarrow> (int \<times> chat_server option \<times> world) option" where
  "chat_main pr os argv w =
    (case tcp_server_args 2300 argv of
       Inl status \<Rightarrow> Some (status, None, w)
     | Inr (p, host) \<Rightarrow>
         let (st, w) = chat_new default_chat_limits os w; (ok, st, w) = chat_start os (Some host) p st w in
         if \<not> ok then Some (1, Some st, w)
         else map_option (\<lambda>(status, st, w). (status, Some st, w)) (chat_loop pr os st w))"

section \<open>The HTTP server\<close>

definition default_http_limits :: http_limits where
  "default_http_limits =
    \<lparr>max_clients = 128, max_header_bytes = 8192, max_queued = 128 * 1024, idle_timeout_ms = 30000\<rparr>"

partial_function (option) http_loop ::
  "process \<Rightarrow> os \<Rightarrow> http_server \<Rightarrow> world \<Rightarrow> (int \<times> http_server \<times> world) option" where
  "http_loop pr os st w =
    (if interrupted pr w then let (st, w) = http_stop os st w in Some (0, st, w)
     else
       case http_poll os 100 st w of
         None \<Rightarrow> None
       | Some (n, st, w) \<Rightarrow>
           if n < 0 then let (st, w) = http_stop os st w in Some (1, st, w) else http_loop pr os st w)"

definition http_main :: "process \<Rightarrow> os \<Rightarrow> string list \<Rightarrow> world \<Rightarrow> (int \<times> http_server option \<times> world) option" where
  "http_main pr os argv w =
    (case tcp_server_args 8080 argv of
       Inl status \<Rightarrow> Some (status, None, w)
     | Inr (p, host) \<Rightarrow>
         let (st, w) = http_new default_http_limits os w; (ok, st, w) = http_start os (Some host) p st w in
         if \<not> ok then Some (1, Some st, w)
         else map_option (\<lambda>(status, st, w). (status, Some st, w)) (http_loop pr os st w))"

section \<open>The Pong server\<close>

text \<open>\<open>duration_cast\<close> to milliseconds drops the rest, towards zero.\<close>

definition whole_ms :: "int \<Rightarrow> int" where
  "whole_ms ns = (if ns < 0 then - (- ns div 1000000) else ns div 1000000)"

text \<open>One round: poll, then advance by the time since the last round. The new time is returned.\<close>

definition pong_round ::
  "os \<Rightarrow> int \<Rightarrow> pong_server \<Rightarrow> world \<Rightarrow> (int \<times> int \<times> pong_server \<times> world) option" where
  "pong_round os prior st w =
    (case pong_poll os 25 st w of
       None \<Rightarrow> None
     | Some (n, st, w) \<Rightarrow>
         if n < 0 then Some (n, prior, st, w)
         else
           let (t, w) = now os w; (st, w) = pong_advance os (to_int32 (whole_ms (t - prior))) st w in
           Some (n, t, st, w))"

partial_function (option) pong_loop ::
  "process \<Rightarrow> os \<Rightarrow> int \<Rightarrow> pong_server \<Rightarrow> world \<Rightarrow> (int \<times> pong_server \<times> world) option" where
  "pong_loop pr os prior st w =
    (if interrupted pr w then map_option (\<lambda>(st, w). (0, st, w)) (pong_stop os st w)
     else
       case pong_round os prior st w of
         None \<Rightarrow> None
       | Some (n, t, st, w) \<Rightarrow> if n < 0 then Some (1, st, w) else pong_loop pr os t st w)"

definition pong_main :: "process \<Rightarrow> os \<Rightarrow> string list \<Rightarrow> world \<Rightarrow> (int \<times> pong_server option \<times> world) option" where
  "pong_main pr os argv w =
    (case (if length argv > 2 then None else if length argv = 2 then parse_port 0 (argv ! 1) else Some 2302) of
       None \<Rightarrow> Some (1, None, w)
     | Some p \<Rightarrow>
         let (st, w) = pong_new os w in
         case pong_start os p st w of
           None \<Rightarrow> None
         | Some (ok, st, w) \<Rightarrow>
             if \<not> ok then Some (1, Some st, w)
             else
               let (prior, w) = now os w in
               map_option (\<lambda>(status, st, w). (status, Some st, w)) (pong_loop pr os prior st w))"

section \<open>hello-world\<close>

definition put_peer :: "nat \<Rightarrow> sock \<Rightarrow> sock server_sock \<Rightarrow> sock server_sock" where
  "put_peer p x s =
    set_accepted ((accepted_peers s)\<lparr>peer_heap := (peer_heap (accepted_peers s))(p := x)\<rparr>) s"

text \<open>One client: greet it, close it, give it up.\<close>

definition hello_client :: "os \<Rightarrow> nat \<Rightarrow> sock server_sock \<Rightarrow> world \<Rightarrow> sock server_sock \<times> world" where
  "hello_client os p s w =
    (let x = peer_heap (accepted_peers s) p;
         (x, w) = (if connected x then snd (socket_write_cstr os (Some (bytes_of (''Hello world!'' @ [LF]))) x w) else (x, w));
         (_, x, w) = socket_close os x w in
     snd (server_remove_peer os (Some p) (put_peer p x s) w))"

partial_function (option) hello_loop ::
  "process \<Rightarrow> os \<Rightarrow> sock server_sock \<Rightarrow> world \<Rightarrow> (sock server_sock \<times> world) option" where
  "hello_loop pr os s w =
    (if interrupted pr w then Some (s, w)
     else
       let (client, s, w) = server_accept os False s w in
       case client of
         None \<Rightarrow> hello_loop pr os s w
       | Some p \<Rightarrow> let (s, w) = hello_client os p s w in hello_loop pr os s w)"

definition hello_main :: "process \<Rightarrow> os \<Rightarrow> world \<Rightarrow> (int \<times> world) option" where
  "hello_main pr os w =
    (if \<not> signal_ok pr then Some (1, w)
     else
       let (s, w) = server_new os w;
           done_with = (\<lambda>status s w. (status, destroy_server (server_close socket_close) socket_destroy os s w));
           (ok, s, w) = server_listen_on socket_close os (Some ''0.0.0.0'') 2300 s w in
       if \<not> ok then Some (done_with 1 s w)
       else
         let (r, s) = set_accept_timeout 200 s in
         if r \<noteq> 0 then Some (done_with 1 s w)
         else map_option (\<lambda>(s, w). done_with 0 s w) (hello_loop pr os s w))"

section \<open>test-client\<close>

text \<open>A negative count ends the model: the program then writes before its buffer.\<close>

datatype test_outcome = Said string | No_connection | Before_buffer int

definition test_client_main :: "os \<Rightarrow> world \<Rightarrow> test_outcome \<times> world" where
  "test_client_main os w =
    (let (s, w) = client_new os w;
         s = snd (set_connect_timeout 2000 s);
         (ok, s, w) = client_connect_host os (Some ''127.0.0.1'') 2300 s w in
     if \<not> ok then (No_connection, socket_destroy os s w)
     else
       let (n, b, s, w) = socket_read os (Some (replicate 256 0)) 255 s w in
       if n < 0 then (Before_buffer n, w)
       else
         let buffer = (the b)[nat n := 0];
             (_, s, w) = socket_write_cstr os (Some (bytes_of ''Hello from client!'')) s w in
         (Said (text_of (c_string buffer)), socket_destroy os s w))"

section \<open>udp-server\<close>

text \<open>The loop never ends; this is one round of it.\<close>

definition udp_echo :: "os \<Rightarrow> byte list \<Rightarrow> udp_server \<Rightarrow> byte list \<times> udp_server" where
  "udp_echo os buffer st =
    (let ((n, b), st) = udp_server_read os (Some buffer) 255 st; buffer = the b in
     if n > 0
     then
       let buffer = buffer[nat n := 0];
           response = bytes_of ''Server received: '' @ c_string buffer;
           (_, st) = with_server (send_datagram os (None :: sock option) (Some response) (to_int32 (int (length response)))) st in
       (buffer, st)
     else (buffer, st))"

fun udp_echo_rounds :: "nat \<Rightarrow> os \<Rightarrow> byte list \<Rightarrow> udp_server \<Rightarrow> byte list \<times> udp_server" where
  "udp_echo_rounds 0 os buffer st = (buffer, st)"
| "udp_echo_rounds (Suc k) os buffer st = (let (buffer, st) = udp_echo os buffer st in udp_echo_rounds k os buffer st)"

definition udp_server_new :: "os \<Rightarrow> world \<Rightarrow> udp_server" where
  "udp_server_new os w =
    (let (s, w) = udp_new os w in
     peers.extend peers_empty \<lparr>server = s, uheap = (\<lambda>_. udp_of_sock None sock_init), unext = 1, uworld = w\<rparr>)"

text \<open>The start, and \<open>k\<close> rounds; \<open>Inl\<close> is the exit status.\<close>

definition udp_server_main :: "nat \<Rightarrow> os \<Rightarrow> world \<Rightarrow> (int + udp_server) option" where
  "udp_server_main k os w =
    map_option (\<lambda>(ok, st). if \<not> ok then Inl 1 else Inr (snd (udp_echo_rounds k os (replicate 256 0) st)))
      (udp_server_listen os 2301 (udp_server_new os w))"

section \<open>udp-client\<close>

text \<open>\<open>fgets\<close> from a standard input that holds the text \<open>input\<close>.\<close>

definition fgets :: "nat \<Rightarrow> string \<Rightarrow> (string \<times> string) option" where
  "fgets capacity input =
    (if input = [] then None
     else
       let line = (case find_from [LF] input 0 of None \<Rightarrow> input | Some i \<Rightarrow> take (i + 1) input);
           piece = take (capacity - 1) line in
       Some (piece, drop (length piece) input))"

definition input_line :: "string \<Rightarrow> string" where
  "input_line piece =
    (let str = c_text piece in if str \<noteq> [] \<and> last str = LF then butlast str else str)"

text \<open>The responses that are printed.\<close>

function udp_client_loop :: "os \<Rightarrow> string \<Rightarrow> byte list \<Rightarrow> udp_sock \<Rightarrow> world \<Rightarrow> string list \<times> udp_sock \<times> world" where
  "udp_client_loop os input buffer s w =
    (case fgets 256 input of
       None \<Rightarrow> ([], s, w)
     | Some (piece, rest) \<Rightarrow>
         let line = input_line piece in
         if line = [] then udp_client_loop os rest buffer s w
         else if line = ''quit'' \<or> line = ''exit'' then ([], s, w)
         else
           let (sent, s, w) = udp_write_cstr os (None :: sock option) (Some (bytes_of line)) s w in
           if sent \<le> 0 then udp_client_loop os rest buffer s w
           else
             let (n, b, s, w) = udp_read (None :: sock option) os (Some buffer) 255 s w; buffer = the b in
             if n > 0
             then
               let buffer = buffer[nat n := 0]; (out, s, w) = udp_client_loop os rest buffer s w in
               (text_of (c_string buffer) # out, s, w)
             else udp_client_loop os rest buffer s w)"
  by pat_completeness auto
termination
  by (relation "measure (\<lambda>(os, input, buffer, s, w). length input)")
    (auto simp: fgets_def Let_def split: if_splits option.splits)

declare udp_client_loop.simps [simp del]

definition udp_client_main :: "os \<Rightarrow> string list \<Rightarrow> string \<Rightarrow> world \<Rightarrow> int \<times> string list \<times> world" where
  "udp_client_main os argv input w =
    (if length argv \<noteq> 3 then (1, [], w)
     else
       let (s, w) = udp_client_new_to os (Some (argv ! 1)) (atoi (argv ! 2)) w in
       if \<not> connected s then (1, [], socket_destroy os s w)
       else
         let (out, s, w) = udp_client_loop os input (replicate 256 0) s w in
         (0, out, socket_destroy os s w))"

end
