(* ===== verification/Program_Runs.thy ===== *)
theory Program_Runs
  imports Programs
begin

text \<open>
  What the programs of \<open>Programs\<close> do with the library: the Pong program loses the time of short
  rounds, the hello-world server gives every descriptor back, and the loops of the servers run through reachable states.
\<close>

section \<open>Short rounds of the Pong program\<close>

text \<open>Nothing has moved, except that a player who left had the ball put back.\<close>

definition frozen :: "pong_server \<Rightarrow> pong_server \<Rightarrow> bool" where
  "frozen a b \<longleftrightarrow> left_y (game b) = left_y (game a) \<and> right_y (game b) = right_y (game a) \<and>
    left_score (game b) = left_score (game a) \<and> right_score (game b) = right_score (game a) \<and>
    (ball_x (game b), ball_y (game b)) \<in> {(ball_x (game a), ball_y (game a)), (court_width div 2, court_height div 2)}"

lemma frozen_refl [simp]: "frozen a a"
  by (simp add: frozen_def)

lemma frozen_trans: "frozen a b \<Longrightarrow> frozen b c \<Longrightarrow> frozen a c"
  by (auto simp: frozen_def)

lemma frozen_same_play: "same_play a b \<Longrightarrow> frozen a b"
  using same_play_simps by (simp add: frozen_def)

lemma frozen_fields [simp]:
  "frozen a (update_player i f a)" "frozen a (reset_ball d a)" "frozen a (count_frame a)"
  by (simp_all add: frozen_def update_player_def reset_ball_def count_frame_def)

lemma frozen_snapshot: "snapshot os st w = (st', w') \<Longrightarrow> frozen st st'"
  using frozen_trans [OF frozen_fields(3) frozen_same_play] snapshot_same_play by blast

lemma frozen_join:
  assumes "join os from st w = (st', w')" "length (players st) = 2"
  shows "frozen st st'"
  using assms
proof (cases rule: join_cases)
  case full
  show ?thesis by (rule frozen_same_play [OF reply_same_play [OF full(4)]])
next
  case (again i st1 w1)
  show ?thesis
    using frozen_trans [OF frozen_trans [OF frozen_fields(1) frozen_same_play [OF reply_same_play [OF again(2)]]]
        frozen_snapshot [OF again(3)]] .
next
  case (fresh i st1 w1)
  show ?thesis
    using frozen_trans [OF frozen_trans [OF frozen_fields(1) frozen_same_play [OF reply_same_play [OF fresh(4)]]]
        frozen_snapshot [OF fresh(5)]] .
qed

lemma frozen_datagram:
  assumes "datagram os d from st w = (st', w')" "length (players st) = 2"
  shows "frozen st st'"
proof -
  have q: "frozen st st'" if "snapshot os (reset_ball 1 (update_player i (\<lambda>_. no_player) st)) w = (st', w')" for i
    using frozen_trans [OF frozen_trans [OF frozen_fields(1) frozen_fields(2)] frozen_snapshot [OF that]] .
  show ?thesis
    using assms frozen_join q by (auto simp: datagram_def split: if_splits option.splits)
qed

text \<open>The dispatcher keeps it, with the invariant of the game.\<close>

definition waiting :: "pong_server \<Rightarrow> pong_server \<Rightarrow> bool" where
  "waiting st0 st \<longleftrightarrow> playing st0 st \<and> frozen st0 st"

lemma waiting_callback: "waiting st0 st \<Longrightarrow> waiting st0 (fst (pong_callback os a ev st w))"
proof -
  assume w: "waiting st0 st"
  have two: "length (players st) = 2"
    using w play_ok_length by (simp add: waiting_def playing_def game_inv_def)
  obtain st1 w1 where c: "pong_callback os a ev st w = (st1, w1)" by fastforce
  have "frozen st st1"
    using c frozen_datagram [OF _ two] by (auto simp: pong_callback_def split: event.splits if_splits)
  then show ?thesis
    using w playing_callback [of st0 st os a ev w] frozen_trans by (auto simp: waiting_def c)
qed

lemma waiting_register: "waiting st0 st \<Longrightarrow> waiting st0 (fst (pong_register os a from st w))"
proof -
  assume w: "waiting st0 st"
  have "game (fst (pong_register os a from st w)) = game st"
    by (simp add: pong_register_def put_udp_def)
  then have "frozen st (fst (pong_register os a from st w))" by (simp add: frozen_def)
  then show ?thesis
    using w playing_register [of st0 st os a "from" w] frozen_trans by (auto simp: waiting_def)
qed

interpretation pong_waiters: set_users "waiting st0" "pong_handlers os" for st0 os
proof
  show "handlers_keep (waiting st0) (pong_handlers os)"
    using waiting_callback waiting_register by (simp add: handlers_keep_def pong_handlers_def)
  fix st :: pong_server and y a z b
  assume inv: "waiting st0 st"
  then have play: "playing st0 st" by (simp add: waiting_def)
  show "set_wf st" by (rule pong_users.well_formed [OF play])
  show "waiting st0 (st\<lparr>streams := (streams st)(a := y)\<rparr>)" if "length (stream_slots y) = 7"
    using pong_users.stream_keeps [OF play that] inv by (simp add: waiting_def frozen_def)
  show "waiting st0 (st\<lparr>datagrams := (datagrams st)(a := z)\<rparr>)" if "length (uslots z) = 5"
    using pong_users.datagram_keeps [OF play that] inv by (simp add: waiting_def frozen_def)
  show "waiting st0 (st\<lparr>polling := b\<rparr>)"
    using pong_users.polling_keeps [OF play] inv by (simp add: waiting_def frozen_def)
qed

lemma pong_poll_frozen:
  assumes "pong_inv st" "pong_poll os timeout st w = Some (n, st', w')"
  shows "frozen st st' \<and> accumulator_ms st' = accumulator_ms st"
proof (cases "\<not> pong_running st \<or> pong_polling st")
  case True
  then show ?thesis using assms by (auto simp: pong_poll_def)
next
  case False
  let ?st = "st\<lparr>pong_polling := True\<rparr>"
  obtain st1 w1 where p: "event_set_poll (pong_handlers os) os timeout ?st w = Some (n, st1, w1)"
    "st' = st1\<lparr>pong_polling := False\<rparr>"
    using assms(2) unfolding pong_poll_def if_not_P [OF False] by auto
  have "waiting ?st ?st"
    using assms(1) by (simp add: waiting_def playing_def game_inv_def pong_inv_def set_wf_def play_ok_def same_run_def)
  from pong_waiters.poll_keeps [OF this p(1)] show ?thesis
    using p(2) by (simp add: waiting_def frozen_def playing_def same_run_def)
qed

text \<open>Rounds that each take less than a millisecond.\<close>

inductive short_rounds :: "os \<Rightarrow> int \<times> pong_server \<times> world \<Rightarrow> int \<times> pong_server \<times> world \<Rightarrow> bool" for os x where
  none: "short_rounds os x x"
| round: "short_rounds os x (prior, st, w) \<Longrightarrow> pong_round os prior st w = Some (n, t, st', w') \<Longrightarrow> prior \<le> t \<Longrightarrow>
    t - prior < 1000000 \<Longrightarrow> short_rounds os x (t, st', w')"

lemma short_round:
  assumes "pong_inv st" "pong_round os prior st w = Some (n, t, st', w')" "prior \<le> t" "t - prior < 1000000"
  shows "pong_inv st' \<and> frozen st st' \<and> accumulator_ms st' = accumulator_ms st"
proof -
  obtain m st1 w1 where p: "pong_poll os 25 st w = Some (m, st1, w1)"
    using assms(2) by (auto simp: pong_round_def split: option.splits)
  obtain u w2 where u: "now os w1 = (u, w2)" by fastforce
  obtain st2 w3 where a: "pong_advance os (to_int32 (whole_ms (u - prior))) st1 w2 = (st2, w3)" by fastforce
  have e: "if m < 0 then st' = st1 else st' = st2 \<and> t = u"
    using assms(2) by (simp add: pong_round_def p u a split: if_splits)
  note inv = pong_poll_inv [OF assms(1) p] and keep = pong_poll_frozen [OF assms(1) p]
  have "st' = st1"
  proof (cases "m < 0")
    case False
    then have "whole_ms (u - prior) = 0" using e assms(3,4) by (simp add: whole_ms_def)
    then show ?thesis using a e False by (auto simp: pong_advance_def to_int32_def)
  qed (use e in simp)
  then show ?thesis using inv keep by simp
qed

lemma pong_steps: "pong_reachable os st w \<Longrightarrow> pong_step os (st, w) (st', w') \<Longrightarrow> pong_reachable os st' w'"
  unfolding pong_reachable_def using rtranclp.rtrancl_into_rtrancl by metis

lemma pong_round_reachable:
  assumes "pong_reachable os st w" "pong_round os prior st w = Some (n, t, st', w')"
  shows "pong_reachable os st' w'"
proof -
  obtain m st1 w1 where p: "pong_poll os 25 st w = Some (m, st1, w1)"
    using assms(2) by (auto simp: pong_round_def split: option.splits)
  obtain u w2 where u: "now os w1 = (u, w2)" by fastforce
  obtain st2 w3 where a: "pong_advance os (to_int32 (whole_ms (u - prior))) st1 w2 = (st2, w3)" by fastforce
  have 1: "pong_reachable os st1 w1" by (rule pong_steps [OF assms(1) pong_step.poll [OF p]])
  then have "pong_reachable os st2 w3"
    using pong_steps [OF pong_steps [OF 1 pong_step.elsewhere] pong_step.advance [OF a]] by blast
  then show ?thesis using 1 assms(2) by (auto simp: pong_round_def p u a split: if_splits)
qed

lemma sample_round:
  "\<exists>n st w. pong_round (scripted_os []) 0 sample_game sample_game_world = Some (n, 0, st, w)"
proof -
  obtain n' st' w' where e: "event_set_poll (pong_handlers (scripted_os [])) (scripted_os []) 25
      (sample_game\<lparr>pong_polling := True\<rparr>) sample_game_world = Some (n', st', w')"
    using poll_total [of "scripted_os []" 25 "pong_handlers (scripted_os [])" "sample_game\<lparr>pong_polling := True\<rparr>" sample_game_world]
    by auto
  have "\<exists>x. pong_poll (scripted_os []) 25 sample_game sample_game_world = Some x"
    unfolding pong_poll_def e by simp
  then obtain n st w where "pong_poll (scripted_os []) 25 sample_game sample_game_world = Some (n, st, w)"
    by auto
  moreover have "fst (now (scripted_os []) w) = 0" by (simp add: now_def sys_def scripted_os_def Let_def)
  ultimately show ?thesis by (auto simp: pong_round_def case_prod_beta)
qed

section \<open>The descriptors of hello-world\<close>

lemma socket_write_cstr_safe:
  "socket_write_cstr os d s w = (n, s', w') \<Longrightarrow> safe_step s w s' w'"
  by (auto simp: socket_write_cstr_def sys_def Let_def safe_step_def split: if_splits)

lemma hello_client_owns:
  assumes "owner_ok accepted_peers s w" "p \<in> set (owned (accepted_peers s))" "hello_client os p s w = (s', w')"
  shows "owner_step accepted_peers s w s' w'"
proof -
  let ?x = "peer_heap (accepted_peers s) p"
  obtain x w1 where x: "(if connected ?x then snd (socket_write_cstr os (Some (bytes_of (''Hello world!'' @ [LF]))) ?x w)
    else (?x, w)) = (x, w1)" by fastforce
  obtain b y w2 where y: "socket_close os x w1 = (b, y, w2)" by (rule prod_cases3)
  obtain c a w3 where r: "remove_accepted_peer socket_close socket_destroy os (Some p) (accepted_peers (put_peer p y s)) w2 =
    (c, a, w3)" by (rule prod_cases3)
  have e: "s' = set_accepted a (put_peer p y s)" "w' = w3"
    using assms(3) unfolding hello_client_def Let_def x prod.case y server_remove_peer_def r by simp_all
  have "safe_step ?x w x w1"
    using x socket_write_cstr_safe [of os _ ?x w] by (cases "connected ?x") (auto, metis prod.collapse)
  then have "fd_safe (sockfd ?x) (trace w) (- 1) (trace w2)"
    using fd_safe_trans socket_close_safe [OF y] socket_close_releases [OF y]
    by (auto simp: safe_step_def fd_safe_def)
  from plain_server.closed_peer_owns [OF assms(1,2) socket_close_releases [OF y] this]
  have 1: "owner_step accepted_peers s w (put_peer p y s) w2" by (simp add: put_peer_def)
  from plain_server.server_step_trans [OF 1 plain_server.remove_owns [OF plain_server.server_step_ok [OF 1] r]] e
  show ?thesis by simp
qed

lemma hello_loop_owns:
  assumes "fresh_fds os" "hello_loop pr os s w = Some out" "owner_ok accepted_peers s w"
  shows "owner_step accepted_peers s w (fst out) (snd out)"
proof -
  have "fresh_fds os \<longrightarrow> owner_ok accepted_peers s w \<longrightarrow> owner_step accepted_peers s w (fst out) (snd out)"
  proof (rule hello_loop.raw_induct [where P = "\<lambda>pr os s w out. fresh_fds os \<longrightarrow> owner_ok accepted_peers s w \<longrightarrow>
        owner_step accepted_peers s w (fst out) (snd out)", OF _ assms(2)])
    fix rec pr os s w out
    assume step: "\<And>pr os s w out. rec pr os s w = Some out \<Longrightarrow> fresh_fds os \<longrightarrow> owner_ok accepted_peers s w \<longrightarrow>
        owner_step accepted_peers s w (fst out) (snd out)"
      "(if interrupted pr w then Some (s, w)
        else let (client, s, w) = server_accept os False s w in
          case client of None \<Rightarrow> rec pr os s w
          | Some p \<Rightarrow> let (s, w) = hello_client os p s w in rec pr os s w) = Some out"
    show "fresh_fds os \<longrightarrow> owner_ok accepted_peers s w \<longrightarrow> owner_step accepted_peers s w (fst out) (snd out)"
    proof (intro impI)
      assume ok: "fresh_fds os" "owner_ok accepted_peers s w"
      obtain r s1 w1 where a: "server_accept os False s w = (r, s1, w1)" by (rule prod_cases3)
      note acc = plain_server.accept_owns [OF ok a [unfolded server_accept_def]]
      note 1 = plain_server.server_step_ok [OF conjunct1 [OF acc]]
      show "owner_step accepted_peers s w (fst out) (snd out)"
      proof (cases "interrupted pr w")
        case True
        then show ?thesis using step(2) ok(2) by (auto simp: owner_step_def)
      next
        case False
        show ?thesis
        proof (cases r)
          case None
          then have "rec pr os s1 w1 = Some out" using step(2) False by (simp add: a)
          then show ?thesis using step(1) ok(1) 1 plain_server.server_step_trans acc by blast
        next
          case (Some p)
          obtain s2 w2 where h: "hello_client os p s1 w1 = (s2, w2)" by fastforce
          have "p \<in> set (owned (accepted_peers s1))" using acc by (simp add: Some)
          note 2 = hello_client_owns [OF 1 this h]
          have "rec pr os s2 w2 = Some out" using step(2) False by (simp add: a Some h)
          then have "owner_step accepted_peers s2 w2 (fst out) (snd out)"
            using step(1) ok(1) plain_server.server_step_ok [OF 2] by blast
          from plain_server.server_step_trans [OF conjunct1 [OF acc] plain_server.server_step_trans [OF 2 this]]
          show ?thesis .
        qed
      qed
    qed
  qed
  then show ?thesis using assms by blast
qed

lemma server_new_owns:
  assumes "fresh_fds os" "server_new os w = (s, w')"
  shows "owner_ok accepted_peers s w' \<and> owns_step {} (trace w) (owned_fds accepted_peers s) (trace w')"
proof -
  obtain x v where x: "socket_new os AF_INET SOCK_STREAM w = (x, v)" by fastforce
  have s: "s = server_of_sock x" "w' = v"
    using assms(2) unfolding server_new_def socket_default_def x Let_def prod.case by simp_all
  have "fd_safe (- 1) (trace w) (sockfd x) (trace v)" by (rule socket_new_safe [OF assms(1) _ x]) simp
  moreover have "accepted_peers s = accepted_empty sock_init" "sockfd s = sockfd x"
    by (simp_all add: s server_of_sock_def sock.defs)
  ultimately show ?thesis
    by (auto simp: s(2) owner_ok_def owned_fds_def owns_one owns_step_def acc_inv_def acc_fds_def accepted_empty_def
      peers.defs peers_empty_def set_empty_def peers_inv_def)
qed

text \<open>The destructor gives back everything.\<close>

lemma destroy_server_owns:
  fixes s :: "sock server_sock"
  assumes "owner_ok accepted_peers s w"
  shows "owns_step (owned_fds accepted_peers s) (trace w) {} (trace (destroy_server (server_close socket_close) socket_destroy os s w))"
proof -
  obtain b s1 w1 where c: "server_close socket_close os s w = (b, s1, w1)" by (rule prod_cases3)
  note own = plain_server.close_owns [OF assms c [unfolded server_close_def]]
  let ?a = "accepted_peers s1"
  have neg: "sockfd (peer_heap ?a p) < 0" if "p \<in> set (owned ?a)" for p
  proof -
    have "held (sockfd (peer_heap ?a p)) = {}"
      using own that by (auto simp: owned_fds_def acc_fds_def slot_fds_def)
    then show ?thesis by (simp add: held_def split: if_splits)
  qed
  have idle: "socket_destroy os (peer_heap ?a p) = id" if "p \<in> set (owned ?a)" for p
    using neg [OF that] by (simp add: socket_destroy_def is_valid_socket_def fun_eq_iff)
  have peers: "fold (\<lambda>p. socket_destroy os (peer_heap ?a p)) (owned ?a) = id" by (rule fold_id) (rule idle)
  have base: "socket_destroy os s1 w1 = w1" using own by (simp add: socket_destroy_def is_valid_socket_def)
  have "destroy_server (server_close socket_close) socket_destroy os s w = w1"
    unfolding destroy_server_def c prod.case Let_def peers by (simp add: base)
  moreover have "owns_step (owned_fds accepted_peers s) (trace w) (owned_fds accepted_peers s1) (trace w1)"
    using own unfolding owner_step_def by blast
  ultimately show ?thesis by (simp only: conjunct1 [OF conjunct2 [OF own]])
qed

section \<open>The loop of the chat server\<close>

text \<open>It runs through reachable states, so the limits hold all along.\<close>

lemma chat_steps: "chat_reachable lim os st w \<Longrightarrow> chat_step os (st, w) (st', w') \<Longrightarrow> chat_reachable lim os st' w'"
  unfolding chat_reachable_def using rtranclp.rtrancl_into_rtrancl by metis

lemma chat_loop_reachable:
  assumes "chat_loop pr os st w = Some (status, st', w')" "chat_reachable lim os st w"
  shows "chat_reachable lim os st' w'"
proof -
  let ?P = "\<lambda>pr os st w (out :: int \<times> chat_server \<times> world). chat_reachable lim os st w \<longrightarrow>
    chat_reachable lim os (fst (snd out)) (snd (snd out))"
  have "?P pr os st w (status, st', w')"
  proof (rule chat_loop.raw_induct [where P = ?P, OF _ assms(1)], intro impI)
    fix rec pr os st w out
    assume rec: "\<And>pr os st w out. rec pr os st w = Some out \<Longrightarrow> ?P pr os st w out"
      and body: "(if interrupted pr w then let (st, w) = chat_stop os st w in Some (0, st, w)
        else case chat_poll os 100 st w of None \<Rightarrow> None
          | Some (n, st, w) \<Rightarrow> if n < 0 then let (st, w) = chat_stop os st w in Some (1, st, w) else rec pr os st w) = Some out"
      and st: "chat_reachable lim os st w"
    have stop: "chat_reachable lim os (fst (chat_stop os st w)) (snd (chat_stop os st w))"
      if "chat_reachable lim os st w" for st w
      using chat_steps [OF that chat_step.stop] by (metis prod.collapse)
    show "chat_reachable lim os (fst (snd out)) (snd (snd out))"
    proof (cases "interrupted pr w")
      case True
      then show ?thesis using body stop [OF st] by (auto simp: case_prod_beta)
    next
      case False
      then obtain n st1 w1 where p: "chat_poll os 100 st w = Some (n, st1, w1)"
        using body by (auto split: option.splits)
      have 1: "chat_reachable lim os st1 w1" by (rule chat_steps [OF st chat_step.poll [OF p]])
      show ?thesis
        using body False p stop [OF 1] rec [of pr os st1 w1 out] 1 by (auto simp: case_prod_beta split: if_splits)
    qed
  qed
  then show ?thesis using assms(2) by simp
qed

text \<open>When the greeting cannot be read, the test client writes in front of its buffer.\<close>

lemma test_client_overrun:
  "fst (test_client_main ((scripted_os [])\<lparr>os_call := \<lambda>h c. case c of Io (Recv fd n) \<Rightarrow> result0\<lparr>ret := - 1, err := 104\<rparr>
     | _ \<Rightarrow> scripted_call [] h c\<rparr>) world0) = Before_buffer (- 1)"
  by code_simp

section \<open>Properties\<close>

text \<open>
  C29. The Pong program loses the time of short rounds. Through any number of rounds of its loop that each take less than a
  millisecond by the clock, which is what a steady stream of datagrams makes of them, no time
  is saved up: no paddle moves, no score changes, the ball stays where it is or is put back to the
  centre, and no tick ever comes. The game still is a reachable one.
\<close>

theorem pong_loses_short_rounds:
  assumes "pong_reachable os st w" "short_rounds os (prior, st, w) (t, st', w')"
  shows "frozen st st' \<and> accumulator_ms st' = accumulator_ms st \<and> pong_reachable os st' w'"
  using assms(2)
proof (induction "(t, st', w')" arbitrary: t st' w')
  case none
  then show ?case using assms(1) by simp
next
  case (round p st1 w1 n t st2 w2)
  have i: "frozen st st1" "accumulator_ms st1 = accumulator_ms st" "pong_reachable os st1 w1"
    using round(2) by simp_all
  from short_round [OF pong_reachable_inv [OF i(3)] round(3-5)] have "frozen st1 st2" "accumulator_ms st2 = accumulator_ms st1"
    by simp_all
  then show ?case using i frozen_trans [OF i(1)] pong_round_reachable [OF i(3) round(3)] by simp
qed

theorem pong_loses_short_rounds_witness:
  "\<exists>st w. short_rounds (scripted_os []) (0, sample_game, sample_game_world) (0, st, w) \<and> accumulator_ms st = 0"
proof -
  obtain n st w where "pong_round (scripted_os []) 0 sample_game sample_game_world = Some (n, 0, st, w)"
    using sample_round by blast
  then have r: "short_rounds (scripted_os []) (0, sample_game, sample_game_world) (0, st, w)"
    by (rule short_rounds.round [OF short_rounds.none]) simp_all
  from pong_loses_short_rounds [OF sample_game_reachable this] r show ?thesis
    using sample_game_runs(3) by auto
qed

text \<open>
  C28. The hello-world server gives every descriptor back. However the system calls answer, however
  many clients come and whenever it is interrupted: if the program ends, the open descriptors are those
  that were open before it started, and it closed none that was not its own and none twice.
\<close>

theorem hello_main_gives_back:
  assumes "fresh_fds os" "hello_main pr os w = Some (status, w')"
  shows "open_fds (trace w') = open_fds (trace w) \<and> (closes_ok (trace w) \<longrightarrow> closes_ok (trace w')) \<and>
    (status = 0 \<or> status = 1)"
proof (cases "signal_ok pr")
  case False
  then show ?thesis using assms(2) by (simp add: hello_main_def)
next
  case sig: True
  let ?done = "\<lambda>s w. destroy_server (server_close socket_close) socket_destroy os s w"
  obtain s0 w0 where n: "server_new os w = (s0, w0)" by fastforce
  obtain ok s1 w1 where l: "server_listen_on socket_close os (Some ''0.0.0.0'') 2300 s0 w0 = (ok, s1, w1)"
    by (rule prod_cases3)
  obtain r s2 where t: "set_accept_timeout 200 s1 = (r, s2)" by fastforce
  have new: "owner_ok accepted_peers s0 w0" "owns_step {} (trace w) (owned_fds accepted_peers s0) (trace w0)"
    using server_new_owns [OF assms(1) n] by simp_all
  have 1: "owner_step accepted_peers s0 w0 s1 w1" by (rule server_listen_owns [OF assms(1) new(1) l])
  have 2: "r = 0" "owner_step accepted_peers s1 w1 s2 w1"
    using t plain_server.own_slot_owns [OF plain_server.server_step_ok [OF 1], of s2 w1]
    by (auto simp: set_accept_timeout_def set_error_def safe_step_def)
  note 12 = plain_server.server_step_trans [OF 1 2(2)]
  have leave: ?thesis if "owner_step accepted_peers s0 w0 s w2" "w' = ?done s w2" "status = 0 \<or> status = 1" for s w2
  proof -
    have "owns_step (owned_fds accepted_peers s0) (trace w0) {} (trace w')"
      using that destroy_server_owns [of s w2 os] owns_trans by (auto simp: owner_step_def)
    from owns_trans [OF new(2) this] show ?thesis using that(3) by (simp add: owns_step_def)
  qed
  note d = assms(2) [unfolded hello_main_def if_not_P [OF sig [THEN not_not [THEN iffD2]]] Let_def n prod.case l]
  show ?thesis
  proof (cases ok)
    case False
    then show ?thesis using d leave [OF 1] by simp
  next
    case True
    then obtain s3 w3 where h: "hello_loop pr os s2 w1 = Some (s3, w3)" "status = 0" "w' = ?done s3 w3"
      using d by (auto simp: t 2(1))
    have "owner_step accepted_peers s2 w1 s3 w3"
      using hello_loop_owns [OF assms(1) h(1) plain_server.server_step_ok [OF 2(2)]] by simp
    from leave [OF plain_server.server_step_trans [OF 12 this] h(3)] h(2) show ?thesis by simp
  qed
qed

definition sample_process :: process where
  "sample_process = \<lparr>signal_ok = True, interrupted = (\<lambda>w. 20 < length (trace w))\<rparr>"

declare hello_loop.simps [code] close_peers_loop.simps [code]

lemma sample_hello: "map_option fst (hello_main sample_process (scripted_os []) world0) = Some 0"
  by code_simp

theorem hello_main_gives_back_witness:
  "\<exists>w. hello_main sample_process (scripted_os []) world0 = Some (0, w) \<and> open_fds (trace w) = {}"
proof -
  obtain w where w: "hello_main sample_process (scripted_os []) world0 = Some (0, w)" using sample_hello by auto
  from hello_main_gives_back [OF scripted_fresh w] w show ?thesis by (simp add: world0_def)
qed

end
