(* ===== verification/Spec2Isabelle.thy ===== *)
theory Spec2Isabelle
  imports Event_Poll Tls_Server Clients Http_Stream Http_Exchange Program_Runs
begin

text \<open>
  A model of libaeon, a C++ library of TCP, UDP and TLS sockets with an event dispatcher, and of
  the larger programs of its \<open>example\<close> directory. This theory only imports the others and
  describes them. The paths below are those of the repository: \<open>src/\<close> holds the
  implementation of the library, \<open>include/\<close> its classes, \<open>example/\<close> the programs.

  \<^bold>\<open>The program.\<close> A \<open>socket\<close> owns one descriptor and offers blocking reads and writes, connect,
  listen and accept. \<open>ssl_socket\<close> puts an OpenSSL session over it. An \<open>event_socket\<close> adds handlers and a
  queue of outgoing bytes, whose transport is a set of virtual hooks that \<open>ssl_event_socket\<close> overrides.
  Servers own the peers they accept in a \<open>peer_collection\<close>. A UDP server has one native descriptor and
  logical peers that send on it. An \<open>event_socket_set\<close> registers event sockets without owning them;
  its \<open>poll\<close> waits for readiness and calls handlers, which may change everything while it
  runs. The HTTP, chat and Pong servers are applications of these servers and of the event set.

  \<^bold>\<open>How it is modelled.\<close> An object is a \<^theory_text>\<open>record\<close> with a field per member; a derived class extends the
  record of its base. An operation is a function from the object and the \<open>world\<close> to its result
  and the new ones. The world holds \<open>errno\<close> and the history of all external calls; an
  environment of type \<open>os\<close> answers each call (system calls, the clock, name resolution, OpenSSL) from
  that history, and every theorem holds for all environments that it does not restrict by a named
  hypothesis (\<open>fresh_fds\<close>, \<open>recv_bounded\<close>, \<open>send_bounded\<close> and the like in \<open>Posix\<close>, each a
  documented property of the call). Theory \<open>Scripted_Os\<close> is a concrete environment that meets them; the
  witnesses evaluate the model on it. Virtual calls are function arguments, user handlers are
  parameters that act on the whole state. C \<open>int\<close> values are integers with the conversions
  written out (\<open>to_int32\<close>); fixed-width values whose wrap-around matters are words. An unbounded loop is a
  \<^theory_text>\<open>partial_function\<close>, so that not returning is the value \<open>None\<close>.

  \<^bold>\<open>The theories.\<close>

  \<^item> \<open>Prelude\<close>, \<open>Posix\<close>, \<open>Scripted_Os\<close>: bytes and lists, the calls and their history, which
    descriptors are open after it (\<open>open_fds\<close>, \<open>fd_safe\<close>), the sample environment.
  \<^item> \<open>Native_Error\<close>: \<open>include/aeon.hpp\<close>, \<open>src/aeon.cpp\<close>, \<open>src/native_error.hpp\<close>.
  \<^item> \<open>Address\<close>: \<open>src/address.cpp\<close>, \<open>src/resolver.cpp\<close>, the endpoint comparison of
    \<open>src/udp_server_socket.cpp\<close>.
  \<^item> \<open>Base_Socket\<close>, \<open>Stream_Read\<close>, \<open>Socket_Options\<close>, \<open>Tcp\<close>: \<open>src/socket.cpp\<close>.
  \<^item> \<open>Peer_Collection\<close>: \<open>src/socket_set.cpp\<close>, \<open>socket_set\<close> and \<open>peer_collection\<close>.
  \<^item> \<open>Write_Queue\<close>, \<open>Event_Socket\<close>: \<open>src/event_socket.cpp\<close>, \<open>src/client_event_socket.cpp\<close>.
  \<^item> \<open>Tls_Event\<close>, \<open>Tls_Retry\<close>, \<open>Tls_Session\<close>: \<open>src/ssl_event_socket.cpp\<close>.
  \<^item> \<open>Tls_Socket\<close>, \<open>Tls_Client\<close>: \<open>src/ssl_socket.cpp\<close>, \<open>src/ssl_client_socket.cpp\<close>.
  \<^item> \<open>Server\<close>, \<open>Server_Ownership\<close>: \<open>src/server_socket.cpp\<close>, \<open>src/server_event_socket.cpp\<close>.
  \<^item> \<open>Tls_Server\<close>: \<open>src/ssl_server_socket.cpp\<close>, \<open>src/ssl_server_event_socket.cpp\<close>.
  \<^item> \<open>Udp\<close>, \<open>Udp_Server\<close>, \<open>Udp_Event\<close>: \<open>src/udp_socket.cpp\<close>, \<open>src/udp_server_socket.cpp\<close> and the three
    \<open>src/udp_*event_socket.cpp\<close>.
  \<^item> \<open>Event_Registry\<close>, \<open>Event_Set\<close>, \<open>Event_Poll\<close>: \<open>src/event_socket_set.cpp\<close>.
  \<^item> \<open>Clients\<close>: \<open>src/client_socket.cpp\<close>, \<open>src/udp_client_socket.cpp\<close>.
  \<^item> \<open>Http_Message\<close>, \<open>Http_Server\<close>, \<open>Http_Service\<close>, \<open>Http_Stream\<close>: \<open>example/http_server.cpp\<close>.
  \<^item> \<open>Http_Client\<close>: \<open>example/http-client.cpp\<close>; \<open>Http_Exchange\<close>: that client against that server.
  \<^item> \<open>Chat_Server\<close>, \<open>Chat_Service\<close>: \<open>example/chat_server.cpp\<close>.
  \<^item> \<open>Pong_Server\<close>, \<open>Pong_Game\<close>: \<open>example/pong_server.cpp\<close>; \<open>Pong_Client\<close>: \<open>example/pong-client.cpp\<close>.

  \<^item> \<open>Programs\<close>, \<open>Program_Runs\<close>: the \<open>main\<close> functions of the chat, HTTP and Pong servers, and the
    programs \<open>hello-world.cpp\<close>, \<open>test-client.cpp\<close>, \<open>udp-server.cpp\<close> and \<open>udp-client.cpp\<close>.

  A definition keeps the name of its function; where two classes share a name it carries a prefix
  of its class (\<open>tcp_\<close>, \<open>tls_\<close>, \<open>ssl_\<close>, \<open>udp_\<close>, \<open>chat_\<close>, \<open>pong_\<close>). A loop or a branch that is
  a definition of its own is named after what it does.

  \<^bold>\<open>The interfaces.\<close> Each is a locale, interpreted on every class that provides it.

  \<^item> \<open>virtual_read\<close> (\<open>Stream_Read\<close>): what the reading operations need of the virtual \<open>read\<close>; provided
    by the base socket and by UDP.
  \<^item> \<open>virtual_close\<close> (\<open>Tcp\<close>): what connect and listen need of the virtual \<open>close\<close>; provided by the base
    socket, the event socket and the TLS event socket.
  \<^item> \<open>queued_transport\<close> (\<open>Event_Socket\<close>): what the write queue needs of the hook that sends; provided
    by TCP and, in \<open>Tls_Retry\<close>, by TLS.
  \<^item> \<open>peer_class\<close> and \<open>tcp_server\<close> (\<open>Server_Ownership\<close>): what a listener needs of the close,
    destructor and factory of its peers; provided by the plain, event, TLS and TLS event servers.
  \<^item> \<open>set_users\<close> (\<open>Event_Poll\<close>): an invariant that handlers keep is kept by the whole dispatcher; provided by
    a logging application and by the handlers of the HTTP, chat and Pong servers (the last twice, the second time for short rounds).
\<close>

text \<open>
  \<^bold>\<open>What is shown.\<close>

  \<^item> Descriptors. Every operation that opens or closes one is transactional: connect, listen and accept own
    at most one fresh descriptor, close the others and never close one twice (\<open>Tcp\<close>, \<open>Udp\<close>, \<open>Tls_Client\<close>,
    \<open>Tls_Session\<close>); a server owns exactly its own descriptor and those of its peers (\<open>Server_Ownership\<close>,
    \<open>Tls_Server\<close>).
  \<^item> Streams. \<open>read_until\<close> delivers one contiguous piece; the write queue is a first-in first-out
    buffer with an exact count below its limit, over TCP and over TLS; OpenSSL's rule that
    an unfinished write is repeated with the same bytes holds in every interleaving.
  \<^item> TLS. No application byte before an authenticated handshake in any interleaving of the poller with the
    application's own calls, direct writes and reads included (\<open>tls_app_step\<close>), the identity set before it and the result
    checked after it, shutdown only after the queue has drained, close exactly once, and deadlines
    that the poll timeout covers.
  \<^item> Dispatch. The registry is a list of distinct sockets whose tokens tell the truth after
    removal; handlers run only for live registrations; a poll with a finite timeout returns.
  \<^item> Peers. Closing all peers reaches every peer if each handler retires at most one at or before its slot; if one
    retires more, exactly as many peers behind the slot as it retired beyond the first are missed;
    a datagram is sent to every endpoint that the descriptor can reach; a datagram handler finds exactly one valid peer of the sender.
  \<^item> HTTP. What the parser accepts is well formed and its header lines announce no body; the answers depend on the byte stream and not on
    how it is cut; the limits hold over any run; client and server understand each other.
  \<^item> Chat. The limits hold over any run; a line reaches every live client whole, or retires it.
  \<^item> Pong. The game stays legal over any run, one call advances it by at most four ticks of the
    pure rules, a source without a seat cannot touch it, and the client reads back every frame.

  \<^item> Programs. The hello-world server gives back every descriptor; the Pong program loses the
    time of rounds shorter than a millisecond.

  Some theorems show what the code should not do: a UDP server that times out registers the previous sender again, refused HTTP
  connections stay owned, the handshake timeout of the TLS server has no effect, an HTTPS fetch never
  succeeds, and a redirect is followed only if its location is not the last header.

  \<^bold>\<open>Bounds.\<close> Bounds of the code are kept: 32 connections per readiness event and the pipelined requests per event
  of the servers, the limit on sent bytes of one TLS flush (\<open>send_budget\<close>), five redirects, eight keys, four ticks.
  Two are added. The loop that empties OpenSSL's error queue runs 17 rounds, one more than the
  16 errors the queue can hold. The loops of a poll without a deadline, of a
  close of all peers whose handlers add peers, and of reading a response from a peer that never ends
  it, may run for ever; they are partial functions, and \<open>event_set_poll_returns\<close>,
  \<open>close_owned_peers_reaches_every_peer\<close> say when they return.

  \<^bold>\<open>Not modelled.\<close> The branches for Windows. The empty \<open>_impl\<close> hooks of the handlers, which a
  subclass may override. Exceptions: allocation failure, throwing handlers and factories. Threads: a
  mutex makes an operation one step, and races are outside the model. Handlers that destroy a registered socket,
  which the documentation forbids. Copies of a \<open>socket_set\<close>. \<open>local_port\<close> of the three
  servers, which reads a bound port. Overflow of the scores of a game. The output of the HTTP client besides
  the printed body, and the terminal, signals and arguments of the Pong client. The example
  \<open>simple-server.cpp\<close>. The gate of the handshake (\<open>tls_app_step\<close>) follows one session: connecting a closed
  object again begins another, and lowering the verification mode while a handshake is under way is left to the application. The messages the programs print on the way. The tests,
  benchmarks, build files and documentation.
\<close>

end
